(* ===== verification/Prelude.thy ===== *)
theory Prelude
  imports Main "HOL-Library.Word"
begin

text \<open>
  Shared vocabulary of the development: the machine integer types, the result type of
  operations that can fault, C-style arithmetic on 32-bit words, the word-addressed memory
  with the two string instructions that the kernel's \<^verbatim>\<open>memset\<close> and \<^verbatim>\<open>memcpy\<close> are made of
  (\<^verbatim>\<open>src/kernel/include/common.h\<close>), and singly linked chains of array slots.  Every component
  theory imports this one.
\<close>

unbundle bit_operations_syntax

section \<open>Machine integers\<close>

type_synonym u8 = "8 word"
type_synonym u16 = "16 word"
type_synonym u32 = "32 word"
type_synonym u64 = "64 word"

named_theorems ctl_simps \<open>rules that execute the result type\<close>
named_theorems mem_simps \<open>reads over writes of the word memory\<close>

text \<open>The signed reading of a 32-bit word, and the bound of the unsigned one.\<close>

lemma unat_u32_less: "unat (x :: u32) < 2 ^ 32"
  using unsigned_less [of x] by simp

lemma unat_small: "n < 2 ^ 32 \<Longrightarrow> unat (of_nat n :: u32) = n"
  by (simp add: unat_of_nat take_bit_nat_eq_self)

lemma sint_u32: "sint (x :: u32) = (if unat x < 2 ^ 31 then int (unat x) else int (unat x) - 2 ^ 32)"
proof -
  define n where "n = unat x"
  have n: "uint x = int n" "n < 2 ^ 32" using unat_u32_less [of x] by (simp_all add: n_def)
  have "sint x = (int n + 2 ^ 31) mod 2 ^ 32 - 2 ^ 31"
    by (simp add: sint_uint signed_take_bit_eq_take_bit_shift take_bit_eq_mod n(1))
  also have "\<dots> = (if n < 2 ^ 31 then int n else int n - 2 ^ 32)"
  proof (cases "n < 2 ^ 31")
    case False
    with n(2) have "(int n + 2 ^ 31) mod 2 ^ 32 = int n + 2 ^ 31 - 2 ^ 32"
      by (simp add: mod_pos_geq)
    with False show ?thesis by simp
  qed simp
  finally show ?thesis by (simp add: n_def)
qed

lemma unat_neg_sint:
  assumes "sint (x :: u32) < 0"
  shows "int (unat (- x)) = - sint x"
proof -
  define n where "n = unat x"
  have n: "uint x = int n" "n < 2 ^ 32" using unat_u32_less [of x] by (simp_all add: n_def)
  have big: "2 ^ 31 \<le> n" "sint x = int n - 2 ^ 32"
    using assms by (auto simp: sint_u32 n_def split: if_splits)
  have "int (unat (- x)) = (- int n) mod 2 ^ 32" by (simp add: uint_word_ariths(4) n(1))
  also have "\<dots> = (2 ^ 32 - int n) mod 2 ^ 32" using mod_add_self1 [of "2 ^ 32" "- int n"] by simp
  also have "\<dots> = 2 ^ 32 - int n" using big(1) n(2) by (intro mod_pos_pos_trivial) auto
  finally show ?thesis using big(2) by simp
qed

lemma unat_nonneg_sint: "0 \<le> sint (x :: u32) \<Longrightarrow> int (unat x) = sint x"
proof -
  define n where "n = unat x"
  assume "0 \<le> sint x"
  moreover have "n < 2 ^ 32" using unat_u32_less [of x] by (simp add: n_def)
  ultimately show ?thesis unfolding sint_u32 n_def [symmetric] by (simp split: if_splits)
qed

text \<open>A number and a word as their four bytes.\<close>

lemma nat_bytes:
  "n mod 256 + 256 * (n div 256 mod 256) + 65536 * (n div 65536 mod 256) + 16777216 * (n div 16777216)
     = (n :: nat)"
proof -
  have e: "n div 65536 = n div 256 div 256" "n div 16777216 = n div 65536 div 256"
    by (simp_all flip: div_mult2_eq)
  show ?thesis
    using mult_div_mod_eq [of 256 n] mult_div_mod_eq [of 256 "n div 256"]
      mult_div_mod_eq [of 256 "n div 65536"] unfolding e by linarith
qed

lemma bytes_nat:
  assumes "(a :: nat) < 256" "b < 256" "c < 256" "d < 256"
    and n: "n = a + 256 * b + 65536 * c + 16777216 * d"
  shows "n mod 256 = a" "n div 256 mod 256 = b" "n div 65536 mod 256 = c" "n div 16777216 mod 256 = d"
proof -
  have n': "n = a + 256 * (b + 256 * (c + 256 * d))" using n by simp
  have q1: "n div 256 = b + 256 * (c + 256 * d)" unfolding n' using assms(1) by simp
  have "n div 65536 = n div 256 div 256" by (simp flip: div_mult2_eq)
  then have q2: "n div 65536 = c + 256 * d" unfolding q1 using assms(2) by simp
  have "n div 16777216 = n div 65536 div 256" by (simp flip: div_mult2_eq)
  then have q3: "n div 16777216 = d" unfolding q2 using assms(3) by simp
  show "n mod 256 = a" unfolding n' using assms(1) by (simp only: mod_mult_self2 mod_less)
  show "n div 256 mod 256 = b" unfolding q1 using assms(2) by (simp only: mod_mult_self2 mod_less)
  show "n div 65536 mod 256 = c" unfolding q2 using assms(3) by simp
  show "n div 16777216 mod 256 = d" unfolding q3 using assms(4) by simp
qed

lemma unat_byte: "unat (ucast (drop_bit k (w :: u32)) :: u8) = unat w div 2 ^ k mod 2 ^ 8"
  by (simp only: unsigned_ucast_eq unsigned_drop_bit_eq take_bit_eq_mod)
    (use unat_u32_less [of w] in \<open>simp add: drop_bit_eq_div\<close>)

section \<open>Faults and results\<close>

text \<open>
  The kernel has no exceptions.  What it has is undefined behaviour: dereferencing
  \<^verbatim>\<open>NULL\<close>, indexing a static array out of its bounds, touching an unmapped page, dividing by zero, and loops
  that never end.  Each is a value of \<open>fault\<close>, so that \<open>Inr\<close> results are exactly the runs that
  stay inside defined behaviour.
\<close>

datatype fault = NullDeref | OutOfBounds | PageFault | Diverge | DivByZero

type_synonym 'a res = "fault + 'a"

definition bind_res :: "'a res \<Rightarrow> ('a \<Rightarrow> 'b res) \<Rightarrow> 'b res" where
  "bind_res r f = (case r of Inl e \<Rightarrow> Inl e | Inr x \<Rightarrow> f x)"

lemma bind_res_simps [simp, ctl_simps]:
  "bind_res (Inl e) f = Inl e"
  "bind_res (Inr x) f = f x"
  by (simp_all add: bind_res_def)

lemma bind_res_eq_Inr:
  "bind_res r f = Inr y \<longleftrightarrow> (\<exists>x. r = Inr x \<and> f x = Inr y)"
  by (cases r) simp_all

lemma bind_res_cong [fundef_cong]:
  "r = r' \<Longrightarrow> (\<And>x. r' = Inr x \<Longrightarrow> f x = f' x) \<Longrightarrow> bind_res r f = bind_res r' f'"
  by (cases r') simp_all

text \<open>A pointer is an optional array slot; \<open>deref\<close> is the implicit check of \<^verbatim>\<open>p->field\<close>.\<close>

definition deref :: "nat option \<Rightarrow> nat res" where
  "deref p = (case p of None \<Rightarrow> Inl NullDeref | Some i \<Rightarrow> Inr i)"

lemma deref_simps [simp, ctl_simps]:
  "deref None = Inl NullDeref"
  "deref (Some i) = Inr i"
  by (simp_all add: deref_def)

text \<open>A loop that may run forever is a partial function; not returning is a fault.\<close>

definition loop_res :: "'a option \<Rightarrow> 'a res" where
  "loop_res r = (case r of None \<Rightarrow> Inl Diverge | Some x \<Rightarrow> Inr x)"

lemma loop_res_simps [simp, ctl_simps]:
  "loop_res None = Inl Diverge"
  "loop_res (Some x) = Inr x"
  by (simp_all add: loop_res_def)

text \<open>
  Control flow of the kernel has a third outcome.  \<^verbatim>\<open>scheduler_switch\<close> loads the stack pointer of
  another process and jumps away: the C code after the call is never executed.
\<close>

datatype 's ctl = Returns 's | Switched 's

primrec ctl_state :: "'s ctl \<Rightarrow> 's" where
  "ctl_state (Returns s) = s"
| "ctl_state (Switched s) = s"

definition then_ctl :: "'s ctl res \<Rightarrow> ('s \<Rightarrow> 's ctl res) \<Rightarrow> 's ctl res" where
  "then_ctl r f = bind_res r (\<lambda>c. case c of Returns s \<Rightarrow> f s | Switched s \<Rightarrow> Inr (Switched s))"

lemma then_ctl_simps [simp, ctl_simps]:
  "then_ctl (Inl e) f = Inl e"
  "then_ctl (Inr (Returns s)) f = f s"
  "then_ctl (Inr (Switched s)) f = Inr (Switched s)"
  by (simp_all add: then_ctl_def)

section \<open>The word-addressed memory\<close>

text \<open>
  Kernel memory is a map from (4-aligned) kernel virtual addresses to 32-bit words.
  \<^verbatim>\<open>rep stosl\<close> and \<^verbatim>\<open>rep movsl\<close> move one word per step and count down \<^verbatim>\<open>%ecx\<close>.
\<close>

type_synonym wmem = "u32 \<Rightarrow> u32"

fun rep_stosl :: "nat \<Rightarrow> u32 \<Rightarrow> u32 \<Rightarrow> wmem \<Rightarrow> wmem" where
  "rep_stosl 0 d v m = m"
| "rep_stosl (Suc n) d v m = rep_stosl n (d + 4) v (m(d := v))"

fun rep_movsl :: "nat \<Rightarrow> u32 \<Rightarrow> u32 \<Rightarrow> wmem \<Rightarrow> wmem" where
  "rep_movsl 0 d s m = m"
| "rep_movsl (Suc n) d s m = rep_movsl n (d + 4) (s + 4) (m(d := m s))"

text \<open>
  All of the kernel's data sits above \<open>KERNBASE\<close> (\<^verbatim>\<open>src/inc/memlayout.h\<close>), a window of \<open>2 ^ 28\<close>
  words.  \<open>waddr i\<close> is the address of word \<open>i\<close> of that window.
\<close>

definition KERNBASE :: u32 where
  "KERNBASE = 0xC0000000"

definition waddr :: "nat \<Rightarrow> u32" where
  "waddr i = KERNBASE + 4 * of_nat i"

lemma waddr_Suc: "waddr (Suc i) = waddr i + 4"
  by (simp add: waddr_def algebra_simps)

lemma waddr_add: "waddr (i + j) = waddr i + 4 * of_nat j"
  by (simp add: waddr_def algebra_simps)

lemma unat_4_times:
  assumes "i < 2 ^ 28"
  shows "unat (4 * of_nat i :: u32) = 4 * i"
proof -
  have "(4 * of_nat i :: u32) = of_nat (4 * i)" by simp
  also have "unat \<dots> = 4 * i" using assms by (simp only: unat_of_nat take_bit_eq_mod) simp
  finally show ?thesis .
qed

lemma waddr_eq_iff [simp]:
  assumes "i < 2 ^ 28" "j < 2 ^ 28"
  shows "waddr i = waddr j \<longleftrightarrow> i = j"
proof
  assume "waddr i = waddr j"
  then have "(4 * of_nat i :: u32) = 4 * of_nat j" by (simp add: waddr_def)
  then have "unat (4 * of_nat i :: u32) = unat (4 * of_nat j :: u32)" by simp
  with assms show "i = j" by (simp only: unat_4_times)
qed simp

text \<open>What the two instructions do, in closed form, on the kernel window.\<close>

lemma rep_stosl_at [mem_simps]:
  assumes "i + n \<le> 2 ^ 28" "k < 2 ^ 28"
  shows "rep_stosl n (waddr i) v m (waddr k) = (if i \<le> k \<and> k < i + n then v else m (waddr k))"
  using assms
proof (induction n arbitrary: i m)
  case 0
  then show ?case by auto
next
  case (Suc n)
  have "rep_stosl (Suc n) (waddr i) v m (waddr k)
      = rep_stosl n (waddr (Suc i)) v (m(waddr i := v)) (waddr k)"
    by (simp add: waddr_Suc)
  also have "\<dots> = (if Suc i \<le> k \<and> k < Suc i + n then v else (m(waddr i := v)) (waddr k))"
    using Suc.prems by (intro Suc.IH) auto
  also have "\<dots> = (if i \<le> k \<and> k < i + Suc n then v else m (waddr k))"
    using Suc.prems by auto
  finally show ?case .
qed

lemma rep_movsl_at [mem_simps]:
  assumes "i + n \<le> 2 ^ 28" "j + n \<le> 2 ^ 28" "k < 2 ^ 28"
    and "i + n \<le> j \<or> j + n \<le> i"
  shows "rep_movsl n (waddr i) (waddr j) m (waddr k)
     = (if i \<le> k \<and> k < i + n then m (waddr (j + (k - i))) else m (waddr k))"
  using assms
proof (induction n arbitrary: i j m)
  case 0
  then show ?case by auto
next
  case (Suc n)
  let ?m = "m(waddr i := m (waddr j))"
  have "rep_movsl (Suc n) (waddr i) (waddr j) m (waddr k)
      = rep_movsl n (waddr (Suc i)) (waddr (Suc j)) ?m (waddr k)"
    by (simp add: waddr_Suc)
  also have "\<dots> = (if Suc i \<le> k \<and> k < Suc i + n then ?m (waddr (Suc j + (k - Suc i)))
                  else ?m (waddr k))"
    using Suc.prems by (intro Suc.IH) auto
  also have "\<dots> = (if i \<le> k \<and> k < i + Suc n then m (waddr (j + (k - i))) else m (waddr k))"
    using Suc.prems by (cases "k = i") (auto simp: Suc_diff_Suc)
  finally show ?case .
qed

section \<open>Chains of array slots\<close>

text \<open>
  Both linked lists of the kernel (PCBs through \<^verbatim>\<open>next\<close>, free pages through \<^verbatim>\<open>pp_link\<close>) thread
  slots of a static array.  \<open>chain f x ps\<close> says that following \<open>f\<close> from \<open>x\<close> visits \<open>ps\<close> and
  then reaches \<^verbatim>\<open>NULL\<close>.
\<close>

primrec chain :: "(nat \<Rightarrow> nat option) \<Rightarrow> nat option \<Rightarrow> nat list \<Rightarrow> bool" where
  "chain f x [] = (x = None)"
| "chain f x (p # ps) = (x = Some p \<and> chain f (f p) ps)"

lemma chain_None [simp]: "chain f None ps = (ps = [])"
  by (cases ps) simp_all

lemma chain_Some: "chain f (Some p) ps \<longleftrightarrow> (\<exists>qs. ps = p # qs \<and> chain f (f p) qs)"
  by (cases ps) auto

lemma chain_upd [simp]: "p \<notin> set ps \<Longrightarrow> chain (f(p := q)) x ps = chain f x ps"
  by (induction ps arbitrary: x) auto

lemma chain_cong: "(\<And>p. p \<in> set ps \<Longrightarrow> f p = g p) \<Longrightarrow> chain f x ps = chain g x ps"
  by (induction ps arbitrary: x) auto

lemma chain_det: "chain f x ps \<Longrightarrow> chain f x qs \<Longrightarrow> ps = qs"
proof (induction ps arbitrary: x qs)
  case (Cons p ps)
  then show ?case by (cases qs) auto
qed simp

lemma chain_suffix: "chain f x (ps @ q # qs) \<Longrightarrow> chain f (Some q) (q # qs)"
  by (induction ps arbitrary: x) auto

lemma chain_distinct: "chain f x ps \<Longrightarrow> distinct ps"
proof (induction ps arbitrary: x)
  case (Cons p ps)
  have "p \<notin> set ps"
  proof
    assume "p \<in> set ps"
    then obtain as bs where ps: "ps = as @ p # bs" by (meson split_list)
    have "chain f (f p) (as @ p # bs)" using Cons.prems ps by simp
    then have "chain f (Some p) (p # bs)" by (rule chain_suffix)
    moreover have "chain f (Some p) (p # ps)" using Cons.prems by simp
    ultimately have "p # bs = p # ps" by (rule chain_det)
    with ps show False by simp
  qed
  moreover have "distinct ps" using Cons.prems by (auto intro: Cons.IH)
  ultimately show ?case by simp
qed simp

lemma chain_snoc_upd:
  "chain f x (ps @ [l]) \<Longrightarrow> q \<notin> set (ps @ [l]) \<Longrightarrow>
     chain (f(q := None, l := Some q)) x (ps @ [l, q])"
proof (induction ps arbitrary: x)
  case (Cons p ps)
  then have "p \<noteq> l" using chain_distinct [OF Cons.prems(1)] by auto
  with Cons show ?case by auto
qed simp

lemma chain_unlink:
  "chain f x (as @ a # p # bs) \<Longrightarrow>
     chain (f(a := f p, p := None)) x (as @ a # bs)"
proof (induction as arbitrary: x)
  case Nil
  then have "distinct (a # p # bs)" using chain_distinct [OF Nil] by simp
  moreover have "x = Some a" "chain f (f p) bs" using Nil by auto
  ultimately show ?case by (simp del: fun_upd_apply add: fun_upd_other fun_upd_same)
next
  case (Cons c as)
  then have "c \<noteq> a" "c \<noteq> p" using chain_distinct [OF Cons.prems] by auto
  with Cons show ?case by simp
qed

lemma chain_unlink_hd:
  "chain f (Some p) (p # bs) \<Longrightarrow> chain (f(p := None)) (f p) bs"
  using chain_distinct [of f "Some p" "p # bs"] by simp

section \<open>Lists\<close>

lemma le_split: "m \<le> n \<longleftrightarrow> n = m \<or> Suc m \<le> n"
  by auto

lemma upt_glue: "i \<le> j \<Longrightarrow> j \<le> k \<Longrightarrow> [i..<j] @ [j..<k] = [i..<k]"
  using upt_add_eq_append [of i j "k - j"] by simp

lemma distinct_split_unique:
  assumes "distinct (as @ p # bs)" "as @ p # bs = cs @ p # ds"
  shows "as = cs \<and> bs = ds"
  using assms by (metis append_Cons_eq_iff distinct_append not_distinct_conv_prefix
      distinct.simps(2) disjoint_iff list.set_intros(1))

end
