(* ===== verification/Paging.thy ===== *)
theory Paging
  imports Prelude
begin

text \<open>
  Physical pages and two-level page tables: \<^verbatim>\<open>src/kernel/src/paging/pmap.c\<close>,
  \<^verbatim>\<open>src/kernel/include/pmap.h\<close>, \<^verbatim>\<open>src/kernel/src/paging/entrypgdir.c\<close> and the macros of
  \<^verbatim>\<open>src/inc/mmu.h\<close>, \<^verbatim>\<open>src/inc/memlayout.h\<close> and \<^verbatim>\<open>src/inc/types.h\<close> they use.
  A \<^verbatim>\<open>struct PageInfo *\<close> is a slot number of the \<^verbatim>\<open>pages\<close> array (\<open>None\<close> is \<^verbatim>\<open>NULL\<close>); a
  \<^verbatim>\<open>pte_t *\<close> or \<^verbatim>\<open>pde_t *\<close> is a kernel virtual address into the word memory \<open>mem\<close>.
\<close>

section \<open>Address arithmetic\<close>

definition PTE_P :: u32 where "PTE_P = 0x001"
definition PTE_W :: u32 where "PTE_W = 0x002"
definition PTE_U :: u32 where "PTE_U = 0x004"
definition PGSIZE :: nat where "PGSIZE = 4096"
definition NPTENTRIES :: nat where "NPTENTRIES = 1024"
definition NPDENTRIES :: nat where "NPDENTRIES = 1024"
definition npages :: nat where "npages = 2 ^ 15"
definition PHY_MEM :: nat where "PHY_MEM = 128 * 1024 * 1024"
definition ALLOC_ZERO :: u32 where "ALLOC_ZERO = 1"

lemmas pg_consts = PTE_P_def PTE_W_def PTE_U_def PGSIZE_def NPTENTRIES_def NPDENTRIES_def
  npages_def PHY_MEM_def ALLOC_ZERO_def

definition PGNUM :: "u32 \<Rightarrow> nat" where
  "PGNUM la = unat (drop_bit 12 la)"

definition PDX :: "u32 \<Rightarrow> nat" where
  "PDX la = unat (drop_bit 22 la AND 0x3FF)"

definition PTX :: "u32 \<Rightarrow> nat" where
  "PTX la = unat (drop_bit 12 la AND 0x3FF)"

definition PGOFF :: "u32 \<Rightarrow> u32" where
  "PGOFF la = la AND 0xFFF"

definition PGADDR :: "u32 \<Rightarrow> u32 \<Rightarrow> u32 \<Rightarrow> u32" where
  "PGADDR d t e = push_bit 22 d OR push_bit 12 t OR e"

definition PTE_ADDR :: "u32 \<Rightarrow> u32" where
  "PTE_ADDR pte = pte AND NOT 0xFFF"

definition PTE_ATTR :: "u32 \<Rightarrow> u32" where
  "PTE_ATTR pte = pte AND 0xFFF"

definition ROUNDDOWN :: "u32 \<Rightarrow> u32 \<Rightarrow> u32" where
  "ROUNDDOWN a n = a - a mod n"

definition ROUNDUP :: "u32 \<Rightarrow> u32 \<Rightarrow> u32" where
  "ROUNDUP a n = ROUNDDOWN (a + n - 1) n"

text \<open>
  \<open>PADDR\<close>, \<open>KADDR\<close> and \<open>pa2page\<close> print a diagnostic on a bad argument and then go on with the
  same value; only the value is modelled.
\<close>

definition PADDR :: "u32 \<Rightarrow> u32" where
  "PADDR kva = kva - KERNBASE"

definition KADDR :: "u32 \<Rightarrow> u32" where
  "KADDR pa = pa + KERNBASE"

definition page2pa :: "nat \<Rightarrow> u32" where
  "page2pa pp = push_bit 12 (of_nat pp)"

definition pa2page :: "u32 \<Rightarrow> nat" where
  "pa2page pa = PGNUM pa"

definition page2kva :: "nat \<Rightarrow> u32" where
  "page2kva pp = KADDR (page2pa pp)"

section \<open>State\<close>

record PageInfo =
  pp_link :: "nat option"
  pp_ref :: u16

text \<open>
  \<open>serial\<close> is what was sent to the serial port, \<open>flushed\<close> the addresses given to \<^verbatim>\<open>invlpg\<close>.
  \<open>kpgdir\<close> and \<open>kpgtable\<close> are the link addresses of the two static tables.
\<close>

record pagingst =
  serial :: string
  mem :: wmem
  pages :: "nat \<Rightarrow> PageInfo"
  page_free_list :: "nat option"
  kpgdir :: u32
  kpgtable :: u32
  kern_pgdir :: u32
  cr3 :: u32
  flushed :: "u32 list"

definition printk_str :: "string \<Rightarrow> 'a pagingst_scheme \<Rightarrow> 'a pagingst_scheme" where
  "printk_str str s = s\<lparr>serial := serial s @ str\<rparr>"

definition lcr3 :: "u32 \<Rightarrow> 'a pagingst_scheme \<Rightarrow> 'a pagingst_scheme" where
  "lcr3 v s = s\<lparr>cr3 := v\<rparr>"

definition set_page :: "nat \<Rightarrow> (PageInfo \<Rightarrow> PageInfo) \<Rightarrow> 'a pagingst_scheme \<Rightarrow> 'a pagingst_scheme" where
  "set_page p f s = s\<lparr>pages := (pages s)(p := f (pages s p))\<rparr>"

definition store :: "u32 \<Rightarrow> u32 \<Rightarrow> 'a pagingst_scheme \<Rightarrow> 'a pagingst_scheme" where
  "store a v s = s\<lparr>mem := (mem s)(a := v)\<rparr>"

text \<open>
  \<^verbatim>\<open>memset\<close> and \<^verbatim>\<open>memcpy\<close> of \<^verbatim>\<open>common.h\<close> put their length argument into \<^verbatim>\<open>%ecx\<close> of a
  \<^verbatim>\<open>rep stosl\<close> or \<^verbatim>\<open>rep movsl\<close>: it counts 32-bit words, not bytes.
\<close>

definition memset :: "u32 \<Rightarrow> u32 \<Rightarrow> nat \<Rightarrow> 'a pagingst_scheme \<Rightarrow> 'a pagingst_scheme" where
  "memset dst src len s = s\<lparr>mem := rep_stosl len dst src (mem s)\<rparr>"

definition memcpy :: "u32 \<Rightarrow> u32 \<Rightarrow> nat \<Rightarrow> 'a pagingst_scheme \<Rightarrow> 'a pagingst_scheme" where
  "memcpy dst src len s = s\<lparr>mem := rep_movsl len dst src (mem s)\<rparr>"

section \<open>The page allocator\<close>

definition page_alloc :: "u32 \<Rightarrow> 'a pagingst_scheme \<Rightarrow> nat option \<times> 'a pagingst_scheme" where
  "page_alloc alloc_flags s =
     (case page_free_list s of
        None \<Rightarrow> (None, printk_str (''Fatal error: page not available'' @ [CHR 0x0A]) s)
      | Some p \<Rightarrow>
          (let s = (if alloc_flags AND ALLOC_ZERO \<noteq> 0 then memset (page2kva p) 0 PGSIZE s else s);
               s = s\<lparr>page_free_list := pp_link (pages s p)\<rparr>;
               s = set_page p (\<lambda>i. i\<lparr>pp_link := None\<rparr>) s
           in (Some p, s)))"

definition page_free :: "nat \<Rightarrow> 'a pagingst_scheme \<Rightarrow> 'a pagingst_scheme" where
  "page_free pp s =
     (let s = set_page pp (\<lambda>i. i\<lparr>pp_link := page_free_list s\<rparr>) s
      in s\<lparr>page_free_list := Some pp\<rparr>)"

definition page_decref :: "nat \<Rightarrow> 'a pagingst_scheme \<Rightarrow> 'a pagingst_scheme" where
  "page_decref pp s =
     (let s = set_page pp (\<lambda>i. i\<lparr>pp_ref := pp_ref i - 1\<rparr>) s
      in if pp_ref (pages s pp) = 0 then page_free pp s else s)"

definition page_incref :: "nat \<Rightarrow> 'a pagingst_scheme \<Rightarrow> 'a pagingst_scheme" where
  "page_incref pp s = set_page pp (\<lambda>i. i\<lparr>pp_ref := pp_ref i + 1\<rparr>) s"

section \<open>Page tables\<close>

text \<open>\<open>entry_addr t i\<close> is the address of \<^verbatim>\<open>t[i]\<close> for a table of 32-bit entries.\<close>

definition entry_addr :: "u32 \<Rightarrow> nat \<Rightarrow> u32" where
  "entry_addr t i = t + 4 * of_nat i"

definition pgdir_walk :: "u32 \<Rightarrow> u32 \<Rightarrow> bool \<Rightarrow> 'a pagingst_scheme \<Rightarrow> u32 option \<times> 'a pagingst_scheme" where
  "pgdir_walk pgdir va create s =
     (let pdx = PDX va; pde = mem s (entry_addr pgdir pdx) in
      if pde AND PTE_P \<noteq> 0 then (Some (entry_addr (KADDR (PTE_ADDR pde)) (PTX va)), s)
      else if \<not> create then (None, s)
      else
        (case page_alloc ALLOC_ZERO s of
           (None, s) \<Rightarrow> (None, s)
         | (Some p, s) \<Rightarrow>
             (let pgtable = page2kva p;
                  s = page_incref p s;
                  s = store (entry_addr pgdir pdx) (PADDR pgtable OR PTE_P OR PTE_W OR PTE_U) s
              in (Some (entry_addr pgtable (PTX va)), s))))"

primrec boot_map_loop ::
  "nat \<Rightarrow> u32 \<Rightarrow> u32 \<Rightarrow> u32 \<Rightarrow> u32 \<Rightarrow> 'a pagingst_scheme \<Rightarrow> 'a pagingst_scheme" where
  "boot_map_loop 0 pgdir va pa perm s = s"
| "boot_map_loop (Suc n) pgdir va pa perm s =
     (case pgdir_walk pgdir va True s of
        (None, s) \<Rightarrow> s
      | (Some pte, s) \<Rightarrow>
          boot_map_loop n pgdir (va + of_nat PGSIZE) (pa + of_nat PGSIZE) perm
            (store pte (pa OR perm OR PTE_P) s))"

definition boot_map_region ::
  "u32 \<Rightarrow> u32 \<Rightarrow> u32 \<Rightarrow> u32 \<Rightarrow> u32 \<Rightarrow> 'a pagingst_scheme \<Rightarrow> 'a pagingst_scheme" where
  "boot_map_region pgdir va sz pa perm s =
     boot_map_loop (unat sz div PGSIZE) pgdir va pa perm s"

definition page_lookup :: "u32 \<Rightarrow> u32 \<Rightarrow> 'a pagingst_scheme \<Rightarrow> (nat \<times> u32) option" where
  "page_lookup pgdir va s =
     (case fst (pgdir_walk pgdir va False s) of
        None \<Rightarrow> None
      | Some pte \<Rightarrow> Some (pa2page (PTE_ADDR (mem s pte)), pte))"

definition tlb_invalidate :: "u32 \<Rightarrow> 'a pagingst_scheme \<Rightarrow> 'a pagingst_scheme" where
  "tlb_invalidate va s = s\<lparr>flushed := flushed s @ [va]\<rparr>"

definition page_remove :: "u32 \<Rightarrow> u32 \<Rightarrow> 'a pagingst_scheme \<Rightarrow> 'a pagingst_scheme" where
  "page_remove pgdir va s =
     (case page_lookup pgdir va s of
        None \<Rightarrow> s
      | Some (p, pte) \<Rightarrow> tlb_invalidate va (page_decref p (store pte 0 s)))"

text \<open>
  A \<^verbatim>\<open>NULL\<close> page reaches \<open>page_insert\<close> from \<open>mm_alloc\<close> when memory has run out; the code then
  computes with and writes through the null pointer.
\<close>

definition page_insert ::
  "u32 \<Rightarrow> nat option \<Rightarrow> u32 \<Rightarrow> u32 \<Rightarrow> 'a pagingst_scheme \<Rightarrow> (int \<times> 'a pagingst_scheme) res" where
  "page_insert pgdir pp va perm s =
     (case pgdir_walk pgdir va True s of
        (None, s) \<Rightarrow> Inr (-1, s)
      | (Some pte, s) \<Rightarrow>
          bind_res (deref pp) (\<lambda>pp.
          let pa = page2pa pp;
              s = (if mem s pte AND PTE_P \<noteq> 0
                   then (if PTE_ADDR (mem s pte) = pa then store pte (pa OR perm OR PTE_P) s
                         else page_remove pgdir va s)
                   else s);
              s = store pte (pa OR perm OR PTE_P) s;
              s = page_incref pp s
          in Inr (0, s)))"

text \<open>
  The loop of \<^verbatim>\<open>mm_alloc\<close> steps through page-aligned addresses below \<open>va_end\<close>; its number of
  iterations is the number of pages between the two rounded addresses.
\<close>

primrec mm_alloc_loop :: "nat \<Rightarrow> u32 \<Rightarrow> u32 \<Rightarrow> 'a pagingst_scheme \<Rightarrow> 'a pagingst_scheme res" where
  "mm_alloc_loop 0 pgdir i s = Inr s"
| "mm_alloc_loop (Suc n) pgdir i s =
     (case page_alloc 0 s of
        (p, s) \<Rightarrow>
          bind_res (page_insert pgdir p i (PTE_W OR PTE_P OR PTE_U) s)
            (\<lambda>(r, s). mm_alloc_loop n pgdir (i + of_nat PGSIZE) s))"

definition mm_alloc :: "u32 \<Rightarrow> u32 \<Rightarrow> u32 \<Rightarrow> 'a pagingst_scheme \<Rightarrow> 'a pagingst_scheme res" where
  "mm_alloc pgdir va len s =
     (let va_start = ROUNDDOWN va (of_nat PGSIZE);
          va_end = ROUNDUP (va + len) (of_nat PGSIZE)
      in mm_alloc_loop ((unat va_end - unat va_start) div PGSIZE) pgdir va_start s)"

section \<open>Copying and freeing an address space\<close>

primrec copy_pgtable_loop :: "nat \<Rightarrow> u32 \<Rightarrow> u32 \<Rightarrow> 'a pagingst_scheme \<Rightarrow> 'a pagingst_scheme res" where
  "copy_pgtable_loop 0 dst_table src_table s = Inr s"
| "copy_pgtable_loop (Suc n) dst_table src_table s =
     (let ptx = NPTENTRIES - Suc n in
      bind_res
        (if mem s (entry_addr src_table ptx) AND PTE_P \<noteq> 0 then
           (case page_alloc 0 s of
              (pp, s) \<Rightarrow>
                bind_res (deref pp) (\<lambda>pp.
                let s = page_incref pp s;
                    s = store (entry_addr dst_table ptx)
                          (page2pa pp OR PTE_ATTR (mem s (entry_addr src_table ptx))) s
                in Inr (memcpy (page2kva pp)
                     (KADDR (PTE_ADDR (mem s (entry_addr src_table ptx)))) PGSIZE s)))
         else Inr s)
        (copy_pgtable_loop n dst_table src_table))"

primrec copy_pgdir_loop :: "nat \<Rightarrow> u32 \<Rightarrow> u32 \<Rightarrow> 'a pagingst_scheme \<Rightarrow> 'a pagingst_scheme res" where
  "copy_pgdir_loop 0 dst_dir src_dir s = Inr s"
| "copy_pgdir_loop (Suc n) dst_dir src_dir s =
     (let pdx = NPDENTRIES - Suc n in
      bind_res
        (if mem s (entry_addr src_dir pdx) AND PTE_P \<noteq> 0 \<and>
            mem s (entry_addr dst_dir pdx) AND PTE_P = 0 then
           (let src_table = KADDR (PTE_ADDR (mem s (entry_addr src_dir pdx))) in
            case page_alloc ALLOC_ZERO s of
              (pp, s) \<Rightarrow>
                bind_res (deref pp) (\<lambda>pp.
                let s = page_incref pp s;
                    s = store (entry_addr dst_dir pdx)
                          (page2pa pp OR PTE_ATTR (mem s (entry_addr src_dir pdx))) s
                in copy_pgtable_loop NPTENTRIES
                     (KADDR (PTE_ADDR (mem s (entry_addr dst_dir pdx)))) src_table s))
         else Inr s)
        (copy_pgdir_loop n dst_dir src_dir))"

definition copy_pgdir :: "u32 \<Rightarrow> u32 \<Rightarrow> 'a pagingst_scheme \<Rightarrow> 'a pagingst_scheme res" where
  "copy_pgdir dst_dir src_dir s = copy_pgdir_loop NPDENTRIES dst_dir src_dir s"

primrec free_pgtable_loop :: "nat \<Rightarrow> u32 \<Rightarrow> 'a pagingst_scheme \<Rightarrow> 'a pagingst_scheme" where
  "free_pgtable_loop 0 pgtable s = s"
| "free_pgtable_loop (Suc n) pgtable s =
     (let pte = mem s (entry_addr pgtable (NPTENTRIES - Suc n)) in
      free_pgtable_loop n pgtable
        (if pte AND PTE_P \<noteq> 0 then page_decref (pa2page (PTE_ADDR pte)) s else s))"

primrec free_pgdir_loop :: "nat \<Rightarrow> u32 \<Rightarrow> 'a pagingst_scheme \<Rightarrow> 'a pagingst_scheme" where
  "free_pgdir_loop 0 pgdir s = s"
| "free_pgdir_loop (Suc n) pgdir s =
     (let pdx = NPDENTRIES - Suc n; pde = mem s (entry_addr pgdir pdx) in
      free_pgdir_loop n pgdir
        (if pde AND PTE_P \<noteq> 0 \<and> mem s (entry_addr (kern_pgdir s) pdx) AND PTE_P = 0 then
           (let s = free_pgtable_loop NPTENTRIES (KADDR (PTE_ADDR pde)) s;
                s = page_decref (pa2page (PTE_ADDR (mem s (entry_addr pgdir pdx)))) s
            in store (entry_addr pgdir pdx) 0 s)
         else s))"

definition free_pgdir :: "u32 \<Rightarrow> 'a pagingst_scheme \<Rightarrow> 'a pagingst_scheme" where
  "free_pgdir pgdir s = free_pgdir_loop NPDENTRIES pgdir s"

section \<open>What the MMU does with the tables\<close>

text \<open>
  The two-level walk of the hardware: the entry a virtual address is translated by, and the
  physical address it gives.  \<open>vstore\<close> is a 32-bit store through the address space in \<^verbatim>\<open>%cr3\<close>.
\<close>

definition pt_lookup :: "wmem \<Rightarrow> u32 \<Rightarrow> u32 \<Rightarrow> u32 option" where
  "pt_lookup m pgdir va =
     (let pde = m (entry_addr pgdir (PDX va)) in
      if pde AND PTE_P = 0 then None
      else (let pte = m (entry_addr (KADDR (PTE_ADDR pde)) (PTX va)) in
            if pte AND PTE_P = 0 then None else Some pte))"

definition mmu_translate :: "wmem \<Rightarrow> u32 \<Rightarrow> u32 \<Rightarrow> u32 option" where
  "mmu_translate m cr va =
     map_option (\<lambda>pte. PTE_ADDR pte OR PGOFF va) (pt_lookup m (KADDR (PTE_ADDR cr)) va)"

definition vstore :: "u32 \<Rightarrow> u32 \<Rightarrow> 'a pagingst_scheme \<Rightarrow> 'a pagingst_scheme res" where
  "vstore va v s =
     (case mmu_translate (mem s) (cr3 s) va of
        None \<Rightarrow> Inl PageFault
      | Some pa \<Rightarrow> Inr (store (KADDR pa) v s))"

section \<open>Boot-time tables\<close>

primrec kern_pde_loop :: "nat \<Rightarrow> nat \<Rightarrow> u32 \<Rightarrow> 'a pagingst_scheme \<Rightarrow> u32 \<times> 'a pagingst_scheme" where
  "kern_pde_loop 0 pdx pgtable s = (pgtable, s)"
| "kern_pde_loop (Suc n) pdx pgtable s =
     kern_pde_loop n (Suc pdx) (pgtable + 4 * of_nat NPTENTRIES)
       (store (entry_addr (kpgdir s) (pdx + unat (drop_bit 22 KERNBASE)))
          (PADDR pgtable OR PTE_P OR PTE_W) s)"

text \<open>The second loop runs \<open>pframe_addr\<close> down from the last page frame to frame 0.\<close>

primrec kern_pte_loop :: "nat \<Rightarrow> u32 \<Rightarrow> 'a pagingst_scheme \<Rightarrow> 'a pagingst_scheme" where
  "kern_pte_loop 0 pgtable s = s"
| "kern_pte_loop (Suc n) pgtable s =
     kern_pte_loop n (pgtable - 4)
       (store pgtable (of_nat (n * PGSIZE) OR PTE_P OR PTE_U OR PTE_W) s)"

definition init_kern_pgdir :: "'a pagingst_scheme \<Rightarrow> 'a pagingst_scheme" where
  "init_kern_pgdir s =
     (case kern_pde_loop (npages div NPTENTRIES) 0 (kpgtable s) s of
        (pgtable, s) \<Rightarrow>
          (let s = kern_pte_loop (PHY_MEM div PGSIZE) (pgtable - 4) s;
               s = s\<lparr>kern_pgdir := kpgdir s\<rparr>
           in lcr3 (PADDR (kern_pgdir s)) s))"

primrec reserve_loop :: "nat \<Rightarrow> 'a pagingst_scheme \<Rightarrow> 'a pagingst_scheme" where
  "reserve_loop 0 s = s"
| "reserve_loop (Suc i) s = set_page i (\<lambda>p. p\<lparr>pp_ref := 1\<rparr>) (reserve_loop i s)"

text \<open>\<open>free_loop n base\<close> is the loop that runs \<open>i\<close> from \<open>base + n - 1\<close> down to \<open>base\<close>.\<close>

primrec free_loop :: "nat \<Rightarrow> nat \<Rightarrow> 'a pagingst_scheme \<Rightarrow> 'a pagingst_scheme" where
  "free_loop 0 base s = s"
| "free_loop (Suc n) base s =
     (let i = base + n;
          s = set_page i (\<lambda>p. p\<lparr>pp_ref := 0\<rparr>) s;
          s = set_page i (\<lambda>p. p\<lparr>pp_link := page_free_list s\<rparr>) s;
          s = s\<lparr>page_free_list := Some i\<rparr>
      in free_loop n base s)"

definition VMEM_ADDR :: u32 where "VMEM_ADDR = 0xA0000"
definition SCR_SIZE :: u32 where "SCR_SIZE = 320 * 200"

definition page_init :: "'a pagingst_scheme \<Rightarrow> 'a pagingst_scheme" where
  "page_init s =
     (let s = init_kern_pgdir s;
          base = 0x400;
          s = reserve_loop base s;
          s = free_loop (npages - base) base s
      in boot_map_region (kern_pgdir s) VMEM_ADDR (ROUNDUP SCR_SIZE (of_nat PGSIZE)) VMEM_ADDR
           (PTE_W OR PTE_P) s)"

text \<open>The table that \<^verbatim>\<open>entry.S\<close> turns paging on with.\<close>

definition entry_pgtable :: "u32 list" where
  "entry_pgtable = map (\<lambda>i. of_nat (i * 0x1000) OR PTE_P OR PTE_W) [0..<1024]"

definition entry_pgdir :: "u32 \<Rightarrow> u32 list" where
  "entry_pgdir entry_pgtable_addr =
     (replicate 1024 0)
       [0 := (entry_pgtable_addr - KERNBASE) + PTE_P,
        unat (drop_bit 22 KERNBASE) := (entry_pgtable_addr - KERNBASE) + PTE_P + PTE_W]"

end
