(* ===== verification/Process.thy ===== *)
theory Process
  imports Paging
begin

text \<open>
  Process control blocks and the intrusive linked lists they are queued on:
  \<^verbatim>\<open>src/kernel/src/process.c\<close>, \<^verbatim>\<open>src/kernel/include/process.h\<close> and the context switch of
  \<^verbatim>\<open>src/kernel/src/memory/kvm.c\<close>.  A \<^verbatim>\<open>PCB *\<close> is a slot of \<^verbatim>\<open>PCBPool\<close>; the fields that the
  code names are a record, while the kernel stacks and trap frames, which the code moves around
  as raw memory, are words of \<open>mem\<close> at the addresses the struct layout gives them.
\<close>

section \<open>Data\<close>

datatype TASK_STATE = READY | RUNNING | STOP | SLEEPING | HUNGUP

datatype TASK_TYPE = KERNEL | USER | THREAD

text \<open>The field \<^verbatim>\<open>next\<close> is called \<open>nxt\<close> here; \<^verbatim>\<open>fcb[i].fd_kr\<close> is \<open>fcb i\<close>.\<close>

record PCB =
  used :: u32
  pid :: u32
  ppid :: u32
  ts :: TASK_STATE
  tt :: TASK_TYPE
  timeslice :: u32
  tf :: u32
  pgdir :: u32
  fcb :: "nat \<Rightarrow> u32"
  nxt :: "nat option"
  tail :: "nat option"
  join_list :: "nat option"

record Semaphore =
  sem_used :: u32
  sem_count :: u32
  block_list :: "nat option"

definition PCBPOOLMAX :: nat where "PCBPOOLMAX = 1000"
definition FCBMAX :: nat where "FCBMAX = 256"
definition NPKSTACKSIZE :: u32 where "NPKSTACKSIZE = 0x1000"
definition FORKKSTACKSIZE :: nat where "FORKKSTACKSIZE = 0x810"

text \<open>
  \<open>next_pid\<close> is the global \<^verbatim>\<open>pid\<close>, \<open>sched_count\<close> the scheduler's \<^verbatim>\<open>count\<close>, \<open>ticks\<close> is
  \<^verbatim>\<open>_tick\<close>.  Semaphores live at the address user code or \<^verbatim>\<open>sem_open_kr\<close> names them by.
\<close>

record procst = pagingst +
  PCBPool_addr :: u32
  tfPool_addr :: u32
  sems_addr :: u32
  PCBPool :: "nat \<Rightarrow> PCB"
  next_pid :: u32
  current :: "nat option"
  ready_list :: "nat option"
  sleep_list :: "nat option"
  sched_count :: u32
  ticks :: u32
  sems :: "u32 \<Rightarrow> Semaphore"
  tss_esp0 :: u32

definition upd_pcb :: "nat \<Rightarrow> (PCB \<Rightarrow> PCB) \<Rightarrow> 'a procst_scheme \<Rightarrow> 'a procst_scheme" where
  "upd_pcb p f s = s\<lparr>PCBPool := (PCBPool s)(p := f (PCBPool s p))\<rparr>"

text \<open>\<open>nexts s p\<close> reads \<^verbatim>\<open>p->next\<close>.\<close>

definition nexts :: "'a procst_scheme \<Rightarrow> nat \<Rightarrow> nat option" where
  "nexts s p = nxt (PCBPool s p)"

text \<open>Offsets of the members of \<^verbatim>\<open>struct PCB\<close> and of \<^verbatim>\<open>struct TrapFrame\<close>, in bytes.\<close>

definition PCB_SIZE :: u32 where "PCB_SIZE = 0x246C"

definition pcb_addr :: "'a procst_scheme \<Rightarrow> nat \<Rightarrow> u32" where
  "pcb_addr s p = PCBPool_addr s + PCB_SIZE * of_nat p"

definition kstack_addr :: "'a procst_scheme \<Rightarrow> nat \<Rightarrow> u32" where
  "kstack_addr s p = pcb_addr s p + 0x1020"

definition kstacktop_addr :: "'a procst_scheme \<Rightarrow> nat \<Rightarrow> u32" where
  "kstacktop_addr s p = pcb_addr s p + 0x2020"

definition TF_EBP :: u32 where "TF_EBP = 8"
definition TF_EAX :: u32 where "TF_EAX = 28"
definition TF_GS :: u32 where "TF_GS = 32"
definition TF_FS :: u32 where "TF_FS = 36"
definition TF_ES :: u32 where "TF_ES = 40"
definition TF_DS :: u32 where "TF_DS = 44"
definition TF_EIP :: u32 where "TF_EIP = 56"
definition TF_CS :: u32 where "TF_CS = 60"
definition TF_EFLAGS :: u32 where "TF_EFLAGS = 64"
definition TF_ESP :: u32 where "TF_ESP = 68"
definition TF_SS :: u32 where "TF_SS = 72"
definition TF_SIZE :: nat where "TF_SIZE = 76"

lemmas tf_offsets = TF_EBP_def TF_EAX_def TF_GS_def TF_FS_def TF_ES_def TF_DS_def TF_EIP_def
  TF_CS_def TF_EFLAGS_def TF_ESP_def TF_SS_def TF_SIZE_def

text \<open>\<^verbatim>\<open>cs\<close> and \<^verbatim>\<open>ss\<close> are 16-bit members followed by 16 bits of padding.\<close>

definition store16 :: "u32 \<Rightarrow> u32 \<Rightarrow> 'a pagingst_scheme \<Rightarrow> 'a pagingst_scheme" where
  "store16 a v s = store a ((mem s a AND 0xFFFF0000) OR (v AND 0xFFFF)) s"

section \<open>Linked lists\<close>

text \<open>The lvalues whose address is passed as \<^verbatim>\<open>PCB **head\<close>.\<close>

datatype ll_head = Ready_list | Sleep_list | Join_list nat | Block_list u32

primrec get_head :: "ll_head \<Rightarrow> 'a procst_scheme \<Rightarrow> nat option" where
  "get_head Ready_list s = ready_list s"
| "get_head Sleep_list s = sleep_list s"
| "get_head (Join_list p) s = join_list (PCBPool s p)"
| "get_head (Block_list a) s = block_list (sems s a)"

primrec set_head :: "ll_head \<Rightarrow> nat option \<Rightarrow> 'a procst_scheme \<Rightarrow> 'a procst_scheme" where
  "set_head Ready_list v s = s\<lparr>ready_list := v\<rparr>"
| "set_head Sleep_list v s = s\<lparr>sleep_list := v\<rparr>"
| "set_head (Join_list p) v s = upd_pcb p (\<lambda>x. x\<lparr>join_list := v\<rparr>) s"
| "set_head (Block_list a) v s = s\<lparr>sems := (sems s)(a := (sems s a)\<lparr>block_list := v\<rparr>)\<rparr>"

text \<open>
  The three list walks.  On a cyclic list they never end, which is \<open>None\<close>.
\<close>

partial_function (option) ll_len_loop :: "(nat \<Rightarrow> nat option) \<Rightarrow> nat option \<Rightarrow> u32 \<Rightarrow> u32 option" where
  "ll_len_loop f p i = (case p of None \<Rightarrow> Some i | Some q \<Rightarrow> ll_len_loop f (f q) (i + 1))"

partial_function (option) ll_tail_loop :: "(nat \<Rightarrow> nat option) \<Rightarrow> nat \<Rightarrow> nat option" where
  "ll_tail_loop f h = (case f h of None \<Rightarrow> Some h | Some q \<Rightarrow> ll_tail_loop f q)"

partial_function (option) ll_find_loop ::
  "(nat \<Rightarrow> nat option) \<Rightarrow> nat option \<Rightarrow> nat option \<Rightarrow> nat option \<Rightarrow> (nat option \<times> nat) option option" where
  "ll_find_loop f p pre sleep =
     (case sleep of
        None \<Rightarrow> Some None
      | Some q \<Rightarrow> if sleep = p then Some (Some (pre, q)) else ll_find_loop f p sleep (f q))"

definition ll_len :: "ll_head \<Rightarrow> 'a procst_scheme \<Rightarrow> u32 res" where
  "ll_len head s = loop_res (ll_len_loop (nexts s) (get_head head s) 0)"

definition ll_delete :: "ll_head \<Rightarrow> nat option \<Rightarrow> 'a procst_scheme \<Rightarrow> (u32 \<times> 'a procst_scheme) res" where
  "ll_delete head p s =
     bind_res (loop_res (ll_find_loop (nexts s) p None (get_head head s)))
       (\<lambda>found. case found of
          None \<Rightarrow> Inr (0, s)
        | Some (pre, sleep) \<Rightarrow>
            (let s = (case pre of
                        None \<Rightarrow> set_head head (nexts s sleep) s
                      | Some q \<Rightarrow> upd_pcb q (\<lambda>x. x\<lparr>nxt := nexts s sleep\<rparr>) s)
             in Inr (1, upd_pcb sleep (\<lambda>x. x\<lparr>nxt := None\<rparr>) s)))"

definition ll_pop :: "ll_head \<Rightarrow> 'a procst_scheme \<Rightarrow> (nat option \<times> 'a procst_scheme) res" where
  "ll_pop head s =
     (let p = get_head head s in
      bind_res (ll_delete head p s) (\<lambda>(_, s). Inr (p, s)))"

definition ll_push :: "ll_head \<Rightarrow> nat option \<Rightarrow> 'a procst_scheme \<Rightarrow> (u32 \<times> 'a procst_scheme) res" where
  "ll_push head p s =
     (let h = get_head head s in
      case h of
        None \<Rightarrow> Inr (0, set_head head p s)
      | Some _ \<Rightarrow>
          (let s = set_head head p s in
           bind_res (deref p) (\<lambda>p. Inr (1, upd_pcb p (\<lambda>x. x\<lparr>nxt := h\<rparr>) s))))"

definition ll_entail :: "ll_head \<Rightarrow> nat option \<Rightarrow> 'a procst_scheme \<Rightarrow> (u32 \<times> 'a procst_scheme) res" where
  "ll_entail head p s =
     (let h = get_head head s in
      bind_res (deref p) (\<lambda>p.
      let s = upd_pcb p (\<lambda>x. x\<lparr>nxt := None\<rparr>) s in
      case h of
        None \<Rightarrow> Inr (0, set_head head (Some p) s)
      | Some h \<Rightarrow>
          bind_res (loop_res (ll_tail_loop (nexts s) h)) (\<lambda>h.
          Inr (1, upd_pcb h (\<lambda>x. x\<lparr>nxt := Some p\<rparr>) s))))"

section \<open>Creating and switching processes\<close>

primrec init_pcb_pool_loop :: "nat \<Rightarrow> 'a procst_scheme \<Rightarrow> 'a procst_scheme" where
  "init_pcb_pool_loop 0 s = s"
| "init_pcb_pool_loop (Suc i) s = upd_pcb i (\<lambda>p. p\<lparr>used := 0\<rparr>) (init_pcb_pool_loop i s)"

definition init_pcb_pool :: "'a procst_scheme \<Rightarrow> 'a procst_scheme" where
  "init_pcb_pool s = init_pcb_pool_loop PCBPOOLMAX s"

definition GD_KT :: u32 where "GD_KT = 0x08"
definition GD_KD :: u32 where "GD_KD = 0x10"
definition GD_UT :: u32 where "GD_UT = 0x18"
definition GD_UD :: u32 where "GD_UD = 0x20"
definition FL_IF :: u32 where "FL_IF = 0x200"

definition set_frame_segments :: "u32 \<Rightarrow> u32 \<Rightarrow> u32 \<Rightarrow> 'a procst_scheme \<Rightarrow> 'a procst_scheme" where
  "set_frame_segments t d c s =
     (let s = store (t + TF_DS) d s;
          s = store (t + TF_ES) d s;
          s = store16 (t + TF_SS) d s;
          s = store (t + TF_FS) d s;
          s = store (t + TF_GS) d s;
          s = store16 (t + TF_CS) c s
      in store (t + TF_EFLAGS) (0x2 OR FL_IF) s)"

definition init_pcb :: "nat \<Rightarrow> u32 \<Rightarrow> u32 \<Rightarrow> u8 \<Rightarrow> 'a procst_scheme \<Rightarrow> 'a procst_scheme" where
  "init_pcb p ustack entry pri s =
     (let t = tf (PCBPool s p);
          s = (if pri = 0 then set_frame_segments t GD_KD GD_KT s
               else if pri = 3 then set_frame_segments t (GD_UD OR 3) (GD_UT OR 3) s
               else s);
          s = store (t + TF_ESP) ustack s;
          s = store (t + TF_EIP) entry s;
          s = (if pri = 0
               then upd_pcb p (\<lambda>x. x\<lparr>tf := ustack\<rparr>) (memcpy ustack t (TF_SIZE div 4) s)
               else s)
      in upd_pcb p (\<lambda>x. x\<lparr>tt := (if pri = 0 then KERNEL else USER)\<rparr>) s)"

text \<open>The scan for an unused slot; \<open>PCBPOOLMAX\<close> when all are used.\<close>

primrec find_unused :: "nat \<Rightarrow> (nat \<Rightarrow> PCB) \<Rightarrow> nat" where
  "find_unused 0 pool = PCBPOOLMAX"
| "find_unused (Suc k) pool =
     (let i = PCBPOOLMAX - Suc k in if used (pool i) = 0 then i else find_unused k pool)"

definition pcb_create :: "'a procst_scheme \<Rightarrow> (nat option \<times> 'a procst_scheme) res" where
  "pcb_create s =
     (let i = find_unused PCBPOOLMAX (PCBPool s) in
      if i \<ge> PCBPOOLMAX then Inl OutOfBounds
      else
        (let s = upd_pcb i (\<lambda>p. p\<lparr>tf := tfPool_addr s + of_nat (TF_SIZE * i)\<rparr>) s;
             s = upd_pcb i (\<lambda>p. p\<lparr>fcb := (\<lambda>j. if j < FCBMAX then - 1 else fcb p j)\<rparr>) s;
             s = upd_pcb i (\<lambda>p. p\<lparr>used := 1\<rparr>) s
         in case page_alloc ALLOC_ZERO s of
              (None, s) \<Rightarrow> Inr (None, s)
            | (Some pp, s) \<Rightarrow>
                (let s = upd_pcb i (\<lambda>p. p\<lparr>pgdir := page2kva pp\<rparr>) s;
                     s = upd_pcb i (\<lambda>p. p\<lparr>pid := next_pid s\<rparr>) s;
                     s = upd_pcb i (\<lambda>p. p\<lparr>timeslice := 0\<rparr>) s;
                     s = s\<lparr>next_pid := next_pid s + 1\<rparr>;
                     s = page_incref pp s
                 in Inr (Some i, memcpy (page2kva pp) (kern_pgdir s) PGSIZE s))))"

definition enready_pcb :: "nat \<Rightarrow> 'a procst_scheme \<Rightarrow> 'a procst_scheme" where
  "enready_pcb pcb s =
     (case ready_list s of
        None \<Rightarrow> upd_pcb pcb (\<lambda>p. p\<lparr>tail := Some pcb\<rparr>) (s\<lparr>ready_list := Some pcb\<rparr>)
      | Some temp \<Rightarrow>
          (let s = s\<lparr>ready_list := Some pcb\<rparr>;
               s = upd_pcb pcb (\<lambda>p. p\<lparr>nxt := Some temp\<rparr>) s
           in upd_pcb pcb (\<lambda>p. p\<lparr>tail := tail (PCBPool s temp)\<rparr>) s))"

definition set_tss_esp0 :: "u32 \<Rightarrow> 'a procst_scheme \<Rightarrow> 'a procst_scheme" where
  "set_tss_esp0 esp s = s\<lparr>tss_esp0 := esp\<rparr>"

text \<open>
  Both ways of leaving the kernel end in an \<^verbatim>\<open>iret\<close> through the trap frame of \<open>pcb\<close> and do not
  return; what they leave behind is the address space and the ring-0 stack of the process.
\<close>

definition enter_pcb :: "nat \<Rightarrow> 'a procst_scheme \<Rightarrow> 'a procst_scheme ctl" where
  "enter_pcb pcb s =
     Switched (set_tss_esp0 (kstacktop_addr s pcb) (lcr3 (PADDR (pgdir (PCBPool s pcb))) s))"

definition switch_pcb :: "nat \<Rightarrow> 'a procst_scheme \<Rightarrow> 'a procst_scheme ctl" where
  "switch_pcb pcb s =
     (let s = s\<lparr>current := Some pcb\<rparr>;
          s = lcr3 (PADDR (pgdir (PCBPool s pcb))) s
      in enter_pcb pcb s)"

definition scheduler_switch :: "nat \<Rightarrow> 'a procst_scheme \<Rightarrow> 'a procst_scheme ctl" where
  "scheduler_switch pcb s =
     (let s = s\<lparr>current := Some pcb\<rparr>;
          s = lcr3 (PADDR (pgdir (PCBPool s pcb))) s
      in Switched (set_tss_esp0 (kstacktop_addr s pcb) s))"

definition free_pcb :: "nat \<Rightarrow> 'a procst_scheme \<Rightarrow> 'a procst_scheme" where
  "free_pcb pcb s = upd_pcb pcb (\<lambda>p. p\<lparr>used := 0\<rparr>) s"

section \<open>fork and threads\<close>

text \<open>
  Relocation of the saved frame-pointer chain of a kernel task:
  \<^verbatim>\<open>while(*ptr != 0) { *ptr += offset; ptr = *ptr; }\<close>.
\<close>

partial_function (option) relocate_loop :: "u32 \<Rightarrow> u32 \<Rightarrow> wmem \<Rightarrow> wmem option" where
  "relocate_loop offset ptr m =
     (if m ptr = 0 then Some m
      else relocate_loop offset (m ptr + offset) (m(ptr := m ptr + offset)))"

definition copy_pcb :: "nat \<Rightarrow> nat \<Rightarrow> 'a procst_scheme \<Rightarrow> 'a procst_scheme res" where
  "copy_pcb dst src s =
     (let s = memcpy (pcb_addr s dst) (pcb_addr s src) FORKKSTACKSIZE s;
          s = upd_pcb dst (\<lambda>p. p\<lparr>timeslice := timeslice (PCBPool s src)\<rparr>) s;
          offset = kstack_addr s dst - kstack_addr s src;
          s = upd_pcb dst (\<lambda>p. p\<lparr>tf := tf (PCBPool s src) + offset\<rparr>) s;
          s = upd_pcb dst (\<lambda>p. p\<lparr>tt := tt (PCBPool s src)\<rparr>) s
      in bind_res
        (if tt (PCBPool s dst) = KERNEL then
           (let ebp = tf (PCBPool s dst) + TF_EBP;
                s = store ebp (mem s ebp + offset) s
            in bind_res (loop_res (relocate_loop offset (mem s ebp) (mem s))) (\<lambda>m.
               Inr (upd_pcb dst (\<lambda>p. p\<lparr>ts := ts (PCBPool s src)\<rparr>) (s\<lparr>mem := m\<rparr>))))
         else if tt (PCBPool s dst) \<noteq> THREAD
           then copy_pgdir (pgdir (PCBPool s dst)) (pgdir (PCBPool s src)) s
         else Inr s)
        (\<lambda>s. Inr (upd_pcb dst
           (\<lambda>p. p\<lparr>fcb := (\<lambda>j. if j < FCBMAX then fcb (PCBPool s src) j else fcb p j)\<rparr>) s)))"

definition fork_current :: "'a procst_scheme \<Rightarrow> 'a procst_scheme res" where
  "fork_current s =
     bind_res (pcb_create s) (\<lambda>(son, s).
     bind_res (deref son) (\<lambda>son.
     bind_res (deref (current s)) (\<lambda>cur.
     let s = upd_pcb son (\<lambda>p. p\<lparr>ppid := pid (PCBPool s cur)\<rparr>) s in
     bind_res (copy_pcb son cur s) (\<lambda>s.
     let s = store (tf (PCBPool s cur) + TF_EAX) (pid (PCBPool s son)) s;
         s = store (tf (PCBPool s son) + TF_EAX) 0 s
     in bind_res (ll_push Ready_list (Some son) s) (\<lambda>(_, s). Inr s)))))"

definition THREAD_STACK_TOP :: u32 where "THREAD_STACK_TOP = 0xEEBFD000"

definition thread_current :: "u32 \<Rightarrow> u32 \<Rightarrow> u32 \<Rightarrow> 'a procst_scheme \<Rightarrow> 'a procst_scheme res" where
  "thread_current entry exit arg s =
     bind_res (pcb_create s) (\<lambda>(son, s).
     bind_res (deref son) (\<lambda>son.
     bind_res (deref (current s)) (\<lambda>cur.
     let s = upd_pcb son (\<lambda>p. p\<lparr>tt := THREAD\<rparr>) s;
         s = upd_pcb son (\<lambda>p. p\<lparr>ppid := pid (PCBPool s cur)\<rparr>) s in
     bind_res (copy_pcb son cur s) (\<lambda>s.
     let s = memcpy (pgdir (PCBPool s son)) (pgdir (PCBPool s cur)) PGSIZE s;
         esp = THREAD_STACK_TOP in
     bind_res (mm_alloc (pgdir (PCBPool s son)) (esp - 2 * NPKSTACKSIZE) (2 * NPKSTACKSIZE) s) (\<lambda>s.
     let s = store (tf (PCBPool s son) + TF_EBP) (esp - 0x40) s;
         s = store (tf (PCBPool s son) + TF_ESP) (esp - 0x40) s;
         s = store (tf (PCBPool s son) + TF_EIP) entry s;
         s = store (tf (PCBPool s cur) + TF_EAX) (pid (PCBPool s son)) s;
         s = store (tf (PCBPool s son) + TF_EAX) 0 s;
         s = lcr3 (PADDR (pgdir (PCBPool s son))) s in
     bind_res (vstore (esp - 0x40) exit s) (\<lambda>s.
     bind_res (vstore (esp - 0x40 + 4) arg s) (\<lambda>s.
     let s = lcr3 (PADDR (pgdir (PCBPool s cur))) s in
     bind_res (ll_push Ready_list (Some son) s) (\<lambda>(_, s). Inr s))))))))"

end
