(* ===== verification/Queues.thy ===== *)
theory Queues
  imports Process
begin

text \<open>
  The contract of the PCB lists of \<^verbatim>\<open>process.c\<close>: seen from outside, \<open>ll_pop\<close>, \<open>ll_push\<close>,
  \<open>ll_entail\<close> and \<open>ll_delete\<close> operate on a family of disjoint queues, one per list head, and touch
  nothing else.  The locale \<open>queue_ops\<close> states that contract for any family of queues, its lemmas
  are what the clients (scheduler, semaphores, exit and join) use, and the interpretation
  \<open>pcbq\<close> discharges it for the pointer code.
\<close>

section \<open>Moving everything from one queue to another\<close>

text \<open>
  The loop that \<^verbatim>\<open>exit_current\<close> and \<^verbatim>\<open>sem_close_kr\<close> share: pop until the list is empty, and
  append what was popped (if it is to be kept) to another list.
\<close>

partial_function (option) drain ::
  "('s \<Rightarrow> ('p option \<times> 's) res) \<Rightarrow> ('p \<Rightarrow> 's \<Rightarrow> bool) \<Rightarrow> ('p option \<Rightarrow> 's \<Rightarrow> (u32 \<times> 's) res) \<Rightarrow>
     's \<Rightarrow> 's res option" where
  "drain pop keep entail s =
     (case pop s of
        Inl e \<Rightarrow> Some (Inl e)
      | Inr (p, s) \<Rightarrow>
          (case p of
             None \<Rightarrow> Some (Inr s)
           | Some q \<Rightarrow>
               if \<not> keep q s then drain pop keep entail s
               else (case entail p s of
                       Inl e \<Rightarrow> Some (Inl e)
                     | Inr (_, s) \<Rightarrow> drain pop keep entail s)))"

section \<open>The contract\<close>

locale queue_ops =
  fixes qinv :: "('h \<Rightarrow> 'p list) \<Rightarrow> 's \<Rightarrow> bool"
    and view :: "'s \<Rightarrow> 'v"
    and pop :: "'h \<Rightarrow> 's \<Rightarrow> ('p option \<times> 's) res"
    and push :: "'h \<Rightarrow> 'p option \<Rightarrow> 's \<Rightarrow> (u32 \<times> 's) res"
    and entail :: "'h \<Rightarrow> 'p option \<Rightarrow> 's \<Rightarrow> (u32 \<times> 's) res"
    and delete :: "'h \<Rightarrow> 'p option \<Rightarrow> 's \<Rightarrow> (u32 \<times> 's) res"
    and ok :: "'p \<Rightarrow> bool"
  assumes pop_nil: "qinv L s \<Longrightarrow> L h = [] \<Longrightarrow> pop h s = Inr (None, s)"
    and pop_cons: "qinv L s \<Longrightarrow> L h = p # ps \<Longrightarrow>
      \<exists>s'. pop h s = Inr (Some p, s') \<and> qinv (L(h := ps)) s' \<and> view s' = view s"
    and push_fresh: "qinv L s \<Longrightarrow> ok p \<Longrightarrow> (\<And>h'. p \<notin> set (L h')) \<Longrightarrow>
      \<exists>r s'. push h (Some p) s = Inr (r, s') \<and> qinv (L(h := p # L h)) s' \<and> view s' = view s"
    and entail_fresh: "qinv L s \<Longrightarrow> ok p \<Longrightarrow> (\<And>h'. p \<notin> set (L h')) \<Longrightarrow>
      \<exists>r s'. entail h (Some p) s = Inr (r, s') \<and> qinv (L(h := L h @ [p])) s' \<and> view s' = view s"
    and delete_mem: "qinv L s \<Longrightarrow> p \<in> set (L h) \<Longrightarrow>
      \<exists>s'. delete h (Some p) s = Inr (1, s') \<and> qinv (L(h := remove1 p (L h))) s' \<and> view s' = view s"
    and members_ok: "qinv L s \<Longrightarrow> p \<in> set (L h) \<Longrightarrow> ok p"
    and disjoint: "qinv L s \<Longrightarrow> p \<in> set (L h) \<Longrightarrow> p \<in> set (L h') \<Longrightarrow> h = h'"
    and queue_distinct: "qinv L s \<Longrightarrow> distinct (L h)"
begin

text \<open>Moving the head of one queue to the end of another keeps the order of arrival.\<close>

lemma transfer:
  assumes "qinv L s" "L h = p # ps" "h \<noteq> h'"
  shows "\<exists>s1 r s'. pop h s = Inr (Some p, s1) \<and> view s1 = view s \<and> entail h' (Some p) s1 = Inr (r, s')
     \<and> qinv (L(h := ps, h' := L h' @ [p])) s' \<and> view s' = view s"
proof -
  obtain s1 where s1: "pop h s = Inr (Some p, s1)" "qinv (L(h := ps)) s1" "view s1 = view s"
    using pop_cons [OF assms(1,2)] by blast
  have "distinct (L h)" using assms(1) by (rule queue_distinct)
  then have fresh: "p \<notin> set ((L(h := ps)) k)" for k
    using assms disjoint [OF assms(1), of p h k] by (cases "k = h") auto
  have "ok p" using members_ok [OF assms(1), of p h] assms(2) by simp
  from entail_fresh [where L = "L(h := ps)", OF s1(2) this fresh, of h'] s1 assms(3)
  show ?thesis by (auto simp del: fun_upd_apply simp: fun_upd_other)
qed

lemma drain_moves:
  assumes "qinv L s" "L h = ps" "h \<noteq> h'"
    and keep: "\<And>p s1. view s1 = view s \<Longrightarrow> keep p s1 = k p"
  shows "\<exists>s'. drain (pop h) keep (entail h') s = Some (Inr s')
     \<and> qinv (L(h := [], h' := L h' @ filter k ps)) s' \<and> view s' = view s"
  using assms
proof (induction ps arbitrary: L s)
  case Nil
  then have "pop h s = Inr (None, s)" by (intro pop_nil)
  with Nil show ?case by (auto simp: drain.simps fun_upd_idem)
next
  case (Cons p ps)
  show ?case
  proof (cases "k p")
    case False
    obtain s1 where s1: "pop h s = Inr (Some p, s1)" "qinv (L(h := ps)) s1" "view s1 = view s"
      using pop_cons [OF Cons.prems(1,2)] by blast
    have "\<exists>s'. drain (pop h) keep (entail h') s1 = Some (Inr s')
        \<and> qinv ((L(h := ps))(h := [], h' := (L(h := ps)) h' @ filter k ps)) s' \<and> view s' = view s1"
      by (rule Cons.IH [OF s1(2) _ Cons.prems(3)]) (simp_all add: Cons.prems(4) s1(3))
    moreover have "(L(h := ps))(h := [], h' := (L(h := ps)) h' @ filter k ps)
        = L(h := [], h' := L h' @ filter k (p # ps))"
      using False Cons.prems(3) by (auto simp: fun_eq_iff)
    ultimately show ?thesis
      using s1 False Cons.prems(4) by (subst drain.simps) simp
  next
    case True
    obtain s1 r s2 where s1: "pop h s = Inr (Some p, s1)" "view s1 = view s"
      and s2: "entail h' (Some p) s1 = Inr (r, s2)" "qinv (L(h := ps, h' := L h' @ [p])) s2"
        "view s2 = view s"
      using transfer [OF Cons.prems(1-3)] by blast
    let ?L = "L(h := ps, h' := L h' @ [p])"
    have "\<exists>s'. drain (pop h) keep (entail h') s2 = Some (Inr s')
        \<and> qinv (?L(h := [], h' := ?L h' @ filter k ps)) s' \<and> view s' = view s2"
      by (rule Cons.IH [OF s2(2) _ Cons.prems(3)]) (use Cons.prems(3,4) s2(3) in simp_all)
    moreover have "?L(h := [], h' := ?L h' @ filter k ps)
        = L(h := [], h' := L h' @ filter k (p # ps))"
      using True Cons.prems(3) by (auto simp: fun_eq_iff)
    ultimately show ?thesis
      using s1 s2 True Cons.prems(4) by (subst drain.simps) simp
  qed
qed

end

section \<open>The pointer code refines it\<close>

text \<open>
  \<open>lists_ok L s\<close>: following \<^verbatim>\<open>next\<close> from each head \<open>h\<close> visits exactly \<open>L h\<close>; no PCB is on two
  lists; a PCB that is on no list has a null \<^verbatim>\<open>next\<close>; every pointer is a slot of the pool.
  \<open>erase_links\<close> is everything else.
\<close>

definition lists_ok :: "(ll_head \<Rightarrow> nat list) \<Rightarrow> 'a procst_scheme \<Rightarrow> bool" where
  "lists_ok L s \<longleftrightarrow>
     (\<forall>h. chain (nexts s) (get_head h s) (L h)) \<and>
     (\<forall>h h' p. p \<in> set (L h) \<longrightarrow> p \<in> set (L h') \<longrightarrow> h = h') \<and>
     (\<forall>p. (\<forall>h. p \<notin> set (L h)) \<longrightarrow> nexts s p = None) \<and>
     (\<forall>h. set (L h) \<subseteq> {..<PCBPOOLMAX})"

definition erase_links :: "'a procst_scheme \<Rightarrow> 'a procst_scheme" where
  "erase_links s = s\<lparr>ready_list := None, sleep_list := None,
     PCBPool := (\<lambda>p. (PCBPool s p)\<lparr>nxt := None, join_list := None\<rparr>),
     sems := (\<lambda>a. (sems s a)\<lparr>block_list := None\<rparr>)\<rparr>"

lemma lists_okD:
  assumes "lists_ok L s"
  shows "chain (nexts s) (get_head h s) (L h)"
    and "p \<in> set (L h) \<Longrightarrow> p \<in> set (L h') \<Longrightarrow> h = h'"
    and "(\<And>h. p \<notin> set (L h)) \<Longrightarrow> nexts s p = None"
    and "p \<in> set (L h) \<Longrightarrow> p < PCBPOOLMAX"
    and "distinct (L h)"
  using assms chain_distinct [of "nexts s" "get_head h s" "L h"] unfolding lists_ok_def by blast+

lemma nexts_upd_pcb [simp]: "nexts (upd_pcb p f s) = (nexts s)(p := nxt (f (PCBPool s p)))"
  by (auto simp: upd_pcb_def nexts_def)

lemma get_head_upd_pcb [simp]:
  "(\<And>x. join_list (f x) = join_list x) \<Longrightarrow> get_head h (upd_pcb p f s) = get_head h s"
  by (cases h) (auto simp: upd_pcb_def)

lemma get_head_set_head [simp]:
  "get_head h (set_head h' v s) = (if h = h' then v else get_head h s)"
  by (cases h; cases h') (auto simp: upd_pcb_def)

lemma nexts_set_head [simp]: "nexts (set_head h v s) = nexts s"
  by (cases h) (auto simp: upd_pcb_def nexts_def fun_eq_iff)

lemma erase_links_set_head [simp]: "erase_links (set_head h v s) = erase_links s"
  by (cases h) (auto simp: erase_links_def upd_pcb_def fun_eq_iff)

lemma erase_links_upd_nxt [simp]:
  "erase_links (upd_pcb p (\<lambda>x. x\<lparr>nxt := v\<rparr>) s) = erase_links s"
  by (auto simp: erase_links_def upd_pcb_def fun_eq_iff)

text \<open>The walks, on an acyclic list.\<close>

lemma ll_tail_loop_chain: "chain f (Some h) (ps @ [l]) \<Longrightarrow> ll_tail_loop f h = Some l"
proof (induction ps arbitrary: h)
  case Nil
  then show ?case by (subst ll_tail_loop.simps) simp
next
  case (Cons p ps)
  then obtain q where "f h = Some q" "chain f (Some q) (ps @ [l])"
    by (cases "f h") auto
  with Cons.IH show ?case by (subst ll_tail_loop.simps) simp
qed

lemma ll_len_loop_chain: "chain f x ps \<Longrightarrow> ll_len_loop f x i = Some (i + of_nat (length ps))"
proof (induction ps arbitrary: x i)
  case Nil
  then show ?case by (subst ll_len_loop.simps) simp
next
  case (Cons p ps)
  then show ?case by (subst ll_len_loop.simps) (simp add: algebra_simps)
qed

lemma ll_find_loop_mem:
  "chain f x (as @ p # bs) \<Longrightarrow>
     ll_find_loop f (Some p) pre x = Some (Some (if as = [] then pre else Some (last as), p))"
proof (induction as arbitrary: x pre)
  case Nil
  then show ?case by (subst ll_find_loop.simps) simp
next
  case (Cons a as)
  then have "a \<noteq> p" using chain_distinct [OF Cons.prems] by auto
  with Cons show ?case by (subst ll_find_loop.simps) simp
qed

lemma ll_find_loop_not_mem: "chain f x ps \<Longrightarrow> p \<notin> set ps \<Longrightarrow> ll_find_loop f (Some p) pre x = Some None"
proof (induction ps arbitrary: x pre)
  case Nil
  then show ?case by (subst ll_find_loop.simps) simp
next
  case (Cons a as)
  then show ?case by (subst ll_find_loop.simps) simp
qed

text \<open>Re-establishing \<open>lists_ok\<close> when one queue changes.\<close>

lemma lists_ok_update:
  assumes ok: "lists_ok L s"
    and chain: "chain (nexts s') (get_head h s') qs"
    and other: "\<And>k. k \<noteq> h \<Longrightarrow> chain (nexts s') (get_head k s') (L k)"
    and new: "\<And>p k. p \<in> set qs \<Longrightarrow> p \<notin> set (L h) \<Longrightarrow> p \<notin> set (L k) \<and> p < PCBPOOLMAX"
    and free: "\<And>p. p \<notin> set qs \<Longrightarrow> (\<And>k. k \<noteq> h \<Longrightarrow> p \<notin> set (L k)) \<Longrightarrow> nexts s' p = None"
  shows "lists_ok (L(h := qs)) s'"
  unfolding lists_ok_def
proof (intro conjI allI impI)
  show "chain (nexts s') (get_head k s') ((L(h := qs)) k)" for k
    using chain other by simp
  show "k = k'" if "p \<in> set ((L(h := qs)) k)" "p \<in> set ((L(h := qs)) k')" for k k' p
    using that new [of p k] new [of p k'] lists_okD(2) [OF ok, of p]
    by (auto split: if_splits)
  show "nexts s' p = None" if "\<forall>k. p \<notin> set ((L(h := qs)) k)" for p
    using free [of p] that by (metis fun_upd_other fun_upd_same)
  show "set ((L(h := qs)) k) \<subseteq> {..<PCBPOOLMAX}" for k
    using new lists_okD(4) [OF ok] by (auto split: if_splits)
qed

lemma ll_delete_mem:
  assumes ok: "lists_ok L s" and p: "p \<in> set (L h)"
  shows "\<exists>s'. ll_delete h (Some p) s = Inr (1, s') \<and> lists_ok (L(h := remove1 p (L h))) s'
     \<and> erase_links s' = erase_links s"
proof -
  obtain as bs where L: "L h = as @ p # bs" using p by (meson split_list)
  have ch: "chain (nexts s) (get_head h s) (as @ p # bs)"
    using lists_okD(1) [OF ok, of h] L by simp
  have dist: "distinct (as @ p # bs)" using ch by (rule chain_distinct)
  then have rem: "remove1 p (L h) = as @ bs" using L by (simp add: remove1_append)
  have notin: "p \<notin> set (L k) \<and> set as \<inter> set (L k) = {}" if "k \<noteq> h" for k
    using that L lists_okD(2) [OF ok, of _ h k] by auto
  have free: "nexts s q = None" if "q \<notin> set (as @ bs)" "q \<noteq> p" "\<And>k. k \<noteq> h \<Longrightarrow> q \<notin> set (L k)" for q
    using that L lists_okD(3) [OF ok, of q] by (metis Un_iff set_append set_ConsD)
  show ?thesis
  proof (cases as rule: rev_cases)
    case Nil
    let ?s = "upd_pcb p (\<lambda>x. x\<lparr>nxt := None\<rparr>) (set_head h (nexts s p) s)"
    have "ll_delete h (Some p) s = Inr (1, ?s)"
      using ll_find_loop_mem [OF ch, of None] Nil by (simp add: ll_delete_def)
    moreover have "lists_ok (L(h := bs)) ?s"
    proof (rule lists_ok_update [OF ok])
      show "chain (nexts ?s) (get_head h ?s) bs"
        using ch Nil chain_unlink_hd [of "nexts s" p bs] by simp
      show "chain (nexts ?s) (get_head k ?s) (L k)" if "k \<noteq> h" for k
        using that notin [OF that] lists_okD(1) [OF ok, of k] by simp
      show "nexts ?s q = None" if "q \<notin> set bs" "\<And>k. k \<noteq> h \<Longrightarrow> q \<notin> set (L k)" for q
        using free [of q] that Nil by (cases "q = p") simp_all
    qed (use L Nil in auto)
    ultimately show ?thesis using rem Nil by simp
  next
    case (snoc as' a)
    let ?s = "upd_pcb p (\<lambda>x. x\<lparr>nxt := None\<rparr>) (upd_pcb a (\<lambda>x. x\<lparr>nxt := nexts s p\<rparr>) s)"
    have ap: "a \<noteq> p" using dist snoc by auto
    have nexts: "nexts ?s = (nexts s)(a := nexts s p, p := None)"
      using ap by (auto simp: upd_pcb_def nexts_def)
    have "ll_delete h (Some p) s = Inr (1, ?s)"
      using ll_find_loop_mem [OF ch, of None] snoc by (simp add: ll_delete_def)
    moreover have "lists_ok (L(h := as @ bs)) ?s"
    proof (rule lists_ok_update [OF ok])
      show "chain (nexts ?s) (get_head h ?s) (as @ bs)"
        using chain_unlink [of "nexts s" "get_head h s" as' a p bs] ch snoc
        unfolding nexts by simp
      show "chain (nexts ?s) (get_head k ?s) (L k)" if "k \<noteq> h" for k
        using that notin [OF that] lists_okD(1) [OF ok, of k] snoc unfolding nexts by simp
      show "nexts ?s q = None" if "q \<notin> set (as @ bs)" "\<And>k. k \<noteq> h \<Longrightarrow> q \<notin> set (L k)" for q
        using free [of q] that snoc by (cases "q = p") auto
    qed (use L in auto)
    ultimately show ?thesis using rem by simp
  qed
qed

lemma ll_pop_nil: "lists_ok L s \<Longrightarrow> L h = [] \<Longrightarrow> ll_pop h s = Inr (None, s)"
  using lists_okD(1) [of L s h]
  by (simp add: ll_pop_def ll_delete_def ll_find_loop.simps)

lemma ll_pop_cons:
  assumes "lists_ok L s" "L h = p # ps"
  shows "\<exists>s'. ll_pop h s = Inr (Some p, s') \<and> lists_ok (L(h := ps)) s' \<and> erase_links s' = erase_links s"
  using ll_delete_mem [OF assms(1), of p h] lists_okD(1) [OF assms(1), of h] assms(2)
  by (auto simp: ll_pop_def Let_def)

lemma ll_entail_fresh:
  assumes ok: "lists_ok L s" and p: "p < PCBPOOLMAX" and fresh: "\<And>k. p \<notin> set (L k)"
  shows "\<exists>r s'. ll_entail h (Some p) s = Inr (r, s') \<and> lists_ok (L(h := L h @ [p])) s'
     \<and> erase_links s' = erase_links s"
proof -
  let ?t = "upd_pcb p (\<lambda>x. x\<lparr>nxt := None\<rparr>) s"
  have ch: "chain (nexts ?t) (get_head k s) (L k)" for k
    using lists_okD(1) [OF ok, of k] fresh by simp
  have free: "nexts s q = None" if "q \<notin> set (L h)" "\<And>k. k \<noteq> h \<Longrightarrow> q \<notin> set (L k)" for q
    by (rule lists_okD(3) [OF ok]) (use that in metis)
  show ?thesis
  proof (cases "L h" rule: rev_cases)
    case Nil
    let ?s = "set_head h (Some p) ?t"
    have "ll_entail h (Some p) s = Inr (0, ?s)"
      using lists_okD(1) [OF ok, of h] Nil by (simp add: ll_entail_def)
    moreover have "lists_ok (L(h := [p])) ?s"
    proof (rule lists_ok_update [OF ok])
      show "chain (nexts ?s) (get_head k ?s) (L k)" if "k \<noteq> h" for k
        using ch [of k] that by simp
      show "nexts ?s q = None" if "q \<notin> set [p]" "\<And>k. k \<noteq> h \<Longrightarrow> q \<notin> set (L k)" for q
        using free [of q] that Nil by simp
    qed (use p fresh in auto)
    ultimately show ?thesis using Nil by simp
  next
    case (snoc as l)
    obtain x where x: "get_head h s = Some x" using ch [of h] snoc by (cases "get_head h s") auto
    let ?s = "upd_pcb l (\<lambda>x. x\<lparr>nxt := Some p\<rparr>) ?t"
    have lp: "l \<noteq> p" using fresh [of h] snoc by auto
    have "ll_tail_loop (nexts ?t) x = Some l"
      using ll_tail_loop_chain [of "nexts ?t" x as l] ch [of h] x snoc by simp
    then have "ll_entail h (Some p) s = Inr (1, ?s)"
      using x by (simp add: ll_entail_def)
    moreover have "lists_ok (L(h := L h @ [p])) ?s"
    proof (rule lists_ok_update [OF ok])
      show "chain (nexts ?s) (get_head h ?s) (L h @ [p])"
        using chain_snoc_upd [of "nexts s" "get_head h s" as l p] lists_okD(1) [OF ok, of h]
          fresh [of h] snoc lp by (simp add: fun_upd_twist)
      show "chain (nexts ?s) (get_head k ?s) (L k)" if "k \<noteq> h" for k
      proof -
        have "l \<notin> set (L k)" using that lists_okD(2) [OF ok, of l h k] snoc by auto
        then show ?thesis using ch [of k] by simp
      qed
      show "nexts ?s q = None" if "q \<notin> set (L h @ [p])" "\<And>k. k \<noteq> h \<Longrightarrow> q \<notin> set (L k)" for q
        using free [of q] that snoc by simp
    qed (use p fresh in auto)
    ultimately show ?thesis by simp
  qed
qed

lemma ll_push_fresh:
  assumes ok: "lists_ok L s" and p: "p < PCBPOOLMAX" and fresh: "\<And>k. p \<notin> set (L k)"
  shows "\<exists>r s'. ll_push h (Some p) s = Inr (r, s') \<and> lists_ok (L(h := p # L h)) s'
     \<and> erase_links s' = erase_links s"
proof -
  let ?s = "(case get_head h s of None \<Rightarrow> set_head h (Some p) s
     | Some _ \<Rightarrow> upd_pcb p (\<lambda>x. x\<lparr>nxt := get_head h s\<rparr>) (set_head h (Some p) s))"
  have nx: "nexts ?s = (nexts s)(p := get_head h s)"
    using lists_okD(3) [OF ok fresh] by (auto split: option.splits)
  have hd: "get_head k ?s = (if k = h then Some p else get_head k s)" for k
    by (auto split: option.splits)
  have "\<exists>r. ll_push h (Some p) s = Inr (r, ?s)"
    by (auto simp: ll_push_def Let_def split: option.splits)
  moreover have "lists_ok (L(h := p # L h)) ?s"
  proof (rule lists_ok_update [OF ok])
    show "chain (nexts ?s) (get_head h ?s) (p # L h)"
      using lists_okD(1) [OF ok, of h] fresh [of h] unfolding nx hd by simp
    show "chain (nexts ?s) (get_head k ?s) (L k)" if "k \<noteq> h" for k
      using lists_okD(1) [OF ok, of k] fresh [of k] that unfolding nx hd by simp
    show "nexts ?s q = None" if "q \<notin> set (p # L h)" "\<And>k. k \<noteq> h \<Longrightarrow> q \<notin> set (L k)" for q
    proof -
      have "q \<notin> set (L k)" for k using that by (cases "k = h") auto
      then show ?thesis using lists_okD(3) [OF ok, of q] that fun_cong [OF nx, of q] by simp
    qed
  qed (use p fresh in auto)
  moreover have "erase_links ?s = erase_links s" by (auto split: option.splits)
  ultimately show ?thesis by blast
qed

interpretation pcbq: queue_ops lists_ok erase_links ll_pop ll_push ll_entail ll_delete
  "\<lambda>p. p < PCBPOOLMAX"
  by unfold_locales
    (auto intro: ll_pop_nil ll_pop_cons ll_push_fresh ll_entail_fresh ll_delete_mem
      dest: lists_okD)

section \<open>A sample state\<close>

text \<open>
  Process 1 runs, the idle process 0 and process 2 are ready, process 3 sleeps for one more tick,
  process 4 joins process 1, and process 5 is blocked on the semaphore at \<open>0x1000\<close>; the semaphore
  at \<open>0x2000\<close> is free and the one at \<open>0x3000\<close> has two units.  The state shows that the hypotheses
  of the theorems about the lists can hold together.
\<close>

definition blank_pcb :: PCB where
  "blank_pcb = \<lparr>used = 0, pid = 0, ppid = 0, ts = READY, tt = USER, timeslice = 0, tf = 0, pgdir = 0,
     fcb = (\<lambda>_. - 1), nxt = None, tail = None, join_list = None\<rparr>"

definition sample :: procst where
  "sample = \<lparr>serial = [], mem = (\<lambda>_. 0), pages = (\<lambda>_. \<lparr>pp_link = None, pp_ref = 0\<rparr>),
     page_free_list = None, kpgdir = 0xC0110000, kpgtable = 0xC0120000, kern_pgdir = 0xC0110000,
     cr3 = 0x110000, flushed = [], PCBPool_addr = 0xC0200000, tfPool_addr = 0xC0300000,
     sems_addr = 0xC0310000,
     PCBPool = (\<lambda>p.
       if p = 0 then blank_pcb\<lparr>used := 1, pid := 1, nxt := Some 2\<rparr>
       else if p = 1 then blank_pcb\<lparr>used := 1, pid := 2, ts := RUNNING, join_list := Some 4\<rparr>
       else if p = 2 then blank_pcb\<lparr>used := 1, pid := 3\<rparr>
       else if p = 3 then blank_pcb\<lparr>used := 1, pid := 4, ts := SLEEPING, timeslice := 1\<rparr>
       else if p = 4 \<or> p = 5 then blank_pcb\<lparr>used := 1, pid := of_nat p + 1\<rparr>
       else blank_pcb),
     next_pid = 7, current = Some 1, ready_list = Some 0, sleep_list = Some 3,
     sched_count = 0, ticks = 0,
     sems = (\<lambda>a. if a = 0x1000 then \<lparr>sem_used = 1, sem_count = - 1, block_list = Some 5\<rparr>
       else if a = 0x3000 then \<lparr>sem_used = 1, sem_count = 2, block_list = None\<rparr>
       else \<lparr>sem_used = 0, sem_count = 0, block_list = None\<rparr>),
     tss_esp0 = 0\<rparr>"

definition sample_queues :: "ll_head \<Rightarrow> nat list" where
  "sample_queues h = (case h of Ready_list \<Rightarrow> [0, 2] | Sleep_list \<Rightarrow> [3]
     | Join_list p \<Rightarrow> (if p = 1 then [4] else [])
     | Block_list a \<Rightarrow> (if a = 0x1000 then [5] else []))"

lemma sample_lists_ok: "lists_ok sample_queues sample"
proof -
  have "chain (nexts sample) (get_head h sample) (sample_queues h)" for h
    by (cases h) (auto simp: sample_queues_def sample_def nexts_def blank_pcb_def)
  moreover have "h = h'" if "p \<in> set (sample_queues h)" "p \<in> set (sample_queues h')" for p h h'
    using that by (cases h; cases h') (auto simp: sample_queues_def split: if_splits)
  moreover have "nexts sample p = None" if "\<And>h. p \<notin> set (sample_queues h)" for p
    using that [of Ready_list] by (auto simp: sample_queues_def sample_def nexts_def blank_pcb_def)
  moreover have "set (sample_queues h) \<subseteq> {..<PCBPOOLMAX}" for h
    by (cases h) (auto simp: sample_queues_def PCBPOOLMAX_def)
  ultimately show ?thesis unfolding lists_ok_def by blast
qed

lemma sample_current:
  "current sample = Some 1" "1 < PCBPOOLMAX" "1 \<notin> set (sample_queues h)"
  by (auto simp: sample_def PCBPOOLMAX_def sample_queues_def split: ll_head.splits)

end
