(* ===== verification/Scheduler.thy ===== *)
theory Scheduler
  imports Queues
begin

text \<open>
  The scheduler (\<^verbatim>\<open>src/kernel/src/scheduler.c\<close>), the timer interrupt (\<^verbatim>\<open>src/kernel/src/timer.c\<close>),
  and the process operations that block or end the current process (\<^verbatim>\<open>exit_current\<close> and
  \<^verbatim>\<open>join_current\<close> of \<^verbatim>\<open>process.c\<close>; the sleep and yield cases of \<^verbatim>\<open>do_syscall\<close>).
\<close>

section \<open>Operations\<close>

function do_scheduler :: "'a procst_scheme \<Rightarrow> 'a procst_scheme ctl res" where
  "do_scheduler s =
     (let s = s\<lparr>sched_count := sched_count s + 1\<rparr> in
      case current s of
        None \<Rightarrow>
          bind_res (ll_pop Ready_list s) (\<lambda>(p, s).
          let s = s\<lparr>current := p\<rparr> in
          bind_res (deref (current s)) (\<lambda>c.
          let s = upd_pcb c (\<lambda>x. x\<lparr>ts := RUNNING\<rparr>) s;
              s = upd_pcb c (\<lambda>x. x\<lparr>timeslice := 0\<rparr>) s
          in Inr (scheduler_switch c s)))
      | Some c \<Rightarrow>
          if ts (PCBPool s c) = SLEEPING then
            bind_res (ll_entail Sleep_list (Some c) s) (\<lambda>(_, s). do_scheduler (s\<lparr>current := None\<rparr>))
          else if timeslice (PCBPool s c) > 2 \<or> ts (PCBPool s c) = STOP then
            (let s = upd_pcb c (\<lambda>x. x\<lparr>ts := READY\<rparr>) s in
             bind_res (ll_entail Ready_list (Some c) s) (\<lambda>(_, s). do_scheduler (s\<lparr>current := None\<rparr>)))
          else Inr (Returns s))"
  by pat_completeness auto
termination
  by (relation "measure (\<lambda>s. if current s = None then 0 else 1)") auto

declare do_scheduler.simps [simp del]

partial_function (option) timer_loop :: "nat option \<Rightarrow> 'a procst_scheme \<Rightarrow> 'a procst_scheme res option" where
  "timer_loop sleep s =
     (case sleep of
        None \<Rightarrow> Some (Inr s)
      | Some cur \<Rightarrow>
          (let s = upd_pcb cur (\<lambda>x. x\<lparr>timeslice := timeslice x - 1\<rparr>) s;
               sleep = nexts s cur
           in if timeslice (PCBPool s cur) > 0 then timer_loop sleep s
              else
                (let s = upd_pcb cur (\<lambda>x. x\<lparr>ts := READY\<rparr>) s in
                 case bind_res (ll_delete Sleep_list (Some cur) s)
                        (\<lambda>(_, s). ll_entail Ready_list (Some cur) s) of
                   Inl e \<Rightarrow> Some (Inl e)
                 | Inr (_, s) \<Rightarrow> timer_loop sleep s)))"

definition do_timer :: "'a procst_scheme \<Rightarrow> 'a procst_scheme res" where
  "do_timer s =
     (let s = s\<lparr>ticks := ticks s + 1\<rparr> in
      bind_res (deref (current s)) (\<lambda>c.
      let s = upd_pcb c (\<lambda>x. x\<lparr>timeslice := timeslice x + 1\<rparr>) s in
      bind_res (loop_res (timer_loop (sleep_list s) s)) id))"

definition tick :: "'a procst_scheme \<Rightarrow> u32" where
  "tick s = ticks s"

definition exit_current :: "'a procst_scheme \<Rightarrow> 'a procst_scheme ctl res" where
  "exit_current s =
     bind_res (deref (current s)) (\<lambda>c.
     bind_res (loop_res (drain (ll_pop (Join_list c)) (\<lambda>p s. used (PCBPool s p) \<noteq> 0)
                 (ll_entail Ready_list) s)) (\<lambda>r.
     bind_res r (\<lambda>s.
     let s = free_pcb c s;
         s = s\<lparr>current := None\<rparr>
     in do_scheduler s)))"

text \<open>The scan of the pool for a pid; \<open>PCBPOOLMAX\<close> when there is none.\<close>

primrec find_pid :: "nat \<Rightarrow> u32 \<Rightarrow> (nat \<Rightarrow> PCB) \<Rightarrow> nat" where
  "find_pid 0 k pool = PCBPOOLMAX"
| "find_pid (Suc n) k pool =
     (let i = PCBPOOLMAX - Suc n in if pid (pool i) = k then i else find_pid n k pool)"

definition join_current :: "u32 \<Rightarrow> 'a procst_scheme \<Rightarrow> 'a procst_scheme ctl res" where
  "join_current k s =
     (if k = 0 then Inr (Returns s)
      else
        (let i = find_pid PCBPOOLMAX k (PCBPool s) in
         if i = PCBPOOLMAX then Inr (Returns s)
         else if used (PCBPool s i) = 0 then Inr (Returns s)
         else
           bind_res (ll_entail (Join_list i) (current s) s) (\<lambda>(_, s).
           do_scheduler (s\<lparr>current := None\<rparr>))))"

definition do_sleep :: "u32 \<Rightarrow> 'a procst_scheme \<Rightarrow> 'a procst_scheme res" where
  "do_sleep ebx s =
     bind_res (deref (current s)) (\<lambda>c.
     let s = upd_pcb c (\<lambda>x. x\<lparr>ts := SLEEPING\<rparr>) s
     in Inr (upd_pcb c (\<lambda>x. x\<lparr>timeslice := ebx * 200\<rparr>) s))"

definition do_handout :: "'a procst_scheme \<Rightarrow> 'a procst_scheme res" where
  "do_handout s =
     bind_res (deref (current s)) (\<lambda>c. Inr (upd_pcb c (\<lambda>x. x\<lparr>ts := STOP\<rparr>) s))"

section \<open>Frame facts\<close>

text \<open>What survives an operation that only relinks the lists.\<close>

lemma erase_links_eqD:
  assumes "erase_links s' = erase_links s"
  shows "current s' = current s" "ts (PCBPool s' p) = ts (PCBPool s p)"
    "timeslice (PCBPool s' p) = timeslice (PCBPool s p)"
    "used (PCBPool s' p) = used (PCBPool s p)" "pid (PCBPool s' p) = pid (PCBPool s p)"
    "pgdir (PCBPool s' p) = pgdir (PCBPool s p)" "tf (PCBPool s' p) = tf (PCBPool s p)"
    "tt (PCBPool s' p) = tt (PCBPool s p)"
    "sem_used (sems s' a) = sem_used (sems s a)" "sem_count (sems s' a) = sem_count (sems s a)"
    "PCBPool_addr s' = PCBPool_addr s" "mem s' = mem s" "cr3 s' = cr3 s" "ticks s' = ticks s"
    "sched_count s' = sched_count s" "tss_esp0 s' = tss_esp0 s" "sems_addr s' = sems_addr s"
  using arg_cong [OF assms, of current] arg_cong [OF assms, of "\<lambda>s. ts (PCBPool s p)"]
    arg_cong [OF assms, of "\<lambda>s. timeslice (PCBPool s p)"]
    arg_cong [OF assms, of "\<lambda>s. used (PCBPool s p)"] arg_cong [OF assms, of "\<lambda>s. pid (PCBPool s p)"]
    arg_cong [OF assms, of "\<lambda>s. pgdir (PCBPool s p)"] arg_cong [OF assms, of "\<lambda>s. tf (PCBPool s p)"]
    arg_cong [OF assms, of "\<lambda>s. tt (PCBPool s p)"]
    arg_cong [OF assms, of "\<lambda>s. sem_used (sems s a)"] arg_cong [OF assms, of "\<lambda>s. sem_count (sems s a)"]
    arg_cong [OF assms, of PCBPool_addr] arg_cong [OF assms, of mem] arg_cong [OF assms, of cr3]
    arg_cong [OF assms, of ticks] arg_cong [OF assms, of sched_count]
    arg_cong [OF assms, of tss_esp0] arg_cong [OF assms, of sems_addr]
  by (simp_all add: erase_links_def)

text \<open>Updates of fields that are not links keep \<open>lists_ok\<close>.\<close>

lemma lists_ok_cong:
  assumes "nexts s' = nexts s" "\<And>h. get_head h s' = get_head h s"
  shows "lists_ok L s' = lists_ok L s"
  by (simp add: lists_ok_def assms)

lemma nexts_simps [simp]:
  "nexts (s\<lparr>sched_count := x\<rparr>) = nexts s" "nexts (s\<lparr>current := c\<rparr>) = nexts s"
  "nexts (s\<lparr>ticks := t\<rparr>) = nexts s" "nexts (s\<lparr>tss_esp0 := t\<rparr>) = nexts s"
  "nexts (s\<lparr>cr3 := v\<rparr>) = nexts s" "nexts (s\<lparr>sems := y\<rparr>) = nexts s"
  by (auto simp: nexts_def)

lemma get_head_simps [simp]:
  "get_head h (s\<lparr>sched_count := x\<rparr>) = get_head h s" "get_head h (s\<lparr>current := c\<rparr>) = get_head h s"
  "get_head h (s\<lparr>ticks := t\<rparr>) = get_head h s" "get_head h (s\<lparr>tss_esp0 := t\<rparr>) = get_head h s"
  "get_head h (s\<lparr>cr3 := v\<rparr>) = get_head h s"
  by (cases h; simp)+

lemma lists_ok_simps [simp]:
  "lists_ok L (s\<lparr>sched_count := x\<rparr>) = lists_ok L s" "lists_ok L (s\<lparr>current := c\<rparr>) = lists_ok L s"
  "lists_ok L (s\<lparr>ticks := t\<rparr>) = lists_ok L s" "lists_ok L (s\<lparr>tss_esp0 := t\<rparr>) = lists_ok L s"
  "lists_ok L (s\<lparr>cr3 := v\<rparr>) = lists_ok L s"
  by (simp_all add: lists_ok_def)

lemma lists_ok_upd_pcb [simp]:
  assumes "\<And>x. nxt (f x) = nxt x" "\<And>x. join_list (f x) = join_list x"
  shows "lists_ok L (upd_pcb p f s) = lists_ok L s"
  by (rule lists_ok_cong) (auto simp: assms nexts_def)

lemma upd_pcb_simps [simp]:
  "PCBPool (upd_pcb p f s) q = (if q = p then f (PCBPool s p) else PCBPool s q)"
  "current (upd_pcb p f s) = current s" "sems (upd_pcb p f s) = sems s"
  "sched_count (upd_pcb p f s) = sched_count s" "PCBPool_addr (upd_pcb p f s) = PCBPool_addr s"
  "ticks (upd_pcb p f s) = ticks s" "sleep_list (upd_pcb p f s) = sleep_list s"
  "mem (upd_pcb p f s) = mem s" "sems_addr (upd_pcb p f s) = sems_addr s"
  by (simp_all add: upd_pcb_def)

section \<open>Dispatching\<close>

text \<open>What it means that the CPU was handed to \<open>p\<close>.\<close>

definition dispatched :: "nat \<Rightarrow> 'a procst_scheme \<Rightarrow> bool" where
  "dispatched p s \<longleftrightarrow> current s = Some p \<and> ts (PCBPool s p) = RUNNING \<and>
     timeslice (PCBPool s p) = 0 \<and> cr3 s = PADDR (pgdir (PCBPool s p)) \<and>
     tss_esp0 s = kstacktop_addr s p"

lemma do_scheduler_pick:
  assumes ok: "lists_ok L s" and cur: "current s = None" and L: "L Ready_list = p # ps"
  shows "\<exists>s'. do_scheduler s = Inr (Switched s') \<and> dispatched p s' \<and>
     lists_ok (L(Ready_list := ps)) s' \<and>
     (\<forall>q. q \<noteq> p \<longrightarrow> ts (PCBPool s' q) = ts (PCBPool s q) \<and>
            timeslice (PCBPool s' q) = timeslice (PCBPool s q)) \<and>
     (\<forall>q. used (PCBPool s' q) = used (PCBPool s q) \<and> pid (PCBPool s' q) = pid (PCBPool s q)) \<and>
     (\<forall>a. sem_used (sems s' a) = sem_used (sems s a) \<and> sem_count (sems s' a) = sem_count (sems s a))"
proof -
  let ?s = "s\<lparr>sched_count := sched_count s + 1\<rparr>"
  have "lists_ok L ?s" using ok by simp
  then obtain s1 where s1: "ll_pop Ready_list ?s = Inr (Some p, s1)"
      "lists_ok (L(Ready_list := ps)) s1" "erase_links s1 = erase_links ?s"
    using pcbq.pop_cons [of L ?s Ready_list p ps] L by blast
  note e = erase_links_eqD [OF s1(3)]
  let ?s2 = "upd_pcb p (\<lambda>x. x\<lparr>timeslice := 0\<rparr>) (upd_pcb p (\<lambda>x. x\<lparr>ts := RUNNING\<rparr>) (s1\<lparr>current := Some p\<rparr>))"
  have "do_scheduler s = Inr (scheduler_switch p ?s2)"
    using s1(1) cur by (subst do_scheduler.simps) (simp add: Let_def)
  then show ?thesis
    using s1(2) e
    by (auto simp: scheduler_switch_def dispatched_def set_tss_esp0_def lcr3_def kstacktop_addr_def
        pcb_addr_def Let_def)
qed

lemma do_scheduler_empty:
  assumes "lists_ok L s" "current s = None" "L Ready_list = []"
  shows "do_scheduler s = Inl NullDeref"
proof -
  have "ll_pop Ready_list (s\<lparr>sched_count := sched_count s + 1\<rparr>)
      = Inr (None, s\<lparr>sched_count := sched_count s + 1\<rparr>)"
    using assms by (intro pcbq.pop_nil [of L]) simp_all
  then show ?thesis using assms(2) by (subst do_scheduler.simps) (simp add: Let_def)
qed

text \<open>The queue the scheduler puts the interrupted process on, if any.\<close>

definition requeue :: "TASK_STATE \<Rightarrow> u32 \<Rightarrow> ll_head option" where
  "requeue st quantum =
     (if st = SLEEPING then Some Sleep_list
      else if quantum > 2 \<or> st = STOP then Some Ready_list
      else None)"

lemma do_scheduler_keep:
  assumes "current s = Some c" "requeue (ts (PCBPool s c)) (timeslice (PCBPool s c)) = None"
  shows "do_scheduler s = Inr (Returns (s\<lparr>sched_count := sched_count s + 1\<rparr>))"
  using assms by (subst do_scheduler.simps) (auto simp: requeue_def Let_def split: if_splits)


text \<open>
  The whole of \<open>do_scheduler\<close> for an interrupted process \<open>c\<close>: it goes to the end of the queue
  \<open>requeue\<close> names, and the head of the ready queue (as it is then) gets the CPU.
\<close>

lemma do_scheduler_requeue:
  assumes ok: "lists_ok L s" and cur: "current s = Some c" and c: "c < PCBPOOLMAX"
    and fresh: "\<And>h. c \<notin> set (L h)"
    and h: "requeue (ts (PCBPool s c)) (timeslice (PCBPool s c)) = Some h"
    and L': "L' = L(h := L h @ [c])" and p: "L' Ready_list = p # ps"
  shows "\<exists>s'. do_scheduler s = Inr (Switched s') \<and> dispatched p s' \<and>
     lists_ok (L'(Ready_list := ps)) s' \<and>
     (\<forall>q. q \<noteq> p \<longrightarrow> timeslice (PCBPool s' q) = timeslice (PCBPool s q) \<and>
        ts (PCBPool s' q) = (if q = c \<and> h = Ready_list then READY else ts (PCBPool s q))) \<and>
     (\<forall>q. used (PCBPool s' q) = used (PCBPool s q) \<and> pid (PCBPool s' q) = pid (PCBPool s q)) \<and>
     (\<forall>a. sem_used (sems s' a) = sem_used (sems s a) \<and> sem_count (sems s' a) = sem_count (sems s a))"
proof -
  let ?s = "s\<lparr>sched_count := sched_count s + 1\<rparr>"
  let ?t = "if h = Ready_list then upd_pcb c (\<lambda>x. x\<lparr>ts := READY\<rparr>) ?s else ?s"
  have "lists_ok L ?t" using ok by simp
  then obtain r s1 where s1: "ll_entail h (Some c) ?t = Inr (r, s1)" "lists_ok L' s1"
      "erase_links s1 = erase_links ?t"
    using pcbq.entail_fresh [of L ?t c h] c fresh L' by blast
  note e = erase_links_eqD [OF s1(3)]
  have "do_scheduler s = do_scheduler (s1\<lparr>current := None\<rparr>)"
    using cur h s1(1)
    by (subst do_scheduler.simps) (auto simp: requeue_def Let_def split: if_splits)
  moreover obtain s' where "do_scheduler (s1\<lparr>current := None\<rparr>) = Inr (Switched s')" "dispatched p s'"
      "lists_ok (L'(Ready_list := ps)) s'"
      "\<forall>q. q \<noteq> p \<longrightarrow> ts (PCBPool s' q) = ts (PCBPool s1 q) \<and>
            timeslice (PCBPool s' q) = timeslice (PCBPool s1 q)"
      "\<forall>q. used (PCBPool s' q) = used (PCBPool s1 q) \<and> pid (PCBPool s' q) = pid (PCBPool s1 q)"
      "\<forall>a. sem_used (sems s' a) = sem_used (sems s1 a) \<and> sem_count (sems s' a) = sem_count (sems s1 a)"
    using do_scheduler_pick [of L' "s1\<lparr>current := None\<rparr>" p ps] s1(2) p by auto
  ultimately show ?thesis using e by (auto split: if_splits)
qed

lemma do_scheduler_sleep_starved:
  assumes ok: "lists_ok L s" and cur: "current s = Some c" and c: "c < PCBPOOLMAX"
    and fresh: "\<And>h. c \<notin> set (L h)" and "ts (PCBPool s c) = SLEEPING" "L Ready_list = []"
  shows "do_scheduler s = Inl NullDeref"
proof -
  let ?s = "s\<lparr>sched_count := sched_count s + 1\<rparr>"
  have "lists_ok L ?s" using ok by simp
  then obtain r s1 where s1: "ll_entail Sleep_list (Some c) ?s = Inr (r, s1)"
      "lists_ok (L(Sleep_list := L Sleep_list @ [c])) s1"
    using pcbq.entail_fresh [of L ?s c Sleep_list] c fresh by blast
  have "do_scheduler s = do_scheduler (s1\<lparr>current := None\<rparr>)"
    using cur assms(5) s1(1) by (subst do_scheduler.simps) (simp add: Let_def)
  also have "\<dots> = Inl NullDeref"
    using s1(2) assms(6) by (intro do_scheduler_empty [of "L(Sleep_list := L Sleep_list @ [c])"]) simp_all
  finally show ?thesis .
qed

section \<open>The timer\<close>

lemma chain_next: "chain f x (as @ p # bs) \<Longrightarrow> f p = (case bs of [] \<Rightarrow> None | b # _ \<Rightarrow> Some b)"
  by (induction as arbitrary: x) (auto split: list.splits)

abbreviation first :: "nat list \<Rightarrow> nat option" where
  "first xs \<equiv> (case xs of [] \<Rightarrow> None | x # _ \<Rightarrow> Some x)"

text \<open>
  What one pass over the sleepers \<open>xs\<close> does (\<open>ds\<close> are those the pass has already left asleep):
  everyone's count goes down by one, wrapping at zero, and exactly those that were at 1 move, in
  order, to the end of the ready queue.
\<close>

definition timer_post ::
  "(ll_head \<Rightarrow> nat list) \<Rightarrow> nat list \<Rightarrow> nat list \<Rightarrow> 'a procst_scheme \<Rightarrow> 'a procst_scheme \<Rightarrow> bool" where
  "timer_post L ds xs s s' \<longleftrightarrow>
     lists_ok (L(Sleep_list := ds @ filter (\<lambda>p. timeslice (PCBPool s p) \<noteq> 1) xs,
                 Ready_list := L Ready_list @ filter (\<lambda>p. timeslice (PCBPool s p) = 1) xs)) s' \<and>
     current s' = current s \<and> ticks s' = ticks s \<and>
     (\<forall>q. timeslice (PCBPool s' q) = timeslice (PCBPool s q) - (if q \<in> set xs then 1 else 0)) \<and>
     (\<forall>q. ts (PCBPool s' q)
        = (if q \<in> set xs \<and> timeslice (PCBPool s q) = 1 then READY else ts (PCBPool s q))) \<and>
     (\<forall>q. used (PCBPool s' q) = used (PCBPool s q) \<and> pid (PCBPool s' q) = pid (PCBPool s q)) \<and>
     (\<forall>a. sem_used (sems s' a) = sem_used (sems s a) \<and> sem_count (sems s' a) = sem_count (sems s a))"

lemma timer_loop_correct:
  assumes "lists_ok L s" "L Sleep_list = ds @ xs"
  shows "\<exists>s'. timer_loop (first xs) s = Some (Inr s') \<and> timer_post L ds xs s s'"
  using assms
proof (induction xs arbitrary: L s ds)
  case Nil
  then show ?case by (subst timer_loop.simps) (auto simp: timer_post_def fun_upd_idem)
next
  case (Cons c xs)
  let ?s1 = "upd_pcb c (\<lambda>x. x\<lparr>timeslice := timeslice x - 1\<rparr>) s"
  have dist: "distinct (ds @ c # xs)" using lists_okD(5) [OF Cons.prems(1), of Sleep_list] Cons.prems(2) by simp
  have nx: "nexts ?s1 c = first xs"
    using chain_next [of "nexts s" "get_head Sleep_list s" ds c xs]
      lists_okD(1) [OF Cons.prems(1), of Sleep_list] Cons.prems(2) by (simp add: nexts_def)
  have slice: "timeslice (PCBPool ?s1 c) > 0 \<longleftrightarrow> timeslice (PCBPool s c) \<noteq> 1"
    by (simp add: word_neq_0_conv [symmetric])
  have ok1: "lists_ok L ?s1" using Cons.prems(1) by simp
  have f1: "filter (\<lambda>p. timeslice (PCBPool ?s1 p) \<noteq> 1) xs = filter (\<lambda>p. timeslice (PCBPool s p) \<noteq> 1) xs"
    "filter (\<lambda>p. timeslice (PCBPool ?s1 p) = 1) xs = filter (\<lambda>p. timeslice (PCBPool s p) = 1) xs"
    using dist by (auto intro!: filter_cong)
  show ?case
  proof (cases "timeslice (PCBPool s c) = 1")
    case False
    have step: "timer_loop (first (c # xs)) s = timer_loop (first xs) ?s1"
      using False slice nx by (subst timer_loop.simps) (simp add: Let_def)
    obtain s' where s': "timer_loop (first xs) ?s1 = Some (Inr s')" "timer_post L (ds @ [c]) xs ?s1 s'"
      using Cons.IH [OF ok1, of "ds @ [c]"] Cons.prems(2) by auto
    have "timer_post L ds (c # xs) s s'"
      using s'(2) False dist unfolding timer_post_def f1 by (simp, blast)
    with s'(1) step show ?thesis by auto
  next
    case True
    let ?s2 = "upd_pcb c (\<lambda>x. x\<lparr>ts := READY\<rparr>) ?s1"
    have ok2: "lists_ok L ?s2" using ok1 by simp
    obtain s3 where s3: "ll_delete Sleep_list (Some c) ?s2 = Inr (1, s3)"
        "lists_ok (L(Sleep_list := ds @ xs)) s3" "erase_links s3 = erase_links ?s2"
      using pcbq.delete_mem [OF ok2, of c Sleep_list] Cons.prems(2) dist
      by (auto simp: remove1_append)
    have fresh: "c \<notin> set ((L(Sleep_list := ds @ xs)) h)" for h
      using dist Cons.prems(2) lists_okD(2) [OF Cons.prems(1), of c Sleep_list h] by auto
    have cmax: "c < PCBPOOLMAX" using lists_okD(4) [OF Cons.prems(1), of c Sleep_list] Cons.prems(2) by simp
    let ?L = "L(Sleep_list := ds @ xs, Ready_list := L Ready_list @ [c])"
    obtain r s4 where s4: "ll_entail Ready_list (Some c) s3 = Inr (r, s4)" "lists_ok ?L s4"
        "erase_links s4 = erase_links ?s2"
      using pcbq.entail_fresh [where L = "L(Sleep_list := ds @ xs)", OF s3(2) cmax fresh, of Ready_list] s3(3)
      by (auto simp: fun_upd_def)
    note e = erase_links_eqD [OF s4(3)]
    have step: "timer_loop (first (c # xs)) s = timer_loop (first xs) s4"
      using True slice nx s3(1) s4(1) by (subst timer_loop.simps) (simp add: Let_def)
    have f4: "filter (\<lambda>p. timeslice (PCBPool s4 p) \<noteq> 1) xs = filter (\<lambda>p. timeslice (PCBPool s p) \<noteq> 1) xs"
      "filter (\<lambda>p. timeslice (PCBPool s4 p) = 1) xs = filter (\<lambda>p. timeslice (PCBPool s p) = 1) xs"
      using dist e(3) by (auto intro!: filter_cong)
    have L4: "?L(Sleep_list := ds @ ys, Ready_list := ?L Ready_list @ zs)
        = L(Sleep_list := ds @ ys, Ready_list := L Ready_list @ c # zs)" for ys zs
      by (auto simp: fun_eq_iff)
    have "\<exists>s'. timer_loop (first xs) s4 = Some (Inr s') \<and> timer_post ?L ds xs s4 s'"
      by (rule Cons.IH [OF s4(2)]) simp
    then obtain s' where s': "timer_loop (first xs) s4 = Some (Inr s')" "timer_post ?L ds xs s4 s'"
      by blast
    have "timer_post L ds (c # xs) s s'"
      using s'(2) True dist e unfolding timer_post_def f4 L4 by (simp, blast?)
    with s'(1) step show ?thesis by auto
  qed
qed


lemma do_timer_post:
  assumes ok: "lists_ok L s" and cur: "current s = Some c" and fresh: "\<And>h. c \<notin> set (L h)"
  shows "\<exists>s'. do_timer s = Inr s' \<and> timer_post L [] (L Sleep_list)
     (upd_pcb c (\<lambda>x. x\<lparr>timeslice := timeslice x + 1\<rparr>) (s\<lparr>ticks := ticks s + 1\<rparr>)) s'"
proof -
  let ?s = "upd_pcb c (\<lambda>x. x\<lparr>timeslice := timeslice x + 1\<rparr>) (s\<lparr>ticks := ticks s + 1\<rparr>)"
  have ok': "lists_ok L ?s" using ok by simp
  have head: "sleep_list s = first (L Sleep_list)"
    using lists_okD(1) [OF ok, of Sleep_list] by (cases "L Sleep_list") auto
  have "\<exists>s'. timer_loop (first (L Sleep_list)) ?s = Some (Inr s') \<and>
      timer_post L [] (L Sleep_list) ?s s'"
    by (rule timer_loop_correct [OF ok']) simp
  then show ?thesis using cur head by (auto simp: do_timer_def Let_def)
qed

lemma do_timer_effect:
  assumes "lists_ok L s" "current s = Some c" "\<And>h. c \<notin> set (L h)"
  shows "\<exists>s'. do_timer s = Inr s' \<and>
     lists_ok (L(Sleep_list := filter (\<lambda>p. timeslice (PCBPool s p) \<noteq> 1) (L Sleep_list),
                 Ready_list := L Ready_list @ filter (\<lambda>p. timeslice (PCBPool s p) = 1) (L Sleep_list))) s' \<and>
     current s' = Some c \<and> ticks s' = ticks s + 1 \<and>
     timeslice (PCBPool s' c) = timeslice (PCBPool s c) + 1 \<and>
     (\<forall>p \<in> set (L Sleep_list). timeslice (PCBPool s' p) = timeslice (PCBPool s p) - 1 \<and>
        ts (PCBPool s' p) = (if timeslice (PCBPool s p) = 1 then READY else ts (PCBPool s p))) \<and>
     (\<forall>p. p \<noteq> c \<and> p \<notin> set (L Sleep_list) \<longrightarrow> timeslice (PCBPool s' p) = timeslice (PCBPool s p) \<and>
        ts (PCBPool s' p) = ts (PCBPool s p))"
proof -
  let ?s = "upd_pcb c (\<lambda>x. x\<lparr>timeslice := timeslice x + 1\<rparr>) (s\<lparr>ticks := ticks s + 1\<rparr>)"
  have eq: "timeslice (PCBPool ?s p) = timeslice (PCBPool s p)" if "p \<in> set (L Sleep_list)" for p
    using assms(3) [of Sleep_list] that by auto
  have f: "filter (\<lambda>p. timeslice (PCBPool ?s p) \<noteq> 1) (L Sleep_list)
      = filter (\<lambda>p. timeslice (PCBPool s p) \<noteq> 1) (L Sleep_list)"
    "filter (\<lambda>p. timeslice (PCBPool ?s p) = 1) (L Sleep_list)
      = filter (\<lambda>p. timeslice (PCBPool s p) = 1) (L Sleep_list)"
    using assms(3) [of Sleep_list] by (auto intro!: filter_cong)
  obtain s' where s': "do_timer s = Inr s'" "timer_post L [] (L Sleep_list) ?s s'"
    using do_timer_post [OF assms] by blast
  have "c \<notin> set (L Sleep_list)" by (rule assms(3))
  with s' assms(2) show ?thesis
    unfolding timer_post_def f by auto
qed

text \<open>
  C7. The timer interrupt: in a state whose lists are well formed, \<open>do_timer\<close> counts every sleeper
  down by one, moves exactly the sleepers whose count was 1 to the end of the ready queue in
  their order, marks them ready, charges one tick to the running process, and changes nothing else.
\<close>

theorem do_timer_wakes:
  assumes "lists_ok L s" "current s = Some c" "\<And>h. c \<notin> set (L h)"
  shows "\<exists>s'. do_timer s = Inr s' \<and>
     lists_ok (L(Sleep_list := filter (\<lambda>p. timeslice (PCBPool s p) \<noteq> 1) (L Sleep_list),
                 Ready_list := L Ready_list @ filter (\<lambda>p. timeslice (PCBPool s p) = 1) (L Sleep_list))) s' \<and>
     current s' = Some c \<and> ticks s' = ticks s + 1 \<and>
     timeslice (PCBPool s' c) = timeslice (PCBPool s c) + 1 \<and>
     (\<forall>p \<in> set (L Sleep_list). timeslice (PCBPool s' p) = timeslice (PCBPool s p) - 1 \<and>
        ts (PCBPool s' p) = (if timeslice (PCBPool s p) = 1 then READY else ts (PCBPool s p))) \<and>
     (\<forall>p. p \<noteq> c \<and> p \<notin> set (L Sleep_list) \<longrightarrow> timeslice (PCBPool s' p) = timeslice (PCBPool s p) \<and>
        ts (PCBPool s' p) = ts (PCBPool s p))"
  by (rule do_timer_effect [OF assms])

theorem do_timer_wakes_witness:
  "\<exists>s'. do_timer sample = Inr s' \<and> current s' = Some 1 \<and> ts (PCBPool s' 3) = READY \<and>
     timeslice (PCBPool s' 3) = 0"
  using do_timer_wakes [OF sample_lists_ok sample_current(1,3)]
  by (auto simp: sample_queues_def sample_def)

section \<open>How long a sleep lasts\<close>

primrec timer_run :: "nat \<Rightarrow> 'a procst_scheme \<Rightarrow> 'a procst_scheme res" where
  "timer_run 0 s = Inr s"
| "timer_run (Suc n) s = bind_res (do_timer s) (timer_run n)"

text \<open>
  The number of ticks before a sleeper with count \<open>w\<close> is woken.  The decrement comes before the
  test, so a count of 0 wraps around.
\<close>

definition sleep_ticks :: "u32 \<Rightarrow> nat" where
  "sleep_ticks w = (if w = 0 then 2 ^ 32 else unat w)"

lemma sleep_ticks_step: "w \<noteq> 1 \<Longrightarrow> sleep_ticks w = Suc (sleep_ticks (w - 1))"
proof -
  assume "w \<noteq> 1"
  then have "w - 1 \<noteq> 0" by simp
  moreover have "unat (w - 1) = (if w = 0 then 2 ^ 32 - 1 else unat w - 1)"
    by (auto simp: unat_minus_one unsigned_minus_1_eq_mask mask_eq_exp_minus_1)
  moreover have "w \<noteq> 0 \<Longrightarrow> 0 < unat w" by (simp add: unat_gt_0)
  ultimately show ?thesis by (auto simp: sleep_ticks_def)
qed

text \<open>
  C30. A sleeper whose remaining count is \<open>w\<close> is asleep after \<open>n\<close> timer interrupts exactly as long as
  \<open>n < sleep_ticks w\<close>; afterwards it is on the ready queue.
\<close>

theorem sleep_duration:
  assumes "lists_ok L s" "current s = Some c" "\<And>h. c \<notin> set (L h)" "p \<in> set (L Sleep_list)"
  shows "\<exists>s' L'. timer_run n s = Inr s' \<and> lists_ok L' s' \<and>
     p \<in> set (L' (if n < sleep_ticks (timeslice (PCBPool s p)) then Sleep_list else Ready_list))"
proof -
  have ready: "\<exists>s' L'. timer_run n s = Inr s' \<and> lists_ok L' s' \<and> p \<in> set (L' Ready_list)"
    if "lists_ok L s" "current s = Some c" "\<And>h. c \<notin> set (L h)" "p \<in> set (L Ready_list)"
    for n and L and s :: "'a procst_scheme"
    using that
  proof (induction n arbitrary: L s)
    case (Suc n)
    let ?L = "L(Sleep_list := filter (\<lambda>p. timeslice (PCBPool s p) \<noteq> 1) (L Sleep_list),
      Ready_list := L Ready_list @ filter (\<lambda>p. timeslice (PCBPool s p) = 1) (L Sleep_list))"
    obtain s1 where s1: "do_timer s = Inr s1" "lists_ok ?L s1" "current s1 = Some c"
      using do_timer_effect [OF Suc.prems(1-3)] by blast
    have "\<exists>s' L'. timer_run n s1 = Inr s' \<and> lists_ok L' s' \<and> p \<in> set (L' Ready_list)"
      by (rule Suc.IH [OF s1(2,3)]) (use Suc.prems(3,4) in auto)
    with s1(1) show ?case by simp
  qed auto
  show ?thesis
    using assms
  proof (induction n arbitrary: L s)
    case 0
    have "0 < sleep_ticks (timeslice (PCBPool s p))" by (simp add: sleep_ticks_def unat_gt_0)
    with 0 show ?case by auto
  next
    case (Suc n)
    let ?L = "L(Sleep_list := filter (\<lambda>p. timeslice (PCBPool s p) \<noteq> 1) (L Sleep_list),
      Ready_list := L Ready_list @ filter (\<lambda>p. timeslice (PCBPool s p) = 1) (L Sleep_list))"
    obtain s1 where s1: "do_timer s = Inr s1" "lists_ok ?L s1" "current s1 = Some c"
        "timeslice (PCBPool s1 p) = timeslice (PCBPool s p) - 1"
      using do_timer_effect [OF Suc.prems(1-3)] Suc.prems(4) by blast
    have fresh: "c \<notin> set (?L h)" for h using Suc.prems(3) by auto
    show ?case
    proof (cases "timeslice (PCBPool s p) = 1")
      case True
      then show ?thesis
        using ready [OF s1(2,3) fresh, of n] s1(1) Suc.prems(4) by (auto simp: sleep_ticks_def)
    next
      case False
      then have "\<exists>s' L'. timer_run n s1 = Inr s' \<and> lists_ok L' s' \<and>
          p \<in> set (L' (if n < sleep_ticks (timeslice (PCBPool s1 p)) then Sleep_list else Ready_list))"
        using Suc.prems(4) by (intro Suc.IH [OF s1(2,3) fresh]) auto
      with s1 False show ?thesis using sleep_ticks_step [OF False] by simp
    qed
  qed
qed

theorem sleep_duration_witness:
  "\<exists>s' L'. timer_run 5 sample = Inr s' \<and> lists_ok L' s' \<and> 3 \<in> set (L' Ready_list)"
  using sleep_duration [OF sample_lists_ok sample_current(1,3), of 3 5]
  by (auto simp: sample_queues_def sample_def sleep_ticks_def)


section \<open>Yielding in turn\<close>

text \<open>
  A process that calls \<^verbatim>\<open>do_handout\<close> is marked and then scheduled away on the same interrupt.
\<close>

definition do_yield :: "'a procst_scheme \<Rightarrow> 'a procst_scheme ctl res" where
  "do_yield s = bind_res (do_handout s) do_scheduler"

primrec yields :: "nat \<Rightarrow> 'a procst_scheme \<Rightarrow> 'a procst_scheme res" where
  "yields 0 s = Inr s"
| "yields (Suc n) s = bind_res (do_yield s) (\<lambda>c. yields n (ctl_state c))"

lemma do_yield_effect:
  assumes ok: "lists_ok L s" and cur: "current s = Some c" "c < PCBPOOLMAX" "\<And>h. c \<notin> set (L h)"
    and p: "L Ready_list @ [c] = p # ps"
  shows "\<exists>s'. do_yield s = Inr (Switched s') \<and> dispatched p s' \<and> lists_ok (L(Ready_list := ps)) s'"
proof -
  let ?s = "upd_pcb c (\<lambda>x. x\<lparr>ts := STOP\<rparr>) s"
  have "\<exists>s'. do_scheduler ?s = Inr (Switched s') \<and> dispatched p s' \<and>
      lists_ok ((L(Ready_list := L Ready_list @ [c]))(Ready_list := ps)) s'"
    using do_scheduler_requeue [of L ?s c Ready_list "L(Ready_list := L Ready_list @ [c])" p ps] assms
    by (auto simp: requeue_def)
  then show ?thesis using cur(1) by (simp add: do_yield_def do_handout_def)
qed

text \<open>
  C8. Round robin: if every process yields when it gets the CPU, then after \<open>n\<close> yields the ring made
  of the running process and the ready queue has turned by \<open>n\<close>.  No yield faults, and the
  order of the ring never changes.
\<close>

theorem round_robin:
  assumes "lists_ok L s" "current s = Some c" "c < PCBPOOLMAX" "\<And>h. c \<notin> set (L h)"
  shows "\<exists>s' q qs. yields n s = Inr s' \<and> rotate n (c # L Ready_list) = q # qs \<and>
     current s' = Some q \<and> lists_ok (L(Ready_list := qs)) s'"
  using assms
proof (induction n arbitrary: L s c)
  case 0
  then show ?case
    by (intro exI [of _ s] exI [of _ c] exI [of _ "L Ready_list"]) simp
next
  case (Suc n)
  obtain p ps where p: "L Ready_list @ [c] = p # ps" by (cases "L Ready_list @ [c]") auto
  obtain s1 where s1: "do_yield s = Inr (Switched s1)" "dispatched p s1" "lists_ok (L(Ready_list := ps)) s1"
    using do_yield_effect [OF Suc.prems p] by blast
  let ?L = "L(Ready_list := ps)"
  have "distinct (L Ready_list @ [c])"
    using lists_okD(5) [OF Suc.prems(1), of Ready_list] Suc.prems(4) by simp
  then have d: "p \<notin> set ps" using p by (metis distinct.simps(2))
  have mem: "p \<in> set (L Ready_list) \<or> p = c"
  proof -
    have "p \<in> set (L Ready_list @ [c])" unfolding p by simp
    then show ?thesis by auto
  qed
  have fresh: "p \<notin> set (?L h)" for h
    using d mem lists_okD(2) [OF Suc.prems(1), of p Ready_list h] Suc.prems(4) [of h] by auto
  have max: "p < PCBPOOLMAX" using mem lists_okD(4) [OF Suc.prems(1), of p Ready_list] Suc.prems(3) by auto
  have "\<exists>s' q qs. yields n s1 = Inr s' \<and> rotate n (p # ?L Ready_list) = q # qs \<and>
      current s' = Some q \<and> lists_ok (?L(Ready_list := qs)) s'"
    by (rule Suc.IH [OF s1(3) _ max fresh]) (use s1(2) in \<open>simp add: dispatched_def\<close>)
  moreover have "rotate (Suc n) (c # L Ready_list) = rotate n (p # ps)"
    using p by (simp add: rotate1_rotate_swap)
  ultimately show ?case using s1(1) by (simp del: fun_upd_apply add: fun_upd_same)
qed

theorem round_robin_witness:
  "\<exists>s'. yields 4 sample = Inr s' \<and> current s' = Some 0"
  using round_robin [OF sample_lists_ok sample_current, of 4]
  by (auto simp: sample_queues_def eval_nat_numeral)

section \<open>Exit and join\<close>

lemma find_pid_spec:
  "n \<le> PCBPOOLMAX \<Longrightarrow>
     (find_pid n k pool < PCBPOOLMAX \<and> pid (pool (find_pid n k pool)) = k) \<or>
     (find_pid n k pool = PCBPOOLMAX \<and> (\<forall>i. PCBPOOLMAX - n \<le> i \<and> i < PCBPOOLMAX \<longrightarrow> pid (pool i) \<noteq> k))"
proof (induction n)
  case (Suc n)
  have eq: "PCBPOOLMAX - n = Suc (PCBPOOLMAX - Suc n)" using Suc.prems by simp
  have lt: "PCBPOOLMAX - Suc n < PCBPOOLMAX" using Suc.prems by simp
  show ?case
  proof (cases "pid (pool (PCBPOOLMAX - Suc n)) = k")
    case True
    with lt show ?thesis by (simp add: Let_def)
  next
    case False
    have "pid (pool i) \<noteq> k"
      if "\<forall>i. PCBPOOLMAX - n \<le> i \<and> i < PCBPOOLMAX \<longrightarrow> pid (pool i) \<noteq> k"
        "PCBPOOLMAX - Suc n \<le> i" "i < PCBPOOLMAX" for i
      using that False eq by (cases "i = PCBPOOLMAX - Suc n") auto
    with Suc False show ?thesis by (auto simp: Let_def)
  qed
qed auto

lemma exit_current_effect:
  assumes ok: "lists_ok L s" and cur: "current s = Some c"
    and p: "L Ready_list @ filter (\<lambda>q. used (PCBPool s q) \<noteq> 0) (L (Join_list c)) = p # ps"
  shows "\<exists>s'. exit_current s = Inr (Switched s') \<and> dispatched p s' \<and> used (PCBPool s' c) = 0 \<and>
     lists_ok (L(Join_list c := [], Ready_list := ps)) s' \<and>
     (\<forall>q. q \<noteq> c \<longrightarrow> used (PCBPool s' q) = used (PCBPool s q)) \<and>
     (\<forall>q. q \<noteq> p \<longrightarrow> ts (PCBPool s' q) = ts (PCBPool s q)) \<and>
     (\<forall>a. sem_used (sems s' a) = sem_used (sems s a) \<and> sem_count (sems s' a) = sem_count (sems s a))"
proof -
  let ?k = "\<lambda>q. used (PCBPool s q) \<noteq> 0"
  let ?L = "L(Join_list c := [], Ready_list := L Ready_list @ filter ?k (L (Join_list c)))"
  have "\<exists>s1. drain (ll_pop (Join_list c)) (\<lambda>p s. used (PCBPool s p) \<noteq> 0) (ll_entail Ready_list) s
      = Some (Inr s1) \<and> lists_ok ?L s1 \<and> erase_links s1 = erase_links s"
    by (rule pcbq.drain_moves [OF ok]) (simp_all, metis erase_links_eqD(4))
  then obtain s1 where s1: "drain (ll_pop (Join_list c)) (\<lambda>p s. used (PCBPool s p) \<noteq> 0)
      (ll_entail Ready_list) s = Some (Inr s1)" "lists_ok ?L s1" "erase_links s1 = erase_links s"
    by blast
  note e = erase_links_eqD [OF s1(3)]
  let ?t = "(free_pcb c s1)\<lparr>current := None\<rparr>"
  have "exit_current s = do_scheduler ?t"
    using cur s1(1) by (simp add: exit_current_def)
  moreover have "lists_ok ?L ?t" using s1(2) by (simp add: free_pcb_def)
  then have "\<exists>s'. do_scheduler ?t = Inr (Switched s') \<and> dispatched p s' \<and>
     lists_ok (?L(Ready_list := ps)) s' \<and>
     (\<forall>q. q \<noteq> p \<longrightarrow> ts (PCBPool s' q) = ts (PCBPool ?t q) \<and>
            timeslice (PCBPool s' q) = timeslice (PCBPool ?t q)) \<and>
     (\<forall>q. used (PCBPool s' q) = used (PCBPool ?t q) \<and> pid (PCBPool s' q) = pid (PCBPool ?t q)) \<and>
     (\<forall>a. sem_used (sems s' a) = sem_used (sems ?t a) \<and> sem_count (sems s' a) = sem_count (sems ?t a))"
    by (rule do_scheduler_pick) (use p in simp_all)
  ultimately show ?thesis using e by (auto simp: free_pcb_def)
qed

text \<open>
  C11. \<open>exit_current\<close> frees the slot of the running process, wakes every live process that is joining
  it (in the order in which they called join, at the end of the ready queue) and hands the CPU to
  the head of the ready queue.
\<close>

theorem exit_wakes_joiners:
  assumes "lists_ok L s" "current s = Some c"
    and "L Ready_list @ filter (\<lambda>q. used (PCBPool s q) \<noteq> 0) (L (Join_list c)) = p # ps"
  shows "\<exists>s'. exit_current s = Inr (Switched s') \<and> dispatched p s' \<and> used (PCBPool s' c) = 0 \<and>
     lists_ok (L(Join_list c := [], Ready_list := ps)) s' \<and>
     (\<forall>q. q \<noteq> c \<longrightarrow> used (PCBPool s' q) = used (PCBPool s q))"
  using exit_current_effect [OF assms] by auto

theorem exit_wakes_joiners_witness:
  "\<exists>s'. exit_current sample = Inr (Switched s') \<and> dispatched 0 s' \<and> used (PCBPool s' 1) = 0 \<and>
     lists_ok (sample_queues(Join_list 1 := [], Ready_list := [2, 4])) s'"
  using exit_wakes_joiners [OF sample_lists_ok sample_current(1), of 0 "[2, 4]"]
  by (auto simp: sample_queues_def sample_def)

lemma join_current_effect:
  assumes ok: "lists_ok L s" and cur: "current s = Some c" "c < PCBPOOLMAX" "\<And>h. c \<notin> set (L h)"
    and k: "k \<noteq> 0" "find_pid PCBPOOLMAX k (PCBPool s) = i" "i \<noteq> PCBPOOLMAX" "used (PCBPool s i) \<noteq> 0"
    and p: "L Ready_list = p # ps"
  shows "\<exists>s'. join_current k s = Inr (Switched s') \<and> dispatched p s' \<and>
     lists_ok (L(Join_list i := L (Join_list i) @ [c], Ready_list := ps)) s' \<and>
     (\<forall>q. used (PCBPool s' q) = used (PCBPool s q)) \<and>
     (\<forall>q. q \<noteq> p \<longrightarrow> ts (PCBPool s' q) = ts (PCBPool s q)) \<and>
     (\<forall>a. sem_used (sems s' a) = sem_used (sems s a) \<and> sem_count (sems s' a) = sem_count (sems s a))"
proof -
  let ?L = "L(Join_list i := L (Join_list i) @ [c])"
  obtain r s1 where s1: "ll_entail (Join_list i) (Some c) s = Inr (r, s1)" "lists_ok ?L s1"
      "erase_links s1 = erase_links s"
    using pcbq.entail_fresh [OF ok cur(2,3), of "Join_list i"] by blast
  note e = erase_links_eqD [OF s1(3)]
  have "join_current k s = do_scheduler (s1\<lparr>current := None\<rparr>)"
    using k cur(1) s1(1) by (simp add: join_current_def Let_def)
  moreover have "lists_ok ?L (s1\<lparr>current := None\<rparr>)" using s1(2) by simp
  then have "\<exists>s'. do_scheduler (s1\<lparr>current := None\<rparr>) = Inr (Switched s') \<and> dispatched p s' \<and>
     lists_ok (?L(Ready_list := ps)) s' \<and>
     (\<forall>q. q \<noteq> p \<longrightarrow> ts (PCBPool s' q) = ts (PCBPool (s1\<lparr>current := None\<rparr>) q) \<and>
            timeslice (PCBPool s' q) = timeslice (PCBPool (s1\<lparr>current := None\<rparr>) q)) \<and>
     (\<forall>q. used (PCBPool s' q) = used (PCBPool (s1\<lparr>current := None\<rparr>) q) \<and>
        pid (PCBPool s' q) = pid (PCBPool (s1\<lparr>current := None\<rparr>) q)) \<and>
     (\<forall>a. sem_used (sems s' a) = sem_used (sems (s1\<lparr>current := None\<rparr>) a) \<and>
        sem_count (sems s' a) = sem_count (sems (s1\<lparr>current := None\<rparr>) a))"
    by (rule do_scheduler_pick) (use p in simp_all)
  ultimately show ?thesis using e by auto
qed

lemma join_current_returns:
  assumes "k = 0 \<or> find_pid PCBPOOLMAX k (PCBPool s) = PCBPOOLMAX
     \<or> used (PCBPool s (find_pid PCBPOOLMAX k (PCBPool s))) = 0"
  shows "join_current k s = Inr (Returns s)"
  using assms by (auto simp: join_current_def Let_def)

end
