(* ===== verification/Semaphores.thy ===== *)
theory Semaphores
  imports Scheduler
begin

text \<open>
  Counting semaphores: \<^verbatim>\<open>src/kernel/src/semaphore.c\<close>.  The member \<^verbatim>\<open>count\<close> is a C \<^verbatim>\<open>int\<close>, read
  here with \<open>sint\<close>; a negative count means that many processes are blocked.
\<close>

section \<open>Operations\<close>

definition NR_SEMS :: nat where "NR_SEMS = 1000"

definition upd_sem :: "u32 \<Rightarrow> (Semaphore \<Rightarrow> Semaphore) \<Rightarrow> 'a procst_scheme \<Rightarrow> 'a procst_scheme" where
  "upd_sem a f s = s\<lparr>sems := (sems s)(a := f (sems s a))\<rparr>"

definition sem_init_kr :: "u32 \<Rightarrow> u32 \<Rightarrow> 'a procst_scheme \<Rightarrow> 'a procst_scheme" where
  "sem_init_kr sem count s =
     (if sem_used (sems s sem) = 0
      then upd_sem sem (\<lambda>x. x\<lparr>sem_used := 1\<rparr>) (upd_sem sem (\<lambda>x. x\<lparr>sem_count := count\<rparr>) s)
      else s)"

definition sem_close_kr :: "u32 \<Rightarrow> 'a procst_scheme \<Rightarrow> 'a procst_scheme res" where
  "sem_close_kr sem s =
     (if sem_used (sems s sem) \<noteq> 0
      then
        (let s = upd_sem sem (\<lambda>x. x\<lparr>sem_used := 0\<rparr>) s in
         bind_res (loop_res (drain (ll_pop (Block_list sem)) (\<lambda>p s. True) (ll_entail Ready_list) s)) id)
      else Inr s)"

definition sem_post_kr :: "u32 \<Rightarrow> 'a procst_scheme \<Rightarrow> 'a procst_scheme res" where
  "sem_post_kr sem s =
     (if sem_used (sems s sem) = 0 then Inr s
      else
        (let s = upd_sem sem (\<lambda>x. x\<lparr>sem_count := sem_count x + 1\<rparr>) s in
         if sint (sem_count (sems s sem)) \<le> 0 then
           bind_res (ll_pop (Block_list sem) s) (\<lambda>(pcb, s).
           bind_res (ll_entail Ready_list pcb s) (\<lambda>(_, s). Inr s))
         else Inr s))"

definition sem_wait_kr :: "u32 \<Rightarrow> 'a procst_scheme \<Rightarrow> 'a procst_scheme ctl res" where
  "sem_wait_kr sem s =
     (if sem_used (sems s sem) = 0 then Inr (Returns s)
      else
        (let s = upd_sem sem (\<lambda>x. x\<lparr>sem_count := sem_count x - 1\<rparr>) s in
         if sint (sem_count (sems s sem)) < 0 then
           bind_res (ll_entail (Block_list sem) (current s) s) (\<lambda>(_, s).
           do_scheduler (s\<lparr>current := None\<rparr>))
         else Inr (Returns s)))"

definition sem_trywait_kr :: "u32 \<Rightarrow> 'a procst_scheme \<Rightarrow> int \<times> 'a procst_scheme" where
  "sem_trywait_kr sem s =
     (if sem_used (sems s sem) = 0 then (-1, s)
      else if sint (sem_count (sems s sem)) \<le> 0 then (0, s)
      else (1, upd_sem sem (\<lambda>x. x\<lparr>sem_count := sem_count x - 1\<rparr>) s))"

definition sem_get_kr :: "u32 \<Rightarrow> 'a procst_scheme \<Rightarrow> int" where
  "sem_get_kr sem s = (if sem_used (sems s sem) = 0 then 0 else sint (sem_count (sems s sem)))"

text \<open>\<^verbatim>\<open>sizeof(Semaphore)\<close> is 12; an index outside the table is not checked by the code.\<close>

definition sem_open_kr :: "u32 \<Rightarrow> u32 \<Rightarrow> 'a procst_scheme \<Rightarrow> (u32 \<times> 'a procst_scheme) res" where
  "sem_open_kr index count s =
     (if unat index < NR_SEMS
      then (let sem = sems_addr s + 12 * index in Inr (sem, sem_init_kr sem count s))
      else Inl OutOfBounds)"

section \<open>The invariant\<close>

text \<open>
  A semaphore in use with a negative count has exactly that many processes blocked on it; any
  other semaphore has none.
\<close>

definition sem_ok :: "(ll_head \<Rightarrow> nat list) \<Rightarrow> 'a procst_scheme \<Rightarrow> u32 \<Rightarrow> bool" where
  "sem_ok L s a \<longleftrightarrow>
     (if sem_used (sems s a) = 0 then L (Block_list a) = []
      else int (length (L (Block_list a))) = max 0 (- sint (sem_count (sems s a))))"

lemma upd_sem_simps [simp]:
  "sems (upd_sem a f s) b = (if b = a then f (sems s a) else sems s b)"
  "current (upd_sem a f s) = current s" "PCBPool (upd_sem a f s) = PCBPool s"
  "nexts (upd_sem a f s) = nexts s"
  by (auto simp: upd_sem_def nexts_def)

lemma get_head_upd_sem [simp]:
  "(\<And>x. block_list (f x) = block_list x) \<Longrightarrow> get_head h (upd_sem a f s) = get_head h s"
  by (cases h) (auto simp: upd_sem_def)

lemma lists_ok_upd_sem [simp]:
  "(\<And>x. block_list (f x) = block_list x) \<Longrightarrow> lists_ok L (upd_sem a f s) = lists_ok L s"
  by (rule lists_ok_cong) simp_all

lemma sem_ok_cong:
  assumes "sem_used (sems s' a) = sem_used (sems s a)" "sem_count (sems s' a) = sem_count (sems s a)"
    "L' (Block_list a) = L (Block_list a)"
  shows "sem_ok L' s' a = sem_ok L s a"
  using assms by (simp add: sem_ok_def)

lemma sint_dec: "- (2 ^ 31) < sint (w :: u32) \<Longrightarrow> sint (w - 1) = sint w - 1"
  using sint_lt [of w] by (simp add: sint_word_ariths signed_take_bit_int_eq_self)

lemma sint_inc: "sint (w :: u32) < 2 ^ 31 - 1 \<Longrightarrow> sint (w + 1) = sint w + 1"
  using sint_ge [of w] by (simp add: sint_word_ariths signed_take_bit_int_eq_self)


text \<open>At most \<open>PCBPOOLMAX\<close> processes can be blocked, so the count never nears \<^verbatim>\<open>INT_MIN\<close>.\<close>

lemma queue_length_le: "lists_ok L s \<Longrightarrow> length (L h) \<le> PCBPOOLMAX"
proof -
  assume ok: "lists_ok L s"
  have "length (L h) = card (set (L h))" using lists_okD(5) [OF ok, of h] by (simp add: distinct_card)
  also have "\<dots> \<le> card {..<PCBPOOLMAX}"
    using lists_okD(4) [OF ok] by (intro card_mono) auto
  finally show ?thesis by simp
qed

lemma sem_count_lower:
  assumes "lists_ok L s" "sem_ok L s a" "sem_used (sems s a) \<noteq> 0"
  shows "- 1000 \<le> sint (sem_count (sems s a))"
  using queue_length_le [OF assms(1), of "Block_list a"] assms(2,3)
  by (simp add: sem_ok_def PCBPOOLMAX_def)

lemma sem_wait_blocks:
  assumes ok: "lists_ok L s" and cur: "current s = Some c" "c < PCBPOOLMAX" "\<And>h. c \<notin> set (L h)"
    and sem: "sem_ok L s a" "sem_used (sems s a) \<noteq> 0" "sint (sem_count (sems s a)) \<le> 0"
    and p: "L Ready_list = p # ps"
  shows "\<exists>s'. sem_wait_kr a s = Inr (Switched s') \<and> dispatched p s' \<and>
     lists_ok (L(Block_list a := L (Block_list a) @ [c], Ready_list := ps)) s' \<and>
     sint (sem_count (sems s' a)) = sint (sem_count (sems s a)) - 1 \<and>
     (\<forall>b. sem_used (sems s' b) = sem_used (sems s b)) \<and>
     (\<forall>b. b \<noteq> a \<longrightarrow> sem_count (sems s' b) = sem_count (sems s b)) \<and>
     (\<forall>q. q \<noteq> p \<longrightarrow> ts (PCBPool s' q) = ts (PCBPool s q)) \<and>
     (\<forall>q. used (PCBPool s' q) = used (PCBPool s q))"
proof -
  let ?s = "upd_sem a (\<lambda>x. x\<lparr>sem_count := sem_count x - 1\<rparr>) s"
  let ?L = "L(Block_list a := L (Block_list a) @ [c])"
  have dec: "sint (sem_count (sems s a) - 1) = sint (sem_count (sems s a)) - 1"
    using sem_count_lower [OF ok sem(1,2)] by (intro sint_dec) simp
  have ok1: "lists_ok L ?s" using ok by simp
  obtain r s1 where s1: "ll_entail (Block_list a) (Some c) ?s = Inr (r, s1)" "lists_ok ?L s1"
      "erase_links s1 = erase_links ?s"
    using pcbq.entail_fresh [OF ok1 cur(2,3), of "Block_list a"] by blast
  note e = erase_links_eqD [OF s1(3)]
  let ?t = "s1\<lparr>current := None\<rparr>"
  have "sem_wait_kr a s = do_scheduler ?t"
    using sem cur(1) s1(1) dec by (simp add: sem_wait_kr_def Let_def)
  moreover have "lists_ok ?L ?t" using s1(2) by simp
  then have "\<exists>s'. do_scheduler ?t = Inr (Switched s') \<and> dispatched p s' \<and>
     lists_ok (?L(Ready_list := ps)) s' \<and>
     (\<forall>q. q \<noteq> p \<longrightarrow> ts (PCBPool s' q) = ts (PCBPool ?t q) \<and>
            timeslice (PCBPool s' q) = timeslice (PCBPool ?t q)) \<and>
     (\<forall>q. used (PCBPool s' q) = used (PCBPool ?t q) \<and> pid (PCBPool s' q) = pid (PCBPool ?t q)) \<and>
     (\<forall>a. sem_used (sems s' a) = sem_used (sems ?t a) \<and> sem_count (sems s' a) = sem_count (sems ?t a))"
    by (rule do_scheduler_pick) (use p in simp_all)
  ultimately show ?thesis using e dec by auto
qed

lemma sem_wait_proceeds:
  assumes "sem_used (sems s a) \<noteq> 0" "0 < sint (sem_count (sems s a))"
  shows "sem_wait_kr a s = Inr (Returns (upd_sem a (\<lambda>x. x\<lparr>sem_count := sem_count x - 1\<rparr>) s))"
  using assms sint_dec [of "sem_count (sems s a)"] by (simp add: sem_wait_kr_def Let_def)

lemma sem_post_wakes:
  assumes ok: "lists_ok L s"
    and sem: "sem_used (sems s a) \<noteq> 0" "sint (sem_count (sems s a)) < 0"
    and p: "L (Block_list a) = p # ps"
  shows "\<exists>s'. sem_post_kr a s = Inr s' \<and>
     lists_ok (L(Block_list a := ps, Ready_list := L Ready_list @ [p])) s' \<and>
     erase_links s' = erase_links (upd_sem a (\<lambda>x. x\<lparr>sem_count := sem_count x + 1\<rparr>) s)"
proof -
  let ?s = "upd_sem a (\<lambda>x. x\<lparr>sem_count := sem_count x + 1\<rparr>) s"
  have ok1: "lists_ok L ?s" using ok by simp
  obtain s1 r s' where "ll_pop (Block_list a) ?s = Inr (Some p, s1)"
      "ll_entail Ready_list (Some p) s1 = Inr (r, s')"
      "lists_ok (L(Block_list a := ps, Ready_list := L Ready_list @ [p])) s'"
      "erase_links s' = erase_links ?s"
    using pcbq.transfer [OF ok1 p, of Ready_list] by auto
  moreover have "sint (sem_count (sems s a) + 1) \<le> 0"
    using sint_inc [of "sem_count (sems s a)"] sem(2) by simp
  ultimately show ?thesis using sem by (simp add: sem_post_kr_def Let_def)
qed

lemma sem_post_counts:
  assumes "sem_used (sems s a) \<noteq> 0" "0 \<le> sint (sem_count (sems s a))"
    "sint (sem_count (sems s a)) < 2 ^ 31 - 1"
  shows "sem_post_kr a s = Inr (upd_sem a (\<lambda>x. x\<lparr>sem_count := sem_count x + 1\<rparr>) s)"
  using assms sint_inc [of "sem_count (sems s a)"] by (simp add: sem_post_kr_def Let_def)

lemma sem_close_effect:
  assumes ok: "lists_ok L s" and "sem_used (sems s a) \<noteq> 0"
  shows "\<exists>s'. sem_close_kr a s = Inr s' \<and>
     lists_ok (L(Block_list a := [], Ready_list := L Ready_list @ L (Block_list a))) s' \<and>
     erase_links s' = erase_links (upd_sem a (\<lambda>x. x\<lparr>sem_used := 0\<rparr>) s)"
proof -
  let ?s = "upd_sem a (\<lambda>x. x\<lparr>sem_used := 0\<rparr>) s"
  have "lists_ok L ?s" using ok by simp
  then have "\<exists>s'. drain (ll_pop (Block_list a)) (\<lambda>p s. True) (ll_entail Ready_list) ?s = Some (Inr s') \<and>
      lists_ok (L(Block_list a := [], Ready_list := L Ready_list @ filter (\<lambda>_. True) (L (Block_list a)))) s' \<and>
      erase_links s' = erase_links ?s"
    by (rule pcbq.drain_moves) simp_all
  then show ?thesis using assms(2) by (auto simp: sem_close_kr_def)
qed

section \<open>Properties\<close>

lemma sample_sem_ok: "sem_ok sample_queues sample a"
  by (auto simp: sem_ok_def sample_def sample_queues_def)

text \<open>
  C10. A wait on a semaphore that is in use: with a positive count it goes on and takes one unit;
  otherwise the caller is put at the end of the semaphore's queue, the count records one more
  waiter, and the head of the ready queue gets the CPU.
\<close>

theorem sem_wait_correct:
  assumes "lists_ok L s" "current s = Some c" "c < PCBPOOLMAX" "\<And>h. c \<notin> set (L h)"
    and "sem_ok L s a" "sem_used (sems s a) \<noteq> 0" "L Ready_list = p # ps"
  shows "if 0 < sint (sem_count (sems s a))
     then sem_wait_kr a s = Inr (Returns (upd_sem a (\<lambda>x. x\<lparr>sem_count := sem_count x - 1\<rparr>) s))
     else \<exists>s'. sem_wait_kr a s = Inr (Switched s') \<and> dispatched p s' \<and>
       lists_ok (L(Block_list a := L (Block_list a) @ [c], Ready_list := ps)) s' \<and>
       sem_ok (L(Block_list a := L (Block_list a) @ [c], Ready_list := ps)) s' a \<and>
       sint (sem_count (sems s' a)) = sint (sem_count (sems s a)) - 1"
proof (cases "0 < sint (sem_count (sems s a))")
  case True
  then show ?thesis using sem_wait_proceeds [OF assms(6)] by simp
next
  case False
  then obtain s' where "sem_wait_kr a s = Inr (Switched s')" "dispatched p s'"
      "lists_ok (L(Block_list a := L (Block_list a) @ [c], Ready_list := ps)) s'"
      "sint (sem_count (sems s' a)) = sint (sem_count (sems s a)) - 1"
      "sem_used (sems s' a) = sem_used (sems s a)"
    using sem_wait_blocks [OF assms(1-6) _ assms(7)] by force
  with False assms(5,6) show ?thesis by (auto simp: sem_ok_def)
qed

theorem sem_wait_correct_witness:
  "\<exists>s'. sem_wait_kr 0x1000 sample = Inr (Switched s') \<and> dispatched 0 s' \<and>
     sint (sem_count (sems s' 0x1000)) = - 2"
  using sem_wait_correct [OF sample_lists_ok sample_current sample_sem_ok, of "0x1000" 0 "[2]"]
  by (auto simp: sample_queues_def sample_def)

text \<open>
  C9. A post on a semaphore in use never faults while the count is below \<^verbatim>\<open>INT_MAX\<close>; it adds one to
  the count, and if processes are waiting exactly the one that has waited longest moves to the
  end of the ready queue.  The semaphore invariant is kept.
\<close>

theorem sem_post_correct:
  assumes "lists_ok L s" "sem_ok L s a" "sem_used (sems s a) \<noteq> 0"
    and "sint (sem_count (sems s a)) < 2 ^ 31 - 1"
  shows "\<exists>s'. sem_post_kr a s = Inr s' \<and>
     sint (sem_count (sems s' a)) = sint (sem_count (sems s a)) + 1 \<and>
     (let L' = (case L (Block_list a) of [] \<Rightarrow> L
                | p # ps \<Rightarrow> L(Block_list a := ps, Ready_list := L Ready_list @ [p]))
      in lists_ok L' s' \<and> sem_ok L' s' a)"
proof (cases "L (Block_list a)")
  case Nil
  then have "0 \<le> sint (sem_count (sems s a))" using assms(2,3) by (simp add: sem_ok_def)
  then show ?thesis
    using Nil assms sem_post_counts [OF assms(3) _ assms(4)] sint_inc [OF assms(4)]
    by (auto simp: sem_ok_def)
next
  case (Cons p ps)
  then have neg: "sint (sem_count (sems s a)) < 0" using assms(2,3) by (simp add: sem_ok_def)
  obtain s' where s': "sem_post_kr a s = Inr s'"
      "lists_ok (L(Block_list a := ps, Ready_list := L Ready_list @ [p])) s'"
      "erase_links s' = erase_links (upd_sem a (\<lambda>x. x\<lparr>sem_count := sem_count x + 1\<rparr>) s)"
    using sem_post_wakes [OF assms(1,3) neg Cons] by blast
  note e = erase_links_eqD [OF s'(3)]
  from Cons neg s' e(9,10) [of a] assms(2,3) sint_inc [OF assms(4)]
  show ?thesis by (auto simp: sem_ok_def)
qed

theorem sem_post_correct_witness:
  "\<exists>s'. sem_post_kr 0x1000 sample = Inr s' \<and> sint (sem_count (sems s' 0x1000)) = 0"
  using sem_post_correct [OF sample_lists_ok sample_sem_ok, of "0x1000"]
  by (auto simp: sample_def)

text \<open>
  C31. A semaphore opened with a negative initial count is broken: the first post on it takes the
  missing waiter from an empty queue and dereferences a null pointer.
\<close>

theorem sem_post_negative_init_faults:
  assumes "lists_ok L s" "sem_used (sems s a) = 0" "L (Block_list a) = []"
    and "sint count < 0"
  shows "sem_post_kr a (sem_init_kr a count s) = Inl NullDeref"
proof -
  let ?s = "sem_init_kr a count s"
  let ?t = "upd_sem a (\<lambda>x. x\<lparr>sem_count := sem_count x + 1\<rparr>) ?s"
  have "lists_ok L ?t" using assms by (simp add: sem_init_kr_def)
  then have "ll_pop (Block_list a) ?t = Inr (None, ?t)" using assms(3) by (intro pcbq.pop_nil)
  moreover have "sint (count + 1) \<le> 0" using sint_inc [of count] assms(4) by simp
  ultimately show ?thesis
    using assms(2) by (simp add: sem_post_kr_def sem_init_kr_def ll_entail_def Let_def)
qed

theorem sem_post_negative_init_faults_witness:
  "sem_post_kr 0x2000 (sem_init_kr 0x2000 (- 3) sample) = Inl NullDeref"
  by (rule sem_post_negative_init_faults [OF sample_lists_ok])
    (simp_all add: sample_def sample_queues_def)

end
