(* ===== verification/System.thy ===== *)
theory System
  imports Semaphores
begin

text \<open>
  The scheduling core as one machine: an interrupt (\<^verbatim>\<open>src/kernel/src/irq/irq_handle.c\<close>) is either a
  timer tick or one of the scheduling and semaphore system calls, followed by \<^verbatim>\<open>do_scheduler\<close>.
  The invariant says that the idle process created by \<^verbatim>\<open>main\<close> is always runnable, from which it
  follows that the kernel never dereferences a null \<^verbatim>\<open>current\<close>.
\<close>

section \<open>Interrupts\<close>

datatype kevent =
    Tick
  | Yield
  | Sleep u32
  | Exit
  | Join u32
  | SemInit u32 u32
  | SemOpen u32 u32
  | SemWait u32
  | SemTrywait u32
  | SemPost u32
  | SemClose u32

primrec handle :: "kevent \<Rightarrow> 'a procst_scheme \<Rightarrow> 'a procst_scheme ctl res" where
  "handle Tick s = bind_res (do_timer s) (\<lambda>s. Inr (Returns s))"
| "handle Yield s = bind_res (do_handout s) (\<lambda>s. Inr (Returns s))"
| "handle (Sleep n) s = bind_res (do_sleep n s) (\<lambda>s. Inr (Returns s))"
| "handle Exit s = exit_current s"
| "handle (Join k) s = join_current k s"
| "handle (SemInit a n) s = Inr (Returns (sem_init_kr a n s))"
| "handle (SemOpen i n) s = bind_res (sem_open_kr i n s) (\<lambda>(_, s). Inr (Returns s))"
| "handle (SemWait a) s = sem_wait_kr a s"
| "handle (SemTrywait a) s = Inr (Returns (snd (sem_trywait_kr a s)))"
| "handle (SemPost a) s = bind_res (sem_post_kr a s) (\<lambda>s. Inr (Returns s))"
| "handle (SemClose a) s = bind_res (sem_close_kr a s) (\<lambda>s. Inr (Returns s))"

text \<open>
  A handler that switched away never comes back to the \<^verbatim>\<open>do_scheduler\<close> call at the end of
  \<^verbatim>\<open>irq_handle\<close>; one that returned reaches it.
\<close>

definition interrupt :: "kevent \<Rightarrow> 'a procst_scheme \<Rightarrow> 'a procst_scheme ctl res" where
  "interrupt e s = then_ctl (handle e s) do_scheduler"

text \<open>
  What the callers must respect: the idle process only yields, an initial count is not negative,
  an index is inside the table, and a count does not pass \<^verbatim>\<open>INT_MAX\<close>.
\<close>

fun admissible :: "nat \<Rightarrow> kevent \<Rightarrow> 'a procst_scheme \<Rightarrow> bool" where
  "admissible idle (Sleep n) s = (current s \<noteq> Some idle)"
| "admissible idle Exit s = (current s \<noteq> Some idle)"
| "admissible idle (Join k) s = (current s \<noteq> Some idle)"
| "admissible idle (SemWait a) s = (current s \<noteq> Some idle)"
| "admissible idle (SemInit a n) s = (0 \<le> sint n)"
| "admissible idle (SemOpen i n) s = (0 \<le> sint n \<and> unat i < NR_SEMS)"
| "admissible idle (SemPost a) s = (sint (sem_count (sems s a)) < 2 ^ 31 - 1)"
| "admissible idle e s = True"

section \<open>The invariant\<close>

definition kernel_ok :: "nat \<Rightarrow> (ll_head \<Rightarrow> nat list) \<Rightarrow> 'a procst_scheme \<Rightarrow> bool" where
  "kernel_ok idle L s \<longleftrightarrow>
     lists_ok L s \<and>
     (\<exists>c. current s = Some c \<and> c < PCBPOOLMAX \<and> (\<forall>h. c \<notin> set (L h)) \<and>
          (c = idle \<or> idle \<in> set (L Ready_list))) \<and>
     ts (PCBPool s idle) \<noteq> SLEEPING \<and>
     (\<forall>a. sem_ok L s a)"

lemma kernel_okE:
  assumes "kernel_ok idle L s"
  obtains c where "lists_ok L s" "current s = Some c" "c < PCBPOOLMAX" "\<And>h. c \<notin> set (L h)"
    "c = idle \<or> idle \<in> set (L Ready_list)" "ts (PCBPool s idle) \<noteq> SLEEPING" "\<And>a. sem_ok L s a"
  using assms by (auto simp: kernel_ok_def)

lemma kernel_okI:
  assumes "lists_ok L s" "current s = Some c" "c < PCBPOOLMAX" "\<And>h. c \<notin> set (L h)"
    "c = idle \<or> idle \<in> set (L Ready_list)" "ts (PCBPool s idle) \<noteq> SLEEPING" "\<And>a. sem_ok L s a"
  shows "kernel_ok idle L s"
  using assms by (auto simp: kernel_ok_def)

text \<open>Dispatching the head of the ready queue re-establishes the invariant.\<close>

lemma kernel_ok_dispatched:
  assumes ok: "lists_ok L s0" and L: "L Ready_list = p # ps" and idle: "idle \<in> set (L Ready_list)"
    and s': "dispatched p s'" "lists_ok (L(Ready_list := ps)) s'"
    and ts: "idle \<noteq> p \<Longrightarrow> ts (PCBPool s' idle) \<noteq> SLEEPING"
    and sem: "\<And>a. sem_ok (L(Ready_list := ps)) s' a"
  shows "kernel_ok idle (L(Ready_list := ps)) s'"
proof (rule kernel_okI)
  show "lists_ok (L(Ready_list := ps)) s'" by (rule s'(2))
  show "current s' = Some p" using s'(1) by (simp add: dispatched_def)
  show "p < PCBPOOLMAX" using lists_okD(4) [OF ok, of p Ready_list] L by simp
  show "p \<notin> set ((L(Ready_list := ps)) h)" for h
    using lists_okD(5) [OF ok, of Ready_list] lists_okD(2) [OF ok, of p Ready_list h] L
    by (cases "h = Ready_list") auto
  show "p = idle \<or> idle \<in> set ((L(Ready_list := ps)) Ready_list)" using idle L by auto
  show "ts (PCBPool s' idle) \<noteq> SLEEPING"
    using ts s'(1) by (cases "idle = p") (auto simp: dispatched_def)
qed (rule sem)

lemma sem_ok_fun_upd [simp]:
  "sem_ok (L(Ready_list := xs)) s b = sem_ok L s b"
  "sem_ok (L(Sleep_list := xs)) s b = sem_ok L s b"
  "sem_ok (L(Join_list c := xs)) s b = sem_ok L s b"
  by (simp_all add: sem_ok_def)

lemma do_scheduler_keeps_ok:
  assumes "kernel_ok idle L s"
  shows "\<exists>c L'. do_scheduler s = Inr c \<and> kernel_ok idle L' (ctl_state c)"
proof -
  from assms obtain c where ok: "lists_ok L s" and cur: "current s = Some c" "c < PCBPOOLMAX"
      "\<And>h. c \<notin> set (L h)" and idle: "c = idle \<or> idle \<in> set (L Ready_list)"
      and ts: "ts (PCBPool s idle) \<noteq> SLEEPING" and sem: "\<And>a. sem_ok L s a"
    by (rule kernel_okE) (rule that)
  show ?thesis
  proof (cases "requeue (ts (PCBPool s c)) (timeslice (PCBPool s c))")
    case None
    have "kernel_ok idle L (s\<lparr>sched_count := sched_count s + 1\<rparr>)"
      using assms by (simp add: kernel_ok_def sem_ok_def)
    then show ?thesis using do_scheduler_keep [OF cur(1) None] by auto
  next
    case (Some h)
    let ?L = "L(h := L h @ [c])"
    have h: "h = Ready_list \<or> h = Sleep_list \<and> ts (PCBPool s c) = SLEEPING"
      using Some by (auto simp: requeue_def split: if_splits)
    then have idle': "idle \<in> set (?L Ready_list)" using idle ts by auto
    obtain p ps where p: "?L Ready_list = p # ps" using idle' by (metis empty_iff list.exhaust list.set(1))
    obtain s' where s': "do_scheduler s = Inr (Switched s')" "dispatched p s'"
        "lists_ok (?L(Ready_list := ps)) s'"
        "\<forall>q. q \<noteq> p \<longrightarrow> timeslice (PCBPool s' q) = timeslice (PCBPool s q) \<and>
          ts (PCBPool s' q) = (if q = c \<and> h = Ready_list then READY else ts (PCBPool s q))"
        "\<forall>a. sem_used (sems s' a) = sem_used (sems s a) \<and> sem_count (sems s' a) = sem_count (sems s a)"
      using do_scheduler_requeue [OF ok cur Some refl p] by blast
    obtain s1 :: "'a procst_scheme" where "lists_ok ?L s1"
      using pcbq.entail_fresh [OF ok cur(2,3), of h] by blast
    then have "kernel_ok idle (?L(Ready_list := ps)) s'"
    proof (rule kernel_ok_dispatched [OF _ p idle' s'(2,3)])
      show "ts (PCBPool s' idle) \<noteq> SLEEPING" if "idle \<noteq> p" using s'(4) that ts by simp
      show "sem_ok (?L(Ready_list := ps)) s' a" for a
        using sem [of a] s'(5) h by (auto simp: sem_ok_def)
    qed
    then show ?thesis using s'(1) by auto
  qed
qed


lemma tick_keeps_ok:
  assumes "kernel_ok idle L s"
  shows "\<exists>s' L'. do_timer s = Inr s' \<and> kernel_ok idle L' s'"
proof -
  from assms obtain c where ok: "lists_ok L s" and cur: "current s = Some c" "c < PCBPOOLMAX"
      "\<And>h. c \<notin> set (L h)" and idle: "c = idle \<or> idle \<in> set (L Ready_list)"
      and ts: "ts (PCBPool s idle) \<noteq> SLEEPING" and sem: "\<And>a. sem_ok L s a"
    by (rule kernel_okE) (rule that)
  let ?s = "upd_pcb c (\<lambda>x. x\<lparr>timeslice := timeslice x + 1\<rparr>) (s\<lparr>ticks := ticks s + 1\<rparr>)"
  obtain s' where s': "do_timer s = Inr s'" "timer_post L [] (L Sleep_list) ?s s'"
    using do_timer_post [OF ok cur(1,3)] by blast
  let ?L = "L(Sleep_list := filter (\<lambda>p. timeslice (PCBPool ?s p) \<noteq> 1) (L Sleep_list),
      Ready_list := L Ready_list @ filter (\<lambda>p. timeslice (PCBPool ?s p) = 1) (L Sleep_list))"
  have "kernel_ok idle ?L s'"
  proof (rule kernel_okI)
    show "lists_ok ?L s'" using s'(2) by (simp add: timer_post_def)
    show "current s' = Some c" using s'(2) cur(1) by (simp add: timer_post_def)
    show "c < PCBPOOLMAX" by (rule cur(2))
    show "c \<notin> set (?L h)" for h using cur(3) [of h] cur(3) [of Sleep_list] by auto
    show "c = idle \<or> idle \<in> set (?L Ready_list)" using idle by auto
    show "ts (PCBPool s' idle) \<noteq> SLEEPING" using s'(2) ts by (auto simp: timer_post_def)
    show "sem_ok ?L s' a" for a
      using sem [of a] s'(2) by (simp add: timer_post_def sem_ok_def)
  qed
  with s'(1) show ?thesis by blast
qed

lemma kernel_ok_upd_pcb:
  assumes "kernel_ok idle L s" "\<And>x. nxt (f x) = nxt x" "\<And>x. join_list (f x) = join_list x"
    "ts (f (PCBPool s p)) \<noteq> SLEEPING \<or> p \<noteq> idle"
  shows "kernel_ok idle L (upd_pcb p f s)"
  using assms by (auto simp: kernel_ok_def sem_ok_def)

lemma exit_keeps_ok:
  assumes "kernel_ok idle L s" "current s \<noteq> Some idle"
  shows "\<exists>s' L'. exit_current s = Inr (Switched s') \<and> kernel_ok idle L' s'"
proof -
  from assms(1) obtain c where ok: "lists_ok L s" and cur: "current s = Some c" "c < PCBPOOLMAX"
      "\<And>h. c \<notin> set (L h)" and idle: "c = idle \<or> idle \<in> set (L Ready_list)"
      and ts: "ts (PCBPool s idle) \<noteq> SLEEPING" and sem: "\<And>a. sem_ok L s a"
    by (rule kernel_okE) (rule that)
  let ?k = "\<lambda>q. used (PCBPool s q) \<noteq> 0"
  let ?L = "L(Join_list c := [], Ready_list := L Ready_list @ filter ?k (L (Join_list c)))"
  have idle': "idle \<in> set (?L Ready_list)" using idle assms(2) cur(1) by auto
  obtain p ps where p: "?L Ready_list = p # ps" using idle' by (metis empty_iff list.exhaust list.set(1))
  have "\<exists>s1. drain (ll_pop (Join_list c)) (\<lambda>p s. used (PCBPool s p) \<noteq> 0) (ll_entail Ready_list) s
      = Some (Inr s1) \<and> lists_ok ?L s1 \<and> erase_links s1 = erase_links s"
    by (rule pcbq.drain_moves [OF ok]) (simp_all, metis erase_links_eqD(4))
  then obtain s1 :: "'a procst_scheme" where s1: "lists_ok ?L s1" by blast
  obtain s' where s': "exit_current s = Inr (Switched s')" "dispatched p s'"
      "lists_ok (L(Join_list c := [], Ready_list := ps)) s'"
      "\<forall>q. q \<noteq> p \<longrightarrow> ts (PCBPool s' q) = ts (PCBPool s q)"
      "\<forall>a. sem_used (sems s' a) = sem_used (sems s a) \<and> sem_count (sems s' a) = sem_count (sems s a)"
    using exit_current_effect [OF ok cur(1), of p ps] p by auto
  have "kernel_ok idle (?L(Ready_list := ps)) s'"
  proof (rule kernel_ok_dispatched [OF s1 p idle' s'(2)])
    show "lists_ok (?L(Ready_list := ps)) s'" using s'(3) by simp
    show "ts (PCBPool s' idle) \<noteq> SLEEPING" if "idle \<noteq> p" using s'(4) that ts by simp
    show "sem_ok (?L(Ready_list := ps)) s' a" for a
      using sem [of a] s'(5) by (simp add: sem_ok_def)
  qed
  with s'(1) show ?thesis by blast
qed


lemma join_keeps_ok:
  assumes "kernel_ok idle L s" "current s \<noteq> Some idle"
  shows "\<exists>ct L'. join_current k s = Inr ct \<and> kernel_ok idle L' (ctl_state ct)"
proof -
  from assms(1) obtain c where ok: "lists_ok L s" and cur: "current s = Some c" "c < PCBPOOLMAX"
      "\<And>h. c \<notin> set (L h)" and idle: "c = idle \<or> idle \<in> set (L Ready_list)"
      and ts: "ts (PCBPool s idle) \<noteq> SLEEPING" and sem: "\<And>a. sem_ok L s a"
    by (rule kernel_okE) (rule that)
  let ?i = "find_pid PCBPOOLMAX k (PCBPool s)"
  show ?thesis
  proof (cases "k = 0 \<or> ?i = PCBPOOLMAX \<or> used (PCBPool s ?i) = 0")
    case True
    then show ?thesis using join_current_returns [OF True] assms(1) by auto
  next
    case False
    let ?L = "L(Join_list ?i := L (Join_list ?i) @ [c])"
    have idle': "idle \<in> set (?L Ready_list)" using idle assms(2) cur(1) by auto
    obtain p ps where p: "L Ready_list = p # ps" using idle'
      by (metis empty_iff fun_upd_other list.exhaust list.set(1) ll_head.distinct(3))
    obtain s1 :: "'a procst_scheme" where s1: "lists_ok ?L s1"
      using pcbq.entail_fresh [OF ok cur(2,3), of "Join_list ?i"] by blast
    obtain s' where s': "join_current k s = Inr (Switched s')" "dispatched p s'"
        "lists_ok (?L(Ready_list := ps)) s'"
        "\<forall>q. q \<noteq> p \<longrightarrow> ts (PCBPool s' q) = ts (PCBPool s q)"
        "\<forall>a. sem_used (sems s' a) = sem_used (sems s a) \<and> sem_count (sems s' a) = sem_count (sems s a)"
      using join_current_effect [OF ok cur, of k ?i p ps] False p by auto
    have "kernel_ok idle (?L(Ready_list := ps)) s'"
    proof (rule kernel_ok_dispatched [OF s1 _ idle' s'(2,3)])
      show "?L Ready_list = p # ps" using p by simp
      show "ts (PCBPool s' idle) \<noteq> SLEEPING" if "idle \<noteq> p" using s'(4) that ts by simp
      show "sem_ok (?L(Ready_list := ps)) s' a" for a
        using sem [of a] s'(5) by (simp add: sem_ok_def)
    qed
    with s'(1) show ?thesis by auto
  qed
qed

lemma kernel_ok_upd_sem:
  assumes "kernel_ok idle L s" "\<And>x. block_list (f x) = block_list x" "sem_ok L (upd_sem a f s) a"
  shows "kernel_ok idle L (upd_sem a f s)"
proof -
  have "sem_ok L (upd_sem a f s) b" for b
    using assms(1,3) by (cases "b = a") (auto simp: kernel_ok_def sem_ok_def)
  then show ?thesis using assms(1,2) by (auto simp: kernel_ok_def)
qed

lemma sem_init_keeps_ok:
  assumes "kernel_ok idle L s" "0 \<le> sint n"
  shows "kernel_ok idle L (sem_init_kr a n s)"
proof (cases "sem_used (sems s a) = 0")
  case True
  then have "L (Block_list a) = []" using assms(1) by (auto simp: kernel_ok_def sem_ok_def)
  then show ?thesis
    using assms True
    by (auto simp: sem_init_kr_def kernel_ok_def sem_ok_def)
qed (use assms in \<open>simp add: sem_init_kr_def\<close>)

lemma sem_wait_keeps_ok:
  assumes "kernel_ok idle L s" "current s \<noteq> Some idle"
  shows "\<exists>ct L'. sem_wait_kr a s = Inr ct \<and> kernel_ok idle L' (ctl_state ct)"
proof -
  from assms(1) obtain c where ok: "lists_ok L s" and cur: "current s = Some c" "c < PCBPOOLMAX"
      "\<And>h. c \<notin> set (L h)" and idle: "c = idle \<or> idle \<in> set (L Ready_list)"
      and ts: "ts (PCBPool s idle) \<noteq> SLEEPING" and sem: "\<And>a. sem_ok L s a"
    by (rule kernel_okE) (rule that)
  show ?thesis
  proof (cases "sem_used (sems s a) \<noteq> 0")
    case False
    then show ?thesis using assms(1) by (auto simp: sem_wait_kr_def)
  next
    case used: True
    show ?thesis
    proof (cases "0 < sint (sem_count (sems s a))")
      case True
      have "kernel_ok idle L (upd_sem a (\<lambda>x. x\<lparr>sem_count := sem_count x - 1\<rparr>) s)"
        using sem [of a] used True sint_dec [of "sem_count (sems s a)"]
        by (intro kernel_ok_upd_sem assms(1)) (auto simp: sem_ok_def)
      then show ?thesis using sem_wait_proceeds [OF used True] by auto
    next
      case False
      let ?L = "L(Block_list a := L (Block_list a) @ [c])"
      have idle': "idle \<in> set (?L Ready_list)" using idle assms(2) cur(1) by auto
      obtain p ps where p: "L Ready_list = p # ps" using idle'
        by (metis empty_iff fun_upd_other list.exhaust list.set(1) ll_head.distinct(5))
      obtain s1 :: "'a procst_scheme" where s1: "lists_ok ?L s1"
        using pcbq.entail_fresh [OF ok cur(2,3), of "Block_list a"] by blast
      obtain s' where s': "sem_wait_kr a s = Inr (Switched s')" "dispatched p s'"
          "lists_ok (?L(Ready_list := ps)) s'"
          "sint (sem_count (sems s' a)) = sint (sem_count (sems s a)) - 1"
          "\<forall>b. sem_used (sems s' b) = sem_used (sems s b)"
          "\<forall>b. b \<noteq> a \<longrightarrow> sem_count (sems s' b) = sem_count (sems s b)"
          "\<forall>q. q \<noteq> p \<longrightarrow> ts (PCBPool s' q) = ts (PCBPool s q)"
        using sem_wait_blocks [OF ok cur sem used _ p] False by auto
      have "kernel_ok idle (?L(Ready_list := ps)) s'"
      proof (rule kernel_ok_dispatched [OF s1 _ idle' s'(2,3)])
        show "?L Ready_list = p # ps" using p by simp
        show "ts (PCBPool s' idle) \<noteq> SLEEPING" if "idle \<noteq> p" using s'(7) that ts by simp
        show "sem_ok (?L(Ready_list := ps)) s' b" for b
          using sem [of b] s'(4-6) False used by (cases "b = a") (auto simp: sem_ok_def)
      qed
      with s'(1) show ?thesis by auto
    qed
  qed
qed


lemma kernel_ok_moved:
  assumes ok: "kernel_ok idle L s" and L': "lists_ok L' s'"
    and e: "erase_links s' = erase_links (upd_sem a f s)"
    and ready: "set (L Ready_list) \<subseteq> set (L' Ready_list)"
    and sub: "\<And>h. \<exists>k. set (L' h) \<subseteq> set (L h) \<union> set (L k)"
    and sem: "\<And>b. sem_ok L' s' b"
  shows "kernel_ok idle L' s'"
proof -
  note e' = erase_links_eqD [OF e]
  from ok obtain c where cur: "current s = Some c" "c < PCBPOOLMAX" "\<And>h. c \<notin> set (L h)"
      and idle: "c = idle \<or> idle \<in> set (L Ready_list)" and ts: "ts (PCBPool s idle) \<noteq> SLEEPING"
    by (rule kernel_okE) (rule that)
  show ?thesis
  proof (rule kernel_okI [OF L'])
    show "current s' = Some c" using e'(1) cur(1) by simp
    show "c < PCBPOOLMAX" by (rule cur(2))
    show "c \<notin> set (L' h)" for h using sub [of h] cur(3) by blast
    show "c = idle \<or> idle \<in> set (L' Ready_list)" using idle ready by blast
    show "ts (PCBPool s' idle) \<noteq> SLEEPING" using e'(2) ts by simp
  qed (rule sem)
qed

lemma sem_post_keeps_ok:
  assumes ok: "kernel_ok idle L s" and max: "sint (sem_count (sems s a)) < 2 ^ 31 - 1"
  shows "\<exists>s' L'. sem_post_kr a s = Inr s' \<and> kernel_ok idle L' s'"
proof -
  have lok: "lists_ok L s" and sem: "\<And>b. sem_ok L s b" using ok by (auto simp: kernel_ok_def)
  let ?f = "\<lambda>x. x\<lparr>sem_count := sem_count x + 1\<rparr>"
  consider "sem_used (sems s a) = 0" | "sem_used (sems s a) \<noteq> 0" "L (Block_list a) = []"
    | p ps where "sem_used (sems s a) \<noteq> 0" "L (Block_list a) = p # ps"
    by (cases "L (Block_list a)") auto
  then show ?thesis
  proof cases
    case 1
    then show ?thesis using ok by (auto simp: sem_post_kr_def)
  next
    case 2
    have nonneg: "0 \<le> sint (sem_count (sems s a))" using sem [of a] 2 by (simp add: sem_ok_def)
    have "kernel_ok idle L (upd_sem a ?f s)"
      using 2 nonneg sint_inc [OF max] by (intro kernel_ok_upd_sem ok) (auto simp: sem_ok_def)
    then show ?thesis using sem_post_counts [OF 2(1) nonneg max] by auto
  next
    case 3
    have neg: "sint (sem_count (sems s a)) < 0" using sem [of a] 3 by (simp add: sem_ok_def)
    let ?L = "L(Block_list a := ps, Ready_list := L Ready_list @ [p])"
    obtain s' where s': "sem_post_kr a s = Inr s'" "lists_ok ?L s'"
        "erase_links s' = erase_links (upd_sem a ?f s)"
      using sem_post_wakes [OF lok 3(1) neg 3(2)] by blast
    note e = erase_links_eqD [OF s'(3)]
    have sub: "\<exists>k. set (?L h) \<subseteq> set (L h) \<union> set (L k)" for h
      using 3(2) by (intro exI [of _ "Block_list a"]) auto
    have "sem_ok ?L s' b" for b
      using sem [of b] e(9,10) [of b] neg 3 sint_inc [OF max] by (cases "b = a") (auto simp: sem_ok_def)
    then have "kernel_ok idle ?L s'"
      using sub by (intro kernel_ok_moved [OF ok s'(2,3)]) auto
    with s'(1) show ?thesis by blast
  qed
qed

lemma sem_close_keeps_ok:
  assumes ok: "kernel_ok idle L s"
  shows "\<exists>s' L'. sem_close_kr a s = Inr s' \<and> kernel_ok idle L' s'"
proof (cases "sem_used (sems s a) = 0")
  case True
  then show ?thesis using ok by (auto simp: sem_close_kr_def)
next
  case False
  have lok: "lists_ok L s" and sem: "\<And>b. sem_ok L s b" using ok by (auto simp: kernel_ok_def)
  let ?L = "L(Block_list a := [], Ready_list := L Ready_list @ L (Block_list a))"
  obtain s' where s': "sem_close_kr a s = Inr s'" "lists_ok ?L s'"
      "erase_links s' = erase_links (upd_sem a (\<lambda>x. x\<lparr>sem_used := 0\<rparr>) s)"
    using sem_close_effect [OF lok False] by blast
  note e = erase_links_eqD [OF s'(3)]
  have sub: "\<exists>k. set (?L h) \<subseteq> set (L h) \<union> set (L k)" for h
    by (intro exI [of _ "Block_list a"]) auto
  have "sem_ok ?L s' b" for b
    using sem [of b] e(9,10) [of b] by (cases "b = a") (auto simp: sem_ok_def)
  then have "kernel_ok idle ?L s'"
    using sub by (intro kernel_ok_moved [OF ok s'(2,3)]) auto
  with s'(1) show ?thesis by blast
qed

lemma sem_trywait_keeps_ok:
  assumes ok: "kernel_ok idle L s"
  shows "kernel_ok idle L (snd (sem_trywait_kr a s))"
proof -
  have sem: "sem_ok L s a" using ok by (auto simp: kernel_ok_def)
  then show ?thesis
    using ok sint_dec [of "sem_count (sems s a)"]
    by (auto simp: sem_trywait_kr_def sem_ok_def intro!: kernel_ok_upd_sem)
qed

lemma handle_keeps_ok:
  assumes ok: "kernel_ok idle L s" and adm: "admissible idle e s"
  shows "\<exists>ct L'. handle e s = Inr ct \<and> kernel_ok idle L' (ctl_state ct)"
proof (cases e)
  case Tick
  obtain s' L' where "do_timer s = Inr s'" "kernel_ok idle L' s'"
    using tick_keeps_ok [OF ok] by blast
  with Tick show ?thesis by auto
next
  case Yield
  obtain c where c: "current s = Some c" using ok by (auto simp: kernel_ok_def)
  have "kernel_ok idle L (upd_pcb c (\<lambda>x. x\<lparr>ts := STOP\<rparr>) s)" by (rule kernel_ok_upd_pcb [OF ok]) auto
  with Yield c show ?thesis by (auto simp: do_handout_def)
next
  case (Sleep n)
  obtain c where c: "current s = Some c" "c \<noteq> idle" using ok adm Sleep by (auto simp: kernel_ok_def)
  have "kernel_ok idle L (upd_pcb c (\<lambda>x. x\<lparr>timeslice := n * 200\<rparr>) (upd_pcb c (\<lambda>x. x\<lparr>ts := SLEEPING\<rparr>) s))"
    using c(2) by (intro kernel_ok_upd_pcb ok) auto
  with Sleep c show ?thesis by (auto simp: do_sleep_def)
next
  case Exit
  obtain s' L' where "exit_current s = Inr (Switched s')" "kernel_ok idle L' s'"
    using exit_keeps_ok [OF ok] adm Exit by auto
  with Exit show ?thesis by auto
next
  case (Join k)
  then show ?thesis using join_keeps_ok [OF ok] adm by auto
next
  case (SemInit a n)
  then show ?thesis using sem_init_keeps_ok [OF ok] adm by auto
next
  case (SemOpen i n)
  then show ?thesis using sem_init_keeps_ok [OF ok] adm by (auto simp: sem_open_kr_def Let_def)
next
  case (SemWait a)
  then show ?thesis using sem_wait_keeps_ok [OF ok] adm by auto
next
  case (SemTrywait a)
  then show ?thesis using sem_trywait_keeps_ok [OF ok] by auto
next
  case (SemPost a)
  obtain s' L' where "sem_post_kr a s = Inr s'" "kernel_ok idle L' s'"
    using sem_post_keeps_ok [OF ok, of a] adm SemPost by auto
  with SemPost show ?thesis by auto
next
  case (SemClose a)
  obtain s' L' where "sem_close_kr a s = Inr s'" "kernel_ok idle L' s'"
    using sem_close_keeps_ok [OF ok] by blast
  with SemClose show ?thesis by auto
qed

lemma interrupt_keeps_ok:
  assumes ok: "kernel_ok idle L s" and adm: "admissible idle e s"
  shows "\<exists>ct L'. interrupt e s = Inr ct \<and> kernel_ok idle L' (ctl_state ct)"
proof -
  obtain ct L' where ct: "handle e s = Inr ct" "kernel_ok idle L' (ctl_state ct)"
    using handle_keeps_ok [OF assms] by blast
  then show ?thesis
    using do_scheduler_keeps_ok [of idle L' "ctl_state ct"] by (cases ct) (auto simp: interrupt_def)
qed

section \<open>Runs\<close>

inductive kstep :: "nat \<Rightarrow> 'a procst_scheme \<Rightarrow> 'a procst_scheme \<Rightarrow> bool" for idle where
  kstepI: "admissible idle e s \<Longrightarrow> interrupt e s = Inr ct \<Longrightarrow> kstep idle s (ctl_state ct)"

inductive_cases kstepE: "kstep idle s s'"

lemma kstep_keeps_ok: "kstep idle s s' \<Longrightarrow> kernel_ok idle L s \<Longrightarrow> \<exists>L'. kernel_ok idle L' s'"
  using interrupt_keeps_ok by (elim kstepE) force

lemma ksteps_keep_ok: "(kstep idle)\<^sup>*\<^sup>* s s' \<Longrightarrow> kernel_ok idle L s \<Longrightarrow> \<exists>L'. kernel_ok idle L' s'"
  by (induction rule: rtranclp_induct) (blast intro: kstep_keeps_ok)+

text \<open>
  C1. Kernel safety: starting from a state that satisfies the invariant, after any sequence of admissible timer
  interrupts and scheduling or semaphore system calls, the next admissible one is handled without a
  null dereference, an out-of-bounds access or an endless loop, and the resulting state again
  has well-formed lists, a running process that is on no queue, a runnable idle process and
  consistent semaphores.  An event is admissible if the idle process does not sleep, exit, join or wait in it, a semaphore
  is initialised or opened with a count that is not negative, it is opened with an index of the array, and it is posted while its
  count is below the largest integer.  Nothing is claimed of other events, and they can fault.
\<close>

theorem kernel_never_faults:
  assumes "kernel_ok idle L s" "(kstep idle)\<^sup>*\<^sup>* s s'" "admissible idle e s'"
  shows "\<exists>ct L'. interrupt e s' = Inr ct \<and> kernel_ok idle L' (ctl_state ct)"
  using ksteps_keep_ok [OF assms(2,1)] interrupt_keeps_ok assms(3) by blast

lemma sample_kernel_ok: "kernel_ok 0 sample_queues sample"
  by (rule kernel_okI [OF sample_lists_ok sample_current])
    (simp_all add: sample_sem_ok, simp_all add: sample_def blank_pcb_def sample_queues_def)

theorem kernel_never_faults_witness:
  "\<exists>ct L'. interrupt (SemWait 0x1000) sample = Inr ct \<and> kernel_ok 0 L' (ctl_state ct)"
  by (rule kernel_never_faults [OF sample_kernel_ok rtranclp.rtrancl_refl]) (simp add: sample_def)

end
