(* ===== verification/Printk.thy ===== *)
theory Printk
  imports Paging
begin

text \<open>
  Formatted output: \<^verbatim>\<open>src/lib/printk.c\<close> and \<^verbatim>\<open>printk\<close> of \<^verbatim>\<open>src/kernel/include/common.h\<close>.
  The argument area is a list of stack slots; a slot holds a number or a pointer to a string,
  and reading a slot that is not there, or as the wrong kind, is undefined behaviour.
\<close>

section \<open>Operations\<close>

datatype vararg = Num u32 | Str string

definition XGET_int :: "vararg list \<Rightarrow> u32 res" where
  "XGET_int p = (case p of Num x # _ \<Rightarrow> Inr x | _ \<Rightarrow> Inl OutOfBounds)"

definition XGET_str :: "vararg list \<Rightarrow> string res" where
  "XGET_str p = (case p of Str x # _ \<Rightarrow> Inr x | _ \<Rightarrow> Inl OutOfBounds)"

definition NR_DIGITS :: nat where "NR_DIGITS = 15"

text \<open>The character \<^verbatim>\<open>'0' + d\<close>.\<close>

definition digit_char :: "u32 \<Rightarrow> char" where
  "digit_char d = char_of (48 + unat d)"

text \<open>
  The two loops that fill \<^verbatim>\<open>digits[15]\<close>, least significant digit first; storing a sixteenth
  digit would leave the array.
\<close>

function hex_loop :: "u32 \<Rightarrow> string \<Rightarrow> string res" where
  "hex_loop x digits =
     (if x \<ge> 1 then
        (let d = x mod 16;
             d = (if d \<ge> 10 then d + 39 else d)
         in if length digits < NR_DIGITS
            then hex_loop (drop_bit 4 x) (digits @ [digit_char d])
            else Inl OutOfBounds)
      else Inr digits)"
  by pat_completeness auto
termination
proof (relation "measure (\<lambda>(x, d). NR_DIGITS - length d)", goal_cases)
  case (2 x digits d da)
  then show ?case by simp
qed simp

text \<open>Here \<open>x\<close> is a positive C \<^verbatim>\<open>int\<close>, so that signed and unsigned division agree.\<close>

function dec_loop :: "u32 \<Rightarrow> string \<Rightarrow> string res" where
  "dec_loop x digits =
     (if x \<ge> 1 then
        (if length digits < NR_DIGITS
         then dec_loop (x div 10) (digits @ [digit_char (x mod 10)])
         else Inl OutOfBounds)
      else Inr digits)"
  by pat_completeness auto
termination by (relation "measure (\<lambda>(x, d). NR_DIGITS - length d)") auto

declare hex_loop.simps [simp del] dec_loop.simps [simp del]

definition print_hex :: "u32 \<Rightarrow> string res" where
  "print_hex x = (if x = 0 then Inr ''0'' else bind_res (hex_loop x []) (\<lambda>ds. Inr (rev ds)))"

definition print_dec :: "u32 \<Rightarrow> string res" where
  "print_dec x =
     (if x = 0x80000000 then Inr ''-2147483648''
      else if x = 0 then Inr ''0''
      else (let sign = (if sint x < 0 then ''-'' else []);
                x = (if sint x < 0 then - x else x)
            in bind_res (dec_loop x []) (\<lambda>ds. Inr (sign @ rev ds))))"

text \<open>
  \<open>rd\<close> says whether the state variable \<^verbatim>\<open>type\<close> is \<^verbatim>\<open>READ\<close>.  A percent sign always leads to
  that state, also directly after another one; an unknown conversion prints nothing.
\<close>

fun vfprintf :: "string \<Rightarrow> bool \<Rightarrow> vararg list \<Rightarrow> string res" where
  "vfprintf [] rd p = Inr []"
| "vfprintf (c # cs) rd p =
     (if c = CHR ''%'' then vfprintf cs True p
      else if rd then
        (if c = CHR ''s'' then
           bind_res (XGET_str p) (\<lambda>str. bind_res (vfprintf cs False (tl p)) (\<lambda>out. Inr (str @ out)))
         else if c = CHR ''x'' then
           bind_res (XGET_int p) (\<lambda>x. bind_res (print_hex x) (\<lambda>ds.
           bind_res (vfprintf cs False (tl p)) (\<lambda>out. Inr (ds @ out))))
         else if c = CHR ''d'' then
           bind_res (XGET_int p) (\<lambda>x. bind_res (print_dec x) (\<lambda>ds.
           bind_res (vfprintf cs False (tl p)) (\<lambda>out. Inr (ds @ out))))
         else if c = CHR ''c'' then
           bind_res (XGET_int p) (\<lambda>x.
           bind_res (vfprintf cs False (tl p)) (\<lambda>out. Inr (char_of (unat (x AND 0xFF)) # out)))
         else vfprintf cs False p)
      else bind_res (vfprintf cs False p) (\<lambda>out. Inr (c # out)))"

definition printk :: "string \<Rightarrow> vararg list \<Rightarrow> 'a pagingst_scheme \<Rightarrow> 'a pagingst_scheme res" where
  "printk ctl args s = bind_res (vfprintf ctl False args) (\<lambda>out. Inr (printk_str out s))"

section \<open>Numbers\<close>

text \<open>Reading back a number printed in base \<open>b\<close>, most significant digit first.\<close>

definition char_digit :: "char \<Rightarrow> nat" where
  "char_digit c = (let n = of_char c in if n < 58 then n - 48 else n - 87)"

definition read_base :: "nat \<Rightarrow> string \<Rightarrow> nat" where
  "read_base b ds = foldl (\<lambda>a c. a * b + char_digit c) 0 ds"

definition read_dec :: "string \<Rightarrow> int" where
  "read_dec ds = (case ds of [] \<Rightarrow> 0
     | c # cs \<Rightarrow> if c = CHR ''-'' then - int (read_base 10 cs) else int (read_base 10 ds))"

lemma foldl_base: "foldl (\<lambda>a c. a * b + char_digit c) z xs = z * b ^ length xs + read_base b xs"
proof (induction xs arbitrary: z)
  case (Cons c xs)
  have "read_base b (c # xs) = char_digit c * b ^ length xs + read_base b xs"
    using Cons.IH [of "char_digit c"] by (subst read_base_def) simp
  then show ?case using Cons.IH [of "z * b + char_digit c"] by (simp add: algebra_simps)
qed (simp add: read_base_def)

lemma read_base_append: "read_base b (xs @ ys) = read_base b xs * b ^ length ys + read_base b ys"
  unfolding read_base_def [of b "xs @ ys"] foldl_append foldl_base [of b 0 xs] foldl_base [of b _ ys]
  by simp

lemma digit_char_digit:
  "unat d < 10 \<Longrightarrow> char_digit (digit_char d) = unat d"
  "10 \<le> unat d \<Longrightarrow> unat d < 16 \<Longrightarrow> char_digit (digit_char (d + 39)) = unat d"
proof -
  show "unat d < 10 \<Longrightarrow> char_digit (digit_char d) = unat d"
    by (simp add: char_digit_def digit_char_def)
  assume d: "10 \<le> unat d" "unat d < 16"
  then have "unat (d + 39) = unat d + 39" by (subst unat_plus_if_size) (simp add: word_size)
  with d show "char_digit (digit_char (d + 39)) = unat d"
    by (simp add: char_digit_def digit_char_def)
qed

lemma digit_char_not_minus: "unat d < 10 \<Longrightarrow> digit_char d \<noteq> CHR ''-''"
proof
  assume "unat d < 10" "digit_char d = CHR ''-''"
  then have "of_char (digit_char d) = (45 :: nat)" by simp
  with \<open>unat d < 10\<close> show False by (simp add: digit_char_def)
qed

text \<open>
  The loops end before the array is full, and the digits they store, read from the end, are the
  number.
\<close>

lemma dec_loop_spec:
  assumes "unat x < 10 ^ n" "length ds + n \<le> NR_DIGITS"
  shows "\<exists>es. dec_loop x ds = Inr (ds @ es) \<and> read_base 10 (rev es) = unat x \<and>
     (\<forall>c \<in> set es. c \<noteq> CHR ''-'') \<and> (x \<noteq> 0 \<longrightarrow> es \<noteq> [])"
  using assms
proof (induction n arbitrary: x ds)
  case 0
  then have "x = 0" by (simp add: unat_eq_zero)
  then show ?case by (subst dec_loop.simps) (simp add: read_base_def)
next
  case (Suc n)
  show ?case
  proof (cases "x = 0")
    case True
    then show ?thesis by (subst dec_loop.simps) (simp add: read_base_def)
  next
    case False
    let ?d = "digit_char (x mod 10)"
    have "unat (x div 10) < 10 ^ n" using Suc.prems(1) by (simp add: unat_div)
    moreover have "length (ds @ [?d]) + n \<le> NR_DIGITS" using Suc.prems(2) by simp
    ultimately obtain es where es: "dec_loop (x div 10) (ds @ [?d]) = Inr ((ds @ [?d]) @ es)"
        "read_base 10 (rev es) = unat (x div 10)" "\<forall>c \<in> set es. c \<noteq> CHR ''-''"
      using Suc.IH by blast
    have d: "unat (x mod 10) < 10" by (simp add: unat_mod)
    have "read_base 10 (rev (?d # es)) = unat x"
      using es(2) digit_char_digit(1) [OF d]
      by (simp add: read_base_append) (simp add: read_base_def unat_div unat_mod)
    moreover have "dec_loop x ds = Inr (ds @ ?d # es)"
      using es(1) False Suc.prems(2)
      by (subst dec_loop.simps) (simp add: word_le_nat_alt unat_gt_0 Suc_le_eq)
    ultimately show ?thesis
      using es(3) digit_char_not_minus [OF d] by (intro exI [of _ "?d # es"]) auto
  qed
qed

lemma hex_loop_spec:
  assumes "unat x < 16 ^ n" "length ds + n \<le> NR_DIGITS"
  shows "\<exists>es. hex_loop x ds = Inr (ds @ es) \<and> read_base 16 (rev es) = unat x"
  using assms
proof (induction n arbitrary: x ds)
  case 0
  then have "x = 0" by (simp add: unat_eq_zero)
  then show ?case by (subst hex_loop.simps) (simp add: read_base_def)
next
  case (Suc n)
  show ?case
  proof (cases "x = 0")
    case True
    then show ?thesis by (subst hex_loop.simps) (simp add: read_base_def)
  next
    case False
    let ?m = "x mod 16"
    let ?d = "digit_char (if ?m \<ge> 10 then ?m + 39 else ?m)"
    have div: "unat (drop_bit 4 x) = unat x div 16" by (simp add: drop_bit_eq_div unat_div)
    have "unat (drop_bit 4 x) < 16 ^ n" using Suc.prems(1) div by simp
    moreover have "length (ds @ [?d]) + n \<le> NR_DIGITS" using Suc.prems(2) by simp
    ultimately obtain es where es: "hex_loop (drop_bit 4 x) (ds @ [?d]) = Inr ((ds @ [?d]) @ es)"
        "read_base 16 (rev es) = unat (drop_bit 4 x)"
      using Suc.IH by blast
    have m: "unat ?m < 16" by (simp add: unat_mod)
    have "char_digit ?d = unat ?m"
      using m digit_char_digit [of ?m] by (simp add: word_le_nat_alt)
    then have "read_base 16 [?d] = unat x mod 16" by (simp add: read_base_def unat_mod)
    then have "read_base 16 (rev (?d # es)) = unat x"
      using es(2) by (simp only: rev.simps read_base_append div) simp
    moreover have "hex_loop x ds = Inr (ds @ ?d # es)"
      using es(1) False Suc.prems(2)
      by (subst hex_loop.simps) (simp add: word_le_nat_alt unat_gt_0 Suc_le_eq)
    ultimately show ?thesis by blast
  qed
qed

lemma print_hex_spec: "\<exists>ds. print_hex x = Inr ds \<and> read_base 16 ds = unat x"
proof -
  have "unat x < 16 ^ 8" using unat_u32_less [of x] by simp
  from hex_loop_spec [OF this, of "[]"] show ?thesis
    by (auto simp: print_hex_def NR_DIGITS_def read_base_def char_digit_def)
qed

lemma print_dec_spec: "\<exists>ds. print_dec x = Inr ds \<and> read_dec ds = sint x"
proof (cases "x = 0x80000000 \<or> x = 0")
  case True
  then show ?thesis
    by (auto simp: print_dec_def read_dec_def read_base_def char_digit_def)
next
  case False
  let ?y = "if sint x < 0 then - x else x"
  have y: "int (unat ?y) = \<bar>sint x\<bar>"
    using unat_neg_sint [of x] unat_nonneg_sint [of x] by (cases "sint x < 0") auto
  moreover have "\<bar>sint x\<bar> \<le> 2147483648" using sint_ge [of x] sint_lt [of x] by simp
  ultimately have "unat ?y \<le> 2147483648" by linarith
  then have "unat ?y < 10 ^ 10" by (rule le_less_trans) simp
  then obtain es where es: "dec_loop ?y [] = Inr es" "read_base 10 (rev es) = unat ?y"
      "\<forall>c \<in> set es. c \<noteq> CHR ''-''" "?y \<noteq> 0 \<longrightarrow> es \<noteq> []"
    using dec_loop_spec [of ?y 10 "[]"] by (auto simp: NR_DIGITS_def)
  have "?y \<noteq> 0" using False by auto
  then obtain c cs where c: "rev es = c # cs" "c \<noteq> CHR ''-''"
    using es(3,4) by (metis list.exhaust list.set_intros(1) rev_is_Nil_conv set_rev)
  show ?thesis
  proof (cases "sint x < 0")
    case True
    then show ?thesis using False es(1,2) y by (simp add: print_dec_def read_dec_def)
  next
    case nonneg: False
    then have "read_dec (rev es) = sint x" using c es(2) y by (simp add: read_dec_def)
    then show ?thesis using False es(1) nonneg by (simp add: print_dec_def)
  qed
qed

section \<open>Properties\<close>

text \<open>
  C35. Printing and reading back: \<^verbatim>\<open>%d\<close> prints every 32-bit \<^verbatim>\<open>int\<close>, \<^verbatim>\<open>INT_MIN\<close> included, as a
  decimal numeral that denotes it, \<^verbatim>\<open>%x\<close> prints its unsigned value in base 16, and neither loop
  runs over its array of 15 digits.
\<close>

theorem printk_number_roundtrip:
  "\<exists>ds es. vfprintf ''%d'' False [Num x] = Inr ds \<and> read_dec ds = sint x \<and>
     vfprintf ''%x'' False [Num x] = Inr es \<and> read_base 16 es = unat x"
  using print_dec_spec [of x] print_hex_spec [of x] by (auto simp: XGET_int_def)

text \<open>
  What one conversion consumes.  \<open>conversions\<close> is the list of conversions that a format string
  really has for this code, which does not know \<^verbatim>\<open>%%\<close>.
\<close>

fun conversions :: "string \<Rightarrow> bool \<Rightarrow> string" where
  "conversions [] rd = []"
| "conversions (c # cs) rd =
     (if c = CHR ''%'' then conversions cs True
      else if rd then (if c \<in> set ''sxdc'' then [c] else []) @ conversions cs False
      else conversions cs False)"

fun args_match :: "string \<Rightarrow> vararg list \<Rightarrow> bool" where
  "args_match [] p = True"
| "args_match (c # cs) p =
     (case p of [] \<Rightarrow> False
      | Str x # q \<Rightarrow> c = CHR ''s'' \<and> args_match cs q
      | Num x # q \<Rightarrow> c \<noteq> CHR ''s'' \<and> args_match cs q)"

text \<open>
  C36. A call of \<open>vfprintf\<close> stays inside defined behaviour exactly when the argument slots match the
  conversions of the format string, one slot of the right kind each, in order.
\<close>

theorem vfprintf_defined_iff:
  "(\<exists>out. vfprintf ctl rd p = Inr out) \<longleftrightarrow> args_match (conversions ctl rd) p"
proof (induction ctl rd p rule: vfprintf.induct)
  case (2 c cs rd p)
  show ?case
    using 2 print_dec_spec print_hex_spec
    by (cases p rule: list.exhaust)
      (auto simp: XGET_int_def XGET_str_def bind_res_eq_Inr split: vararg.splits list.splits, metis+)
qed simp

end
