(* ===== verification/Clib.thy ===== *)
theory Clib
  imports Prelude
begin

text \<open>
  The string and memory routines of \<^verbatim>\<open>src/kernel/include/common.h\<close> that work on bytes.  Strings are
  lists of bytes in arrays of fixed size; \<open>memmove\<close> works on a flat byte memory through the string
  instructions of the processor in both directions.
\<close>

section \<open>C strings in fixed fields\<close>

text \<open>
  \<^verbatim>\<open>strcmp\<close> and \<^verbatim>\<open>strcpy\<close> of \<^verbatim>\<open>common.h\<close> on a name field: the first argument of \<open>strcmp_field\<close> is
  the rest of the field, and running off its end is undefined; the second is a terminated string.
\<close>

fun strcmp_field :: "u8 list \<Rightarrow> u8 list \<Rightarrow> int res" where
  "strcmp_field [] s2 = Inl OutOfBounds"
| "strcmp_field (c # s1) s2 =
     (let d = (case s2 of [] \<Rightarrow> 0 | d # _ \<Rightarrow> d) in
      if c \<noteq> 0 \<and> c = d then strcmp_field s1 (tl s2) else Inr (uint c - uint d))"

fun cstring :: "u8 list \<Rightarrow> u8 list res" where
  "cstring [] = Inl OutOfBounds"
| "cstring (c # cs) =
     (if c = 0 then Inr [] else bind_res (cstring cs) (\<lambda>ds. Inr (c # ds)))"

definition strcpy_field :: "u8 list \<Rightarrow> u8 list \<Rightarrow> u8 list res" where
  "strcpy_field dest source =
     (if length source < length dest
      then Inr (source @ 0 # drop (length source + 1) dest)
      else Inl OutOfBounds)"

definition strlen :: "u8 list \<Rightarrow> nat res" where
  "strlen source = bind_res (cstring source) (\<lambda>cs. Inr (length cs))"

lemma strcpy_field_ok:
  "length nm < length dest \<Longrightarrow> strcpy_field dest nm = Inr (nm @ 0 # drop (length nm + 1) dest)"
  by (simp add: strcpy_field_def)

lemma strcmp_field_same: "0 \<notin> set name \<Longrightarrow> strcmp_field (name @ 0 # r) name = Inr 0"
  by (induction name) simp_all

lemma cstring_field: "0 \<notin> set name \<Longrightarrow> cstring (name @ 0 # r) = Inr name"
  by (induction name) auto

section \<open>Bytes and characters\<close>

definition to_string :: "u8 list \<Rightarrow> string" where
  "to_string bs = map (\<lambda>b. char_of (unat b)) bs"

definition TAB :: string where "TAB = [CHR 0x09]"
definition NL :: string where "NL = [CHR 0x0A]"

definition of_string :: "string \<Rightarrow> u8 list" where
  "of_string cs = map (\<lambda>c. of_nat (of_char c)) cs"

section \<open>Moving memory\<close>

text \<open>
  \<^verbatim>\<open>rep movsb\<close> and \<^verbatim>\<open>rep movsl\<close> with the direction flag clear (\<open>up\<close>) and set (\<open>down\<close>): the count, the
  two index registers, and the memory.
\<close>

type_synonym bmem = "u32 \<Rightarrow> u8"

definition mov4 :: "u32 \<Rightarrow> u32 \<Rightarrow> bmem \<Rightarrow> bmem" where
  "mov4 d s m = m(d := m s, d + 1 := m (s + 1), d + 2 := m (s + 2), d + 3 := m (s + 3))"

primrec movsb_up :: "nat \<Rightarrow> u32 \<Rightarrow> u32 \<Rightarrow> bmem \<Rightarrow> bmem" where
  "movsb_up 0 d s m = m"
| "movsb_up (Suc n) d s m = movsb_up n (d + 1) (s + 1) (m(d := m s))"

primrec movsb_down :: "nat \<Rightarrow> u32 \<Rightarrow> u32 \<Rightarrow> bmem \<Rightarrow> bmem" where
  "movsb_down 0 d s m = m"
| "movsb_down (Suc n) d s m = movsb_down n (d - 1) (s - 1) (m(d := m s))"

primrec movsl_up :: "nat \<Rightarrow> u32 \<Rightarrow> u32 \<Rightarrow> bmem \<Rightarrow> bmem" where
  "movsl_up 0 d s m = m"
| "movsl_up (Suc n) d s m = movsl_up n (d + 4) (s + 4) (mov4 d s m)"

primrec movsl_down :: "nat \<Rightarrow> u32 \<Rightarrow> u32 \<Rightarrow> bmem \<Rightarrow> bmem" where
  "movsl_down 0 d s m = m"
| "movsl_down (Suc n) d s m = movsl_down n (d - 4) (s - 4) (mov4 d s m)"

definition memmove :: "u32 \<Rightarrow> u32 \<Rightarrow> u32 \<Rightarrow> bmem \<Rightarrow> bmem" where
  "memmove dst src n m =
     (let s = src; d = dst in
      if s < d \<and> s + n > d then
        (let s = s + n; d = d + n in
         if s mod 4 = 0 \<and> d mod 4 = 0 \<and> n mod 4 = 0
         then movsl_down (unat (n div 4)) (d - 4) (s - 4) m
         else movsb_down (unat n) (d - 1) (s - 1) m)
      else
        (if s mod 4 = 0 \<and> d mod 4 = 0 \<and> n mod 4 = 0
         then movsl_up (unat (n div 4)) d s m
         else movsb_up (unat n) d s m))"

text \<open>The reference: all bytes at once.\<close>

definition moved :: "nat \<Rightarrow> nat \<Rightarrow> nat \<Rightarrow> bmem \<Rightarrow> bmem" where
  "moved D S n m a = (if D \<le> unat a \<and> unat a < D + n then m (of_nat (S + (unat a - D))) else m a)"

lemma of_nat_u32_eq_iff:
  "i < 2 ^ 32 \<Longrightarrow> j < 2 ^ 32 \<Longrightarrow> (of_nat i :: u32) = of_nat j \<longleftrightarrow> i = j"
  using unat_small by metis

lemma fun_upd_nat: "i < 2 ^ 32 \<Longrightarrow> (m((of_nat i :: u32) := v)) a = (if unat a = i then v else m a)"
  using unat_small [of i] by auto

lemma mov4_nat:
  assumes "D + 4 \<le> 2 ^ 32"
  shows "mov4 (of_nat D) (of_nat S) m = moved D S 4 m"
proof
  fix a :: u32
  have e: "(of_nat D :: u32) + 1 = of_nat (D + 1)" "(of_nat D :: u32) + 2 = of_nat (D + 2)"
    "(of_nat D :: u32) + 3 = of_nat (D + 3)" by simp_all
  have d: "D \<le> unat a \<and> unat a < D + 4 \<longleftrightarrow> unat a \<in> {D, D + 1, D + 2, D + 3}" by auto
  show "mov4 (of_nat D) (of_nat S) m a = moved D S 4 m a"
    unfolding mov4_def e moved_def d using assms by (auto simp only: fun_upd_nat) (simp_all add: add.commute)
qed

lemma moved_split_up:
  assumes "D \<le> S \<or> S + (k + n) \<le> D" "S + (k + n) \<le> 2 ^ 32"
  shows "moved (D + k) (S + k) n (moved D S k m) = moved D S (k + n) m"
proof
  fix a :: u32
  have "moved D S k m (of_nat (S + k + (unat a - (D + k)))) = m (of_nat (S + (unat a - D)))"
    if "D + k \<le> unat a" "unat a < D + k + n"
  proof -
    have u: "unat (of_nat (S + k + (unat a - (D + k))) :: u32) = S + (unat a - D)"
      using that assms(2) by (subst unat_small) auto
    show ?thesis unfolding moved_def [of D S k] u using assms(1) that by auto
  qed
  then show "moved (D + k) (S + k) n (moved D S k m) a = moved D S (k + n) m a"
    by (auto simp: moved_def [of "D + k"] moved_def [of D S "k + n"]) (auto simp: moved_def)
qed

lemma moved_split_down:
  assumes "S \<le> D" "S + (n + k) \<le> 2 ^ 32"
  shows "moved D S n (moved (D + n) (S + n) k m) = moved D S (n + k) m"
proof
  fix a :: u32
  have "moved (D + n) (S + n) k m (of_nat (S + (unat a - D))) = m (of_nat (S + (unat a - D)))"
    if "D \<le> unat a" "unat a < D + n"
  proof -
    have u: "unat (of_nat (S + (unat a - D)) :: u32) = S + (unat a - D)"
      using that assms(2) by (subst unat_small) auto
    show ?thesis unfolding moved_def u using assms(1) that by auto
  qed
  then show "moved D S n (moved (D + n) (S + n) k m) a = moved D S (n + k) m a"
    by (auto simp: moved_def [of D S n] moved_def [of D S "n + k"]) (auto simp: moved_def)
qed

lemma moved_one: "D < 2 ^ 32 \<Longrightarrow> m(of_nat D := m (of_nat S)) = moved D S 1 m"
proof
  fix a :: u32 assume "D < 2 ^ 32"
  then have "(m(of_nat D := m (of_nat S))) a = (if unat a = D then m (of_nat S) else m a)" by (rule fun_upd_nat)
  then show "(m(of_nat D := m (of_nat S))) a = moved D S 1 m a" by (auto simp: moved_def)
qed

lemma moved_0 [simp]: "moved D S 0 m = m"
  by (rule ext) (auto simp: moved_def)

lemma movsb_up_moved:
  assumes "D \<le> S \<or> S + n \<le> D" "D + n \<le> 2 ^ 32" "S + n \<le> 2 ^ 32"
  shows "movsb_up n (of_nat D) (of_nat S) m = moved D S n m"
  using assms
proof (induction n arbitrary: D S m)
  case (Suc n)
  have "movsb_up n (of_nat (D + 1)) (of_nat (S + 1)) (moved D S 1 m)
      = moved (D + 1) (S + 1) n (moved D S 1 m)" using Suc.prems by (intro Suc.IH) auto
  then show ?case using Suc.prems moved_split_up [of D S 1 n m] moved_one [of D m S] by (simp add: add.commute)
qed simp

lemma movsl_up_moved:
  assumes "D \<le> S \<or> S + 4 * n \<le> D" "D + 4 * n \<le> 2 ^ 32" "S + 4 * n \<le> 2 ^ 32"
  shows "movsl_up n (of_nat D) (of_nat S) m = moved D S (4 * n) m"
  using assms
proof (induction n arbitrary: D S m)
  case (Suc n)
  have "movsl_up n (of_nat (D + 4)) (of_nat (S + 4)) (moved D S 4 m)
      = moved (D + 4) (S + 4) (4 * n) (moved D S 4 m)" using Suc.prems by (intro Suc.IH) auto
  then show ?case using Suc.prems moved_split_up [of D S 4 "4 * n" m] mov4_nat [of D S m] by (simp add: add.commute)
qed simp

lemma movsb_down_moved:
  assumes "S \<le> D" "D + n \<le> 2 ^ 32"
  shows "movsb_down n (of_nat (D + n) - 1) (of_nat (S + n) - 1) m = moved D S n m"
  using assms
proof (induction n arbitrary: m)
  case (Suc n)
  have "movsb_down n (of_nat (D + n) - 1) (of_nat (S + n) - 1) (moved (D + n) (S + n) 1 m)
      = moved D S n (moved (D + n) (S + n) 1 m)" using Suc.prems by (intro Suc.IH) auto
  then show ?case using Suc.prems moved_split_down [of S D n 1 m] moved_one [of "D + n" m "S + n"] by simp
qed simp

lemma movsl_down_moved:
  assumes "S \<le> D" "D + 4 * n \<le> 2 ^ 32"
  shows "movsl_down n (of_nat (D + 4 * n) - 4) (of_nat (S + 4 * n) - 4) m = moved D S (4 * n) m"
  using assms
proof (induction n arbitrary: m)
  case (Suc n)
  have "movsl_down n (of_nat (D + 4 * n) - 4) (of_nat (S + 4 * n) - 4) (moved (D + 4 * n) (S + 4 * n) 4 m)
      = moved D S (4 * n) (moved (D + 4 * n) (S + 4 * n) 4 m)" using Suc.prems by (intro Suc.IH) auto
  then show ?case using Suc.prems moved_split_down [of S D "4 * n" 4 m] mov4_nat [of "D + 4 * n" "S + 4 * n" m]
    by (simp add: add.commute)
qed simp

lemma four_dvd_div: "n mod 4 = 0 \<Longrightarrow> 4 * unat (n div 4) = unat (n :: u32)"
proof -
  assume "n mod 4 = 0"
  then have "unat n mod 4 = 0" using unat_mod [of n 4] by simp
  moreover have "unat (n div 4) = unat n div 4" using unat_div [of n 4] by simp
  ultimately show ?thesis using mult_div_mod_eq [of 4 "unat n"] by (simp only: add_0_right)
qed

text \<open>
  C34. \<open>memmove\<close> is a simultaneous copy: for regions that do not wrap around the address space, every
  byte of the destination gets what its source held before, whether or not the two regions
  overlap, and whichever of the four string instructions the alignment selects; no other byte
  changes.
\<close>

theorem memmove_simultaneous:
  assumes "unat dst + unat n < 2 ^ 32" "unat src + unat n < 2 ^ 32"
  shows "memmove dst src n m a =
    (if unat dst \<le> unat a \<and> unat a < unat dst + unat n then m (src + (a - dst)) else m a)"
proof -
  let ?D = "unat dst" and ?S = "unat src" and ?n = "unat n"
  have e: "src + n = of_nat (?S + ?n)" "dst + n = of_nat (?D + ?n)" by simp_all
  have ov: "src < dst \<and> src + n > dst \<longleftrightarrow> ?S < ?D \<and> ?D < ?S + ?n"
    unfolding e word_less_nat_alt using assms by (simp only: unat_small)
  have q: "4 * unat (n div 4) = ?n" if "n mod 4 = 0" using that by (rule four_dvd_div)
  have "memmove dst src n m = moved ?D ?S ?n m"
  proof (cases "?S < ?D \<and> ?D < ?S + ?n")
    case True
    then have "movsb_down ?n (dst + n - 1) (src + n - 1) m = moved ?D ?S ?n m"
      unfolding e using assms by (intro movsb_down_moved) auto
    moreover have "movsl_down (unat (n div 4)) (dst + n - 4) (src + n - 4) m = moved ?D ?S ?n m" if "n mod 4 = 0"
      using movsl_down_moved [of ?S ?D "unat (n div 4)" m] True assms unfolding e q [OF that] by auto
    ultimately show ?thesis unfolding memmove_def Let_def ov using True by (simp only: simp_thms if_True) (metis (full_types))
  next
    case False
    then have "movsb_up ?n dst src m = moved ?D ?S ?n m"
      using movsb_up_moved [of ?D ?S ?n m] assms by auto
    moreover have "movsl_up (unat (n div 4)) dst src m = moved ?D ?S ?n m" if "n mod 4 = 0"
      using movsl_up_moved [of ?D ?S "unat (n div 4)" m] False assms unfolding q [OF that] by auto
    ultimately show ?thesis unfolding memmove_def Let_def ov using False by (simp only: simp_thms if_False) (metis (full_types))
  qed
  moreover have "of_nat (?S + (unat a - ?D)) = src + (a - dst)" if "?D \<le> unat a"
    using that by (simp add: of_nat_diff)
  ultimately show ?thesis by (auto simp: moved_def algebra_simps)
qed

theorem memmove_simultaneous_witness:
  "memmove 0x1002 0x1000 5 (\<lambda>a. ucast a) 0x1004 = 2"
  using memmove_simultaneous [where dst = "0x1002" and n = 5 and src = "0x1000" and m = "\<lambda>a. ucast a" and a = "0x1004"]
  by simp

end
