(* ===== verification/File_System.thy ===== *)
theory File_System
  imports Queues Printk Clib
begin

text \<open>
  The kernel's file system: \<^verbatim>\<open>src/kernel/src/fs/file.c\<close>, \<^verbatim>\<open>src/kernel/include/file.h\<close> and the disk
  driver \<^verbatim>\<open>src/inc/disk.h\<close>.  The disk is a map from sector numbers to sectors, a sector a map from
  byte offsets (below 512) to bytes.  The four global buffers of the source (bitmap, inode, dir,
  buffer) are fields of the state, since the operations communicate through them.
  The user's buffer of a read is returned as the list of bytes copied to it, the buffer of a write
  is a function from offsets to bytes.
\<close>

section \<open>Layout and data\<close>

type_synonym sector = "nat \<Rightarrow> u8"

definition BLOCK_SIZE :: nat where "BLOCK_SIZE = 512"
definition LEN_FILENAME :: nat where "LEN_FILENAME = 24"
definition NR_ENTRIES :: nat where "NR_ENTRIES = BLOCK_SIZE div 32"
definition NR_BLOCKS :: nat where "NR_BLOCKS = BLOCK_SIZE div 4"
definition SC_BITMAP :: nat where "SC_BITMAP = 256"
definition SC_DIR :: nat where "SC_DIR = 256"
definition SC_INODE :: nat where "SC_INODE = 256"
definition SC_DATA :: nat where "SC_DATA = 512 div 4 * SC_INODE"
definition NR_FILE_STREAM :: nat where "NR_FILE_STREAM = 256"

lemmas fs_consts = BLOCK_SIZE_def LEN_FILENAME_def NR_ENTRIES_def NR_BLOCKS_def SC_BITMAP_def
  SC_DIR_def SC_INODE_def SC_DATA_def NR_FILE_STREAM_def

definition LOC_BITMAP :: u32 where "LOC_BITMAP = 1"

definition LOC_DIR :: "u32 \<Rightarrow> u32" where
  "LOC_DIR x = 1 + 256 + x"

definition LOC_INODE :: "u32 \<Rightarrow> u32" where
  "LOC_INODE x = 1 + 256 + of_nat SC_DIR + x"

definition LOC_DATA :: "u32 \<Rightarrow> u32" where
  "LOC_DATA x = 1 + 256 + of_nat SC_DIR + of_nat SC_INODE + x"

text \<open>\<open>filename\<close> has \<open>LEN_FILENAME\<close> bytes.\<close>

record dirent =
  filename :: "u8 list"
  file_size :: u32
  inode_offset :: u32

record FILE_STREAM =
  st_offset :: u32
  st_inode_offset :: u32
  st_file_size :: u32
  st_dir_offset :: u32
  st_entry_offset :: u32
  st_filename :: "u8 list"
  st_used :: u8

record fsst = procst +
  disk :: "nat \<Rightarrow> sector"
  bitmap :: "nat \<Rightarrow> u8"
  inode :: "nat \<Rightarrow> u32"
  dir :: "nat \<Rightarrow> dirent"
  buffer :: sector
  fs :: "nat \<Rightarrow> FILE_STREAM"

section \<open>The disk driver\<close>

text \<open>
  \<^verbatim>\<open>readsect\<close> and \<^verbatim>\<open>writesect\<close> program the controller with five bytes and a command.  The
  controller takes the sector number from the three low registers and the low half of the device
  register; bit 4 of the latter selects the second drive, whose sectors are numbered after those of
  the first.
\<close>

definition ide_command :: "u32 \<Rightarrow> u8 \<Rightarrow> (u16 \<times> u8) list" where
  "ide_command offset cmd =
     [(0x1F2, 1), (0x1F3, ucast offset), (0x1F4, ucast (drop_bit 8 offset)),
      (0x1F5, ucast (drop_bit 16 offset)), (0x1F6, ucast (drop_bit 24 offset) OR 0xE0),
      (0x1F7, cmd)]"

definition ide_reg :: "(u16 \<times> u8) list \<Rightarrow> u16 \<Rightarrow> u8" where
  "ide_reg regs port = (case map_of regs port of None \<Rightarrow> 0 | Some v \<Rightarrow> v)"

definition ide_addressed :: "(u16 \<times> u8) list \<Rightarrow> nat" where
  "ide_addressed regs =
     unat (ide_reg regs 0x1F3) + 2 ^ 8 * unat (ide_reg regs 0x1F4) +
     2 ^ 16 * unat (ide_reg regs 0x1F5) + 2 ^ 24 * unat (ide_reg regs 0x1F6 AND 0x1F)"

definition readsect :: "u32 \<Rightarrow> 'a fsst_scheme \<Rightarrow> sector" where
  "readsect offset s = disk s (ide_addressed (ide_command offset 0x20))"

definition writesect :: "sector \<Rightarrow> u32 \<Rightarrow> 'a fsst_scheme \<Rightarrow> 'a fsst_scheme" where
  "writesect src offset s = s\<lparr>disk := (disk s)(ide_addressed (ide_command offset 0x30) := src)\<rparr>"

section \<open>Sector formats\<close>

definition get_le32 :: "sector \<Rightarrow> nat \<Rightarrow> u32" where
  "get_le32 sec k = ucast (sec k) + 2 ^ 8 * ucast (sec (k + 1)) +
     2 ^ 16 * ucast (sec (k + 2)) + 2 ^ 24 * ucast (sec (k + 3))"

definition le32_byte :: "u32 \<Rightarrow> nat \<Rightarrow> u8" where
  "le32_byte w j = ucast (drop_bit (8 * j) w)"

definition dec_inode :: "sector \<Rightarrow> nat \<Rightarrow> u32" where
  "dec_inode sec i = get_le32 sec (4 * i)"

definition enc_inode :: "(nat \<Rightarrow> u32) \<Rightarrow> sector" where
  "enc_inode ino k = le32_byte (ino (k div 4)) (k mod 4)"

definition dec_dir :: "sector \<Rightarrow> nat \<Rightarrow> dirent" where
  "dec_dir sec e =
     \<lparr>filename = map (\<lambda>j. sec (32 * e + j)) [0..<LEN_FILENAME],
      file_size = get_le32 sec (32 * e + 24), inode_offset = get_le32 sec (32 * e + 28)\<rparr>"

definition enc_dir :: "(nat \<Rightarrow> dirent) \<Rightarrow> sector" where
  "enc_dir d k =
     (let e = d (k div 32); j = k mod 32 in
      if j < 24 then filename e ! j
      else if j < 28 then le32_byte (file_size e) (j - 24)
      else le32_byte (inode_offset e) (j - 28))"

section \<open>Reading and saving the buffers\<close>

primrec readBitmap_loop :: "nat \<Rightarrow> 'a fsst_scheme \<Rightarrow> 'a fsst_scheme" where
  "readBitmap_loop 0 s = s"
| "readBitmap_loop (Suc count) s =
     (let s = readBitmap_loop count s;
          sec = readsect (LOC_BITMAP + push_bit 9 (of_nat count)) s
      in s\<lparr>bitmap := (\<lambda>k. if count * 512 \<le> k \<and> k < count * 512 + 512
                         then sec (k - count * 512) else bitmap s k)\<rparr>)"

primrec saveBitmap_loop :: "nat \<Rightarrow> 'a fsst_scheme \<Rightarrow> 'a fsst_scheme" where
  "saveBitmap_loop 0 s = s"
| "saveBitmap_loop (Suc count) s =
     (let s = saveBitmap_loop count s
      in writesect (\<lambda>k. bitmap s (count * 512 + k)) (LOC_BITMAP + push_bit 9 (of_nat count)) s)"

definition readBitmap :: "'a fsst_scheme \<Rightarrow> 'a fsst_scheme" where
  "readBitmap s = readBitmap_loop SC_BITMAP s"

definition saveBitmap :: "'a fsst_scheme \<Rightarrow> 'a fsst_scheme" where
  "saveBitmap s = saveBitmap_loop SC_BITMAP s"

definition readDir :: "u32 \<Rightarrow> 'a fsst_scheme \<Rightarrow> 'a fsst_scheme" where
  "readDir offset s = s\<lparr>dir := dec_dir (readsect (LOC_DIR offset) s)\<rparr>"

definition saveDir :: "u32 \<Rightarrow> 'a fsst_scheme \<Rightarrow> 'a fsst_scheme" where
  "saveDir offset s = writesect (enc_dir (dir s)) (LOC_DIR offset) s"

definition readINode :: "u32 \<Rightarrow> 'a fsst_scheme \<Rightarrow> 'a fsst_scheme" where
  "readINode offset s = s\<lparr>inode := dec_inode (readsect (LOC_INODE offset) s)\<rparr>"

definition saveINode :: "u32 \<Rightarrow> 'a fsst_scheme \<Rightarrow> 'a fsst_scheme" where
  "saveINode offset s = writesect (enc_inode (inode s)) (LOC_INODE offset) s"

definition readData :: "u32 \<Rightarrow> 'a fsst_scheme \<Rightarrow> 'a fsst_scheme" where
  "readData offset s = s\<lparr>buffer := readsect (LOC_DATA offset) s\<rparr>"

definition saveData :: "u32 \<Rightarrow> 'a fsst_scheme \<Rightarrow> 'a fsst_scheme" where
  "saveData offset s = writesect (buffer s) (LOC_DATA offset) s"

section \<open>The block allocators\<close>

text \<open>
  The scan of both allocators: the first \<open>i\<close> below the bound whose sector \<open>loc i\<close> has a clear bit.
\<close>

definition sec_free :: "(nat \<Rightarrow> u8) \<Rightarrow> u32 \<Rightarrow> bool" where
  "sec_free msk sec =
     (msk (unat (drop_bit 3 sec)) AND push_bit (unat (sec AND 0x7)) 1 = 0)"

definition sec_mark :: "u32 \<Rightarrow> (nat \<Rightarrow> u8) \<Rightarrow> nat \<Rightarrow> u8" where
  "sec_mark sec msk =
     (let secN = unat (drop_bit 3 sec); secR = push_bit (unat (sec AND 0x7)) 1
      in msk(secN := msk secN OR secR))"

primrec alloc_scan :: "nat \<Rightarrow> u32 \<Rightarrow> (u32 \<Rightarrow> u32) \<Rightarrow> (nat \<Rightarrow> u8) \<Rightarrow> u32 option" where
  "alloc_scan 0 i loc msk = None"
| "alloc_scan (Suc n) i loc msk =
     (if sec_free msk (loc i) then Some i else alloc_scan n (i + 1) loc msk)"

definition INodeAlloc :: "'a fsst_scheme \<Rightarrow> u32 \<times> 'a fsst_scheme" where
  "INodeAlloc s =
     (let s = readBitmap s in
      case alloc_scan SC_INODE 0 LOC_INODE (bitmap s) of
        None \<Rightarrow> (- 1, s)
      | Some i \<Rightarrow>
          (let s = s\<lparr>bitmap := sec_mark (LOC_INODE i) (bitmap s)\<rparr> in (i, saveBitmap s)))"

definition dataAlloc :: "'a fsst_scheme \<Rightarrow> u32 \<times> 'a fsst_scheme" where
  "dataAlloc s =
     (let s = readBitmap s in
      case alloc_scan SC_DATA 0 LOC_DATA (bitmap s) of
        None \<Rightarrow> (- 1, s)
      | Some i \<Rightarrow>
          (let s = s\<lparr>bitmap := sec_mark (LOC_DATA i) (bitmap s)\<rparr> in (i, saveBitmap s)))"

section \<open>Files\<close>

definition stream :: "u32 \<Rightarrow> nat res" where
  "stream fd = (if unat fd < NR_FILE_STREAM then Inr (unat fd) else Inl OutOfBounds)"

definition upd_stream :: "nat \<Rightarrow> (FILE_STREAM \<Rightarrow> FILE_STREAM) \<Rightarrow> 'a fsst_scheme \<Rightarrow> 'a fsst_scheme" where
  "upd_stream i f s = s\<lparr>fs := (fs s)(i := f (fs s i))\<rparr>"

text \<open>
  The nested search loops of \<^verbatim>\<open>fs_open_kr\<close> and \<^verbatim>\<open>fs_create_kr\<close>: the first entry that satisfies the
  test, over all directory sectors in order.  The sector with the hit stays in \<open>dir\<close>.
\<close>

primrec find_entry :: "nat \<Rightarrow> nat \<Rightarrow> (dirent \<Rightarrow> bool res) \<Rightarrow> (nat \<Rightarrow> dirent) \<Rightarrow> nat option res" where
  "find_entry 0 e test d = Inr None"
| "find_entry (Suc n) e test d =
     bind_res (test (d e)) (\<lambda>b. if b then Inr (Some e) else find_entry n (Suc e) test d)"

primrec find_dir :: "nat \<Rightarrow> u32 \<Rightarrow> (dirent \<Rightarrow> bool res) \<Rightarrow> 'a fsst_scheme \<Rightarrow>
    ((u32 \<times> nat) option \<times> 'a fsst_scheme) res" where
  "find_dir 0 dir_offset test s = Inr (None, s)"
| "find_dir (Suc n) dir_offset test s =
     (let s = readDir dir_offset s in
      bind_res (find_entry NR_ENTRIES 0 test (dir s)) (\<lambda>r. case r of
        Some e \<Rightarrow> Inr (Some (dir_offset, e), s)
      | None \<Rightarrow> find_dir n (dir_offset + 1) test s))"

primrec find_stream :: "nat \<Rightarrow> nat \<Rightarrow> (nat \<Rightarrow> FILE_STREAM) \<Rightarrow> nat option" where
  "find_stream 0 i f = None"
| "find_stream (Suc n) i f = (if st_used (f i) = 0 then Some i else find_stream n (Suc i) f)"

text \<open>The common tail of open and create: take a free stream and fill it from the entry.\<close>

definition open_stream :: "u32 \<Rightarrow> nat \<Rightarrow> 'a fsst_scheme \<Rightarrow> (u32 \<times> 'a fsst_scheme) res" where
  "open_stream dir_offset entry_offset s =
     (case find_stream NR_FILE_STREAM 0 (fs s) of
        None \<Rightarrow> Inr (- 1, s)
      | Some i \<Rightarrow>
          (let e = dir s entry_offset;
               s = upd_stream i (\<lambda>f. f\<lparr>st_used := 1\<rparr>) s;
               s = upd_stream i (\<lambda>f. f\<lparr>st_file_size := file_size e\<rparr>) s in
           bind_res (cstring (filename e)) (\<lambda>name.
           bind_res (strcpy_field (st_filename (fs s i)) name) (\<lambda>name.
           let s = upd_stream i (\<lambda>f. f\<lparr>st_filename := name\<rparr>) s;
               s = upd_stream i (\<lambda>f. f\<lparr>st_inode_offset := inode_offset e\<rparr>) s;
               s = upd_stream i (\<lambda>f. f\<lparr>st_offset := 0\<rparr>) s;
               s = upd_stream i (\<lambda>f. f\<lparr>st_dir_offset := dir_offset\<rparr>) s;
               s = upd_stream i (\<lambda>f. f\<lparr>st_entry_offset := of_nat entry_offset\<rparr>) s
           in Inr (of_nat i, s)))))"

definition fs_open_kr :: "u8 list \<Rightarrow> 'a fsst_scheme \<Rightarrow> (u32 \<times> 'a fsst_scheme) res" where
  "fs_open_kr name s =
     bind_res (find_dir SC_DIR 0
         (\<lambda>e. bind_res (strcmp_field (filename e) name) (\<lambda>r. Inr (r = 0))) s)
       (\<lambda>(r, s). case r of None \<Rightarrow> Inr (- 1, s) | Some (d, e) \<Rightarrow> open_stream d e s)"

text \<open>
  \<open>block_ptr D\<close> reads \<^verbatim>\<open>inode.data_block_offsets[D]\<close>; \<open>memcpy_len\<close> is the length of a \<^verbatim>\<open>rep movsb\<close>
  whose count came from a signed length: a negative one sweeps over nearly the whole address space.
\<close>

definition block_ptr :: "u32 \<Rightarrow> 'a fsst_scheme \<Rightarrow> u32 res" where
  "block_ptr D s = (if unat D < NR_BLOCKS then Inr (inode s (unat D)) else Inl OutOfBounds)"

definition memcpy_len :: "u32 \<Rightarrow> nat res" where
  "memcpy_len len = (if 0 \<le> sint len then Inr (nat (sint len)) else Inl OutOfBounds)"

definition buf_read :: "nat \<Rightarrow> nat \<Rightarrow> 'a fsst_scheme \<Rightarrow> u8 list res" where
  "buf_read R n s =
     (if R + n \<le> BLOCK_SIZE then Inr (map (\<lambda>k. buffer s (R + k)) [0..<n]) else Inl OutOfBounds)"

definition buf_write :: "nat \<Rightarrow> (nat \<Rightarrow> u8) \<Rightarrow> nat \<Rightarrow> 'a fsst_scheme \<Rightarrow> 'a fsst_scheme res" where
  "buf_write R src n s =
     (if R + n \<le> BLOCK_SIZE
      then Inr (s\<lparr>buffer := (\<lambda>k. if R \<le> k \<and> k < R + n then src (k - R) else buffer s k)\<rparr>)
      else Inl OutOfBounds)"

definition advance :: "nat \<Rightarrow> u32 \<Rightarrow> 'a fsst_scheme \<Rightarrow> 'a fsst_scheme" where
  "advance i n s = upd_stream i (\<lambda>f. f\<lparr>st_offset := st_offset f + n\<rparr>) s"

lemma sint_minus_block:
  assumes "512 \<le> sint (len :: u32)"
  shows "sint (len - 512) = sint len - 512"
proof -
  have "sint (len - 512) = signed_take_bit 31 (sint len - 512)" by (simp add: sint_word_diff)
  then show ?thesis using assms sint_lt [of len] by (simp add: signed_take_bit_int_eq_self)
qed

text \<open>The loops over whole blocks.\<close>

function read_blocks :: "nat \<Rightarrow> u32 \<Rightarrow> 'a fsst_scheme \<Rightarrow> (u8 list \<times> u32 \<times> 'a fsst_scheme) res" where
  "read_blocks i len s =
     (if 512 \<le> sint len then
        bind_res (block_ptr (drop_bit 9 (st_offset (fs s i))) s) (\<lambda>b.
        let s = readData b s in
        bind_res (buf_read 0 BLOCK_SIZE s) (\<lambda>out.
        let s = advance i 512 s in
        bind_res (read_blocks i (len - 512) s) (\<lambda>(out', len, s). Inr (out @ out', len, s))))
      else Inr ([], len, s))"
  by pat_completeness auto
termination by (relation "measure (\<lambda>(i, len, s). nat (sint len))") (auto simp: sint_minus_block)

function write_blocks ::
  "nat \<Rightarrow> (nat \<Rightarrow> u8) \<Rightarrow> u32 \<Rightarrow> u32 \<Rightarrow> 'a fsst_scheme \<Rightarrow> (u32 \<times> u32 \<times> 'a fsst_scheme) res" where
  "write_blocks i src offset len s =
     (if 512 \<le> sint len then
        (let D = drop_bit 9 (st_offset (fs s i)) in
         bind_res (buf_write 0 (\<lambda>k. src (unat offset + k)) BLOCK_SIZE s) (\<lambda>s.
         bind_res (block_ptr D s) (\<lambda>b.
         let s = saveData b s;
             s = advance i 512 s
         in write_blocks i src (offset + 512) (len - 512) s)))
      else Inr (offset, len, s))"
  by pat_completeness auto
termination by (relation "measure (\<lambda>(i, src, offset, len, s). nat (sint len))") (auto simp: sint_minus_block)

declare read_blocks.simps [simp del] write_blocks.simps [simp del]

definition fs_read_base_kr :: "u32 \<Rightarrow> u32 \<Rightarrow> 'a fsst_scheme \<Rightarrow> (u8 list \<times> 'a fsst_scheme) res" where
  "fs_read_base_kr fd len s =
     bind_res (stream fd) (\<lambda>i.
     let s = readINode (st_inode_offset (fs s i)) s;
         D = drop_bit 9 (st_offset (fs s i));
         R = st_offset (fs s i) mod 512
     in if R + len > 512 then
          bind_res (block_ptr D s) (\<lambda>b.
          let s = readData b s in
          bind_res (buf_read (unat R) (unat (512 - R)) s) (\<lambda>out1.
          let s = advance i (512 - R) s;
              len = len - (512 - R) in
          bind_res (read_blocks i len s) (\<lambda>(out2, len, s).
          bind_res (block_ptr (drop_bit 9 (st_offset (fs s i))) s) (\<lambda>b.
          let s = readData b s in
          bind_res (memcpy_len len) (\<lambda>n.
          bind_res (buf_read 0 n s) (\<lambda>out3.
          Inr (out1 @ out2 @ out3, advance i len s)))))))
        else
          bind_res (block_ptr D s) (\<lambda>b.
          let s = readData b s in
          bind_res (memcpy_len len) (\<lambda>n.
          bind_res (buf_read (unat R) n s) (\<lambda>out. Inr (out, advance i len s)))))"

definition fs_read_kr :: "u32 \<Rightarrow> u32 \<Rightarrow> 'a fsst_scheme \<Rightarrow> (u32 \<times> u8 list \<times> 'a fsst_scheme) res" where
  "fs_read_kr fd len s =
     bind_res (stream fd) (\<lambda>i.
     let f = fs s i;
         len = (if st_offset f + len \<ge> st_file_size f then st_file_size f - st_offset f else len)
     in if len = 0 then Inr (- 1, [], s)
        else bind_res (fs_read_base_kr fd len s) (\<lambda>(out, s). Inr (len, out, s)))"

definition fs_write_base_kr ::
  "u32 \<Rightarrow> (nat \<Rightarrow> u8) \<Rightarrow> u32 \<Rightarrow> 'a fsst_scheme \<Rightarrow> 'a fsst_scheme res" where
  "fs_write_base_kr fd src len s =
     bind_res (stream fd) (\<lambda>i.
     let s = readINode (st_inode_offset (fs s i)) s;
         D = drop_bit 9 (st_offset (fs s i));
         R = st_offset (fs s i) mod 512
     in if R + len > 512 then
          bind_res (block_ptr D s) (\<lambda>b.
          let s = readData b s in
          bind_res (buf_write (unat R) src (unat (512 - R)) s) (\<lambda>s.
          let s = saveData b s;
              s = advance i (512 - R) s;
              len = len - (512 - R) in
          bind_res (write_blocks i src (512 - R) len s) (\<lambda>(offset, len, s).
          bind_res (block_ptr (drop_bit 9 (st_offset (fs s i))) s) (\<lambda>b.
          let s = readData b s in
          bind_res (memcpy_len len) (\<lambda>n.
          bind_res (buf_write 0 (\<lambda>k. src (unat offset + k)) n s) (\<lambda>s.
          Inr (advance i len (saveData b s))))))))
        else
          bind_res (block_ptr D s) (\<lambda>b.
          let s = readData b s in
          bind_res (memcpy_len len) (\<lambda>n.
          bind_res (buf_write (unat R) src n s) (\<lambda>s.
          Inr (advance i len (saveData b s))))))"

text \<open>The loop that allocates blocks \<open>D1\<close> to \<open>D2\<close>; \<open>n\<close> is their number.\<close>

primrec grow_loop :: "nat \<Rightarrow> nat \<Rightarrow> 'a fsst_scheme \<Rightarrow> 'a fsst_scheme res" where
  "grow_loop 0 D1 s = Inr s"
| "grow_loop (Suc n) D1 s =
     (case dataAlloc s of
        (b, s) \<Rightarrow>
          if D1 < NR_BLOCKS then grow_loop n (Suc D1) (s\<lparr>inode := (inode s)(D1 := b)\<rparr>)
          else Inl OutOfBounds)"

definition fs_write_kr ::
  "u32 \<Rightarrow> (nat \<Rightarrow> u8) \<Rightarrow> u32 \<Rightarrow> 'a fsst_scheme \<Rightarrow> (u32 \<times> 'a fsst_scheme) res" where
  "fs_write_kr fd src len s =
     bind_res (stream fd) (\<lambda>i.
     let s = (if st_file_size (fs s i) = 0 then
                (let s = readINode (st_inode_offset (fs s i)) s in
                 case dataAlloc s of
                   (b, s) \<Rightarrow>
                     (let s = s\<lparr>inode := (inode s)(0 := b)\<rparr>;
                          s = saveINode (st_inode_offset (fs s i)) s
                      in upd_stream i (\<lambda>f. f\<lparr>st_file_size := (if 512 < sint len then 512 else len)\<rparr>) s))
              else s)
     in bind_res
          (if st_offset (fs s i) + len > st_file_size (fs s i) then
             (let s = readINode (st_inode_offset (fs s i)) s;
                  D1 = unat (drop_bit 9 (st_offset (fs s i)));
                  D2 = unat (drop_bit 9 (st_offset (fs s i) + len))
              in bind_res (grow_loop (Suc D2 - Suc D1) (Suc D1) s) (\<lambda>s.
                 let s = saveINode (st_inode_offset (fs s i)) s
                 in Inr (upd_stream i (\<lambda>f. f\<lparr>st_file_size := st_offset f + len\<rparr>) s)))
           else Inr s)
          (\<lambda>s.
           let s = readDir (st_dir_offset (fs s i)) s;
               e = unat (st_entry_offset (fs s i));
               s = s\<lparr>dir := (dir s)(e := (dir s e)\<lparr>file_size := st_file_size (fs s i)\<rparr>)\<rparr>;
               s = saveDir (st_dir_offset (fs s i)) s
           in bind_res (fs_write_base_kr fd src len s) (\<lambda>s. Inr (len, s))))"

definition fs_lseek_kr :: "u32 \<Rightarrow> u32 \<Rightarrow> 'a fsst_scheme \<Rightarrow> 'a fsst_scheme res" where
  "fs_lseek_kr fd index s =
     bind_res (stream fd) (\<lambda>i. Inr (upd_stream i (\<lambda>f. f\<lparr>st_offset := index\<rparr>) s))"

definition fs_size_kr :: "u32 \<Rightarrow> 'a fsst_scheme \<Rightarrow> u32 res" where
  "fs_size_kr fd s = bind_res (stream fd) (\<lambda>i. Inr (st_file_size (fs s i)))"

definition fs_close_kr :: "u32 \<Rightarrow> 'a fsst_scheme \<Rightarrow> (u32 \<times> 'a fsst_scheme) res" where
  "fs_close_kr fd s =
     bind_res (stream fd) (\<lambda>i.
     if st_used (fs s i) \<noteq> 0 then Inr (0, upd_stream i (\<lambda>f. f\<lparr>st_used := 0\<rparr>) s) else Inr (1, s))"

definition fs_create_kr :: "u8 list \<Rightarrow> 'a fsst_scheme \<Rightarrow> (u32 \<times> 'a fsst_scheme) res" where
  "fs_create_kr name s =
     bind_res (find_dir SC_DIR 0 (\<lambda>e. Inr (inode_offset e = - 1)) s)
       (\<lambda>(r, s). case r of
          None \<Rightarrow> Inr (- 1, s)
        | Some (d, e) \<Rightarrow>
            (case INodeAlloc s of
               (index_inode, s) \<Rightarrow>
                 (let s = s\<lparr>dir := (dir s)(e := (dir s e)\<lparr>inode_offset := index_inode\<rparr>)\<rparr> in
                  bind_res (strcpy_field (filename (dir s e)) name) (\<lambda>nm.
                  let s = s\<lparr>dir := (dir s)(e := (dir s e)\<lparr>filename := nm\<rparr>)\<rparr>;
                      s = s\<lparr>dir := (dir s)(e := (dir s e)\<lparr>file_size := 0\<rparr>)\<rparr>;
                      s = saveDir d s;
                      s = readINode index_inode s;
                      s = s\<lparr>inode := (\<lambda>k. if k < NR_BLOCKS then - 1 else inode s k)\<rparr>;
                      s = saveINode index_inode s
                  in open_stream d e s))))"

section \<open>The layers above\<close>

definition fs_open_md :: "u8 list \<Rightarrow> u32 \<Rightarrow> 'a fsst_scheme \<Rightarrow> (u32 \<times> 'a fsst_scheme) res" where
  "fs_open_md pathname flags s =
     bind_res (fs_open_kr pathname s) (\<lambda>(fd, s).
     bind_res (if fd = - 1 \<and> 1 \<le> sint flags then fs_create_kr pathname s else Inr (fd, s)) (\<lambda>(fd, s).
     if flags = 2
     then bind_res (stream fd) (\<lambda>i. Inr (fd, upd_stream i (\<lambda>f. f\<lparr>st_file_size := 0\<rparr>) s))
     else Inr (fd, s)))"

definition fs_read_md :: "u32 \<Rightarrow> u32 \<Rightarrow> 'a fsst_scheme \<Rightarrow> (u32 \<times> u8 list \<times> 'a fsst_scheme) res" where
  "fs_read_md fd len s = fs_read_kr fd len s"

definition fs_write_md ::
  "u32 \<Rightarrow> (nat \<Rightarrow> u8) \<Rightarrow> u32 \<Rightarrow> 'a fsst_scheme \<Rightarrow> (u32 \<times> 'a fsst_scheme) res" where
  "fs_write_md fd src len s = fs_write_kr fd src len s"

definition fs_lseek_md :: "u32 \<Rightarrow> u32 \<Rightarrow> u32 \<Rightarrow> 'a fsst_scheme \<Rightarrow> (u32 \<times> 'a fsst_scheme) res" where
  "fs_lseek_md fd offset whence s =
     bind_res (stream fd) (\<lambda>i.
     let f = fs s i;
         index = (if whence = 0 then offset
                  else if whence = 1 then st_offset f + offset
                  else if whence = 2 then st_file_size f + offset
                  else 0)
     in bind_res (fs_lseek_kr fd index s) (\<lambda>s. Inr (index, s)))"

definition fs_close_md :: "u32 \<Rightarrow> 'a fsst_scheme \<Rightarrow> (u32 \<times> 'a fsst_scheme) res" where
  "fs_close_md fd s = fs_close_kr fd s"

text \<open>The descriptors of a process; \<open>get_fcb\<close> reads \<^verbatim>\<open>current->fcb[fd].fd_kr\<close>.\<close>

definition get_fcb :: "u32 \<Rightarrow> 'a fsst_scheme \<Rightarrow> u32 res" where
  "get_fcb fd s =
     bind_res (deref (current s)) (\<lambda>c.
     if unat fd < FCBMAX then Inr (fcb (PCBPool s c) (unat fd)) else Inl OutOfBounds)"

definition set_fcb :: "nat \<Rightarrow> u32 \<Rightarrow> 'a fsst_scheme \<Rightarrow> 'a fsst_scheme res" where
  "set_fcb i v s =
     bind_res (deref (current s)) (\<lambda>c.
     if i < FCBMAX then Inr (upd_pcb c (\<lambda>p. p\<lparr>fcb := (fcb p)(i := v)\<rparr>) s) else Inl OutOfBounds)"

primrec find_fcb :: "nat \<Rightarrow> nat \<Rightarrow> (nat \<Rightarrow> u32) \<Rightarrow> nat" where
  "find_fcb 0 i f = i"
| "find_fcb (Suc n) i f = (if f i = - 1 then i else find_fcb n (Suc i) f)"

definition fs_open_port :: "u8 list \<Rightarrow> u32 \<Rightarrow> 'a fsst_scheme \<Rightarrow> (u32 \<times> 'a fsst_scheme) res" where
  "fs_open_port pathname flags s =
     bind_res (fs_open_md pathname flags s) (\<lambda>(fd, s).
     if fd = - 1 then Inr (- 1, s)
     else
       bind_res (deref (current s)) (\<lambda>c.
       let i = find_fcb FCBMAX 0 (fcb (PCBPool s c))
       in bind_res (set_fcb i fd s) (\<lambda>s. Inr (of_nat i, s))))"

definition fs_read_port :: "u32 \<Rightarrow> u32 \<Rightarrow> 'a fsst_scheme \<Rightarrow> (u32 \<times> u8 list \<times> 'a fsst_scheme) res" where
  "fs_read_port fd len s =
     (if fd = - 1 then Inr (- 1, [], s)
      else bind_res (get_fcb fd s) (\<lambda>k. fs_read_md k len s))"

definition fs_write_port ::
  "u32 \<Rightarrow> (nat \<Rightarrow> u8) \<Rightarrow> u32 \<Rightarrow> 'a fsst_scheme \<Rightarrow> (u32 \<times> 'a fsst_scheme) res" where
  "fs_write_port fd src len s =
     (if fd = - 1 then Inr (- 1, s)
      else bind_res (get_fcb fd s) (\<lambda>k. fs_write_md k src len s))"

definition fs_lseek_port :: "u32 \<Rightarrow> u32 \<Rightarrow> u32 \<Rightarrow> 'a fsst_scheme \<Rightarrow> (u32 \<times> 'a fsst_scheme) res" where
  "fs_lseek_port fd offset whence s =
     (if fd = - 1 then Inr (- 1, s)
      else bind_res (get_fcb fd s) (\<lambda>k. fs_lseek_md k offset whence s))"

definition fs_close_port :: "u32 \<Rightarrow> 'a fsst_scheme \<Rightarrow> (u32 \<times> 'a fsst_scheme) res" where
  "fs_close_port fd s =
     (if fd = - 1 then Inr (- 1, s)
      else
        bind_res (get_fcb fd s) (\<lambda>k.
        bind_res (fs_close_md k s) (\<lambda>(ret, s).
        bind_res (set_fcb (unat fd) (- 1) s) (\<lambda>s. Inr (ret, s)))))"

section \<open>Listing and start-up\<close>

text \<open>What one entry prints; the sizes are C \<^verbatim>\<open>int\<close>s.\<close>

definition ls_entry :: "u32 \<Rightarrow> dirent \<Rightarrow> 'a fsst_scheme \<Rightarrow> 'a fsst_scheme res" where
  "ls_entry msk entry s =
     (if inode_offset entry = - 1 then Inr s
      else if msk AND 0x02 = 0 \<and> filename entry ! 0 = 0x2E then Inr s
      else
        bind_res (cstring (filename entry)) (\<lambda>nm.
        let str = Str (to_string nm); sz = file_size entry in
        if msk AND 0x01 = 0 then printk (''%s'' @ NL) [str] s
        else if msk AND 0x04 \<noteq> 0 then
          (if sint sz < 1024 then printk (''%d'' @ TAB @ ''%s'' @ NL) [Num sz, str] s
           else (let sz = sz div 1024 in
             if sint sz < 1024 then printk (''%dK'' @ TAB @ ''%s'' @ NL) [Num sz, str] s
             else (let sz = sz div 1024 in
               if sint sz < 1024 then printk (''%dM'' @ TAB @ ''%s'' @ NL) [Num sz, str] s
               else Inr s)))
        else printk (''%d'' @ TAB @ ''%s'' @ NL) [Num sz, str] s))"

primrec ls_entries :: "nat \<Rightarrow> nat \<Rightarrow> u32 \<Rightarrow> 'a fsst_scheme \<Rightarrow> 'a fsst_scheme res" where
  "ls_entries 0 e msk s = Inr s"
| "ls_entries (Suc n) e msk s = bind_res (ls_entry msk (dir s e) s) (ls_entries n (Suc e) msk)"

primrec ls_dirs :: "nat \<Rightarrow> u32 \<Rightarrow> u32 \<Rightarrow> 'a fsst_scheme \<Rightarrow> 'a fsst_scheme res" where
  "ls_dirs 0 d msk s = Inr s"
| "ls_dirs (Suc n) d msk s =
     bind_res (ls_entries NR_ENTRIES 0 msk (readDir d s)) (ls_dirs n (d + 1) msk)"

definition fs_ls_kr :: "u32 \<Rightarrow> 'a fsst_scheme \<Rightarrow> 'a fsst_scheme res" where
  "fs_ls_kr msk s = ls_dirs SC_DIR 0 msk s"

text \<open>\<open>magic\<close> is what the stack holds where \<^verbatim>\<open>char magic[80]\<close> is placed.\<close>

definition init_fs :: "u8 list \<Rightarrow> 'a fsst_scheme \<Rightarrow> 'a fsst_scheme res" where
  "init_fs magic s =
     (let s = s\<lparr>fs := (\<lambda>i. if i < NR_FILE_STREAM then (fs s i)\<lparr>st_used := 0\<rparr> else fs s i)\<rparr> in
      bind_res (fs_open_kr (of_string ''test.txt'') s) (\<lambda>(fd, s).
      bind_res (fs_read_kr fd 80 s) (\<lambda>(_, out, s).
      bind_res (fs_close_kr fd s) (\<lambda>(_, s).
      bind_res (cstring (out @ drop (length out) magic)) (\<lambda>str.
      printk (''%s'' @ NL) [Str (to_string str)] s)))))"

end
