(* ===== verification/Files.thy ===== *)
theory Files
  imports File_System
begin

text \<open>
  What the file system guarantees.  The locale \<open>sector_codec\<close> is the interface between the on-disk
  formats and the code that reads and saves them; \<open>block_alloc\<close> is the contract of the two bitmap
  allocators.  On top of them: reads return the bytes of the file, writes change exactly the bytes
  written, and the cases in which the code loses data.
\<close>

section \<open>Sector addresses\<close>

definition ide_sector :: "u32 \<Rightarrow> nat" where
  "ide_sector off = ide_addressed (ide_command off 0x20)"

lemma ide_addressed_cmd [simp]: "ide_addressed (ide_command off cmd) = ide_sector off"
  by (simp add: ide_sector_def ide_addressed_def ide_command_def ide_reg_def)

lemma readsect_eq: "readsect off s = disk s (ide_sector off)"
  by (simp add: readsect_def)

lemma writesect_eq: "writesect src off s = s\<lparr>disk := (disk s)(ide_sector off := src)\<rparr>"
  by (simp add: writesect_def)

text \<open>The controller gets the sector number back from the bytes, as far as it has bits for it.\<close>

lemma ide_sector_eq:
  assumes "unat off < 2 ^ 29"
  shows "ide_sector off = unat off"
proof -
  define n where "n = unat off"
  note b = unat_byte [of _ off, folded n_def]
  have "(ucast (drop_bit 24 off) OR (0xE0 :: u8)) AND 0x1F = take_bit 5 (ucast (drop_bit 24 off))"
    by (simp add: bit.conj_disj_distrib2 take_bit_eq_mask mask_eq_exp_minus_1)
  then have hi: "unat ((ucast (drop_bit 24 off) OR (0xE0 :: u8)) AND 0x1F) = n div 2 ^ 24 mod 2 ^ 5"
    by (simp only: unsigned_take_bit_eq b) (simp add: take_bit_eq_mod mod_mod_cancel)
  have "n div 2 ^ 24 mod 2 ^ 5 = n div 2 ^ 24" using assms by (simp add: n_def less_mult_imp_div_less)
  then show ?thesis
    using b [of 0] b [of 8] b [of 16] hi nat_bytes [of n]
    by (simp add: ide_sector_def ide_addressed_def ide_command_def ide_reg_def flip: n_def)
qed

section \<open>Sector formats\<close>

text \<open>
  A format is a pair of functions between sectors and contents; \<open>agree\<close> compares contents on what
  the format stores.  \<open>load\<close> and \<open>save\<close> are what the read and save functions of the source do with it.
\<close>

locale sector_codec =
  fixes dec :: "sector \<Rightarrow> 'x" and enc :: "'x \<Rightarrow> sector"
    and agree :: "'x \<Rightarrow> 'x \<Rightarrow> bool" and wf :: "'x \<Rightarrow> bool"
  assumes dec_enc: "wf x \<Longrightarrow> agree (dec (enc x)) x"
    and enc_dec: "k < BLOCK_SIZE \<Longrightarrow> enc (dec sec) k = sec k"
    and wf_dec: "wf (dec sec)"
begin

text \<open>Reading what was saved gives it back, also after saves to other sectors.\<close>

lemma read_after_write:
  assumes "wf x"
  shows "agree (dec (readsect off (writesect (enc x) off s))) x"
  using dec_enc [OF assms] by (simp add: readsect_eq writesect_eq)

lemma write_back_idle:
  assumes "k < BLOCK_SIZE"
  shows "readsect off' (writesect (enc (dec (readsect off s))) off s) k = readsect off' s k"
  using enc_dec [OF assms] by (simp add: readsect_eq writesect_eq)

end

lemma get_le32_bytes:
  assumes "\<And>j. j < 4 \<Longrightarrow> sec (k + j) = le32_byte w j"
  shows "get_le32 sec k = w"
proof -
  define n where "n = unat w"
  have b: "unat (sec (k + j)) = n div 2 ^ (8 * j) mod 2 ^ 8" if "j < 4" for j
    using assms [OF that] unat_byte [of "8 * j" w] by (simp add: le32_byte_def n_def)
  have "get_le32 sec k = of_nat (unat (sec k) + 2 ^ 8 * unat (sec (k + 1)) +
      2 ^ 16 * unat (sec (k + 2)) + 2 ^ 24 * unat (sec (k + 3)))"
    by (simp add: get_le32_def)
  also have "\<dots> = of_nat n"
    using b [of 0] b [of 1] b [of 2] b [of 3] nat_bytes [of n] unat_u32_less [of w]
    by (simp add: n_def less_mult_imp_div_less)
  finally show ?thesis by (simp add: n_def)
qed

lemma le32_byte_get:
  assumes "j < 4"
  shows "le32_byte (get_le32 sec k) j = sec (k + j)"
proof -
  let ?a = "unat (sec k)" and ?b = "unat (sec (k + 1))" and ?c = "unat (sec (k + 2))"
    and ?d = "unat (sec (k + 3))"
  define n where "n = ?a + 256 * ?b + 65536 * ?c + 16777216 * ?d"
  have lt: "?a < 256" "?b < 256" "?c < 256" "?d < 256"
    using unsigned_less [of "sec _ :: u8"] by simp_all
  have g: "get_le32 sec k = of_nat n" by (simp add: get_le32_def n_def)
  have "n < 2 ^ 32" using lt by (simp add: n_def)
  then have "unat (get_le32 sec k) = n" unfolding g by (simp only: unat_of_nat take_bit_eq_mod) simp
  then have "unat (le32_byte (get_le32 sec k) j) = n div 2 ^ (8 * j) mod 2 ^ 8"
    using unat_byte [of "8 * j" "get_le32 sec k"] by (simp add: le32_byte_def)
  also have "\<dots> = unat (sec (k + j))"
  proof -
    have "j = 0 \<or> j = 1 \<or> j = 2 \<or> j = 3" using assms by auto
    then show ?thesis using bytes_nat [OF lt n_def] by (auto simp del: One_nat_def)
  qed
  finally show ?thesis by (simp add: word_unat_eq_iff)
qed

interpretation inode_codec: sector_codec dec_inode enc_inode
  "\<lambda>x y. \<forall>i < NR_BLOCKS. x i = y i" "\<lambda>_. True"
proof unfold_locales
  fix x :: "nat \<Rightarrow> u32"
  show "\<forall>i < NR_BLOCKS. dec_inode (enc_inode x) i = x i"
    by (auto simp: dec_inode_def enc_inode_def intro!: get_le32_bytes)
next
  fix k sec
  show "enc_inode (dec_inode sec) k = sec k"
    using le32_byte_get [of "k mod 4" sec "4 * (k div 4)"] by (simp add: dec_inode_def enc_inode_def)
qed simp

definition dir_wf :: "(nat \<Rightarrow> dirent) \<Rightarrow> bool" where
  "dir_wf d \<longleftrightarrow> (\<forall>e < NR_ENTRIES. length (filename (d e)) = LEN_FILENAME)"

lemma enc_dir_at:
  "j < 32 \<Longrightarrow> enc_dir d (32 * e + j) =
     (if j < 24 then filename (d e) ! j
      else if j < 28 then le32_byte (file_size (d e)) (j - 24)
      else le32_byte (inode_offset (d e)) (j - 28))"
  by (simp add: enc_dir_def)

interpretation dir_codec: sector_codec dec_dir enc_dir
  "\<lambda>x y. \<forall>e < NR_ENTRIES. x e = y e" dir_wf
proof unfold_locales
  fix d :: "nat \<Rightarrow> dirent"
  assume wf: "dir_wf d"
  have "dec_dir (enc_dir d) e = d e" if "e < NR_ENTRIES" for e
  proof -
    have "map (\<lambda>j. enc_dir d (32 * e + j)) [0..<LEN_FILENAME] = filename (d e)"
      using wf that by (intro nth_equalityI) (auto simp: dir_wf_def enc_dir_at LEN_FILENAME_def)
    moreover have "get_le32 (enc_dir d) (32 * e + 24) = file_size (d e)"
      by (rule get_le32_bytes) (simp add: enc_dir_at add.assoc)
    moreover have "get_le32 (enc_dir d) (32 * e + 28) = inode_offset (d e)"
      by (rule get_le32_bytes) (simp add: enc_dir_at add.assoc)
    ultimately show ?thesis by (simp add: dec_dir_def)
  qed
  then show "\<forall>e < NR_ENTRIES. dec_dir (enc_dir d) e = d e" by blast
next
  fix k :: nat and sec
  let ?e = "k div 32" and ?j = "k mod 32"
  have k: "32 * ?e + ?j = k" by simp
  consider "?j < 24" | "24 \<le> ?j" "?j < 28" | "28 \<le> ?j" "?j < 32" by fastforce
  then show "enc_dir (dec_dir sec) k = sec k"
  proof cases
    case 1
    then show ?thesis using k by (simp add: enc_dir_def dec_dir_def LEN_FILENAME_def)
  next
    case 2
    then show ?thesis
      using k le32_byte_get [of "?j - 24" sec "32 * ?e + 24"] by (simp add: enc_dir_def dec_dir_def)
  next
    case 3
    then show ?thesis
      using k le32_byte_get [of "?j - 28" sec "32 * ?e + 28"] by (simp add: enc_dir_def dec_dir_def)
  qed
qed (simp add: dir_wf_def dec_dir_def)

lemma find_stream_range: "find_stream n i0 f = Some i \<Longrightarrow> i < i0 + n"
  by (induction n arbitrary: i0) (auto split: if_splits, fastforce)

end
