(* ===== verification/Blocks.thy ===== *)
theory Blocks
  imports Files
begin

text \<open>
  The bitmap and its two allocators.  \<open>bitmap_view\<close> is the bitmap as the kernel reads and writes it, in the sectors 1, 513, 1025 and so on
  (\<^verbatim>\<open>readBitmap\<close> and \<^verbatim>\<open>saveBitmap\<close> advance by 512 sectors); an allocation changes exactly one bit of it.  \<open>layout_used\<close> is the bitmap as the layout of
  \<^verbatim>\<open>file.h\<close> has it, in the sectors 1 to 256; the two agree on sector 1.
\<close>

section \<open>The bitmap on the disk\<close>

definition bitmap_view :: "'a fsst_scheme \<Rightarrow> nat \<Rightarrow> u8" where
  "bitmap_view s k = disk s (1 + 512 * (k div 512)) (k mod 512)"

lemma Suc_512_div [simp]: "Suc (512 * n) div 512 = n"
  by (rule div_nat_eqI) simp_all

lemma ide_sector_bitmap:
  assumes "c < 256"
  shows "ide_sector (LOC_BITMAP + push_bit 9 (of_nat c)) = 1 + 512 * c"
proof -
  have "LOC_BITMAP + push_bit 9 (of_nat c) = of_nat (1 + 512 * c)"
    by (simp add: LOC_BITMAP_def push_bit_eq_mult)
  moreover have "unat (of_nat (1 + 512 * c) :: u32) = 1 + 512 * c"
    using assms by (simp only: unat_of_nat take_bit_eq_mod) simp
  ultimately show ?thesis
    using assms ide_sector_eq [of "of_nat (1 + 512 * c)"] by (simp del: of_nat_Suc)
qed

lemma readBitmap_loop_eq:
  "n \<le> 256 \<Longrightarrow>
     readBitmap_loop n s = s\<lparr>bitmap := (\<lambda>k. if k < n * 512 then bitmap_view s k else bitmap s k)\<rparr>"
proof (induction n)
  case (Suc n)
  have "(\<lambda>k. if n * 512 \<le> k \<and> k < n * 512 + 512 then disk s (1 + 512 * n) (k - n * 512)
          else if k < n * 512 then bitmap_view s k else bitmap s k)
      = (\<lambda>k. if k < Suc n * 512 then bitmap_view s k else bitmap s k)"
  proof
    fix k
    have "k div 512 = n \<and> k mod 512 = k - n * 512" if "n * 512 \<le> k" "k < n * 512 + 512"
      using that by (metis add.commute div_nat_eqI minus_mult_div_eq_mod mult.commute mult_Suc)
    then show "(if n * 512 \<le> k \<and> k < n * 512 + 512 then disk s (1 + 512 * n) (k - n * 512)
          else if k < n * 512 then bitmap_view s k else bitmap s k)
        = (if k < Suc n * 512 then bitmap_view s k else bitmap s k)"
      by (auto simp: bitmap_view_def)
  qed
  with Suc show ?case by (simp add: Let_def readsect_eq ide_sector_bitmap del: mult_Suc cong: if_cong)
qed simp

lemma readBitmap_eq:
  "readBitmap s = s\<lparr>bitmap := (\<lambda>k. if k < 131072 then bitmap_view s k else bitmap s k)\<rparr>"
  using readBitmap_loop_eq [of 256 s] by (simp add: readBitmap_def SC_BITMAP_def)

lemma saveBitmap_loop_eq:
  "n \<le> 256 \<Longrightarrow>
     saveBitmap_loop n s = s\<lparr>disk := (\<lambda>m. if m mod 512 = 1 \<and> m < 512 * n
       then (\<lambda>k. bitmap s ((m div 512) * 512 + k)) else disk s m)\<rparr>"
proof (induction n)
  case (Suc n)
  have "(\<lambda>m. if m mod 512 = 1 \<and> m < 512 * n then (\<lambda>k. bitmap s ((m div 512) * 512 + k))
          else disk s m)(1 + 512 * n := (\<lambda>k. bitmap s (n * 512 + k)))
      = (\<lambda>m. if m mod 512 = 1 \<and> m < 512 * Suc n then (\<lambda>k. bitmap s ((m div 512) * 512 + k))
          else disk s m)"
  proof
    fix m
    have "m = 1 + 512 * n" if "m mod 512 = 1" "512 * n \<le> m" "m < 512 * Suc n"
    proof -
      have "m div 512 = n" using that by (intro div_nat_eqI) simp_all
      then show ?thesis using that(1) mult_div_mod_eq [of 512 m] by simp
    qed
    then have eq: "m \<noteq> 1 + 512 * n \<Longrightarrow>
        (m mod 512 = 1 \<and> m < 512 * Suc n) = (m mod 512 = 1 \<and> m < 512 * n)" by fastforce
    show "((\<lambda>m. if m mod 512 = 1 \<and> m < 512 * n then (\<lambda>k. bitmap s ((m div 512) * 512 + k))
          else disk s m)(1 + 512 * n := (\<lambda>k. bitmap s (n * 512 + k)))) m
        = (if m mod 512 = 1 \<and> m < 512 * Suc n then (\<lambda>k. bitmap s ((m div 512) * 512 + k))
          else disk s m)"
    proof (cases "m = 1 + 512 * n")
      case True
      then show ?thesis by simp
    next
      case False
      then show ?thesis unfolding eq [OF False] by simp
    qed
  qed
  with Suc show ?case by (simp add: Let_def writesect_eq ide_sector_bitmap del: mult_Suc_right cong: if_cong)
qed simp

lemma saveBitmap_eq:
  "saveBitmap s = s\<lparr>disk := (\<lambda>m. if m mod 512 = 1 \<and> m < 131072
       then (\<lambda>k. bitmap s ((m div 512) * 512 + k)) else disk s m)\<rparr>"
  using saveBitmap_loop_eq [of 256 s] by (simp add: saveBitmap_def SC_BITMAP_def)

lemma bitmap_view_save: "k < 131072 \<Longrightarrow> bitmap_view (saveBitmap s) k = bitmap s k"
proof -
  assume "k < 131072"
  then have "k div 512 < 256" by (simp add: less_mult_imp_div_less)
  then have "512 * (k div 512) < 131071" by simp
  moreover have "k div 512 * 512 + k mod 512 = k" by simp
  ultimately show ?thesis by (simp add: saveBitmap_eq bitmap_view_def)
qed

section \<open>One bit per sector\<close>

lemma sec_index:
  "unat ((sec :: u32) AND 7) = unat sec mod 8" "unat (drop_bit 3 sec) = unat sec div 8"
proof -
  have "sec AND 7 = take_bit 3 sec" by (simp add: take_bit_eq_mask mask_eq_exp_minus_1)
  then have "unat (sec AND 7) = take_bit 3 (unat sec)" by (simp only: unsigned_take_bit_eq)
  then show "unat (sec AND 7) = unat sec mod 8" by (simp add: take_bit_eq_mod)
  have "unat (drop_bit 3 sec) = drop_bit 3 (unat sec)"
    using unat_u32_less [of sec] by (simp only: unsigned_drop_bit_eq) (simp add: take_bit_nat_eq_self)
  then show "unat (drop_bit 3 sec) = unat sec div 8" by (simp add: drop_bit_eq_div)
qed

lemma sec_free_bit: "sec_free m sec \<longleftrightarrow> \<not> bit (m (unat sec div 8)) (unat sec mod 8)"
proof -
  have "x AND push_bit r 1 = 0 \<longleftrightarrow> \<not> bit x r" if "r < 8" for x :: u8 and r
  proof (cases "bit x r")
    case True
    then have "bit (x AND push_bit r 1) r" using that by (simp add: bit_simps)
    then have "x AND push_bit r 1 \<noteq> 0" by (metis bit_0_eq bot_apply bot_bool_def)
    with True show ?thesis by blast
  next
    case False
    then have "x AND push_bit r 1 = 0" by (intro bit_word_eqI) (auto simp: bit_simps)
    with False show ?thesis by blast
  qed
  then show ?thesis by (simp only: sec_free_def sec_index)
qed

lemma sec_mark_bit:
  "r < 8 \<Longrightarrow> bit (sec_mark sec m n) r \<longleftrightarrow> bit (m n) r \<or> n = unat sec div 8 \<and> r = unat sec mod 8"
  by (auto simp: sec_mark_def sec_index Let_def bit_simps)

lemma sec_mark_other: "n \<noteq> unat sec div 8 \<Longrightarrow> sec_mark sec m n = m n"
  by (simp add: sec_mark_def sec_index Let_def)

lemma sec_free_mark: "sec_free (sec_mark sec m) sec' \<longleftrightarrow> sec_free m sec' \<and> sec' \<noteq> sec"
proof -
  have "unat sec' div 8 = unat sec div 8 \<and> unat sec' mod 8 = unat sec mod 8 \<longleftrightarrow> sec' = sec"
    by (metis div_mult_mod_eq word_unat_eq_iff)
  then show ?thesis by (auto simp: sec_free_bit sec_mark_bit)
qed

lemma alloc_scan_Some:
  assumes "i < n" "sec_free m (loc (of_nat (k + i)))" "\<And>j. j < i \<Longrightarrow> \<not> sec_free m (loc (of_nat (k + j)))"
  shows "alloc_scan n (of_nat k) loc m = Some (of_nat (k + i))"
  using assms
proof (induction n arbitrary: k i)
  case (Suc n)
  show ?case
  proof (cases i)
    case 0
    then show ?thesis using Suc.prems(2) by simp
  next
    case i: (Suc i')
    have "alloc_scan n (of_nat (Suc k)) loc m = Some (of_nat (Suc k + i'))"
    proof (rule Suc.IH)
      show "\<not> sec_free m (loc (of_nat (Suc k + j)))" if "j < i'" for j
        using Suc.prems(3) [of "Suc j"] that i by simp
    qed (use Suc.prems(1,2) i in simp_all)
    moreover have "\<not> sec_free m (loc (of_nat k))" using Suc.prems(3) [of 0] i by simp
    ultimately show ?thesis using i by (simp add: ac_simps)
  qed
qed simp

lemma alloc_scan_None:
  assumes "\<And>j. j < n \<Longrightarrow> \<not> sec_free m (loc (of_nat (k + j)))"
  shows "alloc_scan n (of_nat k) loc m = None"
  using assms
proof (induction n arbitrary: k)
  case (Suc n)
  have "alloc_scan n (of_nat (Suc k)) loc m = None"
  proof (rule Suc.IH)
    show "\<not> sec_free m (loc (of_nat (Suc k + j)))" if "j < n" for j
      using Suc.prems [of "Suc j"] that by simp
  qed
  then show ?case using Suc.prems [of 0] by (simp add: ac_simps)
qed simp

section \<open>The contract of the allocators\<close>

text \<open>
  \<open>free s i\<close> says that block \<open>i\<close> is unused.  An allocator returns the first unused block and takes
  only that one, or reports \<open>- 1\<close> when there is none.
\<close>

primrec alloc_run :: "nat \<Rightarrow> ('s \<Rightarrow> u32 \<times> 's) \<Rightarrow> 's \<Rightarrow> u32 list \<times> 's" where
  "alloc_run 0 alloc s = ([], s)"
| "alloc_run (Suc n) alloc s =
     (case alloc s of (b, s) \<Rightarrow> case alloc_run n alloc s of (bs, s) \<Rightarrow> (b # bs, s))"

locale block_alloc =
  fixes alloc :: "'s \<Rightarrow> u32 \<times> 's" and free :: "'s \<Rightarrow> nat \<Rightarrow> bool" and bound :: nat
  assumes bound: "bound < 2 ^ 32"
    and alloc_first: "i < bound \<Longrightarrow> free s i \<Longrightarrow> (\<And>j. j < i \<Longrightarrow> \<not> free s j) \<Longrightarrow>
      \<exists>s'. alloc s = (of_nat i, s') \<and> (\<forall>j < bound. free s' j \<longleftrightarrow> free s j \<and> j \<noteq> i)"
    and alloc_full: "(\<And>i. i < bound \<Longrightarrow> \<not> free s i) \<Longrightarrow>
      \<exists>s'. alloc s = (- 1, s') \<and> (\<forall>j < bound. \<not> free s' j)"
begin

lemma unat_index: "i < bound \<Longrightarrow> unat (of_nat i :: u32) = i"
  using bound by (simp add: unat_of_nat take_bit_nat_eq_self)

lemma alloc_cases:
  obtains (taken) i s' where "i < bound" "free s i" "alloc s = (of_nat i, s')"
      "\<And>j. j < bound \<Longrightarrow> free s' j \<longleftrightarrow> free s j \<and> j \<noteq> i"
  | (full) s' where "\<And>i. i < bound \<Longrightarrow> \<not> free s i" "alloc s = (- 1, s')"
      "\<And>j. j < bound \<Longrightarrow> \<not> free s' j"
proof (cases "\<exists>i < bound. free s i")
  case True
  define i where "i = (LEAST i. i < bound \<and> free s i)"
  have i: "i < bound" "free s i" using LeastI_ex [of "\<lambda>i. i < bound \<and> free s i"] True by (auto simp: i_def)
  have "\<not> free s j" if "j < i" for j
    using not_less_Least [of j "\<lambda>i. i < bound \<and> free s i"] that i(1) by (auto simp: i_def)
  then show ?thesis using alloc_first [OF i] i that(1) by blast
next
  case False
  then show ?thesis using alloc_full [of s] that(2) by blast
qed

text \<open>A run of allocations never hands out a block twice, nor one that was in use.\<close>

lemma alloc_run_fresh:
  assumes "alloc_run n alloc s = (bs, s')"
  shows "distinct (filter (\<lambda>b. unat b < bound) bs) \<and>
     (\<forall>b \<in> set bs. unat b < bound \<longrightarrow> free s (unat b)) \<and>
     (\<forall>j < bound. free s' j \<longleftrightarrow> free s j \<and> of_nat j \<notin> set bs)"
  using assms
proof (induction n arbitrary: s bs)
  case (Suc n)
  obtain b s1 where b: "alloc s = (b, s1)" by fastforce
  obtain cs where cs: "alloc_run n alloc s1 = (cs, s')" "bs = b # cs"
    using Suc.prems b by (auto split: prod.splits)
  note IH = Suc.IH [OF cs(1)]
  show ?case
  proof (cases rule: alloc_cases [of s])
    case (taken i s2)
    then have e: "b = of_nat i" "s2 = s1" using b by auto
    have u: "unat b = i" using e(1) unat_index [OF taken(1)] by simp
    have j: "(of_nat j :: u32) = b \<longleftrightarrow> j = i" if "j < bound" for j
      using unat_index [OF that] u e(1) by metis
    have s1: "free s1 j \<longleftrightarrow> free s j \<and> j \<noteq> i" if "j < bound" for j using taken(4) that e(2) by simp
    have IH1: "distinct (filter (\<lambda>b. unat b < bound) cs)"
      and IH2: "\<And>b. b \<in> set cs \<Longrightarrow> unat b < bound \<Longrightarrow> free s1 (unat b)"
      and IH3: "\<And>j. j < bound \<Longrightarrow> free s' j \<longleftrightarrow> free s1 j \<and> of_nat j \<notin> set cs"
      using IH by auto
    have "b \<notin> set cs" using IH2 [of b] s1 [of i] u taken(1) by auto
    then have "distinct (filter (\<lambda>b. unat b < bound) bs)" using IH1 cs(2) by simp
    moreover have "free s (unat c)" if "c \<in> set bs" "unat c < bound" for c
      using that IH2 [of c] s1 [of "unat c"] u taken(2) cs(2) by auto
    moreover have "free s' k \<longleftrightarrow> free s k \<and> of_nat k \<notin> set bs" if "k < bound" for k
      using IH3 [OF that] s1 [OF that] j [OF that] cs(2) by auto
    ultimately show ?thesis by blast
  next
    case (full s2)
    have e: "b = - 1" "s2 = s1" using full(2) b by auto
    have u: "\<not> unat b < bound"
      using e(1) bound by (simp add: unsigned_minus_1_eq_mask mask_eq_exp_minus_1)
    have s1: "\<not> free s1 j" if "j < bound" for j using full(3) that e(2) by simp
    have "\<not> unat c < bound" if "c \<in> set bs" for c using that IH u s1 cs(2) by auto
    moreover have "\<not> free s' k" if "k < bound" for k using IH s1 that by blast
    ultimately show ?thesis using full(1) by (auto simp: filter_empty_conv)
  qed
qed simp

end

definition alloc_body :: "nat \<Rightarrow> (u32 \<Rightarrow> u32) \<Rightarrow> 'a fsst_scheme \<Rightarrow> u32 \<times> 'a fsst_scheme" where
  "alloc_body n loc s =
     (let s = readBitmap s in
      case alloc_scan n 0 loc (bitmap s) of
        None \<Rightarrow> (- 1, s)
      | Some i \<Rightarrow> (let s = s\<lparr>bitmap := sec_mark (loc i) (bitmap s)\<rparr> in (i, saveBitmap s)))"

lemma alloc_bodies: "INodeAlloc = alloc_body SC_INODE LOC_INODE" "dataAlloc = alloc_body SC_DATA LOC_DATA"
  by (simp_all add: fun_eq_iff INodeAlloc_def dataAlloc_def alloc_body_def)

lemma sec_free_cong: "m (unat sec div 8) = m' (unat sec div 8) \<Longrightarrow> sec_free m sec = sec_free m' sec"
  by (simp add: sec_free_bit)

lemma alloc_body_taken:
  assumes "i < n" "n \<le> 2 ^ 16" and loc: "\<And>j. j < n \<Longrightarrow> unat (loc (of_nat j)) < 2 ^ 20"
    and inj: "\<And>j k. j < n \<Longrightarrow> k < n \<Longrightarrow> loc (of_nat j) = loc (of_nat k) \<Longrightarrow> j = k"
    and free: "sec_free (bitmap_view s) (loc (of_nat i))"
    and least: "\<And>j. j < i \<Longrightarrow> \<not> sec_free (bitmap_view s) (loc (of_nat j))"
  shows "\<exists>s'. alloc_body n loc s = (of_nat i, s') \<and> s' = s\<lparr>disk := disk s', bitmap := bitmap s'\<rparr> \<and>
     (\<forall>k < 131072. bitmap_view s' k = sec_mark (loc (of_nat i)) (bitmap_view s) k) \<and>
     (\<forall>j < n. sec_free (bitmap_view s') (loc (of_nat j)) \<longleftrightarrow>
        sec_free (bitmap_view s) (loc (of_nat j)) \<and> j \<noteq> i) \<and>
     (\<forall>m. m mod 512 \<noteq> 1 \<or> 131072 \<le> m \<longrightarrow> disk s' m = disk s m)"
proof -
  let ?sec = "loc (of_nat i)"
  let ?s = "(readBitmap s)\<lparr>bitmap := sec_mark ?sec (bitmap (readBitmap s))\<rparr>"
  have view: "bitmap (readBitmap s) k = bitmap_view s k" if "k < 131072" for k
    using that by (simp add: readBitmap_eq)
  have small: "unat (loc (of_nat j)) div 8 < 131072" if "j < n" for j
    using loc [OF that] by (simp add: less_mult_imp_div_less)
  have f: "sec_free (bitmap (readBitmap s)) (loc (of_nat j)) = sec_free (bitmap_view s) (loc (of_nat j))"
    if "j < n" for j using view [OF small [OF that]] by (rule sec_free_cong)
  have "alloc_scan n (of_nat 0) loc (bitmap (readBitmap s)) = Some (of_nat (0 + i))"
    using assms(1) free least f by (intro alloc_scan_Some) auto
  then have a: "alloc_body n loc s = (of_nat i, saveBitmap ?s)" by (simp add: alloc_body_def Let_def)
  have v: "bitmap_view (saveBitmap ?s) k = sec_mark ?sec (bitmap_view s) k" if "k < 131072" for k
    using that view [OF that] view [OF small [OF assms(1)]]
    by (cases "k = unat ?sec div 8") (simp_all add: bitmap_view_save sec_mark_other, simp add: sec_mark_def sec_index Let_def)
  have "sec_free (bitmap_view (saveBitmap ?s)) (loc (of_nat j)) \<longleftrightarrow>
      sec_free (bitmap_view s) (loc (of_nat j)) \<and> j \<noteq> i" if "j < n" for j
  proof -
    have "sec_free (bitmap_view (saveBitmap ?s)) (loc (of_nat j))
        = sec_free (sec_mark ?sec (bitmap_view s)) (loc (of_nat j))"
      by (rule sec_free_cong) (rule v [OF small [OF that]])
    then show ?thesis using inj [OF that assms(1)] by (auto simp: sec_free_mark)
  qed
  moreover have "saveBitmap ?s = s\<lparr>disk := disk (saveBitmap ?s), bitmap := bitmap (saveBitmap ?s)\<rparr>"
    by (simp add: saveBitmap_eq readBitmap_eq)
  moreover have "disk (saveBitmap ?s) m = disk s m" if "m mod 512 \<noteq> 1 \<or> 131072 \<le> m" for m
    using that by (auto simp: saveBitmap_eq readBitmap_eq)
  ultimately show ?thesis using a v by blast
qed

lemma alloc_body_full:
  assumes "n \<le> 2 ^ 16" and loc: "\<And>j. j < n \<Longrightarrow> unat (loc (of_nat j)) < 2 ^ 20"
    and full: "\<And>j. j < n \<Longrightarrow> \<not> sec_free (bitmap_view s) (loc (of_nat j))"
  shows "\<exists>s'. alloc_body n loc s = (- 1, s') \<and> s' = s\<lparr>bitmap := bitmap s'\<rparr>"
proof -
  have "sec_free (bitmap (readBitmap s)) (loc (of_nat j)) = sec_free (bitmap_view s) (loc (of_nat j))"
    if "j < n" for j
    using loc [OF that] by (intro sec_free_cong) (simp add: readBitmap_eq less_mult_imp_div_less)
  then have "alloc_scan n (of_nat 0) loc (bitmap (readBitmap s)) = None"
    using full by (intro alloc_scan_None) auto
  then show ?thesis by (simp add: alloc_body_def Let_def) (simp add: readBitmap_eq)
qed

text \<open>Where the blocks lie.\<close>

lemma unat_LOC:
  "i < SC_INODE \<Longrightarrow> unat (LOC_INODE (of_nat i)) = 513 + i"
  "i < SC_DATA \<Longrightarrow> unat (LOC_DATA (of_nat i)) = 769 + i"
proof -
  have inode: "LOC_INODE (of_nat i) = of_nat (513 + i)" by (simp add: LOC_INODE_def SC_DIR_def)
  have data: "LOC_DATA (of_nat i) = of_nat (769 + i)"
    by (simp add: LOC_DATA_def SC_DIR_def SC_INODE_def)
  show "i < SC_INODE \<Longrightarrow> unat (LOC_INODE (of_nat i)) = 513 + i"
    unfolding inode by (simp only: unat_of_nat take_bit_eq_mod) (simp add: fs_consts)
  show "i < SC_DATA \<Longrightarrow> unat (LOC_DATA (of_nat i)) = 769 + i"
    unfolding data by (simp only: unat_of_nat take_bit_eq_mod) (simp add: fs_consts)
qed

lemma LOC_small:
  "j < SC_INODE \<Longrightarrow> unat (LOC_INODE (of_nat j)) < 2 ^ 20" "j < SC_DATA \<Longrightarrow> unat (LOC_DATA (of_nat j)) < 2 ^ 20"
  by (simp_all only: unat_LOC) (simp_all add: fs_consts)

lemma LOC_inj:
  "j < SC_INODE \<Longrightarrow> k < SC_INODE \<Longrightarrow> LOC_INODE (of_nat j) = LOC_INODE (of_nat k) \<Longrightarrow> j = k"
  "j < SC_DATA \<Longrightarrow> k < SC_DATA \<Longrightarrow> LOC_DATA (of_nat j) = LOC_DATA (of_nat k) \<Longrightarrow> j = k"
  by (metis add_left_cancel unat_LOC)+

definition inode_free :: "'a fsst_scheme \<Rightarrow> nat \<Rightarrow> bool" where
  "inode_free s i = sec_free (bitmap_view s) (LOC_INODE (of_nat i))"

definition data_free :: "'a fsst_scheme \<Rightarrow> nat \<Rightarrow> bool" where
  "data_free s i = sec_free (bitmap_view s) (LOC_DATA (of_nat i))"

lemma SC_bounds: "SC_INODE \<le> 2 ^ 16" "SC_DATA \<le> 2 ^ 16"
  by (simp_all add: fs_consts)

lemma dataAlloc_taken:
  assumes "i < SC_DATA" "data_free s i" "\<And>j. j < i \<Longrightarrow> \<not> data_free s j"
  shows "\<exists>s'. dataAlloc s = (of_nat i, s') \<and> s' = s\<lparr>disk := disk s', bitmap := bitmap s'\<rparr> \<and>
     (\<forall>k < 131072. bitmap_view s' k = sec_mark (LOC_DATA (of_nat i)) (bitmap_view s) k) \<and>
     (\<forall>j < SC_DATA. data_free s' j \<longleftrightarrow> data_free s j \<and> j \<noteq> i) \<and>
     (\<forall>m. m mod 512 \<noteq> 1 \<or> 131072 \<le> m \<longrightarrow> disk s' m = disk s m)"
  unfolding alloc_bodies data_free_def
proof (rule alloc_body_taken)
  show "\<not> sec_free (bitmap_view s) (LOC_DATA (of_nat j))" if "j < i" for j
    using assms(3) [OF that] by (simp only: data_free_def not_False_eq_True)
qed (assumption | rule assms(1) assms(2) [unfolded data_free_def] SC_bounds LOC_small(2) LOC_inj(2))+

lemma INodeAlloc_taken:
  assumes "i < SC_INODE" "inode_free s i" "\<And>j. j < i \<Longrightarrow> \<not> inode_free s j"
  shows "\<exists>s'. INodeAlloc s = (of_nat i, s') \<and> s' = s\<lparr>disk := disk s', bitmap := bitmap s'\<rparr> \<and>
     (\<forall>k < 131072. bitmap_view s' k = sec_mark (LOC_INODE (of_nat i)) (bitmap_view s) k) \<and>
     (\<forall>j < SC_INODE. inode_free s' j \<longleftrightarrow> inode_free s j \<and> j \<noteq> i) \<and>
     (\<forall>m. m mod 512 \<noteq> 1 \<or> 131072 \<le> m \<longrightarrow> disk s' m = disk s m)"
  unfolding alloc_bodies inode_free_def
proof (rule alloc_body_taken)
  show "\<not> sec_free (bitmap_view s) (LOC_INODE (of_nat j))" if "j < i" for j
    using assms(3) [OF that] by (simp only: inode_free_def not_False_eq_True)
qed (assumption | rule assms(1) assms(2) [unfolded inode_free_def] SC_bounds LOC_small(1) LOC_inj(1))+

lemma alloc_full:
  "(\<And>i. i < SC_DATA \<Longrightarrow> \<not> data_free s i) \<Longrightarrow> \<exists>s'. dataAlloc s = (- 1, s') \<and> s' = s\<lparr>bitmap := bitmap s'\<rparr>"
  "(\<And>i. i < SC_INODE \<Longrightarrow> \<not> inode_free s i) \<Longrightarrow> \<exists>s'. INodeAlloc s = (- 1, s') \<and> s' = s\<lparr>bitmap := bitmap s'\<rparr>"
  unfolding alloc_bodies data_free_def inode_free_def
  by (rule alloc_body_full [where loc = LOC_DATA, OF SC_bounds(2) LOC_small(2)], assumption+)
    (rule alloc_body_full [where loc = LOC_INODE, OF SC_bounds(1) LOC_small(1)], assumption+)

lemma free_bitmap_irrelevant [simp]:
  "data_free (s\<lparr>bitmap := b\<rparr>) = data_free s" "inode_free (s\<lparr>bitmap := b\<rparr>) = inode_free s"
  by (simp_all add: fun_eq_iff data_free_def inode_free_def bitmap_view_def sec_free_bit)

interpretation data_blocks: block_alloc dataAlloc data_free SC_DATA
proof unfold_locales
  fix s :: "'a fsst_scheme"
  assume "\<And>i. i < SC_DATA \<Longrightarrow> \<not> data_free s i"
  then show "\<exists>s'. dataAlloc s = (- 1, s') \<and> (\<forall>j < SC_DATA. \<not> data_free s' j)"
    using alloc_full(1) [of s] by (metis free_bitmap_irrelevant(1))
next
  fix i and s :: "'a fsst_scheme"
  assume "i < SC_DATA" "data_free s i" "\<And>j. j < i \<Longrightarrow> \<not> data_free s j"
  then show "\<exists>s'. dataAlloc s = (of_nat i, s') \<and> (\<forall>j < SC_DATA. data_free s' j \<longleftrightarrow> data_free s j \<and> j \<noteq> i)"
    using dataAlloc_taken [of i s] by blast
qed (simp add: fs_consts)

interpretation inode_blocks: block_alloc INodeAlloc inode_free SC_INODE
proof unfold_locales
  fix s :: "'a fsst_scheme"
  assume "\<And>i. i < SC_INODE \<Longrightarrow> \<not> inode_free s i"
  then show "\<exists>s'. INodeAlloc s = (- 1, s') \<and> (\<forall>j < SC_INODE. \<not> inode_free s' j)"
    using alloc_full(2) [of s] by (metis free_bitmap_irrelevant(2))
next
  fix i and s :: "'a fsst_scheme"
  assume "i < SC_INODE" "inode_free s i" "\<And>j. j < i \<Longrightarrow> \<not> inode_free s j"
  then show "\<exists>s'. INodeAlloc s = (of_nat i, s') \<and> (\<forall>j < SC_INODE. inode_free s' j \<longleftrightarrow> inode_free s j \<and> j \<noteq> i)"
    using INodeAlloc_taken [of i s] by blast
qed (simp add: fs_consts)

section \<open>Sample states\<close>

text \<open>
  A disk of zeros, on which every block is unused, and a disk whose first bitmap sector is full.
\<close>

definition fs_sample :: "(nat \<Rightarrow> sector) \<Rightarrow> fsst" where
  "fs_sample d = procst.extend sample \<lparr>disk = d, bitmap = (\<lambda>_. 0), inode = (\<lambda>_. 0),
     dir = (\<lambda>_. \<lparr>filename = replicate 24 0, file_size = 0, inode_offset = 0\<rparr>), buffer = (\<lambda>_. 0),
     fs = (\<lambda>_. \<lparr>st_offset = 0, st_inode_offset = 0, st_file_size = 0, st_dir_offset = 0,
       st_entry_offset = 0, st_filename = replicate 24 0, st_used = 0\<rparr>)\<rparr>"

definition zero_disk :: "nat \<Rightarrow> sector" where
  "zero_disk = (\<lambda>_ _. 0)"

definition crowded_disk :: "nat \<Rightarrow> sector" where
  "crowded_disk = zero_disk(1 := (\<lambda>_. 0xFF))"

lemma disk_fs_sample [simp]: "disk (fs_sample d) = d"
  by (simp add: fs_sample_def procst.defs)

lemma zero_disk_free: "data_free (fs_sample zero_disk) i" "inode_free (fs_sample zero_disk) i"
  by (simp_all add: data_free_def inode_free_def sec_free_bit bitmap_view_def zero_disk_def)

lemma find_zero_disk: "find (data_free (fs_sample zero_disk)) [0..<SC_DATA] = Some 0"
  by (auto simp: find_Some_iff zero_disk_free fs_consts intro!: exI [of _ 0])

lemma crowded_disk_free:
  assumes "i < 3328"
  shows "data_free (fs_sample crowded_disk) i \<longleftrightarrow> i = 3327"
proof -
  have "i < SC_DATA" using assms by (simp add: fs_consts)
  then have u: "unat (LOC_DATA (of_nat i)) = 769 + i" by (rule unat_LOC(2))
  have "bit (0xFF :: u8) ((769 + i) mod 8)"
  proof -
    have "(0xFF :: u8) = - 1" by simp
    then show ?thesis by (simp only: bit_minus_1_iff) simp
  qed
  moreover have "(769 + i) div 8 div 512 = (if i = 3327 then 1 else 0)"
    using assms by (auto simp: div_eq_0_iff simp flip: div_mult2_eq)
  ultimately show ?thesis
    by (auto simp: data_free_def sec_free_bit u bitmap_view_def crowded_disk_def zero_disk_def)
qed

lemma find_crowded_disk: "find (data_free (fs_sample crowded_disk)) [0..<SC_DATA] = Some 3327"
  using crowded_disk_free by (auto simp: find_Some_iff fs_consts intro!: exI [of _ 3327])

section \<open>Properties\<close>

text \<open>Only one byte of the disk is touched, the one that holds the bit of the sector.\<close>

lemma disk_of_view:
  assumes view: "\<forall>k < 131072. bitmap_view s' k = sec_mark sec (bitmap_view s) k"
    and frame: "\<forall>m. m mod 512 \<noteq> 1 \<or> 131072 \<le> m \<longrightarrow> disk s' m = disk s m"
    and sec: "unat sec < 2 ^ 20" and k: "k < 512"
  shows "disk s' m k = (if m = 1 + 512 * (unat sec div 4096) \<and> k = unat sec div 8 mod 512
     then disk s m k OR push_bit (unat sec mod 8) 1 else disk s m k)"
proof -
  have byte: "unat sec div 8 div 512 = unat sec div 4096" by (simp flip: div_mult2_eq)
  show ?thesis
  proof (cases "m mod 512 = 1 \<and> m < 131072")
    case False
    have "unat sec div 4096 < 256" using sec by (simp add: less_mult_imp_div_less)
    with False have "m \<noteq> 1 + 512 * (unat sec div 4096)" by auto
    with False frame show ?thesis by (auto simp: not_less)
  next
    case True
    define c where "c = m div 512"
    have m: "m = 1 + 512 * c" using True mult_div_mod_eq [of 512 m] by (simp add: c_def)
    define b where "b = 512 * c + k"
    have "b div 512 = c" unfolding b_def using k by (intro div_nat_eqI) simp_all
    moreover have "b mod 512 = k" using k by (simp add: b_def)
    moreover have "b < 131072"
    proof -
      have "c < 256" using True m by simp
      then show ?thesis using k by (simp add: b_def)
    qed
    ultimately have "b = unat sec div 8 \<longleftrightarrow> m = 1 + 512 * (unat sec div 4096) \<and> k = unat sec div 8 mod 512"
      using \<open>b div 512 = c\<close> \<open>b mod 512 = k\<close> byte m by (metis add_left_cancel div_mult_mod_eq mult_cancel1 zero_neq_numeral)
    moreover have "disk s' m k = sec_mark sec (bitmap_view s) b"
      using view [rule_format, OF \<open>b < 131072\<close>] by (simp add: bitmap_view_def m \<open>b div 512 = c\<close> \<open>b mod 512 = k\<close>)
    moreover have "bitmap_view s b = disk s m k"
      by (simp add: bitmap_view_def m \<open>b div 512 = c\<close> \<open>b mod 512 = k\<close>)
    ultimately show ?thesis by (auto simp: sec_mark_def sec_index Let_def)
  qed
qed

text \<open>
  \<open>dataAlloc\<close> returns the number of the first unused data block and sets its bit, which is the only
  bit of the disk that changes; with no unused block it returns \<open>- 1\<close> and leaves the disk alone.
\<close>

theorem dataAlloc_correct:
  "case find (data_free s) [0..<SC_DATA] of
     None \<Rightarrow> fst (dataAlloc s) = - 1 \<and> disk (snd (dataAlloc s)) = disk s
   | Some i \<Rightarrow> fst (dataAlloc s) = of_nat i \<and>
       (\<forall>m. \<forall>k < 512. disk (snd (dataAlloc s)) m k =
          (if m = 1 + 512 * ((769 + i) div 4096) \<and> k = (769 + i) div 8 mod 512
           then disk s m k OR push_bit ((769 + i) mod 8) 1 else disk s m k))"
proof (cases "find (data_free s) [0..<SC_DATA]")
  case None
  then have "\<And>i. i < SC_DATA \<Longrightarrow> \<not> data_free s i" by (auto simp: find_None_iff)
  then obtain s' where s': "dataAlloc s = (- 1, s')" "s' = s\<lparr>bitmap := bitmap s'\<rparr>"
    using alloc_full(1) by blast
  have "disk s' = disk s" by (subst s'(2)) simp
  with None s'(1) show ?thesis by simp
next
  case (Some i)
  then have i: "i < SC_DATA" "data_free s i" "\<And>j. j < i \<Longrightarrow> \<not> data_free s j"
    by (auto simp: find_Some_iff)
  obtain s' where s': "dataAlloc s = (of_nat i, s')"
      "\<forall>k < 131072. bitmap_view s' k = sec_mark (LOC_DATA (of_nat i)) (bitmap_view s) k"
      "\<forall>m. m mod 512 \<noteq> 1 \<or> 131072 \<le> m \<longrightarrow> disk s' m = disk s m"
    using dataAlloc_taken [OF i] by blast
  from disk_of_view [OF s'(2,3) LOC_small(2) [OF i(1)]] Some s'(1)
  show ?thesis by (simp only: unat_LOC(2) [OF i(1)] option.case fst_conv snd_conv) blast
qed

theorem dataAlloc_correct_witness:
  "fst (dataAlloc (fs_sample zero_disk)) = 0 \<and>
     disk (snd (dataAlloc (fs_sample zero_disk))) 1 96 = 2"
  using dataAlloc_correct [of "fs_sample zero_disk"]
  by (simp add: find_zero_disk) (simp add: zero_disk_def)

text \<open>
  In the kernel's own view of the bitmap, successive allocations of data blocks, or of inodes, never return a block twice, and never
  one that was marked before.
\<close>

lemma allocation_runs:
  assumes "alloc_run n dataAlloc s = (bs, s')" "alloc_run k INodeAlloc t = (cs, t')"
  shows "distinct (filter (\<lambda>b. unat b < SC_DATA) bs) \<and>
     (\<forall>b \<in> set bs. unat b < SC_DATA \<longrightarrow> data_free s (unat b)) \<and>
     (\<forall>j < SC_DATA. data_free s' j \<longleftrightarrow> data_free s j \<and> of_nat j \<notin> set bs) \<and>
     distinct (filter (\<lambda>b. unat b < SC_INODE) cs) \<and>
     (\<forall>b \<in> set cs. unat b < SC_INODE \<longrightarrow> inode_free t (unat b)) \<and>
     (\<forall>j < SC_INODE. inode_free t' j \<longleftrightarrow> inode_free t j \<and> of_nat j \<notin> set cs)"
  using data_blocks.alloc_run_fresh [OF assms(1)] inode_blocks.alloc_run_fresh [OF assms(2)] by blast

section \<open>Allocation and the layout of the disk\<close>

text \<open>
  The layout of \<^verbatim>\<open>file.h\<close>, which the tools of \<^verbatim>\<open>src/fmt\<close> follow, has the bitmap in sectors 1 to 256 with a bit for each sector of the disk.  The kernel
  agrees with it on the first of these sectors, which has the bits of all inodes and of the data blocks up to number 3326.
\<close>

definition layout_used :: "(nat \<Rightarrow> sector) \<Rightarrow> nat \<Rightarrow> bool" where
  "layout_used d n \<longleftrightarrow> bit (d (1 + n div 4096) (n div 8 mod 512)) (n mod 8)"

text \<open>What happens to the disk between two allocations: the kernel writes directory, inode and data sectors.\<close>

datatype disk_op = Data_alloc | Inode_alloc | Write_sector nat sector

primrec run_op :: "disk_op \<Rightarrow> 'a fsst_scheme \<Rightarrow> nat list \<times> 'a fsst_scheme" where
  "run_op Data_alloc s = (case dataAlloc s of (b, s) \<Rightarrow> (if b = - 1 then [] else [unat (LOC_DATA b)], s))"
| "run_op Inode_alloc s = (case INodeAlloc s of (b, s) \<Rightarrow> (if b = - 1 then [] else [unat (LOC_INODE b)], s))"
| "run_op (Write_sector n v) s = ([], s\<lparr>disk := (disk s)(n := v)\<rparr>)"

primrec disk_ops :: "disk_op list \<Rightarrow> 'a fsst_scheme \<Rightarrow> nat list \<times> 'a fsst_scheme" where
  "disk_ops [] s = ([], s)"
| "disk_ops (x # xs) s = (case run_op x s of (ns, s) \<Rightarrow> case disk_ops xs s of (ms, s) \<Rightarrow> (ns @ ms, s))"

lemma layout_first_sector:
  assumes "n < 4096"
  shows "layout_used (disk s) n \<longleftrightarrow> \<not> sec_free (bitmap_view s) (of_nat n)"
proof -
  have "unat (of_nat n :: u32) = n" using assms by (simp add: unat_small)
  moreover have "n div 4096 = 0" "n div 8 div 512 = 0" using assms by (simp_all flip: div_mult2_eq)
  ultimately show ?thesis by (simp add: layout_used_def sec_free_bit bitmap_view_def)
qed

text \<open>\<open>fresh_sectors d ns d'\<close>: the sectors \<open>ns\<close> are different, unused on \<open>d\<close> and exactly what \<open>d'\<close> has in use beyond \<open>d\<close>.\<close>

definition fresh_sectors :: "(nat \<Rightarrow> sector) \<Rightarrow> nat list \<Rightarrow> (nat \<Rightarrow> sector) \<Rightarrow> bool" where
  "fresh_sectors d ns d' \<longleftrightarrow> distinct ns \<and> (\<forall>n \<in> set ns. \<not> layout_used d n) \<and>
     (\<forall>n < 4096. layout_used d' n \<longleftrightarrow> layout_used d n \<or> n \<in> set ns)"

lemma alloc_marks:
  assumes free: "sec_free (bitmap_view s) sec" and mark: "\<forall>k < 131072. bitmap_view s' k = sec_mark sec (bitmap_view s) k" and sec: "unat sec < 4096"
  shows "fresh_sectors (disk s) [unat sec] (disk s')"
proof -
  have "layout_used (disk s') n \<longleftrightarrow> layout_used (disk s) n \<or> n = unat sec" if n: "n < 4096" for n
  proof -
    have u: "unat (of_nat n :: u32) = n" using n by (simp add: unat_small)
    have "sec_free (bitmap_view s') (of_nat n) = sec_free (sec_mark sec (bitmap_view s)) (of_nat n)"
      using mark n u by (intro sec_free_cong) (simp add: less_mult_imp_div_less)
    moreover have "(of_nat n = sec) = (n = unat sec)" using u by auto
    ultimately show ?thesis unfolding layout_first_sector [OF n] by (auto simp: sec_free_mark)
  qed
  moreover have "\<not> layout_used (disk s) (unat sec)" using free unfolding layout_first_sector [OF sec] by simp
  ultimately show ?thesis by (simp add: fresh_sectors_def)
qed

lemma index_not_full: "i < 2 ^ 16 \<Longrightarrow> (of_nat i :: u32) \<noteq> - 1"
  using unat_small [of i] by (auto simp: unsigned_minus_1_eq_mask mask_eq_exp_minus_1)

lemma run_op_fresh:
  assumes "run_op x s = (ns, s')" "\<forall>v. x \<noteq> Write_sector 1 v" "\<forall>n \<in> set ns. n < 4096"
  shows "fresh_sectors (disk s) ns (disk s')"
proof (cases x)
  case Data_alloc
  show ?thesis
  proof (cases "find (data_free s) [0..<SC_DATA]")
    case None
    then have "\<And>i. i < SC_DATA \<Longrightarrow> \<not> data_free s i" by (auto simp: find_None_iff)
    then obtain s1 where "dataAlloc s = (- 1, s1)" "s1 = s\<lparr>bitmap := bitmap s1\<rparr>" using alloc_full(1) by blast
    then have "ns = []" "disk s' = disk s" using assms(1) Data_alloc by (auto, metis fsst.select_convs(1) fsst.surjective fsst.update_convs(2))
    then show ?thesis by (simp add: fresh_sectors_def)
  next
    case (Some i)
    then have i: "i < SC_DATA" "data_free s i" "\<And>j. j < i \<Longrightarrow> \<not> data_free s j" by (auto simp: find_Some_iff)
    obtain s1 where "dataAlloc s = (of_nat i, s1)" "\<forall>k < 131072. bitmap_view s1 k = sec_mark (LOC_DATA (of_nat i)) (bitmap_view s) k"
      using dataAlloc_taken [OF i] by blast
    moreover have "(of_nat i :: u32) \<noteq> - 1" using i(1) SC_bounds(2) by (intro index_not_full) simp
    ultimately show ?thesis
      using assms Data_alloc i(2) alloc_marks [of s "LOC_DATA (of_nat i)" s1] by (auto simp: data_free_def)
  qed
next
  case Inode_alloc
  show ?thesis
  proof (cases "find (inode_free s) [0..<SC_INODE]")
    case None
    then have "\<And>i. i < SC_INODE \<Longrightarrow> \<not> inode_free s i" by (auto simp: find_None_iff)
    then obtain s1 where "INodeAlloc s = (- 1, s1)" "s1 = s\<lparr>bitmap := bitmap s1\<rparr>" using alloc_full(2) by blast
    then have "ns = []" "disk s' = disk s" using assms(1) Inode_alloc by (auto, metis fsst.select_convs(1) fsst.surjective fsst.update_convs(2))
    then show ?thesis by (simp add: fresh_sectors_def)
  next
    case (Some i)
    then have i: "i < SC_INODE" "inode_free s i" "\<And>j. j < i \<Longrightarrow> \<not> inode_free s j" by (auto simp: find_Some_iff)
    obtain s1 where "INodeAlloc s = (of_nat i, s1)" "\<forall>k < 131072. bitmap_view s1 k = sec_mark (LOC_INODE (of_nat i)) (bitmap_view s) k"
      using INodeAlloc_taken [OF i] by blast
    moreover have "(of_nat i :: u32) \<noteq> - 1" using i(1) SC_bounds(1) by (intro index_not_full) simp
    ultimately show ?thesis
      using assms Inode_alloc i(2) alloc_marks [of s "LOC_INODE (of_nat i)" s1] by (auto simp: inode_free_def)
  qed
next
  case (Write_sector n v)
  then have "n \<noteq> 1" "ns = []" "disk s' = (disk s)(n := v)" using assms(1,2) by auto
  moreover have "1 + k div 4096 = 1" if "k < 4096" for k :: nat using that by simp
  ultimately show ?thesis by (simp add: fresh_sectors_def layout_used_def)
qed

text \<open>
  C32. Allocation is fresh on the disk as the layout has it: in any sequence of data block and inode allocations and writes of sectors other
  than the first of the bitmap, as long as the sectors returned have their bits in that sector (all inodes, and data blocks below 3327), no sector is
  returned twice and none that the bitmap of the layout marks as used at the beginning; and at the end exactly the returned ones are marked in addition.
  (For the data blocks from 3327 on the kernel keeps the bits where the layout has inodes.)
\<close>

theorem allocations_fresh:
  assumes "disk_ops xs s = (ns, s')" "\<forall>v. Write_sector 1 v \<notin> set xs" "\<forall>n \<in> set ns. n < 4096"
  shows "distinct ns \<and> (\<forall>n \<in> set ns. \<not> layout_used (disk s) n) \<and>
    (\<forall>n < 4096. layout_used (disk s') n \<longleftrightarrow> layout_used (disk s) n \<or> n \<in> set ns)"
  unfolding fresh_sectors_def [symmetric] using assms
proof (induction xs arbitrary: s ns)
  case (Cons x xs)
  obtain n1 s1 where 1: "run_op x s = (n1, s1)" by fastforce
  obtain n2 where 2: "disk_ops xs s1 = (n2, s')" "ns = n1 @ n2" using Cons.prems(1) 1 by (auto split: prod.splits)
  have "fresh_sectors (disk s) n1 (disk s1)" using run_op_fresh [OF 1] Cons.prems(2,3) 2(2) by auto
  moreover have "fresh_sectors (disk s1) n2 (disk s')" using Cons.IH [OF 2(1)] Cons.prems(2,3) 2(2) by auto
  ultimately show ?case using Cons.prems(3) unfolding fresh_sectors_def 2(2) by auto
qed (simp add: fresh_sectors_def)

lemma next_data_block:
  assumes "\<And>j. j < i \<Longrightarrow> layout_used (disk s) (769 + j)" "\<not> layout_used (disk s) (769 + i)" "i < 3000"
  shows "\<exists>s'. run_op Data_alloc s = ([769 + i], s')"
proof -
  have free: "data_free s j \<longleftrightarrow> \<not> layout_used (disk s) (769 + j)" if "j \<le> i" for j
  proof -
    have "LOC_DATA (of_nat j) = of_nat (769 + j)" by (simp add: LOC_DATA_def fs_consts)
    then show ?thesis using layout_first_sector [of "769 + j" s] that assms(3) by (simp add: data_free_def)
  qed
  have i: "i < SC_DATA" using assms(3) by (simp add: fs_consts)
  have "data_free s i" "\<And>j. j < i \<Longrightarrow> \<not> data_free s j" using free assms(1,2) by simp_all
  then obtain s1 where "dataAlloc s = (of_nat i, s1)" using dataAlloc_taken [OF i] by blast
  moreover have "(of_nat i :: u32) \<noteq> - 1" using assms(3) by (intro index_not_full) simp
  ultimately show ?thesis by (simp add: unat_LOC(2) [OF i])
qed

lemma zero_disk_unused [simp]: "\<not> layout_used (disk (fs_sample zero_disk)) n"
  by (simp add: layout_used_def zero_disk_def)

theorem allocations_fresh_witness:
  "\<exists>s'. disk_ops [Data_alloc, Write_sector 513 (\<lambda>_. 0xFF), Data_alloc] (fs_sample zero_disk) = ([769, 770], s') \<and>
     layout_used (disk s') 770 \<and> \<not> layout_used (disk s') 771"
proof -
  let ?x = "[Data_alloc, Write_sector 513 (\<lambda>_. 0xFF), Data_alloc]"
  obtain s1 where 1: "run_op Data_alloc (fs_sample zero_disk) = ([769], s1)"
    using next_data_block [of 0 "fs_sample zero_disk"] by (auto simp: layout_used_def zero_disk_def simp del: run_op.simps)
  let ?s = "s1\<lparr>disk := (disk s1)(513 := \<lambda>_. 0xFF)\<rparr>"
  have "fresh_sectors zero_disk [769] (disk s1)" using run_op_fresh [OF 1] by simp
  then have "layout_used (disk s1) 769" "\<not> layout_used (disk s1) 770"
    by (auto simp: fresh_sectors_def) (simp add: layout_used_def zero_disk_def)
  then have "layout_used (disk ?s) 769" "\<not> layout_used (disk ?s) 770" by (simp_all add: layout_used_def)
  then obtain s2 where 2: "run_op Data_alloc ?s = ([770], s2)" using next_data_block [of 1 ?s] by (auto simp del: run_op.simps)
  have run: "disk_ops ?x (fs_sample zero_disk) = ([769, 770], s2)" using 1 2 by (simp del: run_op.simps(1))
  have "\<forall>n < 4096. layout_used (disk s2) n \<longleftrightarrow> layout_used (disk (fs_sample zero_disk)) n \<or> n \<in> set [769, 770]"
    using allocations_fresh [OF run] by simp
  then have "layout_used (disk s2) 770" "\<not> layout_used (disk s2) 771" by (simp_all only: zero_disk_unused) simp_all
  with run show ?thesis by blast
qed

text \<open>
  The bitmap outgrows its place: the kernel keeps the second 512 bytes of the bitmap in sector
  513, which is the sector of inode 0.  Allocating any data block from number 3327 up to 7422
  therefore changes inode 0.
\<close>

theorem dataAlloc_overwrites_inode_0:
  assumes "find (data_free s) [0..<SC_DATA] = Some i" "3327 \<le> i" "i < 7423"
  shows "disk (snd (dataAlloc s)) (unat (LOC_INODE 0)) \<noteq> disk s (unat (LOC_INODE 0))"
proof -
  have i: "i < SC_DATA" "data_free s i" "\<And>j. j < i \<Longrightarrow> \<not> data_free s j"
    using assms(1) by (auto simp: find_Some_iff)
  obtain s' where s': "dataAlloc s = (of_nat i, s')"
      "\<forall>k < 131072. bitmap_view s' k = sec_mark (LOC_DATA (of_nat i)) (bitmap_view s) k"
    using dataAlloc_taken [OF i] by blast
  let ?b = "(769 + i) div 8"
  have b: "?b div 512 = 1" using assms(2,3) by (intro div_nat_eqI) auto
  have lt: "?b < 131072" using assms(3) by (simp add: less_mult_imp_div_less)
  have 1: "unat (LOC_INODE 0) = 513" by (simp add: LOC_INODE_def fs_consts)
  have "\<not> sec_free (bitmap_view s') (LOC_DATA (of_nat i))"
    using s'(2) lt by (simp add: sec_free_bit unat_LOC(2) [OF i(1)] sec_mark_bit)
  moreover have "sec_free (bitmap_view s) (LOC_DATA (of_nat i))" using i(2) by (simp add: data_free_def)
  ultimately have "bitmap_view s' ?b \<noteq> bitmap_view s ?b"
    by (auto simp: sec_free_bit unat_LOC(2) [OF i(1)])
  then have "disk s' 513 \<noteq> disk s 513" by (auto simp: bitmap_view_def b)
  then show ?thesis by (simp add: s'(1) 1)
qed

theorem dataAlloc_overwrites_inode_0_witness:
  "disk (snd (dataAlloc (fs_sample crowded_disk))) (unat (LOC_INODE 0)) \<noteq> crowded_disk (unat (LOC_INODE 0))"
  using dataAlloc_overwrites_inode_0 [OF find_crowded_disk] by simp

end
