(* ===== verification/File_Ops.thy ===== *)
theory File_Ops
  imports Blocks
begin

text \<open>
  Reading and writing files.  \<open>file_byte s ino k\<close> is byte \<open>k\<close> of the file with inode \<open>ino\<close>, found
  through the block list of the inode on the disk; the theorems relate the block-wise loops of
  \<^verbatim>\<open>fs_read_kr\<close> and \<^verbatim>\<open>fs_write_kr\<close> to this flat view.
\<close>

section \<open>Files as bytes\<close>

definition file_byte :: "'a fsst_scheme \<Rightarrow> u32 \<Rightarrow> nat \<Rightarrow> u8" where
  "file_byte s ino k =
     disk s (ide_sector (LOC_DATA (dec_inode (disk s (ide_sector (LOC_INODE ino))) (k div 512)))) (k mod 512)"

text \<open>The same through the inode that is in the buffer.\<close>

definition cur_byte :: "'a fsst_scheme \<Rightarrow> nat \<Rightarrow> u8" where
  "cur_byte s k = disk s (ide_sector (LOC_DATA (inode s (k div 512)))) (k mod 512)"

lemma cur_byte_simps [simp]:
  "cur_byte (s\<lparr>buffer := b\<rparr>) = cur_byte s" "cur_byte (s\<lparr>fs := f\<rparr>) = cur_byte s"
  "cur_byte (advance i n s) = cur_byte s"
  by (simp_all add: cur_byte_def fun_eq_iff advance_def upd_stream_def)

lemma readINode_eq: "readINode ino s = s\<lparr>inode := dec_inode (disk s (ide_sector (LOC_INODE ino)))\<rparr>"
  by (simp add: readINode_def readsect_eq)

lemma cur_byte_readINode [simp]: "cur_byte (readINode ino s) = file_byte s ino"
  by (simp add: fun_eq_iff cur_byte_def file_byte_def readINode_eq)

lemma readData_eq: "readData b s = s\<lparr>buffer := disk s (ide_sector (LOC_DATA b))\<rparr>"
  by (simp add: readData_def readsect_eq)

lemma advance_simps [simp]:
  "fs (advance i n s) = (fs s)(i := (fs s i)\<lparr>st_offset := st_offset (fs s i) + n\<rparr>)"
  "disk (advance i n s) = disk s" "inode (advance i n s) = inode s" "buffer (advance i n s) = buffer s"
  "advance i n (s\<lparr>buffer := b\<rparr>) = (advance i n s)\<lparr>buffer := b\<rparr>"
  "advance i m (advance i n s) = advance i (n + m) s"
  by (simp_all add: advance_def upd_stream_def add.assoc)

lemma block_bytes:
  assumes "R + n \<le> 512"
  shows "map (\<lambda>k. disk s (ide_sector (LOC_DATA (inode s d))) (R + k)) [0..<n]
     = map (cur_byte s) [512 * d + R..<512 * d + R + n]"
proof (rule nth_equalityI)
  fix k assume "k < length (map (\<lambda>k. disk s (ide_sector (LOC_DATA (inode s d))) (R + k)) [0..<n])"
  then have k: "k < n" by simp
  have "(512 * d + R + k) div 512 = d" using k assms by (intro div_nat_eqI) simp_all
  moreover have "(512 * d + R + k) mod 512 = R + k" using k assms by (simp add: add.assoc)
  ultimately show "map (\<lambda>k. disk s (ide_sector (LOC_DATA (inode s d))) (R + k)) [0..<n] ! k
      = map (cur_byte s) [512 * d + R..<512 * d + R + n] ! k"
    using k by (simp add: cur_byte_def)
qed simp

lemma drop_bit_9:
  assumes "n < 2 ^ 32"
  shows "unat (drop_bit 9 (of_nat n :: u32)) = n div 512"
proof -
  have "unat (drop_bit 9 (of_nat n :: u32)) = drop_bit 9 (unat (of_nat n :: u32))"
    using unat_u32_less [of "of_nat n"] by (simp only: unsigned_drop_bit_eq) (simp add: take_bit_nat_eq_self)
  then show ?thesis using assms by (simp add: drop_bit_eq_div unat_of_nat take_bit_nat_eq_self)
qed

lemma sint_of_nat: "n < 2 ^ 31 \<Longrightarrow> sint (of_nat n :: u32) = int n"
  by (simp add: sint_u32 unat_of_nat take_bit_nat_eq_self)

lemma block_ptr_at:
  "n < 65536 \<Longrightarrow> block_ptr (drop_bit 9 (of_nat n)) s = Inr (inode s (n div 512))"
  using drop_bit_9 [of n] by (simp add: block_ptr_def fs_consts less_mult_imp_div_less)

section \<open>A sample file\<close>

text \<open>Stream 0 is open on inode 0 with the given offset and size.\<close>

definition file_sample :: "nat \<Rightarrow> nat \<Rightarrow> (nat \<Rightarrow> sector) \<Rightarrow> fsst" where
  "file_sample off sz d = upd_stream 0
     (\<lambda>f. f\<lparr>st_offset := of_nat off, st_file_size := of_nat sz, st_used := 1\<rparr>) (fs_sample d)"

lemma file_sample_simps [simp]:
  "st_offset (fs (file_sample off sz d) 0) = of_nat off"
  "st_file_size (fs (file_sample off sz d) 0) = of_nat sz"
  "st_inode_offset (fs (file_sample off sz d) 0) = 0" "st_dir_offset (fs (file_sample off sz d) 0) = 0"
  "disk (file_sample off sz d) = d"
  by (simp_all add: file_sample_def upd_stream_def fs_sample_def procst.defs)

lemma stream_0: "stream 0 = Inr 0"
  by (simp add: stream_def fs_consts)

section \<open>Reading\<close>

lemma read_blocks_spec:
  assumes "st_offset (fs s i) = of_nat (512 * d)" "d + q \<le> 128" "r < 512"
  shows "\<exists>b. read_blocks i (of_nat (512 * q + r)) s =
     Inr (map (cur_byte s) [512 * d..<512 * (d + q)], of_nat r,
          advance i (of_nat (512 * q)) (s\<lparr>buffer := b\<rparr>))"
  using assms
proof (induction q arbitrary: d s)
  case 0
  have "sint (of_nat r :: u32) < 512" using 0 by (subst sint_of_nat) simp_all
  moreover have "advance i 0 s = s" by (simp add: advance_def upd_stream_def)
  ultimately show ?case
    by (intro exI [of _ "buffer s"]) (subst read_blocks.simps, simp)
next
  case (Suc q)
  let ?len = "of_nat (512 * Suc q + r) :: u32"
  let ?s = "advance i 512 (readData (inode s d) s)"
  have len: "sint ?len = int (512 * Suc q + r)" using Suc.prems by (intro sint_of_nat) simp
  have ptr: "block_ptr (drop_bit 9 (st_offset (fs s i))) s = Inr (inode s d)"
    using block_ptr_at [of "512 * d" s] Suc.prems by simp
  have rd: "buf_read 0 BLOCK_SIZE (readData (inode s d) s)
      = Inr (map (cur_byte s) [512 * d..<512 * d + 512])"
    using block_bytes [of 0 512 s d] by (simp add: buf_read_def readData_eq BLOCK_SIZE_def)
  have "st_offset (fs ?s i) = of_nat (512 * Suc d)"
    using Suc.prems(1) by (simp add: readData_eq algebra_simps)
  then obtain b where b: "read_blocks i (of_nat (512 * q + r)) ?s =
      Inr (map (cur_byte ?s) [512 * Suc d..<512 * (Suc d + q)], of_nat r,
        advance i (of_nat (512 * q)) (?s\<lparr>buffer := b\<rparr>))"
    using Suc.IH [of ?s "Suc d"] Suc.prems by auto
  have l: "?len - 512 = of_nat (512 * q + r)" by (simp add: algebra_simps)
  have cat: "[512 * d..<512 * d + 512] @ [512 * Suc d..<512 * (Suc d + q)] = [512 * d..<512 * (d + Suc q)]"
    using upt_add_eq_append [of "512 * d" "512 * d + 512" "512 * q"] by (simp add: algebra_simps)
  have adv: "advance i (of_nat (512 * q)) (?s\<lparr>buffer := b\<rparr>)
      = advance i (of_nat (512 * Suc q)) (s\<lparr>buffer := b\<rparr>)"
    by (simp add: readData_eq)
  have c: "512 \<le> sint ?len" unfolding len by simp
  have "read_blocks i ?len s = bind_res (read_blocks i (?len - 512) ?s)
      (\<lambda>(out', len, s). Inr (map (cur_byte s0) [512 * d..<512 * d + 512] @ out', len, s))"
    if "cur_byte s0 = cur_byte s" for s0 :: "'a fsst_scheme"
    by (subst read_blocks.simps) (simp only: c if_True ptr bind_res_simps Let_def rd that)
  from this [of s] show ?case
    unfolding l b adv by (simp add: readData_eq flip: cat [simplified] map_append) blast
qed

text \<open>\<open>loaded i s\<close> is the state after the inode of stream \<open>i\<close> was read into the buffer.\<close>

definition loaded :: "nat \<Rightarrow> 'a fsst_scheme \<Rightarrow> 'a fsst_scheme" where
  "loaded i s = readINode (st_inode_offset (fs s i)) s"

lemma loaded_simps [simp]:
  "fs (loaded i s) = fs s" "disk (loaded i s) = disk s"
  "cur_byte (loaded i s) = file_byte s (st_inode_offset (fs s i))"
  by (simp_all add: loaded_def readINode_eq [of _ s]) (simp add: loaded_def flip: readINode_eq)

lemma offset_mod: "n < 2 ^ 32 \<Longrightarrow> of_nat n mod 512 = (of_nat (n mod 512) :: u32)"
  by (simp add: word_unat_eq_iff unat_mod unat_of_nat take_bit_nat_eq_self less_trans [OF mod_less_divisor])

text \<open>
  How a transfer of \<open>n\<close> bytes that leaves the block of \<open>off\<close> splits: the rest of that block, \<open>m div 512\<close>
  whole blocks, and a tail of \<open>m mod 512\<close> bytes.
\<close>

lemma transfer_span:
  assumes "512 < off mod 512 + n"
  obtains m where "n = (512 - off mod 512) + m"
    "off + (512 - off mod 512) = 512 * Suc (off div 512)"
    "off + n = 512 * (Suc (off div 512) + m div 512) + m mod 512"
    "(512 :: u32) - of_nat (off mod 512) = of_nat (512 - off mod 512)"
    "unat (of_nat (512 - off mod 512) :: u32) = 512 - off mod 512"
    "of_nat n - of_nat (512 - off mod 512) = (of_nat (512 * (m div 512) + m mod 512) :: u32)"
    "of_nat (512 - off mod 512) + of_nat (512 * (m div 512)) + of_nat (m mod 512) = (of_nat n :: u32)"
proof
  let ?m = "n - (512 - off mod 512)" and ?R = "off mod 512"
  have Rlt: "?R < 512" by simp
  show m: "n = (512 - ?R) + ?m" using assms by simp
  show start: "off + (512 - ?R) = 512 * Suc (off div 512)"
    unfolding mult_Suc_right using mult_div_mod_eq [of 512 off] Rlt by linarith
  show "off + n = 512 * (Suc (off div 512) + ?m div 512) + ?m mod 512"
    using start m mult_div_mod_eq [of 512 ?m] by (simp only: mult_Suc_right add_Suc_right distrib_left)
  show "(512 :: u32) - of_nat ?R = of_nat (512 - ?R)" using Rlt by (simp add: of_nat_diff)
  show "unat (of_nat (512 - ?R) :: u32) = 512 - ?R" by (rule unat_small) simp
  have d: "512 * (?m div 512) + ?m mod 512 = ?m" by (rule mult_div_mod_eq)
  have n: "of_nat n = (of_nat (512 - ?R) + of_nat ?m :: u32)" using m by (metis of_nat_add)
  show "of_nat n - of_nat (512 - ?R) = (of_nat (512 * (?m div 512) + ?m mod 512) :: u32)"
    unfolding d n by simp
  show "of_nat (512 - ?R) + of_nat (512 * (?m div 512)) + of_nat (?m mod 512) = (of_nat n :: u32)"
    unfolding n add.assoc of_nat_add [symmetric] d by simp
qed

lemma fs_read_base_spec:
  assumes fd: "stream fd = Inr i" and off: "st_offset (fs s i) = of_nat off"
    and n: "off + n < 65536"
  shows "\<exists>b. fs_read_base_kr fd (of_nat n) s =
     Inr (map (file_byte s (st_inode_offset (fs s i))) [off..<off + n],
          advance i (of_nat n) ((loaded i s)\<lparr>buffer := b\<rparr>))"
proof -
  let ?s = "loaded i s" and ?R = "off mod 512" and ?d = "off div 512"
  let ?bytes = "file_byte s (st_inode_offset (fs s i))"
  have R: "of_nat off mod 512 = (of_nat ?R :: u32)" using n by (intro offset_mod) simp
  have uR: "unat (of_nat ?R :: u32) = ?R" by (simp add: unat_of_nat take_bit_nat_eq_self less_trans [OF mod_less_divisor])
  have od: "off = 512 * ?d + ?R" by simp
  have gt: "(of_nat ?R + of_nat n :: u32) > 512 \<longleftrightarrow> 512 < ?R + n"
  proof -
    have "unat (of_nat ?R + of_nat n :: u32) = ?R + n"
      using n less_trans [OF mod_less_divisor, of 512 "2 ^ 31" off]
      by (simp add: unat_of_nat take_bit_nat_eq_self flip: of_nat_add)
    then show ?thesis by (simp add: word_less_nat_alt)
  qed
  have ptr: "block_ptr (drop_bit 9 (of_nat off)) ?s = Inr (inode ?s ?d)"
    using n by (intro block_ptr_at) simp
  show ?thesis
  proof (cases "512 < ?R + n")
    case False
    have "buf_read ?R n (readData (inode ?s ?d) ?s) = Inr (map ?bytes [off..<off + n])"
      using block_bytes [of ?R n ?s ?d] False
      by (simp add: buf_read_def readData_eq BLOCK_SIZE_def flip: od)
    moreover have "memcpy_len (of_nat n) = Inr n" using n by (simp add: memcpy_len_def sint_of_nat)
    ultimately show ?thesis
      using False fd off R uR gt ptr
      by (intro exI [of _ "disk s (ide_sector (LOC_DATA (inode ?s ?d)))"])
        (simp add: fs_read_base_kr_def readData_eq Let_def flip: loaded_def)
  next
    case True
    from transfer_span [OF True] obtain m where m: "n = (512 - ?R) + m"
      and start: "off + (512 - ?R) = 512 * Suc ?d"
      and end_off: "off + n = 512 * (Suc ?d + m div 512) + m mod 512"
      and first: "(512 :: u32) - of_nat ?R = of_nat (512 - ?R)"
      and u: "unat (of_nat (512 - ?R) :: u32) = 512 - ?R"
      and mm: "of_nat n - of_nat (512 - ?R) = (of_nat (512 * (m div 512) + m mod 512) :: u32)"
      and sum: "of_nat (512 - ?R) + of_nat (512 * (m div 512)) + of_nat (m mod 512) = (of_nat n :: u32)" .
    let ?q = "m div 512" and ?r = "m mod 512" and ?e = "Suc ?d + m div 512"
    have Rle: "?R \<le> 512" by (simp add: less_imp_le)
    have lt: "?e < 128" using end_off n by simp
    let ?s1 = "readData (inode ?s ?d) ?s"
    let ?s2 = "advance i (of_nat (512 - ?R)) ?s1"
    have out1: "buf_read ?R (512 - ?R) ?s1 = Inr (map ?bytes [off..<512 * Suc ?d])"
      unfolding start [symmetric] using block_bytes [of ?R "512 - ?R" ?s ?d] Rle
      by (simp add: buf_read_def readData_eq BLOCK_SIZE_def)
    have "(of_nat off + of_nat (512 - ?R) :: u32) = of_nat (512 * Suc ?d)"
      using start by (metis of_nat_add)
    then have s2: "st_offset (fs ?s2 i) = of_nat (512 * Suc ?d)" using off by (simp add: readData_eq)
    obtain b where b: "read_blocks i (of_nat (512 * ?q + ?r)) ?s2 =
        Inr (map (cur_byte ?s2) [512 * Suc ?d..<512 * ?e], of_nat ?r,
          advance i (of_nat (512 * ?q)) (?s2\<lparr>buffer := b\<rparr>))"
      using read_blocks_spec [OF s2, of ?q ?r] lt by auto
    let ?s3 = "advance i (of_nat (512 * ?q)) (?s2\<lparr>buffer := b\<rparr>)"
    have s3: "st_offset (fs ?s3 i) = of_nat (512 * ?e)" using s2 by (simp add: algebra_simps)
    have ptr3: "block_ptr (drop_bit 9 (of_nat (512 * ?e))) ?s3 = Inr (inode ?s ?e)"
      using block_ptr_at [of "512 * ?e" ?s3] lt by (simp add: readData_eq)
    let ?s4 = "readData (inode ?s ?e) ?s3"
    have len3: "memcpy_len (of_nat ?r) = Inr ?r"
      by (simp add: memcpy_len_def sint_of_nat less_trans [OF mod_less_divisor])
    have out3: "buf_read 0 ?r ?s4 = Inr (map ?bytes [512 * ?e..<off + n])"
      using block_bytes [of 0 ?r ?s ?e] end_off by (simp add: buf_read_def readData_eq BLOCK_SIZE_def less_imp_le)
    have cat: "[off..<512 * Suc ?d] @ [512 * Suc ?d..<512 * ?e] @ [512 * ?e..<off + n] = [off..<off + n]"
    proof -
      have "off \<le> 512 * Suc ?d" "512 * Suc ?d \<le> 512 * ?e" "512 * ?e \<le> off + n"
        using start end_off by (linarith, simp, linarith)
      then show ?thesis by (simp only: upt_glue le_trans)
    qed
    have adv: "advance i (of_nat ?r) ?s4
        = advance i (of_nat n) (?s\<lparr>buffer := disk s (ide_sector (LOC_DATA (inode ?s ?e)))\<rparr>)"
      using sum by (simp add: readData_eq)
    have cur: "cur_byte ?s2 = ?bytes" by (simp add: readData_eq)
    have "fs_read_base_kr fd (of_nat n) s = Inr (map ?bytes [off..<512 * Suc ?d] @
        map ?bytes [512 * Suc ?d..<512 * ?e] @ map ?bytes [512 * ?e..<off + n], advance i (of_nat ?r) ?s4)"
      using True
      by (simp only: fs_read_base_kr_def fd bind_res_simps Let_def loaded_def [symmetric] loaded_simps off R gt
          if_True ptr first uR u out1 mm b prod.case s3 ptr3 len3 out3 cur)
    then show ?thesis unfolding map_append [symmetric] cat adv by blast
  qed
qed

lemma fs_read_steps:
  assumes "stream fd = Inr i" "st_offset (fs s i) = of_nat off" "st_file_size (fs s i) = of_nat sz"
    and "off \<le> sz" "sz < 65536" "0 < n" "n < 2 ^ 31"
  shows "if off = sz then fs_read_kr fd (of_nat n) s = Inr (- 1, [], s)
     else \<exists>b. fs_read_kr fd (of_nat n) s = Inr (of_nat (min n (sz - off)),
         map (file_byte s (st_inode_offset (fs s i))) [off..<min (off + n) sz],
         advance i (of_nat (min n (sz - off))) ((loaded i s)\<lparr>buffer := b\<rparr>))"
proof -
  define m where "m = min n (sz - off)"
  have ge: "(of_nat off + of_nat n :: u32) \<ge> of_nat sz \<longleftrightarrow> sz \<le> off + n"
    using assms(4,5,7) unat_small [of "off + n"] unat_small [of sz] by (simp add: word_le_nat_alt)
  have "of_nat sz - of_nat off = (of_nat (sz - off) :: u32)" using assms(4) by (simp add: of_nat_diff)
  moreover have m_if: "m = (if sz \<le> off + n then sz - off else n)"
    using assms(4) by (auto simp: m_def min_def)
  ultimately have len: "(if of_nat off + of_nat n \<ge> (of_nat sz :: u32) then of_nat sz - of_nat off else of_nat n)
      = (of_nat m :: u32)"
    using ge by simp
  have zero: "(of_nat m :: u32) = 0 \<longleftrightarrow> off = sz"
    using unat_small [of m] assms(4-7) by (auto simp: m_def min_def simp flip: unat_eq_zero)
  have "off + m < 65536" using assms(4,5) by (simp add: m_def)
  from fs_read_base_spec [OF assms(1,2) this]
  obtain b where b: "fs_read_base_kr fd (of_nat m) s =
      Inr (map (file_byte s (st_inode_offset (fs s i))) [off..<off + m],
        advance i (of_nat m) ((loaded i s)\<lparr>buffer := b\<rparr>))" by blast
  have e: "off + m = min (off + n) sz" using assms(4) by (simp add: m_def)
  moreover have "fs_read_kr fd (of_nat n) s = (if off = sz then Inr (- 1, [], s)
      else bind_res (fs_read_base_kr fd (of_nat m) s) (\<lambda>(out, s). Inr (of_nat m, out, s)))"
    by (simp only: fs_read_kr_def assms(1) bind_res_simps Let_def assms(2,3) len zero)
  ultimately show ?thesis using b by (auto simp flip: m_def simp del: of_nat_min)
qed

lemma fs_read_effect:
  assumes "stream fd = Inr i" "st_offset (fs s i) = of_nat off" "st_file_size (fs s i) = of_nat sz"
    and "off \<le> sz" "sz < 65536" "0 < n" "n < 2 ^ 31"
  shows "if off = sz then fs_read_kr fd (of_nat n) s = Inr (- 1, [], s)
     else \<exists>s'. fs_read_kr fd (of_nat n) s = Inr (of_nat (min n (sz - off)),
         map (file_byte s (st_inode_offset (fs s i))) [off..<min (off + n) sz], s') \<and>
       disk s' = disk s \<and> st_offset (fs s' i) = of_nat (min (off + n) sz) \<and>
       (\<forall>j. j \<noteq> i \<longrightarrow> fs s' j = fs s j)"
proof -
  have "off + min n (sz - off) = min (off + n) sz" using assms(4) by simp
  then have "of_nat off + of_nat (min n (sz - off)) = (of_nat (min (off + n) sz) :: u32)" by (simp flip: of_nat_add)
  then show ?thesis using fs_read_steps [OF assms] assms(2) by (auto simp del: of_nat_min)
qed

text \<open>
  C12. Reading: \<open>fs_read_kr\<close> with a positive length on an open file of less than 64 KiB returns
  exactly the bytes of the file from the current offset, as many as were asked for or as are left,
  and advances the offset by that number; at the end of the file it returns \<open>- 1\<close>.  The disk and
  the other streams stay as they are.
\<close>

theorem fs_read_correct:
  assumes "stream fd = Inr i" "st_offset (fs s i) = of_nat off" "st_file_size (fs s i) = of_nat sz"
    and "off \<le> sz" "sz < 65536" "0 < n" "n < 2 ^ 31"
  shows "if off = sz then fs_read_kr fd (of_nat n) s = Inr (- 1, [], s)
     else \<exists>s'. fs_read_kr fd (of_nat n) s = Inr (of_nat (min n (sz - off)),
         map (file_byte s (st_inode_offset (fs s i))) [off..<min (off + n) sz], s') \<and>
       disk s' = disk s \<and> st_offset (fs s' i) = of_nat (min (off + n) sz) \<and>
       (\<forall>j. j \<noteq> i \<longrightarrow> fs s' j = fs s j)"
  by (rule fs_read_effect [OF assms])

theorem fs_read_correct_witness:
  "\<exists>s'. fs_read_kr 0 20 (file_sample 90 100 zero_disk) = Inr (10, [0, 0, 0, 0, 0, 0, 0, 0, 0, 0], s') \<and>
     st_offset (fs s' 0) = 100"
  using fs_read_correct [OF stream_0 file_sample_simps(1,2), of 90 100 20 zero_disk]
  by (auto simp: file_byte_def zero_disk_def)

section \<open>Writing\<close>

text \<open>
  \<open>block_sector s d\<close> is the sector of block \<open>d\<close> of the inode in the buffer.  \<open>wrote nb lo hi f s s'\<close>:
  the step from \<open>s\<close> to \<open>s'\<close> gave bytes \<open>lo\<close> to \<open>hi - 1\<close> of the first \<open>nb\<close> blocks the values \<open>f\<close>
  and changed no other byte of the disk.
\<close>

definition block_sector :: "'a fsst_scheme \<Rightarrow> nat \<Rightarrow> nat" where
  "block_sector s d = ide_sector (LOC_DATA (inode s d))"

definition wrote :: "nat \<Rightarrow> nat \<Rightarrow> nat \<Rightarrow> (nat \<Rightarrow> u8) \<Rightarrow> 'a fsst_scheme \<Rightarrow> 'a fsst_scheme \<Rightarrow> bool" where
  "wrote nb lo hi f s s' \<longleftrightarrow>
     inode s' = inode s \<and>
     (\<forall>k < 512 * nb. cur_byte s' k = (if lo \<le> k \<and> k < hi then f k else cur_byte s k)) \<and>
     (\<forall>m. m \<notin> block_sector s ` {..<nb} \<longrightarrow> disk s' m = disk s m) \<and>
     (\<exists>d b g. s' = s\<lparr>disk := d, buffer := b, fs := g\<rparr>)"

lemma wrote_trans:
  assumes "wrote nb lo mid f s s1" "wrote nb mid hi f s1 s2" "lo \<le> mid" "mid \<le> hi"
  shows "wrote nb lo hi f s s2"
proof -
  obtain d b g where 1: "s1 = s\<lparr>disk := d, buffer := b, fs := g\<rparr>"
    using assms(1) unfolding wrote_def by blast
  obtain d' b' g' where 2: "s2 = s1\<lparr>disk := d', buffer := b', fs := g'\<rparr>"
    using assms(2) unfolding wrote_def by blast
  have i: "inode s1 = inode s" "inode s2 = inode s" unfolding 2 unfolding 1 by simp_all
  have e: "block_sector s1 = block_sector s" by (simp add: block_sector_def fun_eq_iff i)
  have "cur_byte s2 k = (if lo \<le> k \<and> k < hi then f k else cur_byte s k)" if "k < 512 * nb" for k
  proof -
    have "cur_byte s1 k = (if lo \<le> k \<and> k < mid then f k else cur_byte s k)"
      using assms(1) that unfolding wrote_def by blast
    moreover have "cur_byte s2 k = (if mid \<le> k \<and> k < hi then f k else cur_byte s1 k)"
      using assms(2) that unfolding wrote_def by blast
    ultimately show ?thesis using assms(3,4) by simp
  qed
  moreover have "disk s2 m = disk s m" if "m \<notin> block_sector s ` {..<nb}" for m
    using assms(1,2) that e unfolding wrote_def by metis
  moreover have "s2 = s\<lparr>disk := d', buffer := b', fs := g'\<rparr>" unfolding 2 unfolding 1 by simp
  ultimately show ?thesis using i unfolding wrote_def by blast
qed

lemma wrote_advance:
  assumes "wrote nb lo hi f s s'"
  shows "wrote nb lo hi f s (advance i n s')"
proof -
  obtain d b g where 1: "s' = s\<lparr>disk := d, buffer := b, fs := g\<rparr>"
    using assms unfolding wrote_def by blast
  have "advance i n s' = s\<lparr>disk := d, buffer := b, fs := fs (advance i n s')\<rparr>"
    unfolding 1 by (simp add: advance_def upd_stream_def)
  then have "\<exists>d b g. advance i n s' = s\<lparr>disk := d, buffer := b, fs := g\<rparr>" by blast
  with assms show ?thesis unfolding wrote_def by (simp only: advance_simps cur_byte_simps) blast
qed

lemma saveData_eq: "saveData b s = s\<lparr>disk := (disk s)(ide_sector (LOC_DATA b) := buffer s)\<rparr>"
  by (simp add: saveData_def writesect_eq)

lemma wrote_block:
  assumes inj: "inj_on (block_sector s) {..<nb}" and d: "d < nb" and R: "R + n \<le> 512"
    and g: "\<And>k. k < 512 \<Longrightarrow>
      g k = (if R \<le> k \<and> k < R + n then f (512 * d + k) else disk s (block_sector s d) k)"
  shows "wrote nb (512 * d + R) (512 * d + R + n) f s (saveData (inode s d) (s\<lparr>buffer := g\<rparr>))"
proof -
  let ?s = "saveData (inode s d) (s\<lparr>buffer := g\<rparr>)"
  have disk: "disk ?s = (disk s)(block_sector s d := g)" by (simp add: saveData_eq block_sector_def)
  have "cur_byte ?s k = (if 512 * d + R \<le> k \<and> k < 512 * d + R + n then f k else cur_byte s k)"
    if "k < 512 * nb" for k
  proof (cases "k div 512 = d")
    case True
    then have k: "k = 512 * d + k mod 512" using mult_div_mod_eq [of 512 k] by simp
    have "cur_byte ?s k = g (k mod 512)"
      by (simp add: cur_byte_def saveData_eq True)
    also have "\<dots> = (if R \<le> k mod 512 \<and> k mod 512 < R + n then f (512 * d + k mod 512)
        else disk s (block_sector s d) (k mod 512))" by (rule g) simp
    also have "disk s (block_sector s d) (k mod 512) = cur_byte s k"
      by (simp add: cur_byte_def block_sector_def True)
    finally show ?thesis using k by (smt (verit) add.assoc nat_add_left_cancel_le nat_add_left_cancel_less)
  next
    case False
    have "k div 512 < nb" using that by (simp add: less_mult_imp_div_less mult.commute)
    then have "block_sector s (k div 512) \<noteq> block_sector s d" using inj d False by (auto simp: inj_on_def)
    then have "cur_byte ?s k = cur_byte s k" by (simp add: cur_byte_def block_sector_def saveData_eq)
    moreover have "\<not> (512 * d + R \<le> k \<and> k < 512 * d + R + n)"
    proof
      assume "512 * d + R \<le> k \<and> k < 512 * d + R + n"
      then have "k div 512 = d" using R by (intro div_nat_eqI) simp_all
      with False show False by simp
    qed
    ultimately show ?thesis by (simp only: if_False)
  qed
  moreover have "disk ?s m = disk s m" if "m \<notin> block_sector s ` {..<nb}" for m
    using that d unfolding disk by (auto simp: fun_upd_def)
  moreover have "\<exists>d b g. ?s = s\<lparr>disk := d, buffer := b, fs := g\<rparr>"
    by (intro exI [of _ "disk ?s"] exI [of _ g] exI [of _ "fs s"]) (simp add: saveData_eq)
  moreover have "inode ?s = inode s" by (simp add: saveData_eq)
  ultimately show ?thesis unfolding wrote_def by blast
qed

lemma wrote_nothing: "wrote nb k k f s (s\<lparr>buffer := b\<rparr>)"
proof -
  have "s\<lparr>buffer := b\<rparr> = s\<lparr>disk := disk s, buffer := b, fs := fs s\<rparr>" by simp
  then have "\<exists>d b' g. s\<lparr>buffer := b\<rparr> = s\<lparr>disk := d, buffer := b', fs := g\<rparr>" by blast
  then show ?thesis by (auto simp: wrote_def)
qed

lemma write_blocks_spec:
  assumes "st_offset (fs s i) = of_nat (512 * d)" "d + q \<le> nb" "nb \<le> 128" "r < 512"
    and "inj_on (block_sector s) {..<nb}" "\<And>k. src (o1 + k) = f (512 * d + k)" "o1 + 512 * q < 2 ^ 31"
  shows "\<exists>s'. write_blocks i src (of_nat o1) (of_nat (512 * q + r)) s = Inr (of_nat (o1 + 512 * q), of_nat r, s') \<and>
     wrote nb (512 * d) (512 * (d + q)) f s s' \<and> fs s' = fs (advance i (of_nat (512 * q)) s)"
  using assms
proof (induction q arbitrary: d o1 s)
  case 0
  have "sint (of_nat r :: u32) < 512" using 0 by (subst sint_of_nat) simp_all
  moreover have "wrote nb (512 * d) (512 * d) f s s" using wrote_nothing [of nb _ f s "buffer s"] by simp
  ultimately show ?case
    by (intro exI [of _ s]) (subst write_blocks.simps, simp)
next
  case (Suc q)
  let ?len = "of_nat (512 * Suc q + r) :: u32"
  let ?g = "\<lambda>k. if k < 512 then src (unat (of_nat o1 :: u32) + k) else buffer s k"
  let ?s1 = "saveData (inode s d) (s\<lparr>buffer := ?g\<rparr>)"
  let ?s = "advance i 512 ?s1"
  have o1: "unat (of_nat o1 :: u32) = o1" using Suc.prems(7) by (intro unat_small) simp
  have "sint ?len = int (512 * Suc q + r)" using Suc.prems by (intro sint_of_nat) simp
  then have c: "512 \<le> sint ?len" by simp
  have ptr: "block_ptr (drop_bit 9 (of_nat (512 * d))) t = Inr (inode t d)" for t :: "'a fsst_scheme"
    using block_ptr_at [of "512 * d" t] Suc.prems by simp
  have wr: "buf_write 0 (\<lambda>k. src (unat (of_nat o1 :: u32) + k)) BLOCK_SIZE s = Inr (s\<lparr>buffer := ?g\<rparr>)"
    by (simp add: buf_write_def BLOCK_SIZE_def cong: if_cong)
  have "wrote nb (512 * d + 0) (512 * d + 0 + 512) f s ?s1"
    using Suc.prems(2,5) by (intro wrote_block) (simp_all add: o1 Suc.prems(6))
  then have w: "wrote nb (512 * d) (512 * Suc d) f s ?s" by (intro wrote_advance) (simp add: add.commute)
  have bs: "block_sector ?s = block_sector s" by (simp add: block_sector_def fun_eq_iff saveData_eq)
  have "\<exists>s'. write_blocks i src (of_nat (o1 + 512)) (of_nat (512 * q + r)) ?s
        = Inr (of_nat (o1 + 512 + 512 * q), of_nat r, s') \<and>
      wrote nb (512 * Suc d) (512 * (Suc d + q)) f ?s s' \<and> fs s' = fs (advance i (of_nat (512 * q)) ?s)"
  proof (rule Suc.IH)
    show "st_offset (fs ?s i) = of_nat (512 * Suc d)" using Suc.prems(1) by (simp add: saveData_eq algebra_simps)
    show "src (o1 + 512 + k) = f (512 * Suc d + k)" for k
      using Suc.prems(6) [of "512 + k"] by (simp add: ac_simps)
    show "inj_on (block_sector ?s) {..<nb}" unfolding bs by (rule Suc.prems(5))
  qed (use Suc.prems in simp_all)
  then obtain s' where s': "write_blocks i src (of_nat (o1 + 512)) (of_nat (512 * q + r)) ?s
        = Inr (of_nat (o1 + 512 + 512 * q), of_nat r, s')"
      "wrote nb (512 * Suc d) (512 * (Suc d + q)) f ?s s'" "fs s' = fs (advance i (of_nat (512 * q)) ?s)"
    by blast
  have e: "(of_nat o1 :: u32) + 512 = of_nat (o1 + 512)" "?len - 512 = of_nat (512 * q + r)"
    by (simp_all add: algebra_simps)
  have "write_blocks i src (of_nat o1) ?len s = write_blocks i src (of_nat o1 + 512) (?len - 512) ?s"
    by (subst write_blocks.simps)
      (simp only: c if_True Let_def wr bind_res_simps Suc.prems(1) ptr, simp)
  moreover have "wrote nb (512 * d) (512 * (d + Suc q)) f s s'"
    using wrote_trans [OF w s'(2)] by simp
  moreover have "fs s' = fs (advance i (of_nat (512 * Suc q)) s)"
    using s'(3) by (simp add: saveData_eq algebra_simps)
  moreover have "o1 + 512 + 512 * q = o1 + 512 * Suc q" by simp
  ultimately show ?case using s'(1) unfolding e by (intro exI [of _ s']) (simp only: simp_thms)
qed

text \<open>One read-modify-write of a block, as the code does it at both ends of a write.\<close>

lemma patch_block:
  assumes "inj_on (block_sector s) {..<nb}" "R + n \<le> 512" "d < nb \<or> n = 0"
    and "\<And>k. k < n \<Longrightarrow> src k = f (512 * d + R + k)"
  shows "\<exists>b. buf_write R src n (readData (inode s d) s) = Inr (s\<lparr>buffer := b\<rparr>) \<and>
     wrote nb (512 * d + R) (512 * d + R + n) f s (saveData (inode s d) (s\<lparr>buffer := b\<rparr>))"
proof -
  let ?b = "\<lambda>k. if R \<le> k \<and> k < R + n then src (k - R) else disk s (block_sector s d) k"
  have "buf_write R src n (readData (inode s d) s) = Inr (s\<lparr>buffer := ?b\<rparr>)"
    using assms(2) by (simp add: buf_write_def readData_eq BLOCK_SIZE_def block_sector_def cong: if_cong)
  moreover have "wrote nb (512 * d + R) (512 * d + R + n) f s (saveData (inode s d) (s\<lparr>buffer := ?b\<rparr>))"
  proof (cases "n = 0")
    case True
    then have b: "?b = disk s (block_sector s d)" by (intro ext) auto
    have "saveData (inode s d) (s\<lparr>buffer := ?b\<rparr>) = s\<lparr>buffer := ?b\<rparr>"
      unfolding b by (simp add: saveData_eq block_sector_def)
    then show ?thesis using wrote_nothing [of nb "512 * d + R" f s ?b] True by simp
  next
    case False
    then show ?thesis
      using assms by (intro wrote_block) (auto simp: le_iff_add add.assoc)
  qed
  ultimately show ?thesis by blast
qed

lemma fs_write_base_spec:
  assumes fd: "stream fd = Inr i" and off: "st_offset (fs s i) = of_nat off"
    and n: "off + n < 65536" "off + n \<le> 512 * nb" "nb \<le> 128"
    and inj: "inj_on (block_sector (loaded i s)) {..<nb}"
  shows "\<exists>s'. fs_write_base_kr fd src (of_nat n) s = Inr s' \<and>
     wrote nb off (off + n) (\<lambda>k. src (k - off)) (loaded i s) s' \<and> fs s' = fs (advance i (of_nat n) s)"
proof -
  let ?s = "loaded i s" and ?R = "off mod 512" and ?d = "off div 512" and ?f = "\<lambda>k. src (k - off)"
  have R: "of_nat off mod 512 = (of_nat ?R :: u32)" using n by (intro offset_mod) simp
  have Rle: "?R < 512" by simp
  have uR: "unat (of_nat ?R :: u32) = ?R" using Rle by (intro unat_small) simp
  have od: "512 * ?d + ?R = off" by simp
  have "unat (of_nat (?R + n) :: u32) = ?R + n" using n Rle by (intro unat_small) simp
  then have gt: "(of_nat ?R + of_nat n :: u32) > 512 \<longleftrightarrow> 512 < ?R + n" by (simp add: word_less_nat_alt)
  have ptr: "block_ptr (drop_bit 9 (of_nat off)) ?s = Inr (inode ?s ?d)"
    using n by (intro block_ptr_at) simp
  show ?thesis
  proof (cases "512 < ?R + n")
    case False
    have "?d < nb \<or> n = 0" using n(2) mult_div_mod_eq [of 512 off] by (cases "n = 0") linarith+
    then obtain b where b: "buf_write ?R src n (readData (inode ?s ?d) ?s) = Inr (?s\<lparr>buffer := b\<rparr>)"
        "wrote nb (512 * ?d + ?R) (512 * ?d + ?R + n) ?f ?s (saveData (inode ?s ?d) (?s\<lparr>buffer := b\<rparr>))"
      using patch_block [OF inj, of ?R n ?d src ?f] False od by auto
    have l: "memcpy_len (of_nat n) = Inr n" using n by (simp add: memcpy_len_def sint_of_nat)
    let ?s' = "advance i (of_nat n) (saveData (inode ?s ?d) (?s\<lparr>buffer := b\<rparr>))"
    have "fs_write_base_kr fd src (of_nat n) s = Inr ?s'"
      using False by (simp only: fs_write_base_kr_def fd bind_res_simps Let_def loaded_def [symmetric]
          loaded_simps off R gt if_False ptr uR l b(1))
    moreover have "wrote nb off (off + n) ?f ?s ?s'" using wrote_advance [OF b(2)] by (simp only: od)
    moreover have "fs ?s' = fs (advance i (of_nat n) s)" by (simp add: saveData_eq)
    ultimately show ?thesis by blast
  next
    case True
    from transfer_span [OF True] obtain m where start: "off + (512 - ?R) = 512 * Suc ?d"
      and end_off: "off + n = 512 * (Suc ?d + m div 512) + m mod 512"
      and first: "(512 :: u32) - of_nat ?R = of_nat (512 - ?R)"
      and u: "unat (of_nat (512 - ?R) :: u32) = 512 - ?R"
      and mm: "of_nat n - of_nat (512 - ?R) = (of_nat (512 * (m div 512) + m mod 512) :: u32)"
      and sum: "of_nat (512 - ?R) + of_nat (512 * (m div 512)) + of_nat (m mod 512) = (of_nat n :: u32)" .
    let ?q = "m div 512" and ?r = "m mod 512" and ?e = "Suc ?d + m div 512"
    have lt: "?e < 128" using end_off n(1) by simp
    have le: "512 * ?e + ?r \<le> 512 * nb" using end_off n(2) by (simp only:)
    have e_le: "?e \<le> nb" using le by simp
    have e_cases: "?e < nb \<or> ?r = 0"
    proof (cases "?e = nb")
      case True
      then show ?thesis using le unfolding True by simp
    qed (use e_le in simp)
    have d: "?d < nb" using e_le by simp
    obtain b where b: "buf_write ?R src (512 - ?R) (readData (inode ?s ?d) ?s) = Inr (?s\<lparr>buffer := b\<rparr>)"
        "wrote nb (512 * ?d + ?R) (512 * ?d + ?R + (512 - ?R)) ?f ?s (saveData (inode ?s ?d) (?s\<lparr>buffer := b\<rparr>))"
      using patch_block [OF inj, of ?R "512 - ?R" ?d src ?f] d Rle od by auto
    let ?s2 = "advance i (of_nat (512 - ?R)) (saveData (inode ?s ?d) (?s\<lparr>buffer := b\<rparr>))"
    have w1: "wrote nb off (512 * Suc ?d) ?f ?s ?s2"
      using wrote_advance [OF b(2)] by (simp only: od start)
    have inode2: "inode ?s2 = inode ?s" by (simp add: saveData_eq)
    have bs: "block_sector ?s2 = block_sector ?s" by (simp only: block_sector_def fun_eq_iff inode2) simp
    have s2: "st_offset (fs ?s2 i) = of_nat (512 * Suc ?d)"
      using off unfolding start [symmetric] by (simp add: saveData_eq)
    have "\<exists>s'. write_blocks i src (of_nat (512 - ?R)) (of_nat (512 * ?q + ?r)) ?s2
          = Inr (of_nat (512 - ?R + 512 * ?q), of_nat ?r, s') \<and>
        wrote nb (512 * Suc ?d) (512 * (Suc ?d + ?q)) ?f ?s2 s' \<and> fs s' = fs (advance i (of_nat (512 * ?q)) ?s2)"
    proof (rule write_blocks_spec [OF s2])
      show "src (512 - ?R + k) = ?f (512 * Suc ?d + k)" for k unfolding start [symmetric] by simp
      show "inj_on (block_sector ?s2) {..<nb}" unfolding bs by (rule inj)
      show "512 - ?R + 512 * ?q < 2 ^ 31" using lt by simp
    qed (use e_le n(3) in simp_all)
    then obtain s3 where s3: "write_blocks i src (of_nat (512 - ?R)) (of_nat (512 * ?q + ?r)) ?s2
          = Inr (of_nat (512 - ?R + 512 * ?q), of_nat ?r, s3)"
        "wrote nb (512 * Suc ?d) (512 * ?e) ?f ?s2 s3" "fs s3 = fs (advance i (of_nat (512 * ?q)) ?s2)"
      by blast
    have st3: "st_offset (fs s3 i) = of_nat (512 * ?e)" unfolding s3(3) using s2 by (simp add: algebra_simps)
    have inode3: "inode s3 = inode ?s" using s3(2) inode2 by (simp add: wrote_def)
    have bs3: "block_sector s3 = block_sector ?s" by (simp add: block_sector_def fun_eq_iff inode3)
    have ptr3: "block_ptr (drop_bit 9 (of_nat (512 * ?e))) s3 = Inr (inode s3 ?e)"
      using block_ptr_at [of "512 * ?e" s3] lt by simp
    have u3: "unat (of_nat (512 - ?R + 512 * ?q) :: u32) = 512 - ?R + 512 * ?q"
      using lt by (intro unat_small) simp
    have l3: "memcpy_len (of_nat ?r) = Inr ?r"
      by (simp add: memcpy_len_def sint_of_nat less_trans [OF mod_less_divisor])
    have "512 * ?e = off + (512 - ?R) + 512 * ?q" by (simp only: start distrib_left)
    then have "src (512 - ?R + 512 * ?q + k) = ?f (512 * ?e + 0 + k)" for k
      by (simp add: add.assoc)
    then obtain b' where b': "buf_write 0 (\<lambda>k. src (512 - ?R + 512 * ?q + k)) ?r (readData (inode s3 ?e) s3)
          = Inr (s3\<lparr>buffer := b'\<rparr>)"
        "wrote nb (512 * ?e + 0) (512 * ?e + 0 + ?r) ?f s3 (saveData (inode s3 ?e) (s3\<lparr>buffer := b'\<rparr>))"
      using patch_block [of s3 nb 0 ?r ?e "\<lambda>k. src (512 - ?R + 512 * ?q + k)" ?f] e_cases inj
      by (auto simp: bs3 less_imp_le)
    let ?s' = "advance i (of_nat ?r) (saveData (inode s3 ?e) (s3\<lparr>buffer := b'\<rparr>))"
    have "fs_write_base_kr fd src (of_nat n) s = Inr ?s'"
      using True by (simp only: fs_write_base_kr_def fd bind_res_simps Let_def loaded_def [symmetric]
          loaded_simps off R gt if_True ptr uR u first b(1) mm s3(1) prod.case st3 ptr3 u3 l3 b'(1))
    moreover have "wrote nb off (off + n) ?f ?s ?s'"
    proof -
      have "wrote nb off (512 * ?e) ?f ?s s3" using wrote_trans [OF w1 s3(2)] start by simp
      moreover have "wrote nb (512 * ?e) (off + n) ?f s3 ?s'"
        using wrote_advance [OF b'(2)] by (simp only: end_off add_0_right)
      moreover have "off \<le> 512 * ?e" using start by simp
      moreover have "512 * ?e \<le> off + n" using end_off by simp
      ultimately show ?thesis by (rule wrote_trans)
    qed
    moreover have "fs ?s' = fs (advance i (of_nat n) s)"
      using sum by (simp add: s3(3) saveData_eq add.assoc)
    ultimately show ?thesis by blast
  qed
qed

section \<open>Writing inside a file\<close>

lemma sector_numbers:
  "unat d < SC_DIR \<Longrightarrow> ide_sector (LOC_DIR d) = 257 + unat d"
  "unat i < SC_INODE \<Longrightarrow> ide_sector (LOC_INODE i) = 513 + unat i"
  "unat b < SC_DATA \<Longrightarrow> ide_sector (LOC_DATA b) = 769 + unat b"
proof -
  show "ide_sector (LOC_DIR d) = 257 + unat d" if "unat d < SC_DIR"
  proof -
    have "LOC_DIR d = of_nat (257 + unat d)" by (simp add: LOC_DIR_def)
    then have "unat (LOC_DIR d) = 257 + unat d" using that by (simp only:) (rule unat_small, simp add: fs_consts)
    then show ?thesis using that by (subst ide_sector_eq) (simp_all add: fs_consts)
  qed
  show "ide_sector (LOC_INODE i) = 513 + unat i" if "unat i < SC_INODE"
    using unat_LOC(1) [OF that] that by (subst ide_sector_eq) (simp_all add: fs_consts)
  show "ide_sector (LOC_DATA b) = 769 + unat b" if "unat b < SC_DATA"
    using unat_LOC(2) [OF that] that by (subst ide_sector_eq) (simp_all add: fs_consts)
qed

text \<open>
  \<open>inode_blocks s ino\<close> is the block list of an inode on the disk; \<open>file_ok s ino nb\<close> says that its
  first \<open>nb\<close> entries are different data blocks.
\<close>

definition inode_blocks :: "'a fsst_scheme \<Rightarrow> u32 \<Rightarrow> nat \<Rightarrow> u32" where
  "inode_blocks s ino = dec_inode (disk s (ide_sector (LOC_INODE ino)))"

definition file_ok :: "'a fsst_scheme \<Rightarrow> u32 \<Rightarrow> nat \<Rightarrow> bool" where
  "file_ok s ino nb \<longleftrightarrow> nb \<le> 128 \<and> unat ino < SC_INODE \<and>
     (\<forall>d < nb. unat (inode_blocks s ino d) < SC_DATA) \<and> inj_on (inode_blocks s ino) {..<nb}"

lemma file_sample_ok: "file_ok (file_sample off sz zero_disk) 0 (Suc 0)"
  by (simp add: inj_on_def file_ok_def inode_blocks_def zero_disk_def dec_inode_def get_le32_def fs_consts)

lemma file_sample_byte: "file_byte (file_sample off sz zero_disk) 0 k = 0"
  by (simp add: file_byte_def zero_disk_def)

lemma inode_loaded: "inode (loaded i s) = inode_blocks s (st_inode_offset (fs s i))"
  by (simp add: loaded_def readINode_eq inode_blocks_def)

lemma file_ok_sectors:
  assumes "file_ok s (st_inode_offset (fs s i)) nb"
  shows "d < nb \<Longrightarrow> block_sector (loaded i s) d = 769 + unat (inode_blocks s (st_inode_offset (fs s i)) d)"
    and "inj_on (block_sector (loaded i s)) {..<nb}"
proof -
  show b: "block_sector (loaded i s) d = 769 + unat (inode_blocks s (st_inode_offset (fs s i)) d)" if "d < nb" for d
    using assms that sector_numbers(3) by (simp add: block_sector_def inode_loaded file_ok_def)
  show "inj_on (block_sector (loaded i s)) {..<nb}"
  proof (rule inj_onI)
    fix d e assume d: "d \<in> {..<nb}" "e \<in> {..<nb}" "block_sector (loaded i s) d = block_sector (loaded i s) e"
    then have "inode_blocks s (st_inode_offset (fs s i)) d = inode_blocks s (st_inode_offset (fs s i)) e"
      using b [of d] b [of e] by (simp add: word_unat_eq_iff)
    then show "d = e" using assms d(1,2) by (auto simp: file_ok_def inj_on_def)
  qed
qed

text \<open>
  Writing the size back into the directory entry: the last step before the data is written.
\<close>

definition size_saved :: "nat \<Rightarrow> 'a fsst_scheme \<Rightarrow> 'a fsst_scheme" where
  "size_saved i s =
     (let s = readDir (st_dir_offset (fs s i)) s;
          e = unat (st_entry_offset (fs s i));
          s = s\<lparr>dir := (dir s)(e := (dir s e)\<lparr>file_size := st_file_size (fs s i)\<rparr>)\<rparr>
      in saveDir (st_dir_offset (fs s i)) s)"

lemma size_saved_simps [simp]:
  "fs (size_saved i s) = fs s" "inode (size_saved i s) = inode s"
  by (simp_all add: size_saved_def Let_def saveDir_def readDir_def writesect_eq)

lemma size_saved_disk:
  "m \<noteq> ide_sector (LOC_DIR (st_dir_offset (fs s i))) \<Longrightarrow> disk (size_saved i s) m = disk s m"
  by (simp add: size_saved_def Let_def saveDir_def readDir_def writesect_eq)

lemma size_saved_entry:
  assumes "e < NR_ENTRIES"
  shows "dec_dir (disk (size_saved i s) (ide_sector (LOC_DIR (st_dir_offset (fs s i))))) e
     = (dec_dir (disk s (ide_sector (LOC_DIR (st_dir_offset (fs s i))))) e)
         \<lparr>file_size := (if e = unat (st_entry_offset (fs s i)) then st_file_size (fs s i)
            else file_size (dec_dir (disk s (ide_sector (LOC_DIR (st_dir_offset (fs s i))))) e))\<rparr>"
proof -
  let ?sec = "disk s (ide_sector (LOC_DIR (st_dir_offset (fs s i))))"
  let ?e = "unat (st_entry_offset (fs s i))"
  let ?d = "(dec_dir ?sec)(?e := (dec_dir ?sec ?e)\<lparr>file_size := st_file_size (fs s i)\<rparr>)"
  have "dir_wf ?d" using dir_codec.wf_dec [of ?sec] by (simp add: dir_wf_def)
  then have "dec_dir (enc_dir ?d) e = ?d e" using dir_codec.dec_enc assms by blast
  then show ?thesis
    by (simp add: size_saved_def Let_def saveDir_def readDir_def writesect_eq readsect_eq)
qed

lemma inode_not_dir:
  assumes "unat ino < SC_INODE" "unat d < SC_DIR"
  shows "ide_sector (LOC_INODE ino) \<noteq> ide_sector (LOC_DIR d)"
  using assms by (simp add: sector_numbers) (simp add: fs_consts)

text \<open>What writing the data does to the file, from a state whose directory entry is up to date.\<close>

lemma write_data_effect:
  assumes fd: "stream fd = Inr i" and off: "st_offset (fs s i) = of_nat off"
    and n: "off + n < 65536" "off + n \<le> 512 * nb"
    and ok: "file_ok s (st_inode_offset (fs s i)) nb" and dir: "unat (st_dir_offset (fs s i)) < SC_DIR"
  shows "\<exists>s'. fs_write_base_kr fd src (of_nat n) (size_saved i s) = Inr s' \<and>
     (\<forall>k < 512 * nb. file_byte s' (st_inode_offset (fs s i)) k =
        (if off \<le> k \<and> k < off + n then src (k - off) else file_byte s (st_inode_offset (fs s i)) k)) \<and>
     fs s' = fs (advance i (of_nat n) s) \<and>
     inode_blocks s' (st_inode_offset (fs s i)) = inode_blocks s (st_inode_offset (fs s i)) \<and>
     (\<forall>m. m < 769 \<and> m \<noteq> ide_sector (LOC_DIR (st_dir_offset (fs s i))) \<longrightarrow> disk s' m = disk s m)"
proof -
  let ?ino = "st_inode_offset (fs s i)" and ?t = "size_saved i s"
  let ?dsec = "ide_sector (LOC_DIR (st_dir_offset (fs s i)))" and ?isec = "ide_sector (LOC_INODE ?ino)"
  have ino: "unat ?ino < SC_INODE" and nb: "nb \<le> 128" using ok by (simp_all add: file_ok_def)
  have isec: "?isec \<noteq> ?dsec" by (rule inode_not_dir [OF ino dir])
  have blocks: "inode_blocks ?t ?ino = inode_blocks s ?ino"
    using size_saved_disk [OF isec] by (simp add: inode_blocks_def)
  then have ok': "file_ok ?t (st_inode_offset (fs ?t i)) nb" using ok by (simp add: file_ok_def)
  have sec: "block_sector (loaded i ?t) d = 769 + unat (inode_blocks s ?ino d)" if "d < nb" for d
    using file_ok_sectors(1) [OF ok' that] blocks by simp
  have dsec: "?dsec < 769" using sector_numbers(1) [OF dir] dir by (simp add: fs_consts)
  have isec': "?isec < 769" using sector_numbers(2) [OF ino] ino by (simp add: fs_consts)
  have byte: "file_byte ?t ?ino k = file_byte s ?ino k" if "k < 512 * nb" for k
  proof -
    have "k div 512 < nb" using that by (simp add: less_mult_imp_div_less mult.commute)
    then have "ide_sector (LOC_DATA (inode_blocks s ?ino (k div 512))) \<noteq> ?dsec"
      using sector_numbers(3) ok dsec by (auto simp: file_ok_def)
    then show ?thesis using blocks by (simp add: file_byte_def size_saved_disk flip: inode_blocks_def)
  qed
  obtain s' where s': "fs_write_base_kr fd src (of_nat n) ?t = Inr s'"
      "wrote nb off (off + n) (\<lambda>k. src (k - off)) (loaded i ?t) s'" "fs s' = fs (advance i (of_nat n) ?t)"
    using fs_write_base_spec [OF fd, of ?t off n nb src] off n nb file_ok_sectors(2) [OF ok'] by auto
  have frame: "disk s' m = disk ?t m" if "m < 769" for m
  proof -
    have "m \<notin> block_sector (loaded i ?t) ` {..<nb}" using sec that by auto
    then show ?thesis using s'(2) by (simp add: wrote_def)
  qed
  have blocks': "inode_blocks s' ?ino = inode_blocks s ?ino"
    using frame [OF isec'] blocks by (simp add: inode_blocks_def)
  have "cur_byte s' = file_byte s' ?ino"
    using s'(2) blocks blocks' by (simp add: fun_eq_iff cur_byte_def file_byte_def wrote_def inode_loaded flip: inode_blocks_def)
  then have "file_byte s' ?ino k = (if off \<le> k \<and> k < off + n then src (k - off) else file_byte s ?ino k)"
    if "k < 512 * nb" for k using s'(2) that byte [OF that] by (simp add: wrote_def)
  moreover have "disk s' m = disk s m" if "m < 769 \<and> m \<noteq> ?dsec" for m
    using frame [of m] size_saved_disk [of m s i] that by simp
  ultimately show ?thesis using s'(1,3) blocks' by auto
qed

lemma fs_write_effect:
  assumes "stream fd = Inr i" "st_offset (fs s i) = of_nat off" "st_file_size (fs s i) = of_nat sz"
    and "0 < n" "off + n \<le> sz" "sz < 65536" "sz \<le> 512 * nb"
    and "file_ok s (st_inode_offset (fs s i)) nb" "unat (st_dir_offset (fs s i)) < SC_DIR"
  shows "\<exists>s'. fs_write_kr fd src (of_nat n) s = Inr (of_nat n, s') \<and>
     (\<forall>k < 512 * nb. file_byte s' (st_inode_offset (fs s i)) k =
        (if off \<le> k \<and> k < off + n then src (k - off) else file_byte s (st_inode_offset (fs s i)) k)) \<and>
     fs s' = (fs s)(i := (fs s i)\<lparr>st_offset := of_nat (off + n)\<rparr>) \<and>
     inode_blocks s' (st_inode_offset (fs s i)) = inode_blocks s (st_inode_offset (fs s i)) \<and>
     (\<forall>m. m < 769 \<and> m \<noteq> ide_sector (LOC_DIR (st_dir_offset (fs s i))) \<longrightarrow> disk s' m = disk s m)"
proof -
  have sz: "unat (of_nat sz :: u32) = sz" using assms(6) by (intro unat_small) simp
  then have "st_file_size (fs s i) \<noteq> 0" using assms(3-5) by (auto simp flip: unat_eq_zero)
  moreover have "\<not> st_offset (fs s i) + of_nat n > st_file_size (fs s i)"
    using unat_small [of "off + n"] assms(2,3,5,6) sz by (simp add: word_less_nat_alt)
  ultimately have "fs_write_kr fd src (of_nat n) s =
      bind_res (fs_write_base_kr fd src (of_nat n) (size_saved i s)) (\<lambda>s. Inr (of_nat n, s))"
    using assms(1) by (simp add: fs_write_kr_def Let_def size_saved_def)
  moreover obtain s' where "fs_write_base_kr fd src (of_nat n) (size_saved i s) = Inr s'"
      "\<forall>k < 512 * nb. file_byte s' (st_inode_offset (fs s i)) k =
        (if off \<le> k \<and> k < off + n then src (k - off) else file_byte s (st_inode_offset (fs s i)) k)"
      "fs s' = fs (advance i (of_nat n) s)"
      "inode_blocks s' (st_inode_offset (fs s i)) = inode_blocks s (st_inode_offset (fs s i))"
      "\<forall>m. m < 769 \<and> m \<noteq> ide_sector (LOC_DIR (st_dir_offset (fs s i))) \<longrightarrow> disk s' m = disk s m"
    using write_data_effect [OF assms(1,2) _ _ assms(8,9), of n src] assms(5-7) by auto
  ultimately show ?thesis using assms(2) by auto
qed

text \<open>
  C13. Writing inside a file: \<open>fs_write_kr\<close> at offset \<open>off\<close> with \<open>n\<close> bytes that end within the file
  gives exactly those bytes of the file the new values, keeps all other bytes of the file and its
  size, advances the offset by \<open>n\<close>, and touches nothing but the data blocks and the directory sector.
\<close>

theorem fs_write_inside:
  assumes "stream fd = Inr i" "st_offset (fs s i) = of_nat off" "st_file_size (fs s i) = of_nat sz"
    and "0 < n" "off + n \<le> sz" "sz < 65536" "sz \<le> 512 * nb"
    and "file_ok s (st_inode_offset (fs s i)) nb" "unat (st_dir_offset (fs s i)) < SC_DIR"
  shows "\<exists>s'. fs_write_kr fd src (of_nat n) s = Inr (of_nat n, s') \<and>
     (\<forall>k < 512 * nb. file_byte s' (st_inode_offset (fs s i)) k =
        (if off \<le> k \<and> k < off + n then src (k - off) else file_byte s (st_inode_offset (fs s i)) k)) \<and>
     fs s' = (fs s)(i := (fs s i)\<lparr>st_offset := of_nat (off + n)\<rparr>) \<and>
     (\<forall>m. m < 769 \<and> m \<noteq> ide_sector (LOC_DIR (st_dir_offset (fs s i))) \<longrightarrow> disk s' m = disk s m)"
  using fs_write_effect [OF assms] by blast

theorem fs_write_inside_witness:
  "\<exists>s'. fs_write_kr 0 (\<lambda>_. 7) 5 (file_sample 10 100 zero_disk) = Inr (5, s') \<and>
     file_byte s' 0 12 = 7 \<and> file_byte s' 0 15 = 0"
  using fs_write_inside [OF stream_0 file_sample_simps(1,2), of 5 10 100 "Suc 0" zero_disk "\<lambda>_. 7"]
  by (auto simp: file_sample_ok file_sample_byte SC_DIR_def)

text \<open>
  C14. Reading back: writing \<open>n\<close> bytes inside a file, seeking back and reading \<open>n\<close> bytes returns
  the bytes written.
\<close>

theorem fs_write_read_roundtrip:
  assumes "stream fd = Inr i" "st_offset (fs s i) = of_nat off" "st_file_size (fs s i) = of_nat sz"
    and "0 < n" "off + n \<le> sz" "sz < 65536" "sz \<le> 512 * nb"
    and "file_ok s (st_inode_offset (fs s i)) nb" "unat (st_dir_offset (fs s i)) < SC_DIR"
  shows "\<exists>s1 s2 s3. fs_write_kr fd src (of_nat n) s = Inr (of_nat n, s1) \<and>
     fs_lseek_kr fd (of_nat off) s1 = Inr s2 \<and> fs_read_kr fd (of_nat n) s2 = Inr (of_nat n, map src [0..<n], s3)"
proof -
  have nz: "of_nat sz \<noteq> (0 :: u32)" using assms(4-6) unat_small [of sz] by (auto simp flip: unat_eq_zero)
  have ngt: "\<not> of_nat off + of_nat n > (of_nat sz :: u32)"
    using unat_small [of "off + n"] unat_small [of sz] assms(5,6) by (simp add: word_less_nat_alt)
  obtain s1 where s1: "fs_write_base_kr fd src (of_nat n) (size_saved i s) = Inr s1"
      "\<forall>k < 512 * nb. file_byte s1 (st_inode_offset (fs s i)) k =
        (if off \<le> k \<and> k < off + n then src (k - off) else file_byte s (st_inode_offset (fs s i)) k)"
      "fs s1 = fs (advance i (of_nat n) s)"
    using write_data_effect [OF assms(1,2) _ _ assms(8,9), of n src] assms(5-7) by auto
  have w: "fs_write_kr fd src (of_nat n) s = Inr (of_nat n, s1)"
    using assms(1-3) nz ngt s1(1) by (simp add: fs_write_kr_def Let_def size_saved_def)
  define s2 where "s2 = upd_stream i (\<lambda>f. f\<lparr>st_offset := of_nat off\<rparr>) s1"
  have l: "fs_lseek_kr fd (of_nat off) s1 = Inr s2" using assms(1) by (simp add: fs_lseek_kr_def s2_def)
  have f: "st_offset (fs s2 i) = of_nat off" "st_file_size (fs s2 i) = of_nat sz"
      "st_inode_offset (fs s2 i) = st_inode_offset (fs s i)"
    using s1(3) assms(3) by (simp_all add: s2_def upd_stream_def)
  have lt: "off + n < 65536" using assms(5,6) by simp
  obtain b where b: "fs_read_base_kr fd (of_nat n) s2 =
      Inr (map (file_byte s2 (st_inode_offset (fs s2 i))) [off..<off + n],
        advance i (of_nat n) ((loaded i s2)\<lparr>buffer := b\<rparr>))"
    using fs_read_base_spec [OF assms(1) f(1) lt] by blast
  have "map (file_byte s2 (st_inode_offset (fs s2 i))) [off..<off + n] = map src [0..<n]"
  proof (rule nth_equalityI)
    fix k assume "k < length (map (file_byte s2 (st_inode_offset (fs s2 i))) [off..<off + n])"
    then have k: "k < n" by simp
    have "file_byte s2 ino j = file_byte s1 ino j" for ino j by (simp add: file_byte_def s2_def upd_stream_def)
    then show "map (file_byte s2 (st_inode_offset (fs s2 i))) [off..<off + n] ! k = map src [0..<n] ! k"
      using k s1(2) f(3) assms(5,7) by simp
  qed simp
  moreover have len: "(if of_nat off + of_nat n \<ge> (of_nat sz :: u32) then of_nat sz - of_nat off else of_nat n)
      = (of_nat n :: u32)"
  proof (cases "off + n = sz")
    case True
    then have "of_nat sz = (of_nat off + of_nat n :: u32)" by (metis of_nat_add)
    then show ?thesis by simp
  next
    case False
    then have "of_nat off + of_nat n < (of_nat sz :: u32)"
      using unat_small [of "off + n"] unat_small [of sz] assms(5,6) by (simp add: word_less_nat_alt)
    then have "\<not> of_nat sz \<le> (of_nat off + of_nat n :: u32)" by (simp only: not_le)
    then show ?thesis by simp
  qed
  moreover have "of_nat n \<noteq> (0 :: u32)" using assms(4-6) unat_small [of n] by (auto simp flip: unat_eq_zero)
  ultimately have "fs_read_kr fd (of_nat n) s2 =
      Inr (of_nat n, map src [0..<n], advance i (of_nat n) ((loaded i s2)\<lparr>buffer := b\<rparr>))"
    by (simp only: fs_read_kr_def assms(1) bind_res_simps Let_def f(1,2) len if_False b prod.case)
  with w l show ?thesis by blast
qed

theorem fs_write_read_roundtrip_witness:
  "\<exists>s1 s2 s3. fs_write_kr 0 of_nat 5 (file_sample 10 100 zero_disk) = Inr (5, s1) \<and>
     fs_lseek_kr 0 10 s1 = Inr s2 \<and> fs_read_kr 0 5 s2 = Inr (5, [0, 1, 2, 3, 4], s3)"
  using fs_write_read_roundtrip [OF stream_0 file_sample_simps(1,2), of 5 10 100 "Suc 0" zero_disk of_nat]
  by (simp add: file_sample_ok SC_DIR_def upt_conv_Cons)

section \<open>Writing past the end\<close>

lemma LOC_INODE_255: "ide_sector (LOC_INODE 255) = 768" "ide_sector (LOC_DATA (- 1)) = 768"
  by (simp_all add: LOC_INODE_def LOC_DATA_def fs_consts ide_sector_eq)

text \<open>
  C33. Appending to a file whose size is a multiple of 512 and whose last block is full loses the
  data: \<open>fs_write_kr\<close> reports success, but since it allocates only the blocks after the one of the
  current offset, the bytes go through the unset block pointer \<^verbatim>\<open>0xFFFFFFFF\<close> and overwrite sector
  768, which is the sector of inode 255.
\<close>

theorem fs_append_at_block_boundary:
  assumes "stream fd = Inr i" "st_offset (fs s i) = of_nat (512 * d)" "st_file_size (fs s i) = of_nat (512 * d)"
    and "0 < d" "d < 128" "0 < n" "n < 512" "inode_blocks s (st_inode_offset (fs s i)) d = - 1"
    and "unat (st_inode_offset (fs s i)) < 255" "unat (st_dir_offset (fs s i)) < SC_DIR"
  shows "\<exists>s'. fs_write_kr fd src (of_nat n) s = Inr (of_nat n, s') \<and>
     (\<forall>k < n. disk s' (ide_sector (LOC_INODE 255)) k = src k)"
proof -
  let ?ino = "st_inode_offset (fs s i)" and ?off = "512 * d"
  have nz: "of_nat ?off \<noteq> (0 :: u32)" using assms(4,5) unat_small [of ?off] by (auto simp flip: unat_eq_zero)
  have gt: "of_nat ?off + of_nat n > (of_nat ?off :: u32)"
    using unat_small [of "?off + n"] unat_small [of ?off] assms(5-7) by (simp add: word_less_nat_alt)
  have D1: "unat (drop_bit 9 (of_nat ?off :: u32)) = d" using drop_bit_9 [of ?off] assms(5) by simp
  have "(?off + n) div 512 = d" using assms(7) by (intro div_nat_eqI) simp_all
  then have D2: "unat (drop_bit 9 (of_nat ?off + of_nat n :: u32)) = d"
    using drop_bit_9 [of "?off + n"] assms(5,7) by simp
  define s1 where "s1 = saveINode ?ino (readINode ?ino s)"
  define s2 where "s2 = upd_stream i (\<lambda>f. f\<lparr>st_file_size := st_offset f + of_nat n\<rparr>) s1"
  have fs1: "fs s1 = fs s" by (simp add: s1_def saveINode_def readINode_eq writesect_eq)
  have fs2: "st_inode_offset (fs s2 i) = ?ino" "st_offset (fs s2 i) = of_nat ?off"
      "st_dir_offset (fs s2 i) = st_dir_offset (fs s i)"
    by (simp_all add: s2_def upd_stream_def fs1 assms(2))
  have w: "fs_write_kr fd src (of_nat n) s =
      bind_res (fs_write_base_kr fd src (of_nat n) (size_saved i s2)) (\<lambda>s. Inr (of_nat n, s))"
    using assms(1-3) nz gt D1 D2 fs1
    by (simp add: fs_write_kr_def Let_def size_saved_def s2_def s1_def upd_stream_def del: of_nat_mult of_nat_add)
      (simp add: readINode_eq)
  let ?t = "size_saved i s2"
  have ino: "unat ?ino < SC_INODE" using assms(9) by (simp add: fs_consts)
  have "disk s2 (ide_sector (LOC_INODE ?ino)) = enc_inode (inode_blocks s ?ino)"
    by (simp add: s2_def s1_def upd_stream_def saveINode_def readINode_eq writesect_eq inode_blocks_def)
  then have "inode_blocks ?t ?ino d = inode_blocks s ?ino d"
    using inode_codec.dec_enc [of "inode_blocks s ?ino"] assms(5)
      size_saved_disk [of "ide_sector (LOC_INODE ?ino)" s2 i] inode_not_dir [OF ino assms(10)] fs2
    by (simp add: inode_blocks_def NR_BLOCKS_def BLOCK_SIZE_def)
  then have ptr: "inode (loaded i ?t) d = - 1" using assms(8) fs2 by (simp add: inode_loaded)
  have ot: "st_offset (fs ?t i) = of_nat ?off" by (simp only: size_saved_simps fs2(2))
  have R: "of_nat ?off mod 512 = (0 :: u32)" using offset_mod [of ?off] assms(5) by simp
  have le: "\<not> (0 + of_nat n :: u32) > 512" using unat_small [of n] assms(7) by (simp add: word_less_nat_alt)
  have b: "block_ptr (drop_bit 9 (of_nat ?off)) (loaded i ?t) = Inr (- 1)"
    using block_ptr_at [of ?off "loaded i ?t"] assms(5) ptr by simp
  have l: "memcpy_len (of_nat n) = Inr n" using assms(7) by (simp add: memcpy_len_def sint_of_nat)
  obtain b' where b': "buf_write (unat (0 :: u32)) src n (readData (- 1) (loaded i ?t)) = Inr ((loaded i ?t)\<lparr>buffer := b'\<rparr>)"
      "\<forall>k < n. b' k = src k"
    using assms(7) by (simp add: buf_write_def readData_eq BLOCK_SIZE_def)
  have "fs_write_base_kr fd src (of_nat n) ?t = Inr (advance i (of_nat n) (saveData (- 1) ((loaded i ?t)\<lparr>buffer := b'\<rparr>)))"
    using le by (simp only: fs_write_base_kr_def assms(1) bind_res_simps Let_def loaded_def [symmetric]
        loaded_simps ot R b l b'(1) if_False)
  with w b'(2) show ?thesis by (auto simp: saveData_eq LOC_INODE_255)
qed

theorem fs_append_at_block_boundary_witness:
  "\<exists>s'. fs_write_kr 0 (\<lambda>_. 7) 3 (file_sample 512 512 (zero_disk(513 := (\<lambda>_. 0xFF)))) = Inr (3, s') \<and>
     disk s' (ide_sector (LOC_INODE 255)) 0 = 7"
proof -
  have "ide_sector (LOC_INODE 0) = 513" by (simp add: sector_numbers fs_consts)
  then have "inode_blocks (file_sample 512 512 (zero_disk(513 := (\<lambda>_. 0xFF)))) 0 1 = - 1"
    by (simp add: inode_blocks_def dec_inode_def get_le32_def)
  then show ?thesis
    using fs_append_at_block_boundary [of 0 0 "file_sample 512 512 (zero_disk(513 := (\<lambda>_. 0xFF)))" 1 3 "\<lambda>_. 7"]
    by (auto simp: stream_0 fs_consts)
qed

section \<open>Opening\<close>

text \<open>A stream that has just been opened is at offset 0.\<close>

lemma fs_open_kr_stream:
  assumes "fs_open_kr name s = Inr (k, s')" "k \<noteq> - 1"
  shows "\<exists>i. stream k = Inr i \<and> st_offset (fs s' i) = 0"
proof -
  obtain d e s1 where "open_stream d e s1 = Inr (k, s')"
    using assms by (auto simp: fs_open_kr_def bind_res_eq_Inr split: option.splits)
  then obtain i where i: "find_stream NR_FILE_STREAM 0 (fs s1) = Some i" "k = of_nat i" "st_offset (fs s' i) = 0"
    using assms(2) by (auto simp: open_stream_def Let_def bind_res_eq_Inr upd_stream_def split: option.splits)
  have "i < NR_FILE_STREAM" using find_stream_range [OF i(1)] by simp
  then show ?thesis using i unat_small [of i] by (auto simp: stream_def NR_FILE_STREAM_def)
qed

text \<open>Opening the file of the first directory entry.\<close>

lemma open_first_entry:
  assumes e: "e = dec_dir (disk s 257) 0" "strcmp_field (filename e) name = Inr 0" "cstring (filename e) = Inr name" "length name < 24"
    and f: "st_used (fs s 0) = 0" "length (st_filename (fs s 0)) = 24"
  shows "\<exists>s1. fs_open_kr name s = Inr (0, s1) \<and> st_offset (fs s1 0) = 0 \<and> st_file_size (fs s1 0) = file_size e \<and>
    st_inode_offset (fs s1 0) = inode_offset e \<and> st_dir_offset (fs s1 0) = 0 \<and> disk s1 = disk s"
proof -
  let ?s = "readDir 0 s"
  have loc: "ide_sector (LOC_DIR 0) = 257" by (simp add: LOC_DIR_def ide_sector_eq)
  have d: "dir ?s 0 = e" by (simp add: readDir_def readsect_eq loc e(1))
  have r: "fs ?s = fs s" "disk ?s = disk s" by (simp_all add: readDir_def)
  have "0 < SC_DIR" "0 < NR_ENTRIES" "0 < NR_FILE_STREAM" by (simp_all add: fs_consts)
  then obtain n1 n2 n3 where n: "SC_DIR = Suc n1" "NR_ENTRIES = Suc n2" "NR_FILE_STREAM = Suc n3" by (meson gr0_implies_Suc)
  have "fs_open_kr name s = open_stream 0 0 ?s" by (simp add: fs_open_kr_def n Let_def d e(2))
  moreover have "\<exists>x. strcpy_field (st_filename (fs s 0)) name = Inr x" using e(4) f(2) by (simp add: strcpy_field_def)
  ultimately show ?thesis using f(1) e(3) by (auto simp: open_stream_def n r d Let_def upd_stream_def)
qed

end
