(* ===== verification/Mkfs.thy ===== *)
theory Mkfs
  imports File_Ops
begin

text \<open>
  The tools that run on the host and build the disk image: \<^verbatim>\<open>src/fmt/formatter.c\<close>,
  \<^verbatim>\<open>src/fmt/copy2myfs.c\<close>, \<^verbatim>\<open>src/fmt/read_myfs.c\<close> and their \<^verbatim>\<open>src/fmt/file.h\<close>.  The image file is a map
  from sector numbers to sectors; every access of the tools is one whole sector at a multiple of
  512 bytes.  Their copies of the file system structures are the ones of the kernel, but the
  functions differ, above all in where the bitmap is.
\<close>

section \<open>State and layout\<close>

record hostst =
  hdisk :: "nat \<Rightarrow> sector"
  hbitmap :: "nat \<Rightarrow> u8"
  hinode :: "nat \<Rightarrow> u32"
  hdir :: "nat \<Rightarrow> dirent"
  hbuffer :: sector
  hout :: string

definition HLOC_BITMAP :: u32 where "HLOC_BITMAP = push_bit 9 1"

definition HLOC_DIR :: "u32 \<Rightarrow> u32" where
  "HLOC_DIR x = (1 + 256 + x) * 512"

definition HLOC_INODE :: "u32 \<Rightarrow> u32" where
  "HLOC_INODE x = (1 + 256 + of_nat SC_DIR + x) * 512"

definition HLOC_DATA :: "u32 \<Rightarrow> u32" where
  "HLOC_DATA x = (1 + 256 + of_nat SC_DIR + of_nat SC_INODE + x) * 512"

definition fread_at :: "u32 \<Rightarrow> hostst \<Rightarrow> sector" where
  "fread_at pos s = hdisk s (unat pos div 512)"

definition fwrite_at :: "sector \<Rightarrow> u32 \<Rightarrow> hostst \<Rightarrow> hostst" where
  "fwrite_at src pos s = s\<lparr>hdisk := (hdisk s)(unat pos div 512 := src)\<rparr>"

definition host_printf :: "string \<Rightarrow> hostst \<Rightarrow> hostst" where
  "host_printf str s = s\<lparr>hout := hout s @ str\<rparr>"

section \<open>Sector access\<close>

primrec h_readBitmap_loop :: "nat \<Rightarrow> hostst \<Rightarrow> hostst" where
  "h_readBitmap_loop 0 s = s"
| "h_readBitmap_loop (Suc count) s =
     (let s = h_readBitmap_loop count s;
          sec = fread_at (HLOC_BITMAP + 512 * of_nat count) s
      in s\<lparr>hbitmap := (\<lambda>k. if count * 512 \<le> k \<and> k < count * 512 + 512
                         then sec (k - count * 512) else hbitmap s k)\<rparr>)"

primrec h_saveBitmap_loop :: "nat \<Rightarrow> hostst \<Rightarrow> hostst" where
  "h_saveBitmap_loop 0 s = s"
| "h_saveBitmap_loop (Suc count) s =
     (let s = h_saveBitmap_loop count s
      in fwrite_at (\<lambda>k. hbitmap s (count * 512 + k)) (HLOC_BITMAP + 512 * of_nat count) s)"

definition h_readBitmap :: "hostst \<Rightarrow> hostst" where
  "h_readBitmap s = h_readBitmap_loop SC_BITMAP s"

definition h_saveBitmap :: "hostst \<Rightarrow> hostst" where
  "h_saveBitmap s = h_saveBitmap_loop SC_BITMAP s"

definition h_readDir :: "u32 \<Rightarrow> hostst \<Rightarrow> hostst" where
  "h_readDir offset s = s\<lparr>hdir := dec_dir (fread_at (HLOC_DIR offset) s)\<rparr>"

definition h_saveDir :: "u32 \<Rightarrow> hostst \<Rightarrow> hostst" where
  "h_saveDir offset s = fwrite_at (enc_dir (hdir s)) (HLOC_DIR offset) s"

definition h_readINode :: "u32 \<Rightarrow> hostst \<Rightarrow> hostst" where
  "h_readINode offset s = s\<lparr>hinode := dec_inode (fread_at (HLOC_INODE offset) s)\<rparr>"

definition h_saveINode :: "u32 \<Rightarrow> hostst \<Rightarrow> hostst" where
  "h_saveINode offset s = fwrite_at (enc_inode (hinode s)) (HLOC_INODE offset) s"

definition h_readData :: "u32 \<Rightarrow> hostst \<Rightarrow> hostst" where
  "h_readData offset s = s\<lparr>hbuffer := fread_at (HLOC_DATA offset) s\<rparr>"

definition h_writeData :: "u32 \<Rightarrow> hostst \<Rightarrow> hostst" where
  "h_writeData offset s = fwrite_at (hbuffer s) (HLOC_DATA offset) s"

definition h_INodeAlloc :: "hostst \<Rightarrow> u32 \<times> hostst" where
  "h_INodeAlloc s =
     (let loc = (\<lambda>i. drop_bit 9 (HLOC_INODE i)) in
      case alloc_scan SC_INODE 0 loc (hbitmap s) of
        None \<Rightarrow> (- 1, s)
      | Some i \<Rightarrow> (i, s\<lparr>hbitmap := sec_mark (loc i) (hbitmap s)\<rparr>))"

definition h_dataAlloc :: "hostst \<Rightarrow> u32 \<times> hostst" where
  "h_dataAlloc s =
     (let loc = (\<lambda>i. drop_bit 9 (HLOC_DATA i)) in
      case alloc_scan SC_DATA 0 loc (hbitmap s) of
        None \<Rightarrow> (- 1, s)
      | Some i \<Rightarrow> (i, s\<lparr>hbitmap := sec_mark (loc i) (hbitmap s)\<rparr>))"

section \<open>formatter\<close>

text \<open>
  The formatter writes the image from the start, one sector after the other; \<open>boot\<close> is what it read
  from \<^verbatim>\<open>boot.bin\<close>.  All its buffers start as zeros.
\<close>

definition blank_entry :: dirent where
  "blank_entry = \<lparr>filename = replicate LEN_FILENAME 0, file_size = 0, inode_offset = - 1\<rparr>"

definition formatter :: "sector \<Rightarrow> sector list" where
  "formatter boot =
     [boot] @
     map (\<lambda>count. (\<lambda>k. 0)) [0..<SC_BITMAP] @
     map (\<lambda>count. enc_dir (\<lambda>j. blank_entry)) [0..<SC_DIR] @
     map (\<lambda>count. enc_inode (\<lambda>j. 0)) [0..<SC_INODE] @
     map (\<lambda>count. (\<lambda>k. 0)) [0..<SC_DATA]"

definition image :: "sector list \<Rightarrow> nat \<Rightarrow> sector" where
  "image secs m = (if m < length secs then secs ! m else (\<lambda>_. 0))"

section \<open>copy2myfs\<close>

primrec h_find_dir :: "nat \<Rightarrow> u32 \<Rightarrow> (dirent \<Rightarrow> bool res) \<Rightarrow> hostst \<Rightarrow>
    ((u32 \<times> nat) option \<times> hostst) res" where
  "h_find_dir 0 dir_offset test s = Inr (None, s)"
| "h_find_dir (Suc n) dir_offset test s =
     (let s = h_readDir dir_offset s in
      bind_res (find_entry NR_ENTRIES 0 test (hdir s)) (\<lambda>r. case r of
        Some e \<Rightarrow> Inr (Some (dir_offset, e), s)
      | None \<Rightarrow> h_find_dir n (dir_offset + 1) test s))"

text \<open>
  The copy loop: \<open>rest\<close> is what is left of the input file, \<open>j\<close> is \<^verbatim>\<open>offset / SECT_SIZE\<close>, and the
  number of iterations is the number of blocks begun.
\<close>

primrec copy_loop :: "nat \<Rightarrow> nat \<Rightarrow> u8 list \<Rightarrow> hostst \<Rightarrow> hostst" where
  "copy_loop 0 j rest s = s"
| "copy_loop (Suc n) j rest s =
     (let chunk = take 512 rest;
          s = s\<lparr>hbuffer := (\<lambda>k. if k < length chunk then chunk ! k else if k < 512 then 0 else hbuffer s k)\<rparr>
      in case h_dataAlloc s of
           (index_data, s) \<Rightarrow>
             (let s = h_writeData index_data s;
                  s = (if j < NR_BLOCKS then s\<lparr>hinode := (hinode s)(j := index_data)\<rparr> else s)
              in copy_loop n (Suc j) (drop 512 rest) s))"

definition same_name_or_free :: "u8 list \<Rightarrow> dirent \<Rightarrow> bool res" where
  "same_name_or_free name e =
     bind_res (strcmp_field (filename e) name) (\<lambda>r. Inr (r = 0 \<or> inode_offset e = - 1))"

text \<open>
  \<open>contents\<close> and \<open>name\<close> come from the two arguments (\<open>copy2myfs_main\<close> below).  When no entry fits, the code goes on with
  entry 16 of the last sector, outside the array.
\<close>

definition copy2myfs :: "u8 list \<Rightarrow> u8 list \<Rightarrow> hostst \<Rightarrow> hostst res" where
  "copy2myfs contents name s =
     bind_res (h_find_dir SC_DIR 0 (same_name_or_free name) s)
       (\<lambda>(r, s). case r of
          None \<Rightarrow> Inl OutOfBounds
        | Some (d, e) \<Rightarrow>
            (let s = h_readBitmap s in
             case h_INodeAlloc s of
               (index_inode, s) \<Rightarrow>
                 (let s = s\<lparr>hdir := (hdir s)(e := (hdir s e)\<lparr>inode_offset := index_inode\<rparr>)\<rparr> in
                  bind_res (strcpy_field (filename (hdir s e)) name) (\<lambda>nm.
                  let s = s\<lparr>hdir := (hdir s)(e := (hdir s e)\<lparr>filename := nm\<rparr>)\<rparr>;
                      s = s\<lparr>hdir := (hdir s)(e := (hdir s e)\<lparr>file_size := of_nat (length contents)\<rparr>)\<rparr>;
                      s = h_readINode index_inode s;
                      s = s\<lparr>hinode := (\<lambda>k. if k < NR_BLOCKS then - 1 else hinode s k)\<rparr>;
                      s = copy_loop ((length contents + 511) div 512) 0 contents s;
                      s = h_saveINode index_inode s;
                      s = h_saveBitmap s;
                      s = h_saveDir d s
                  in Inr (host_printf (''copy success'' @ NL) s)))))"

text \<open>
  The whole program.  The arguments go into arrays of 30 bytes with \<^verbatim>\<open>strcpy\<close>; \<open>fopen\<close> gives the contents of the files of
  the host, and the result of opening the input is used without a test.
\<close>

definition copy2myfs_main :: "u8 list list \<Rightarrow> (u8 list \<Rightarrow> u8 list option) \<Rightarrow> hostst \<Rightarrow> hostst res" where
  "copy2myfs_main argv fopen s =
     (if length argv \<le> 2 then Inr (host_printf (''argument expected'' @ NL) s)
      else if 30 \<le> length (argv ! 1) \<or> 30 \<le> length (argv ! 2) then Inl OutOfBounds
      else case fopen (argv ! 1) of
          None \<Rightarrow> Inl NullDeref
        | Some contents \<Rightarrow>
            bind_res (vfprintf (''FILESIZE: %d'' @ NL) False [Num (of_nat (length contents))]) (\<lambda>out.
            copy2myfs contents (argv ! 2) (host_printf out s)))"

section \<open>read_myfs\<close>

primrec read_blocks_loop :: "nat \<Rightarrow> nat \<Rightarrow> hostst \<Rightarrow> hostst" where
  "read_blocks_loop 0 i s = s"
| "read_blocks_loop (Suc n) i s =
     (if hinode s i = 0xFFFFFFFF then s else read_blocks_loop n (Suc i) (h_readData (hinode s i) s))"

definition read_myfs :: "u8 list \<Rightarrow> hostst \<Rightarrow> hostst res" where
  "read_myfs name s =
     bind_res (h_find_dir SC_DIR 0
         (\<lambda>e. bind_res (strcmp_field (filename e) name) (\<lambda>r. Inr (r = 0))) s)
       (\<lambda>(r, s). case r of
          None \<Rightarrow> Inr (host_printf (''Such a file doesn'' @ [CHR 0x27] @ ''t exist!'' @ NL) s)
        | Some (d, e) \<Rightarrow>
            bind_res (vfprintf (''%d %d'' @ NL) False [Num d, Num (of_nat e)]) (\<lambda>o1.
            bind_res (cstring (filename (hdir s e))) (\<lambda>nm.
            bind_res (vfprintf (''%s'' @ NL) False [Str (to_string nm)]) (\<lambda>o2.
            bind_res (vfprintf (''%d'' @ NL) False [Num (file_size (hdir s e))]) (\<lambda>o3.
            let s = host_printf (o1 @ o2 @ o3) s;
                s = h_readINode (inode_offset (hdir s e)) s
            in Inr (read_blocks_loop NR_BLOCKS 0 s))))))"

section \<open>Where the tools read and write\<close>

lemma h_sectors:
  "unat d < SC_DIR \<Longrightarrow> unat (HLOC_DIR d) div 512 = 257 + unat d"
  "unat i < SC_INODE \<Longrightarrow> unat (HLOC_INODE i) div 512 = 513 + unat i"
  "unat b < SC_DATA \<Longrightarrow> unat (HLOC_DATA b) div 512 = 769 + unat b"
  "c < SC_BITMAP \<Longrightarrow> unat (HLOC_BITMAP + 512 * of_nat c) div 512 = 1 + c"
proof -
  have sec: "unat (of_nat m * 512 :: u32) div 512 = m" if "m < 2 ^ 23" for m
  proof -
    have "(of_nat m * 512 :: u32) = of_nat (m * 512)" by simp
    then have "unat (of_nat m * 512 :: u32) = m * 512" using that unat_small [of "m * 512"] by (simp only:) simp
    then show ?thesis by simp
  qed
  show "unat (HLOC_DIR d) div 512 = 257 + unat d" if "unat d < SC_DIR"
    using sec [of "257 + unat d"] that by (simp add: HLOC_DIR_def fs_consts algebra_simps)
  show "unat (HLOC_INODE i) div 512 = 513 + unat i" if "unat i < SC_INODE"
    using sec [of "513 + unat i"] that by (simp add: HLOC_INODE_def fs_consts algebra_simps)
  show "unat (HLOC_DATA b) div 512 = 769 + unat b" if "unat b < SC_DATA"
    using sec [of "769 + unat b"] that by (simp add: HLOC_DATA_def fs_consts algebra_simps)
  show "unat (HLOC_BITMAP + 512 * of_nat c) div 512 = 1 + c" if "c < SC_BITMAP"
    using sec [of "1 + c"] that by (simp add: HLOC_BITMAP_def fs_consts algebra_simps)
qed

lemma h_loc:
  "i < SC_INODE \<Longrightarrow> drop_bit 9 (HLOC_INODE (of_nat i)) = LOC_INODE (of_nat i)"
  "b < SC_DATA \<Longrightarrow> drop_bit 9 (HLOC_DATA (of_nat b)) = LOC_DATA (of_nat b)"
proof -
  have d: "unat (drop_bit 9 w) = unat w div 512" for w :: u32
    using drop_bit_9 [of "unat w"] unat_u32_less [of w] by simp
  show "drop_bit 9 (HLOC_INODE (of_nat i)) = LOC_INODE (of_nat i)" if i: "i < SC_INODE"
  proof -
    have "unat (of_nat i :: u32) = i" using i by (intro unat_small) (simp add: fs_consts)
    then show ?thesis using h_sectors(2) [of "of_nat i"] unat_LOC(1) [OF i] i by (simp add: word_unat_eq_iff d)
  qed
  show "drop_bit 9 (HLOC_DATA (of_nat b)) = LOC_DATA (of_nat b)" if b: "b < SC_DATA"
  proof -
    have "unat (of_nat b :: u32) = b" using b by (intro unat_small) (simp add: fs_consts)
    then show ?thesis using h_sectors(3) [of "of_nat b"] unat_LOC(2) [OF b] b by (simp add: word_unat_eq_iff d)
  qed
qed

definition h_data_free :: "hostst \<Rightarrow> nat \<Rightarrow> bool" where
  "h_data_free s b = sec_free (hbitmap s) (LOC_DATA (of_nat b))"

definition h_inode_free :: "hostst \<Rightarrow> nat \<Rightarrow> bool" where
  "h_inode_free s i = sec_free (hbitmap s) (LOC_INODE (of_nat i))"

lemma h_dataAlloc_taken:
  assumes "i < SC_DATA" "h_data_free s i" "\<And>j. j < i \<Longrightarrow> \<not> h_data_free s j"
  shows "h_dataAlloc s = (of_nat i, s\<lparr>hbitmap := sec_mark (LOC_DATA (of_nat i)) (hbitmap s)\<rparr>)"
proof -
  have "alloc_scan SC_DATA (of_nat 0) (\<lambda>i. drop_bit 9 (HLOC_DATA i)) (hbitmap s) = Some (of_nat (0 + i))"
    using assms by (intro alloc_scan_Some) (auto simp: h_data_free_def h_loc)
  then show ?thesis using h_loc(2) [OF assms(1)] by (simp add: h_dataAlloc_def)
qed

lemma h_INodeAlloc_taken:
  assumes "i < SC_INODE" "h_inode_free s i" "\<And>j. j < i \<Longrightarrow> \<not> h_inode_free s j"
  shows "h_INodeAlloc s = (of_nat i, s\<lparr>hbitmap := sec_mark (LOC_INODE (of_nat i)) (hbitmap s)\<rparr>)"
proof -
  have "alloc_scan SC_INODE (of_nat 0) (\<lambda>i. drop_bit 9 (HLOC_INODE i)) (hbitmap s) = Some (of_nat (0 + i))"
    using assms by (intro alloc_scan_Some) (auto simp: h_inode_free_def h_loc)
  then show ?thesis using h_loc(1) [OF assms(1)] by (simp add: h_INodeAlloc_def)
qed

lemma h_alloc_full:
  "(\<And>i. i < SC_DATA \<Longrightarrow> \<not> h_data_free s i) \<Longrightarrow> h_dataAlloc s = (- 1, s)"
  "(\<And>i. i < SC_INODE \<Longrightarrow> \<not> h_inode_free s i) \<Longrightarrow> h_INodeAlloc s = (- 1, s)"
proof -
  show "h_dataAlloc s = (- 1, s)" if "\<And>i. i < SC_DATA \<Longrightarrow> \<not> h_data_free s i"
  proof -
    have "alloc_scan SC_DATA (of_nat 0) (\<lambda>i. drop_bit 9 (HLOC_DATA i)) (hbitmap s) = None"
      using that by (intro alloc_scan_None) (auto simp: h_data_free_def h_loc)
    then show ?thesis by (simp add: h_dataAlloc_def)
  qed
  show "h_INodeAlloc s = (- 1, s)" if "\<And>i. i < SC_INODE \<Longrightarrow> \<not> h_inode_free s i"
  proof -
    have "alloc_scan SC_INODE (of_nat 0) (\<lambda>i. drop_bit 9 (HLOC_INODE i)) (hbitmap s) = None"
      using that by (intro alloc_scan_None) (auto simp: h_inode_free_def h_loc)
    then show ?thesis by (simp add: h_INodeAlloc_def)
  qed
qed

lemma h_marked_free:
  "i < SC_DATA \<Longrightarrow> j < SC_DATA \<Longrightarrow>
     h_data_free (s\<lparr>hbitmap := sec_mark (LOC_DATA (of_nat i)) (hbitmap s)\<rparr>) j \<longleftrightarrow> h_data_free s j \<and> j \<noteq> i"
  "i < SC_INODE \<Longrightarrow> j < SC_INODE \<Longrightarrow>
     h_inode_free (s\<lparr>hbitmap := sec_mark (LOC_INODE (of_nat i)) (hbitmap s)\<rparr>) j \<longleftrightarrow> h_inode_free s j \<and> j \<noteq> i"
  using LOC_inj(2) [of j i] LOC_inj(1) [of j i]
  by (auto simp: h_data_free_def h_inode_free_def sec_free_mark)

interpretation host_data: block_alloc h_dataAlloc h_data_free SC_DATA
  by unfold_locales (auto simp: h_dataAlloc_taken h_alloc_full h_marked_free, simp add: fs_consts)

interpretation host_inode: block_alloc h_INodeAlloc h_inode_free SC_INODE
  by unfold_locales (auto simp: h_INodeAlloc_taken h_alloc_full h_marked_free, simp add: fs_consts)

section \<open>What copying a file leaves on the disk\<close>

text \<open>Block \<open>i\<close> of a file, padded with zeros.\<close>

definition padded :: "u8 list \<Rightarrow> nat \<Rightarrow> u8" where
  "padded xs k = (if k < length xs then xs ! k else 0)"

definition free_blocks :: "hostst \<Rightarrow> nat set" where
  "free_blocks s = {b. b < SC_DATA \<and> h_data_free s b}"

lemma finite_free_blocks [simp]: "finite (free_blocks s)"
  by (rule finite_subset [of _ "{..<SC_DATA}"]) (auto simp: free_blocks_def)

lemma h_dataAlloc_free:
  assumes "free_blocks s \<noteq> {}"
  obtains b m where "h_dataAlloc s = (of_nat b, s\<lparr>hbitmap := m\<rparr>)" "b \<in> free_blocks s"
    "free_blocks (s\<lparr>hbitmap := m\<rparr>) = free_blocks s - {b}"
proof (cases rule: host_data.alloc_cases [of s])
  case (taken b s1)
  define i where "i = (LEAST i. i < SC_DATA \<and> h_data_free s i)"
  have i: "i < SC_DATA" "h_data_free s i"
    using LeastI_ex [of "\<lambda>i. i < SC_DATA \<and> h_data_free s i"] taken(1,2) by (auto simp: i_def)
  have "\<not> h_data_free s j" if "j < i" for j
    using not_less_Least [of j "\<lambda>i. i < SC_DATA \<and> h_data_free s i"] that i(1) by (auto simp: i_def)
  from h_dataAlloc_taken [OF i this] show ?thesis
    using that [of i] i h_marked_free(1) [OF i(1)] by (auto simp: free_blocks_def)
next
  case (full s1)
  then show ?thesis using assms by (auto simp: free_blocks_def)
qed

lemma copy_step:
  assumes "free_blocks s \<noteq> {}"
  shows "\<exists>b s'. copy_loop (Suc n) j rest s = copy_loop n (Suc j) (drop 512 rest) s' \<and>
     b \<in> free_blocks s \<and> free_blocks s' = free_blocks s - {b} \<and> hdir s' = hdir s \<and>
     hinode s' = (if j < NR_BLOCKS then (hinode s)(j := of_nat b) else hinode s) \<and>
     (\<forall>m. m \<noteq> 769 + b \<longrightarrow> hdisk s' m = hdisk s m) \<and>
     (\<forall>k < 512. hdisk s' (769 + b) k = padded rest k)"
proof -
  let ?chunk = "take 512 rest"
  let ?b = "\<lambda>k. if k < length ?chunk then ?chunk ! k else if k < 512 then 0 else hbuffer s k"
  let ?t = "s\<lparr>hbuffer := ?b\<rparr>"
  have free0: "free_blocks ?t = free_blocks s" by (simp add: free_blocks_def h_data_free_def)
  obtain b m where b: "h_dataAlloc ?t = (of_nat b, ?t\<lparr>hbitmap := m\<rparr>)" "b \<in> free_blocks s"
      "free_blocks (?t\<lparr>hbitmap := m\<rparr>) = free_blocks s - {b}"
    by (rule h_dataAlloc_free [of ?t, unfolded free0, OF assms])
  let ?s1 = "?t\<lparr>hbitmap := m\<rparr>"
  let ?s2 = "h_writeData (of_nat b) ?s1"
  let ?s' = "if j < NR_BLOCKS then ?s2\<lparr>hinode := (hinode ?s2)(j := of_nat b)\<rparr> else ?s2"
  have bb: "b < SC_DATA" using b(2) by (simp add: free_blocks_def)
  have u: "unat (of_nat b :: u32) = b" using bb by (intro unat_small) (simp add: fs_consts)
  have sec: "unat (HLOC_DATA (of_nat b)) div 512 = 769 + b" using h_sectors(3) [of "of_nat b"] u bb by simp
  have disk: "hdisk ?s' = (hdisk s)(769 + b := ?b)" using sec by (simp add: h_writeData_def fwrite_at_def)
  have "copy_loop (Suc n) j rest s = copy_loop n (Suc j) (drop 512 rest) ?s'" using b(1) by (simp add: Let_def)
  moreover have "hinode ?s' = (if j < NR_BLOCKS then (hinode s)(j := of_nat b) else hinode s)" "hdir ?s' = hdir s"
    by (simp_all add: h_writeData_def fwrite_at_def)
  moreover have "free_blocks ?s' = free_blocks s - {b}"
    using b(3) by (simp add: free_blocks_def h_data_free_def h_writeData_def fwrite_at_def)
  moreover have "hdisk ?s' (769 + b) k = padded rest k" if "k < 512" for k
    using that unfolding disk by (auto simp: padded_def)
  moreover have "hdisk ?s' m = hdisk s m" if "m \<noteq> 769 + b" for m using that unfolding disk by simp
  ultimately show ?thesis using b(2) by blast
qed

lemma copy_loop_spec:
  assumes "n \<le> card (free_blocks s)"
  shows "\<exists>bs. length bs = n \<and> distinct bs \<and> set bs \<subseteq> free_blocks s \<and>
     (\<forall>i. hinode (copy_loop n j rest s) i =
        (if j \<le> i \<and> i < j + n \<and> i < NR_BLOCKS then of_nat (bs ! (i - j)) else hinode s i)) \<and>
     (\<forall>i < n. \<forall>k < 512. hdisk (copy_loop n j rest s) (769 + bs ! i) k = padded rest (512 * i + k)) \<and>
     (\<forall>m. m \<notin> (+) 769 ` set bs \<longrightarrow> hdisk (copy_loop n j rest s) m = hdisk s m) \<and>
     hdir (copy_loop n j rest s) = hdir s"
  using assms
proof (induction n arbitrary: j rest s)
  case 0
  then show ?case by auto
next
  case (Suc n)
  have "free_blocks s \<noteq> {}" using Suc.prems by auto
  then obtain b s3 where eq: "copy_loop (Suc n) j rest s = copy_loop n (Suc j) (drop 512 rest) s3"
      and b: "b \<in> free_blocks s" and free3: "free_blocks s3 = free_blocks s - {b}" and dir3: "hdir s3 = hdir s"
      and hinode3: "hinode s3 = (if j < NR_BLOCKS then (hinode s)(j := of_nat b) else hinode s)"
      and disk3: "\<forall>m. m \<noteq> 769 + b \<longrightarrow> hdisk s3 m = hdisk s m" "\<forall>k < 512. hdisk s3 (769 + b) k = padded rest k"
    using copy_step [of s n j rest] by blast
  have "n \<le> card (free_blocks s3)" using Suc.prems b unfolding free3 by simp
  then obtain bs where bs: "length bs = n" "distinct bs" "set bs \<subseteq> free_blocks s - {b}"
      "\<forall>i. hinode (copy_loop n (Suc j) (drop 512 rest) s3) i =
        (if Suc j \<le> i \<and> i < Suc j + n \<and> i < NR_BLOCKS then of_nat (bs ! (i - Suc j)) else hinode s3 i)"
      "\<forall>i < n. \<forall>k < 512. hdisk (copy_loop n (Suc j) (drop 512 rest) s3) (769 + bs ! i) k
        = padded (drop 512 rest) (512 * i + k)"
      "\<forall>m. m \<notin> (+) 769 ` set bs \<longrightarrow> hdisk (copy_loop n (Suc j) (drop 512 rest) s3) m = hdisk s3 m"
      "hdir (copy_loop n (Suc j) (drop 512 rest) s3) = hdir s3"
    using Suc.IH [of s3 "Suc j" "drop 512 rest"] unfolding free3 by blast
  have nb: "b \<notin> set bs" using bs(3) by auto
  have 1: "hinode (copy_loop (Suc n) j rest s) i =
      (if j \<le> i \<and> i < j + Suc n \<and> i < NR_BLOCKS then of_nat ((b # bs) ! (i - j)) else hinode s i)" for i
  proof (cases "Suc j \<le> i")
    case True
    then have "i - j = Suc (i - Suc j)" by simp
    then show ?thesis unfolding eq using bs(4) hinode3 True by simp
  next
    case False
    then show ?thesis unfolding eq using bs(4) hinode3 by auto
  qed
  have 2: "hdisk (copy_loop (Suc n) j rest s) (769 + (b # bs) ! i) k = padded rest (512 * i + k)"
    if "i < Suc n" "k < 512" for i k
  proof (cases i)
    case 0
    have "769 + b \<notin> (+) 769 ` set bs" using nb by auto
    then show ?thesis unfolding eq using bs(6) disk3(2) 0 that by simp
  next
    case (Suc i')
    then have "hdisk (copy_loop (Suc n) j rest s) (769 + (b # bs) ! i) k = padded (drop 512 rest) (512 * i' + k)"
      unfolding eq using bs(5) that by simp
    then show ?thesis using Suc by (auto simp: padded_def algebra_simps)
  qed
  have 3: "hdisk (copy_loop (Suc n) j rest s) m = hdisk s m" if "m \<notin> (+) 769 ` set (b # bs)" for m
    unfolding eq using bs(6) disk3(1) that by simp
  have 4: "hdir (copy_loop (Suc n) j rest s) = hdir s" unfolding eq using bs(7) dir3 by simp
  show ?case
    using bs(1-3) nb b 1 2 3 4 by (intro exI [of _ "b # bs"]) (simp del: copy_loop.simps, blast)
qed

section \<open>Directory searches\<close>

lemma find_entry_None:
  "find_entry n e0 test d = Inr None \<longleftrightarrow> (\<forall>e. e0 \<le> e \<and> e < e0 + n \<longrightarrow> test (d e) = Inr False)"
proof (induction n arbitrary: e0)
  case (Suc n)
  have "(\<forall>e. e0 \<le> e \<and> e < e0 + Suc n \<longrightarrow> test (d e) = Inr False) \<longleftrightarrow>
      test (d e0) = Inr False \<and> (\<forall>e. Suc e0 \<le> e \<and> e < Suc e0 + n \<longrightarrow> test (d e) = Inr False)"
    by (auto simp: le_split [of e0])
  with Suc.IH [of "Suc e0"] show ?case by (cases "test (d e0)") auto
qed auto

lemma find_entry_Some:
  "find_entry n e0 test d = Inr (Some e) \<longleftrightarrow> e0 \<le> e \<and> e < e0 + n \<and> test (d e) = Inr True \<and>
     (\<forall>e'. e0 \<le> e' \<and> e' < e \<longrightarrow> test (d e') = Inr False)"
proof (induction n arbitrary: e0)
  case (Suc n)
  show ?case
  proof (cases "test (d e0)")
    case (Inl f)
    then show ?thesis by (auto simp: le_less)
  next
    case (Inr b)
    show ?thesis
    proof (cases b)
      case True
      with Inr show ?thesis by (auto simp: le_less)
    next
      case False
      have "(e0 \<le> e \<and> e < e0 + Suc n \<and> test (d e) = Inr True \<and>
            (\<forall>e'. e0 \<le> e' \<and> e' < e \<longrightarrow> test (d e') = Inr False)) \<longleftrightarrow>
          (Suc e0 \<le> e \<and> e < Suc e0 + n \<and> test (d e) = Inr True \<and>
            (\<forall>e'. Suc e0 \<le> e' \<and> e' < e \<longrightarrow> test (d e') = Inr False))"
        using Inr False by (auto simp: le_split [of e0])
      with Suc.IH [of "Suc e0"] Inr False show ?thesis by simp
    qed
  qed
qed auto

text \<open>
  \<open>first_entry sec test d e\<close>: entry \<open>e\<close> of directory sector \<open>d\<close> passes the test and no earlier entry
  does, where \<open>sec\<close> gives the directory sectors.
\<close>

definition first_entry :: "(nat \<Rightarrow> sector) \<Rightarrow> (dirent \<Rightarrow> bool res) \<Rightarrow> nat \<Rightarrow> nat \<Rightarrow> bool" where
  "first_entry sec test d e \<longleftrightarrow> e < NR_ENTRIES \<and> test (dec_dir (sec d) e) = Inr True \<and>
     (\<forall>e' < e. test (dec_dir (sec d) e') = Inr False) \<and>
     (\<forall>d' < d. \<forall>e' < NR_ENTRIES. test (dec_dir (sec d') e') = Inr False)"

lemma find_dir_first:
  assumes "first_entry (\<lambda>j. disk s (ide_sector (LOC_DIR (d0 + of_nat j)))) test j e" "j < n"
  shows "find_dir n d0 test s = Inr (Some (d0 + of_nat j, e),
     s\<lparr>dir := dec_dir (disk s (ide_sector (LOC_DIR (d0 + of_nat j))))\<rparr>)"
  using assms
proof (induction n arbitrary: d0 j s)
  case (Suc n)
  show ?case
  proof (cases j)
    case 0
    then have "find_entry NR_ENTRIES 0 test (dec_dir (disk s (ide_sector (LOC_DIR d0)))) = Inr (Some e)"
      using Suc.prems(1) by (simp add: find_entry_Some first_entry_def)
    then show ?thesis using 0 by (simp add: readDir_def readsect_eq)
  next
    case (Suc i)
    have "find_entry NR_ENTRIES 0 test (dec_dir (disk s (ide_sector (LOC_DIR d0)))) = Inr None"
      using Suc.prems(1) Suc by (auto simp: find_entry_None first_entry_def dest: spec [of _ 0])
    moreover have "first_entry (\<lambda>j. disk (readDir d0 s) (ide_sector (LOC_DIR (d0 + 1 + of_nat j)))) test i e"
      using Suc.prems(1) Suc by (auto simp: first_entry_def readDir_def algebra_simps dest: spec [of _ "Suc _"])
    ultimately show ?thesis
      using Suc.IH [of "readDir d0 s" "d0 + 1" i] Suc Suc.prems(2)
      by (simp add: readDir_def readsect_eq algebra_simps)
  qed
qed simp

lemma h_find_dir_first:
  assumes "h_find_dir n d0 test s = Inr (Some (d, e), s1)"
  shows "\<exists>j < n. d = d0 + of_nat j \<and> s1 = s\<lparr>hdir := dec_dir (fread_at (HLOC_DIR d) s)\<rparr> \<and>
     first_entry (\<lambda>j. fread_at (HLOC_DIR (d0 + of_nat j)) s) test j e"
  using assms
proof (induction n arbitrary: d0 s)
  case (Suc n)
  let ?t = "h_readDir d0 s"
  have rd: "hdir ?t = dec_dir (fread_at (HLOC_DIR d0) s)" "fread_at p ?t = fread_at p s" for p
    by (simp_all add: h_readDir_def fread_at_def)
  obtain r where r: "find_entry NR_ENTRIES 0 test (hdir ?t) = Inr r"
    using Suc.prems by (auto simp: Let_def bind_res_eq_Inr)
  show ?case
  proof (cases r)
    case (Some e')
    then have "e' = e" "d = d0" "s1 = ?t" using Suc.prems r by (auto simp: Let_def)
    then show ?thesis using r Some rd by (auto simp: find_entry_Some first_entry_def h_readDir_def)
  next
    case None
    then have "h_find_dir n (d0 + 1) test ?t = Inr (Some (d, e), s1)" using Suc.prems r by (simp add: Let_def)
    then obtain j where j: "j < n" "d = d0 + 1 + of_nat j" "s1 = ?t\<lparr>hdir := dec_dir (fread_at (HLOC_DIR d) ?t)\<rparr>"
        "first_entry (\<lambda>j. fread_at (HLOC_DIR (d0 + 1 + of_nat j)) ?t) test j e"
      using Suc.IH by blast
    have "first_entry (\<lambda>j. fread_at (HLOC_DIR (d0 + of_nat j)) s) test (Suc j) e"
      using j(4) r None rd
      by (auto simp: first_entry_def find_entry_None algebra_simps less_Suc_eq_0_disj)
    then show ?thesis using j rd by (intro exI [of _ "Suc j"]) (auto simp: h_readDir_def algebra_simps)
  qed
qed simp

section \<open>The directory entry and the blocks of a copied file\<close>

lemma h_readBitmap_loop_dir: "h_readBitmap_loop n (s\<lparr>hdir := d\<rparr>) = (h_readBitmap_loop n s)\<lparr>hdir := d\<rparr>"
  by (induction n) (simp_all add: Let_def fread_at_def cong: if_cong)

lemma dirent_full:
  "(r :: dirent)\<lparr>inode_offset := a, filename := b, file_size := c\<rparr>
     = \<lparr>filename = b, file_size = c, inode_offset = a\<rparr>"
  by (cases r) simp

lemma h_readBitmap_loop_frame:
  "hdisk (h_readBitmap_loop n s) = hdisk s" "hdir (h_readBitmap_loop n s) = hdir s"
  by (induction n) (simp_all add: Let_def fread_at_def)

lemma h_saveBitmap_loop_frame:
  "hdir (h_saveBitmap_loop n s) = hdir s" "hinode (h_saveBitmap_loop n s) = hinode s"
  "n \<le> SC_BITMAP \<Longrightarrow> 256 < m \<Longrightarrow> hdisk (h_saveBitmap_loop n s) m = hdisk s m"
  by (induction n) (simp_all add: Let_def fwrite_at_def h_sectors, simp add: fs_consts)

lemma h_INodeAlloc_free:
  assumes "\<exists>i < SC_INODE. h_inode_free s i"
  obtains i m where "h_INodeAlloc s = (of_nat i, s\<lparr>hbitmap := m\<rparr>)" "i < SC_INODE"
    "free_blocks (s\<lparr>hbitmap := m\<rparr>) = free_blocks s"
proof -
  define i where "i = (LEAST i. i < SC_INODE \<and> h_inode_free s i)"
  have i: "i < SC_INODE" "h_inode_free s i"
    using LeastI_ex [of "\<lambda>i. i < SC_INODE \<and> h_inode_free s i"] assms by (auto simp: i_def)
  have "\<not> h_inode_free s j" if "j < i" for j
    using not_less_Least [of j "\<lambda>i. i < SC_INODE \<and> h_inode_free s i"] that i(1) by (auto simp: i_def)
  moreover have "LOC_DATA (of_nat b) \<noteq> LOC_INODE (of_nat i)" if "b < SC_DATA" for b
  proof
    assume "LOC_DATA (of_nat b) = LOC_INODE (of_nat i)"
    then have "769 + b = 513 + i" using unat_LOC(1) [OF i(1)] unat_LOC(2) [OF that] by metis
    then show False using i(1) by (simp add: fs_consts)
  qed
  ultimately show ?thesis
    using that [OF h_INodeAlloc_taken [OF i] i(1)] by (auto simp: free_blocks_def h_data_free_def sec_free_mark)
qed

text \<open>
  \<open>copied contents name ino bs s s' d e\<close>: the disk of \<open>s'\<close> has the file in entry \<open>e\<close> of directory sector
  \<open>d\<close>, with inode \<open>ino\<close> and data blocks \<open>bs\<close>, and the other directory entries of \<open>s\<close>.
\<close>

definition copied :: "u8 list \<Rightarrow> u8 list \<Rightarrow> nat \<Rightarrow> nat list \<Rightarrow> hostst \<Rightarrow> hostst \<Rightarrow> nat \<Rightarrow> nat \<Rightarrow> bool" where
  "copied contents name ino bs s s' d e \<longleftrightarrow>
     ino < SC_INODE \<and> length bs = (length contents + 511) div 512 \<and> distinct bs \<and> set bs \<subseteq> {..<SC_DATA} \<and>
     (\<forall>i < NR_BLOCKS. dec_inode (hdisk s' (513 + ino)) i = (if i < length bs then of_nat (bs ! i) else - 1)) \<and>
     (\<forall>i < length bs. \<forall>k < 512. hdisk s' (769 + bs ! i) k = padded contents (512 * i + k)) \<and>
     (\<forall>j < SC_DIR. \<forall>e' < NR_ENTRIES. (j \<noteq> d \<or> e' \<noteq> e) \<longrightarrow>
        dec_dir (hdisk s' (257 + j)) e' = dec_dir (hdisk s (257 + j)) e') \<and>
     dec_dir (hdisk s' (257 + d)) e =
       \<lparr>filename = name @ 0 # drop (length name + 1) (filename (dec_dir (hdisk s (257 + d)) e)),
        file_size = of_nat (length contents), inode_offset = of_nat ino\<rparr>"

lemma copy2myfs_spec:
  assumes find: "h_find_dir SC_DIR 0 (same_name_or_free name) s = Inr (Some (of_nat d, e), s1)"
    and s1: "s1 = s\<lparr>hdir := dec_dir (hdisk s (257 + d))\<rparr>" and de: "d < SC_DIR" "e < NR_ENTRIES"
    and name: "length name < LEN_FILENAME"
    and inode: "\<exists>i < SC_INODE. h_inode_free (h_readBitmap s) i"
    and room: "(length contents + 511) div 512 \<le> card (free_blocks (h_readBitmap s))"
  shows "\<exists>s' ino bs. copy2myfs contents name s = Inr s' \<and> copied contents name ino bs s s' d e"
proof -
  let ?n = "(length contents + 511) div 512" and ?D = "dec_dir (hdisk s (257 + d))"
  let ?t = "(h_readBitmap s)\<lparr>hdir := ?D\<rparr>"
  have rb: "h_readBitmap s1 = ?t" unfolding s1 by (simp add: h_readBitmap_def h_readBitmap_loop_dir)
  have "\<exists>i < SC_INODE. h_inode_free ?t i" using inode by (simp add: h_inode_free_def)
  then obtain ino m where ino: "h_INodeAlloc ?t = (of_nat ino, ?t\<lparr>hbitmap := m\<rparr>)" "ino < SC_INODE"
      "free_blocks (?t\<lparr>hbitmap := m\<rparr>) = free_blocks ?t" by (rule h_INodeAlloc_free)
  have uino: "unat (of_nat ino :: u32) = ino" using ino(2) by (intro unat_small) (simp add: fs_consts)
  have len: "length (filename (?D e')) = LEN_FILENAME" for e' by (simp add: dec_dir_def)
  let ?entry = "\<lparr>filename = name @ 0 # drop (length name + 1) (filename (?D e)),
      file_size = of_nat (length contents), inode_offset = of_nat ino\<rparr>"
  let ?ino_buf = "\<lambda>x k. if k < NR_BLOCKS then - 1 else (x k :: u32)"
  define s2 where "s2 = (let s = h_readINode (of_nat ino) (?t\<lparr>hbitmap := m, hdir := ?D(e := ?entry)\<rparr>)
    in s\<lparr>hinode := ?ino_buf (hinode s)\<rparr>)"
  have s2: "hdisk s2 = hdisk s" "hdir s2 = ?D(e := ?entry)" "\<And>k. k < NR_BLOCKS \<Longrightarrow> hinode s2 k = - 1"
      "free_blocks s2 = free_blocks (h_readBitmap s)"
    using ino(3) by (simp_all add: s2_def Let_def h_readINode_def h_readBitmap_def h_readBitmap_loop_frame
        free_blocks_def h_data_free_def)
  define s3 where "s3 = copy_loop ?n 0 contents s2"
  obtain bs where bs: "length bs = ?n" "distinct bs" "set bs \<subseteq> free_blocks (h_readBitmap s)"
      "\<forall>i. hinode s3 i = (if 0 \<le> i \<and> i < 0 + ?n \<and> i < NR_BLOCKS then of_nat (bs ! (i - 0)) else hinode s2 i)"
      "\<forall>i < ?n. \<forall>k < 512. hdisk s3 (769 + bs ! i) k = padded contents (512 * i + k)"
      "\<forall>m. m \<notin> (+) 769 ` set bs \<longrightarrow> hdisk s3 m = hdisk s m" "hdir s3 = ?D(e := ?entry)"
    using copy_loop_spec [of ?n s2 0 contents] room unfolding s2 s3_def [symmetric] by blast
  define s' where "s' = host_printf (''copy success'' @ NL) (h_saveDir (of_nat d) (h_saveBitmap (h_saveINode (of_nat ino) s3)))"
  have "copy2myfs contents name s = Inr s'"
    using name len
    by (simp add: copy2myfs_def find rb ino(1) strcpy_field_ok Let_def s2_def s3_def s'_def
        dirent_full cong: if_cong)
  moreover have disk: "hdisk s' = (hdisk (h_saveBitmap (h_saveINode (of_nat ino) s3)))(257 + d := enc_dir (?D(e := ?entry)))"
  proof -
    have "unat (of_nat d :: u32) = d" using de by (intro unat_small) (simp add: fs_consts)
    then show ?thesis
      using h_sectors(1) [of "of_nat d"] de bs(7)
      by (simp add: s'_def host_printf_def h_saveDir_def fwrite_at_def h_saveBitmap_def h_saveBitmap_loop_frame
          h_saveINode_def)
  qed
  have disk': "hdisk s' m = ((hdisk s3)(513 + ino := enc_inode (hinode s3))) m" if "256 < m" "m \<noteq> 257 + d" for m
    using that h_saveBitmap_loop_frame(3) [of SC_BITMAP m] h_sectors(2) [of "of_nat ino"] ino(2) uino unfolding disk
    by (simp add: h_saveBitmap_def h_saveINode_def fwrite_at_def)
  moreover have "copied contents name ino bs s s' d e"
  proof -
    have d256: "257 + d < 513" "513 + ino < 769" using de ino(2) by (simp_all add: fs_consts)
    have wf: "dir_wf (?D(e := ?entry))" using len name by (simp add: dir_wf_def)
    have dec: "dec_dir (enc_dir (?D(e := ?entry))) e' = (?D(e := ?entry)) e'" if "e' < NR_ENTRIES" for e'
      using dir_codec.dec_enc [OF wf] that by blast
    have "dec_inode (hdisk s' (513 + ino)) i = (if i < length bs then of_nat (bs ! i) else - 1)"
      if "i < NR_BLOCKS" for i
      using inode_codec.dec_enc [of "hinode s3"] that bs(1,4) s2(3) d256 by (simp add: disk')
    moreover have "hdisk s' (769 + bs ! i) k = padded contents (512 * i + k)" if "i < length bs" "k < 512" for i k
      using bs(1,5) that d256 by (simp add: disk')
    moreover have "dec_dir (hdisk s' (257 + j)) e' = dec_dir (hdisk s (257 + j)) e'"
      if "j < SC_DIR" "e' < NR_ENTRIES" "j \<noteq> d \<or> e' \<noteq> e" for j e'
    proof (cases "j = d")
      case True
      then show ?thesis using that dec by (simp add: disk)
    next
      case False
      have "257 + j < 513" using that(1) by (simp add: fs_consts)
      then have "257 + j \<notin> (+) 769 ` set bs" by auto
      then show ?thesis using bs(6) False \<open>257 + j < 513\<close> by (simp add: disk')
    qed
    moreover have "dec_dir (hdisk s' (257 + d)) e = ?entry" using dec [OF de(2)] by (simp add: disk)
    moreover have "set bs \<subseteq> {..<SC_DATA}" using bs(3) by (auto simp: free_blocks_def)
    ultimately show ?thesis using bs(1,2) ino(2) unfolding copied_def by blast
  qed
  ultimately show ?thesis by blast
qed

section \<open>The kernel reads what the host wrote\<close>

lemma open_stream_spec:
  assumes "find_stream NR_FILE_STREAM 0 (fs s) = Some i" "length (st_filename (fs s i)) = LEN_FILENAME"
    and "cstring (filename (dir s e)) = Inr nm" "length nm < LEN_FILENAME"
  shows "\<exists>s'. open_stream d e s = Inr (of_nat i, s') \<and> disk s' = disk s \<and> st_offset (fs s' i) = 0 \<and>
     st_file_size (fs s' i) = file_size (dir s e) \<and> st_inode_offset (fs s' i) = inode_offset (dir s e)"
  using assms by (simp add: open_stream_def Let_def upd_stream_def strcpy_field_ok)

lemma copied_bytes:
  assumes "copied contents name ino bs s s' d e" "disk t = hdisk s'" "k < length contents" "k < 65536"
  shows "file_byte t (of_nat ino) k = contents ! k"
proof -
  have ino: "ino < SC_INODE" using assms(1) by (simp add: copied_def)
  then have "unat (of_nat ino :: u32) = ino" by (intro unat_small) (simp add: fs_consts)
  then have isec: "ide_sector (LOC_INODE (of_nat ino)) = 513 + ino" using sector_numbers(2) [of "of_nat ino"] ino by simp
  let ?i = "k div 512"
  have i: "?i < length bs" "?i < NR_BLOCKS"
    using assms by (simp_all add: copied_def fs_consts less_mult_imp_div_less)
  have "set bs \<subseteq> {..<SC_DATA}" using assms(1) by (simp add: copied_def)
  then have b: "bs ! ?i < SC_DATA" using nth_mem [OF i(1)] by blast
  then have ub: "unat (of_nat (bs ! ?i) :: u32) = bs ! ?i" by (intro unat_small) (simp add: fs_consts)
  then have dsec: "ide_sector (LOC_DATA (of_nat (bs ! ?i))) = 769 + bs ! ?i"
    using sector_numbers(3) [of "of_nat (bs ! ?i)"] b by simp
  have "file_byte t (of_nat ino) k = padded contents (512 * ?i + k mod 512)"
    using assms(1,2) i by (simp add: file_byte_def isec dsec copied_def)
  then show ?thesis using assms(3) by (simp add: padded_def)
qed

text \<open>With two arguments that fit and an input that opens, the program reports the size and copies.\<close>

lemma copy2myfs_main_copies:
  assumes "length path < 30" "length name < 30" "fopen path = Some contents"
  shows "\<exists>out. copy2myfs_main [tool, path, name] fopen s = copy2myfs contents name (host_printf out s)"
proof -
  obtain ds where "print_dec (of_nat (length contents)) = Inr ds" using print_dec_spec by blast
  then show ?thesis using assms by (auto simp: copy2myfs_main_def NL_def XGET_int_def)
qed

text \<open>
  C15. From the host to the kernel: after \<^verbatim>\<open>copy2myfs\<close> has put a file of 1 to 65535 bytes on an image with
  enough room, a kernel that runs on this image and has a free stream opens the file by its name,
  and one read of its length returns its contents.
\<close>

theorem copied_file_readable:
  assumes copy: "copy2myfs contents name s = Inr s'"
    and room: "\<exists>i < SC_INODE. h_inode_free (h_readBitmap s) i"
      "(length contents + 511) div 512 \<le> card (free_blocks (h_readBitmap s))"
    and name: "length name < LEN_FILENAME" "0 \<notin> set name"
    and len: "0 < length contents" "length contents < 65536"
    and kernel: "disk t = hdisk s'" "find_stream NR_FILE_STREAM 0 (fs t) = Some i"
      "length (st_filename (fs t i)) = LEN_FILENAME"
  shows "\<exists>t1 t2. fs_open_kr name t = Inr (of_nat i, t1) \<and>
     fs_read_kr (of_nat i) (of_nat (length contents)) t1 = Inr (of_nat (length contents), contents, t2)"
proof -
  let ?test = "\<lambda>e. bind_res (strcmp_field (filename e) name) (\<lambda>r. Inr (r = 0))"
  obtain d' e s1 where find: "h_find_dir SC_DIR 0 (same_name_or_free name) s = Inr (Some (d', e), s1)"
    using copy by (auto simp: copy2myfs_def bind_res_eq_Inr split: option.splits)
  obtain d where d: "d < SC_DIR" "d' = of_nat d" "s1 = s\<lparr>hdir := dec_dir (fread_at (HLOC_DIR d') s)\<rparr>"
      and first: "first_entry (\<lambda>j. fread_at (HLOC_DIR (0 + of_nat j)) s) (same_name_or_free name) d e"
    using h_find_dir_first [OF find] by auto
  have hsec: "fread_at (HLOC_DIR (of_nat j)) s = hdisk s (257 + j)" if "j < SC_DIR" for j
  proof -
    have "unat (of_nat j :: u32) = j" using that by (intro unat_small) (simp add: fs_consts)
    then show ?thesis using h_sectors(1) [of "of_nat j"] that by (simp add: fread_at_def)
  qed
  have ksec: "disk t (ide_sector (LOC_DIR (of_nat j))) = hdisk s' (257 + j)" if "j < SC_DIR" for j
  proof -
    have "unat (of_nat j :: u32) = j" using that by (intro unat_small) (simp add: fs_consts)
    then show ?thesis using sector_numbers(1) [of "of_nat j"] that kernel(1) by simp
  qed
  have e: "e < NR_ENTRIES" using first by (simp add: first_entry_def)
  have "\<exists>s'' ino bs. copy2myfs contents name s = Inr s'' \<and> copied contents name ino bs s s'' d e"
    using find d hsec by (intro copy2myfs_spec [OF _ _ d(1) e name(1) room]) auto
  then obtain ino bs where c: "copied contents name ino bs s s' d e" using copy by auto
  let ?entry = "dec_dir (hdisk s' (257 + d)) e"
  have entry: "filename ?entry = name @ 0 # drop (length name + 1) (filename (dec_dir (hdisk s (257 + d)) e))"
      "file_size ?entry = of_nat (length contents)" "inode_offset ?entry = of_nat ino"
    using c by (simp_all add: copied_def)
  have no: "?test x = Inr False" if "same_name_or_free name x = Inr False" for x
    using that by (auto simp: same_name_or_free_def bind_res_eq_Inr)
  have same: "dec_dir (hdisk s' (257 + j)) e' = dec_dir (hdisk s (257 + j)) e'"
    if "j < SC_DIR" "e' < NR_ENTRIES" "j \<noteq> d \<or> e' \<noteq> e" for j e'
    using c that unfolding copied_def by blast
  have "?test (dec_dir (hdisk s' (257 + d)) e) = Inr True" using entry(1) name(2) by (simp add: strcmp_field_same)
  moreover have "?test (dec_dir (hdisk s' (257 + d)) e') = Inr False" if "e' < e" for e'
    using first that d(1) e same [of d e'] by (intro no) (simp add: first_entry_def hsec)
  moreover have "?test (dec_dir (hdisk s' (257 + j)) e') = Inr False" if "j < d" "e' < NR_ENTRIES" for j e'
    using first that d(1) same [of j e'] by (intro no) (simp add: first_entry_def hsec)
  ultimately have "first_entry (\<lambda>j. disk t (ide_sector (LOC_DIR (0 + of_nat j)))) ?test d e"
    using d(1) e by (simp add: first_entry_def ksec)
  then have found: "find_dir SC_DIR 0 ?test t = Inr (Some (0 + of_nat d, e), t\<lparr>dir := dec_dir (hdisk s' (257 + d))\<rparr>)"
    using find_dir_first [of t 0 ?test d e SC_DIR] d(1) ksec [OF d(1)] by simp
  obtain t1 where t1: "open_stream (of_nat d) e (t\<lparr>dir := dec_dir (hdisk s' (257 + d))\<rparr>) = Inr (of_nat i, t1)"
      "disk t1 = hdisk s'" "st_offset (fs t1 i) = 0" "st_file_size (fs t1 i) = of_nat (length contents)"
      "st_inode_offset (fs t1 i) = of_nat ino"
    using open_stream_spec [of "t\<lparr>dir := dec_dir (hdisk s' (257 + d))\<rparr>" i e name "of_nat d"]
      kernel name entry cstring_field by auto
  have "fs_open_kr name t = Inr (of_nat i, t1)" using found t1(1) by (simp add: fs_open_kr_def)
  moreover have "stream (of_nat i) = Inr i"
  proof -
    have "i < NR_FILE_STREAM" using find_stream_range [OF kernel(2)] by simp
    then show ?thesis using unat_small [of i] by (simp add: stream_def fs_consts)
  qed
  then have "\<exists>t2. fs_read_kr (of_nat i) (of_nat (length contents)) t1 =
      Inr (of_nat (length contents), map (file_byte t1 (of_nat ino)) [0..<length contents], t2)"
    using fs_read_effect [of "of_nat i" i t1 0 "length contents" "length contents"] t1 len by auto
  moreover have "map (file_byte t1 (of_nat ino)) [0..<length contents] = contents"
    using copied_bytes [OF c t1(2)] len(2) by (intro nth_equalityI) auto
  ultimately show ?thesis by auto
qed

section \<open>A formatted disk\<close>

lemma image_formatter:
  "image (formatter boot) m =
     (if m = 0 then boot else if m \<le> 256 then (\<lambda>_. 0) else if m \<le> 512 then enc_dir (\<lambda>_. blank_entry)
      else if m \<le> 768 then enc_inode (\<lambda>_. 0) else (\<lambda>_. 0))"
proof -
  let ?z = "map (\<lambda>count. (\<lambda>k. 0 :: u8)) [0..<SC_BITMAP]" and ?d = "map (\<lambda>count. enc_dir (\<lambda>j. blank_entry)) [0..<SC_DIR]"
    and ?i = "map (\<lambda>count. enc_inode (\<lambda>j. 0)) [0..<SC_INODE]" and ?b = "map (\<lambda>count. (\<lambda>k. 0 :: u8)) [0..<SC_DATA]"
  have len: "length ?z = 256" "length ?d = 256" "length ?i = 256" "length ?b = 32768" by (simp_all add: fs_consts)
  have f: "formatter boot = boot # ?z @ ?d @ ?i @ ?b" by (simp add: formatter_def)
  consider "m = 0" | "0 < m" "m \<le> 256" | "256 < m" "m \<le> 512" | "512 < m" "m \<le> 768" | "768 < m" by linarith
  then show ?thesis
  proof cases
    case 1
    then show ?thesis by (simp add: image_def f)
  next
    case 2
    then have "m - Suc 0 < 256" by simp
    with 2 show ?thesis by (simp add: image_def f nth_Cons' nth_append fs_consts del: upt_rec_numeral)
  next
    case 3
    then have "\<not> m - Suc 0 < 256" "m - 257 < 256" by simp_all
    with 3 show ?thesis by (simp add: image_def f nth_Cons' nth_append fs_consts del: upt_rec_numeral)
  next
    case 4
    then have "\<not> m - Suc 0 < 256" "\<not> m - 257 < 256" "m - 513 < 256" by simp_all
    with 4 show ?thesis by (simp add: image_def f nth_Cons' nth_append fs_consts del: upt_rec_numeral)
  next
    case 5
    then show ?thesis by (auto simp: image_def f nth_Cons' nth_append fs_consts simp del: upt_rec_numeral)
  qed
qed

lemma enc_inode_zero: "enc_inode (\<lambda>_. 0) k = 0"
  by (simp add: enc_inode_def le32_byte_def)

lemma blank_wf: "dir_wf (\<lambda>_. blank_entry)"
  by (simp add: dir_wf_def blank_entry_def)

lemma formatted_entry: "j < SC_DIR \<Longrightarrow> e < NR_ENTRIES \<Longrightarrow> dec_dir (image (formatter boot) (257 + j)) e = blank_entry"
  using dir_codec.dec_enc [OF blank_wf] by (simp add: image_formatter) (simp add: fs_consts)

lemma formatted_bitmap_zero: "image (formatter boot) (1 + 512 * c) k = 0"
proof -
  have "c = 0 \<or> c = 1 \<or> 2 \<le> c" by auto
  then show ?thesis by (auto simp: image_formatter enc_inode_zero)
qed

lemma find_dir_none:
  assumes "\<And>j e. j < n \<Longrightarrow> e < NR_ENTRIES \<Longrightarrow>
    test (dec_dir (disk s (ide_sector (LOC_DIR (d0 + of_nat j)))) e) = Inr False"
  shows "\<exists>s'. find_dir n d0 test s = Inr (None, s') \<and> disk s' = disk s"
  using assms
proof (induction n arbitrary: d0 s)
  case (Suc n)
  have "find_entry NR_ENTRIES 0 test (dec_dir (disk s (ide_sector (LOC_DIR d0)))) = Inr None"
    using Suc.prems [of 0] by (simp add: find_entry_None)
  moreover have "\<exists>s'. find_dir n (d0 + 1) test (readDir d0 s) = Inr (None, s') \<and> disk s' = disk (readDir d0 s)"
    by (rule Suc.IH) (use Suc.prems [of "Suc _"] in \<open>simp add: readDir_def algebra_simps\<close>)
  ultimately show ?case by (auto simp: readDir_def readsect_eq)
qed simp

text \<open>
  A freshly formatted disk is an empty file system for the kernel: every data block and every
  inode is unused, opening any name fails without changing the disk, and a first new file gets
  inode 0.
\<close>

theorem formatted_disk_empty:
  assumes "disk t = image (formatter boot)" "name \<noteq> []" "0 \<notin> set name"
  shows "(\<forall>b. data_free t b) \<and> (\<forall>i. inode_free t i) \<and>
     (\<exists>t'. fs_open_kr name t = Inr (- 1, t') \<and> disk t' = disk t) \<and> fst (INodeAlloc t) = 0"
proof -
  have free: "data_free t b" "inode_free t b" for b
    using assms(1) formatted_bitmap_zero [of boot]
    by (simp_all add: data_free_def inode_free_def sec_free_bit bitmap_view_def)
  obtain c cs where c: "name = c # cs" "c \<noteq> 0" using assms(2,3) by (cases name) auto
  have t: "bind_res (strcmp_field (filename blank_entry) name) (\<lambda>r. Inr (r = 0)) = Inr False"
    using c by (simp add: blank_entry_def LEN_FILENAME_def numeral_eq_Suc unsigned_eq_0_iff)
  have "\<exists>t'. find_dir SC_DIR 0 (\<lambda>e. bind_res (strcmp_field (filename e) name) (\<lambda>r. Inr (r = 0))) t
      = Inr (None, t') \<and> disk t' = disk t"
  proof (rule find_dir_none)
    fix j e assume j: "j < SC_DIR" "e < NR_ENTRIES"
    have "unat (of_nat j :: u32) = j" using j by (intro unat_small) (simp add: fs_consts)
    then have "ide_sector (LOC_DIR (0 + of_nat j)) = 257 + j" using sector_numbers(1) [of "of_nat j"] j by simp
    then show "bind_res (strcmp_field (filename (dec_dir (disk t (ide_sector (LOC_DIR (0 + of_nat j)))) e)) name)
        (\<lambda>r. Inr (r = 0)) = Inr False"
      using formatted_entry [OF j] assms(1) t by simp
  qed
  moreover have "fst (INodeAlloc t) = 0" using INodeAlloc_taken [of 0 t] free by (auto simp: fs_consts)
  ultimately show ?thesis using free by (auto simp: fs_open_kr_def)
qed

definition blank_host :: hostst where
  "blank_host = \<lparr>hdisk = image (formatter (\<lambda>_. 0)), hbitmap = (\<lambda>_. 0), hinode = (\<lambda>_. 0),
     hdir = (\<lambda>_. blank_entry), hbuffer = (\<lambda>_. 0), hout = []\<rparr>"

theorem formatted_disk_empty_witness:
  "fst (INodeAlloc (fs_sample (image (formatter (\<lambda>_. 0))))) = 0"
  using formatted_disk_empty [of "fs_sample (image (formatter (\<lambda>_. 0)))" "\<lambda>_. 0" "[65]"] by simp

lemma blank_host_find:
  "h_find_dir SC_DIR 0 (same_name_or_free [65]) blank_host
     = Inr (Some (0, 0), blank_host\<lparr>hdir := dec_dir (hdisk blank_host 257)\<rparr>)"
proof -
  have rd: "fread_at (HLOC_DIR 0) blank_host = hdisk blank_host 257"
    using h_sectors(1) [of 0] by (simp add: fread_at_def fs_consts)
  have "dec_dir (hdisk blank_host 257) 0 = blank_entry"
    using formatted_entry [of 0 0] by (simp add: blank_host_def fs_consts)
  moreover have "same_name_or_free [65] blank_entry = Inr True"
    by (simp add: same_name_or_free_def blank_entry_def LEN_FILENAME_def numeral_eq_Suc)
  ultimately have "find_entry NR_ENTRIES 0 (same_name_or_free [65]) (dec_dir (hdisk blank_host 257)) = Inr (Some 0)"
    by (subst find_entry_Some) (simp add: NR_ENTRIES_def BLOCK_SIZE_def)
  moreover have "h_readDir 0 blank_host = blank_host\<lparr>hdir := dec_dir (hdisk blank_host 257)\<rparr>"
    using rd by (simp only: h_readDir_def)
  ultimately have "h_find_dir (Suc n) 0 (same_name_or_free [65]) blank_host
      = Inr (Some (0, 0), blank_host\<lparr>hdir := dec_dir (hdisk blank_host 257)\<rparr>)" for n
    by (simp add: Let_def)
  then have "h_find_dir (Suc (SC_DIR - 1)) 0 (same_name_or_free [65]) blank_host
      = Inr (Some (0, 0), blank_host\<lparr>hdir := dec_dir (hdisk blank_host 257)\<rparr>)" .
  moreover have "Suc (SC_DIR - 1) = SC_DIR" by (simp add: SC_DIR_def)
  ultimately show ?thesis by (simp only:)
qed

lemma h_readBitmap_zero:
  assumes "\<And>m. m \<le> 256 \<Longrightarrow> 0 < m \<Longrightarrow> hdisk s m = (\<lambda>_. 0)" "hbitmap s = (\<lambda>_. 0)" "n \<le> SC_BITMAP"
  shows "hbitmap (h_readBitmap_loop n s) = (\<lambda>_. 0)"
  using assms(3)
proof (induction n)
  case (Suc n)
  have "hdisk s (unat (HLOC_BITMAP + 512 * of_nat n) div 512) = (\<lambda>_. 0)"
    using h_sectors(4) [of n] Suc.prems by (simp add: assms(1)) (simp add: fs_consts assms(1))
  with Suc show ?case by (simp add: Let_def fread_at_def h_readBitmap_loop_frame cong: if_cong)
qed (simp add: assms(2))

lemma blank_host_room:
  "h_inode_free (h_readBitmap blank_host) i" "free_blocks (h_readBitmap blank_host) = {..<SC_DATA}"
proof -
  have "hbitmap (h_readBitmap blank_host) = (\<lambda>_. 0)"
    unfolding h_readBitmap_def by (rule h_readBitmap_zero) (auto simp: blank_host_def image_formatter)
  then show "h_inode_free (h_readBitmap blank_host) i" "free_blocks (h_readBitmap blank_host) = {..<SC_DATA}"
    by (auto simp: h_inode_free_def free_blocks_def h_data_free_def sec_free_bit)
qed

theorem copied_file_readable_witness:
  "\<exists>s' t1 t2. copy2myfs [1, 2, 3] [65] blank_host = Inr s' \<and>
     fs_open_kr [65] (fs_sample (hdisk s')) = Inr (0, t1) \<and> fs_read_kr 0 3 t1 = Inr (3, [1, 2, 3], t2)"
proof -
  have "\<exists>i < SC_INODE. h_inode_free (h_readBitmap blank_host) i"
    using blank_host_room by (intro exI [of _ 0]) (simp add: fs_consts)
  note room = this
  then obtain s' where s': "copy2myfs [1, 2, 3] [65] blank_host = Inr s'"
    using copy2myfs_spec [of "[65]" blank_host 0 0 _ "[1, 2, 3]"] blank_host_find blank_host_room
    by (auto simp: fs_consts)
  have "find_stream NR_FILE_STREAM 0 (fs (fs_sample (hdisk s'))) = Some 0"
    by (simp add: fs_sample_def procst.defs NR_FILE_STREAM_def numeral_eq_Suc)
  moreover have "length (st_filename (fs (fs_sample (hdisk s')) 0)) = LEN_FILENAME"
    by (simp add: fs_sample_def procst.defs LEN_FILENAME_def)
  ultimately show ?thesis
    using copied_file_readable [OF s', of "fs_sample (hdisk s')" 0] s' room blank_host_room
    by (auto simp: fs_consts)
qed

end
