(* ===== verification/Keyboard.thy ===== *)
theory Keyboard
  imports Clib
begin

text \<open>
  The keyboard driver and line editor: \<^verbatim>\<open>src/kernel/src/keyboard.c\<close> and the key codes of
  \<^verbatim>\<open>src/kernel/include/keyboard.h\<close>.  The static variables of the file are the fields of one record.
  The data port of the keyboard is the list of the scan codes that the keyboard will deliver, in
  order; the register keeps its last value until the next code arrives, so polling the port without
  waiting skips to the next code.  Waiting with no code left never ends.
\<close>

section \<open>State and tables\<close>

definition KEY_HOME :: u8 where "KEY_HOME = 0xE0"
definition KEY_END :: u8 where "KEY_END = 0xE1"
definition KEY_UP :: u8 where "KEY_UP = 0xE2"
definition KEY_DN :: u8 where "KEY_DN = 0xE3"
definition KEY_LF :: u8 where "KEY_LF = 0xE4"
definition KEY_RT :: u8 where "KEY_RT = 0xE5"
definition KEY_PGUP :: u8 where "KEY_PGUP = 0xE6"
definition KEY_PGDN :: u8 where "KEY_PGDN = 0xE7"
definition KEY_INS :: u8 where "KEY_INS = 0xE8"
definition KEY_DEL :: u8 where "KEY_DEL = 0xE9"

definition NO :: u8 where "NO = 0"

definition SHIFT :: u32 where "SHIFT = push_bit 0 1"
definition CTL :: u32 where "CTL = push_bit 1 1"
definition ALT :: u32 where "ALT = push_bit 2 1"
definition CAPSLOCK :: u32 where "CAPSLOCK = push_bit 3 1"
definition NUMLOCK :: u32 where "NUMLOCK = push_bit 4 1"
definition SCROLLLOCK :: u32 where "SCROLLLOCK = push_bit 5 1"
definition E0ESC :: u32 where "E0ESC = push_bit 6 1"

lemmas key_consts = KEY_HOME_def KEY_END_def KEY_UP_def KEY_DN_def KEY_LF_def KEY_RT_def KEY_PGUP_def
  KEY_PGDN_def KEY_INS_def KEY_DEL_def NO_def
lemmas flag_consts = SHIFT_def CTL_def ALT_def CAPSLOCK_def NUMLOCK_def SCROLLLOCK_def E0ESC_def

definition BUFLEN :: nat where "BUFLEN = 1024"
definition NR_HISTORY :: nat where "NR_HISTORY = 200"
definition LEN_HISTORY :: nat where "LEN_HISTORY = 512"

definition letter :: "u32 list" where
  "letter = [30, 48, 46, 32, 18, 33, 34, 35, 23, 36,
     37, 38, 50, 49, 24, 25, 16, 19, 31, 20,
     22, 47, 17, 45, 21, 44]"

record kbd =
  keydown :: "nat \<Rightarrow> int"
  lastkey :: nat
  ctrl :: int
  shift :: u32
  buf :: "u8 list"
  history :: "nat \<Rightarrow> u8 list"
  history_id :: int

text \<open>All of it is static storage, which starts as zero.\<close>

definition kbd_init :: kbd where
  "kbd_init = \<lparr>keydown = (\<lambda>_. 0), lastkey = 0, ctrl = 0, shift = 0, buf = replicate BUFLEN 0,
     history = (\<lambda>_. replicate LEN_HISTORY 0), history_id = 0\<rparr>"

text \<open>An array of 256 bytes given by its first elements and by designated elements.\<close>

definition table :: "u8 list \<Rightarrow> (u8 \<times> u8) list \<Rightarrow> u8 \<Rightarrow> u8" where
  "table row ds i =
     (case map_of ds i of Some v \<Rightarrow> v | None \<Rightarrow> if unat i < length row then row ! unat i else 0)"

definition shiftcode :: "u8 \<Rightarrow> u8" where
  "shiftcode = table [] [(0x1D, ucast CTL), (0x2A, ucast SHIFT), (0x36, ucast SHIFT), (0x38, ucast ALT),
     (0x9D, ucast CTL), (0xB8, ucast ALT)]"

definition togglecode :: "u8 \<Rightarrow> u8" where
  "togglecode = table [] [(0x3A, ucast CAPSLOCK), (0x45, ucast NUMLOCK), (0x46, ucast SCROLLLOCK)]"

definition special_keys :: "(u8 \<times> u8) list" where
  "special_keys = [(0xC7, KEY_HOME), (0x9C, 0x0A), (0xB5, 0x2F), (0xC8, KEY_UP), (0xC9, KEY_PGUP),
     (0xCB, KEY_LF), (0xCD, KEY_RT), (0xCF, KEY_END), (0xD0, KEY_DN), (0xD1, KEY_PGDN),
     (0xD2, KEY_INS), (0xD3, KEY_DEL)]"

definition normal_row :: "u8 list" where
  "normal_row =
     [NO, 0x1B] @ of_string ''1234567890-='' @ [0x08, 0x09] @ of_string ''qwertyuiop[]'' @
      [0x0A, NO] @ of_string ''asdfghjkl;'' @ [0x27, 0x60, NO, 0x5C] @ of_string ''zxcvbnm,./'' @
      [NO, 0x2A, NO, 0x20] @ replicate 13 NO @ of_string ''789-456+1230.'' @ [NO, NO, NO, NO]"

definition normalmap :: "u8 \<Rightarrow> u8" where
  "normalmap = table normal_row special_keys"

definition shift_row :: "u8 list" where
  "shift_row =
     [NO, 0x1B] @ of_string ''!@#$%^&*()_+'' @ [0x08, 0x09] @ of_string ''QWERTYUIOP{}'' @
      [0x0A, NO] @ of_string ''ASDFGHJKL:'' @ [0x22, 0x7E, NO, 0x7C] @ of_string ''ZXCVBNM<>?'' @
      [NO, 0x2A, NO, 0x20] @ replicate 13 NO @ of_string ''789-456+1230.'' @ [NO, NO, NO, NO]"

definition shiftmap :: "u8 \<Rightarrow> u8" where
  "shiftmap = table shift_row special_keys"

definition C :: "u8 \<Rightarrow> u8" where "C x = x - 0x40"

definition ctl_row :: "u8 list" where
  "ctl_row =
     replicate 16 NO @ map C (of_string ''QWERTYUIOP'') @ [NO, NO, 0x0D, NO] @
      map C (of_string ''ASDFGHJKL'') @ [NO, NO, NO, NO, C 0x5C] @ map C (of_string ''ZXCVBNM'') @
      [NO, NO, C 0x2F, NO, NO]"

definition ctl_keys :: "(u8 \<times> u8) list" where
  "ctl_keys = [(0x97, KEY_HOME), (0xB5, C 0x2F), (0xC8, KEY_UP), (0xC9, KEY_PGUP), (0xCB, KEY_LF), (0xCD, KEY_RT),
      (0xCF, KEY_END), (0xD0, KEY_DN), (0xD1, KEY_PGDN), (0xD2, KEY_INS), (0xD3, KEY_DEL)]"

definition ctlmap :: "u8 \<Rightarrow> u8" where
  "ctlmap = table ctl_row ctl_keys"

definition charcode :: "(u8 \<Rightarrow> u8) list" where
  "charcode = [normalmap, shiftmap, ctlmap, ctlmap]"

section \<open>Keys held down\<close>

definition get_key :: "u8 \<Rightarrow> kbd \<Rightarrow> int res" where
  "get_key s k =
     (let i = sint s - 97 in if 0 \<le> i \<and> i < 26 then Inr (keydown k (nat i)) else Inl OutOfBounds)"

definition get_lastkey :: "kbd \<Rightarrow> u8" where
  "get_lastkey k = of_nat (lastkey k) + 97"

text \<open>The search loop over \<^verbatim>\<open>letter\<close>.\<close>

primrec find_letter :: "nat \<Rightarrow> nat \<Rightarrow> u32 \<Rightarrow> nat option" where
  "find_letter 0 i code = None"
| "find_letter (Suc n) i code = (if letter ! i = code then Some i else find_letter n (Suc i) code)"

definition press_key :: "u32 \<Rightarrow> kbd \<Rightarrow> kbd" where
  "press_key code k =
     (if code AND 0x80 = 0 then
        (let k = (if code = 0x1D then k\<lparr>ctrl := 1\<rparr> else k) in
         case find_letter 26 0 code of
           Some i \<Rightarrow> k\<lparr>keydown := (keydown k)(i := 1), lastkey := i\<rparr>
         | None \<Rightarrow> k)
      else
        (let code = code AND 0x7F;
             k = (if code = 0x1D then k\<lparr>ctrl := 0\<rparr> else k) in
         case find_letter 26 0 code of
           Some i \<Rightarrow> k\<lparr>keydown := (keydown k)(i := 0)\<rparr>
         | None \<Rightarrow> k))"

definition ctrl_c :: "kbd \<Rightarrow> bool \<times> kbd" where
  "ctrl_c k =
     (let ctrlc = ctrl k \<noteq> 0 \<and> keydown k 2 \<noteq> 0 in
      (ctrlc, if ctrlc then k\<lparr>ctrl := 0, keydown := (keydown k)(2 := 0)\<rparr> else k))"

section \<open>Characters\<close>

definition wait_key :: "u8 list \<Rightarrow> unit res" where
  "wait_key inp = (if inp = [] then Inl Diverge else Inr ())"

text \<open>The effect of Caps Lock.\<close>

definition swap_case :: "bool \<Rightarrow> u8 \<Rightarrow> u8" where
  "swap_case caps c = (if caps then
      (if 0x61 \<le> c \<and> c \<le> 0x7A then c - 0x20 else if 0x41 \<le> c \<and> c \<le> 0x5A then c + 0x20 else c) else c)"

text \<open>\<open>poll_code\<close> is \<^verbatim>\<open>poll_key\<close> after the scan code has been read.\<close>

definition poll_code :: "u8 \<Rightarrow> u32 \<Rightarrow> u8 \<times> u32" where
  "poll_code data sh =
     (if data = 0xE0 then (0, sh OR E0ESC)
      else if data AND 0x80 \<noteq> 0 then
        (let data = (if sh AND E0ESC \<noteq> 0 then data else data AND 0x7F) in
         (0, sh AND NOT (ucast (shiftcode data) OR E0ESC)))
      else
        (let (data, sh) = (if sh AND E0ESC \<noteq> 0 then (data OR 0x80, sh AND NOT E0ESC) else (data, sh));
             sh = sh OR ucast (shiftcode data);
             sh = sh XOR ucast (togglecode data);
             c = (charcode ! unat (sh AND (CTL OR SHIFT))) data;
             c = swap_case (sh AND CAPSLOCK \<noteq> 0) c
         in (c, sh)))"

fun poll_key :: "u8 list \<Rightarrow> u32 \<Rightarrow> (u8 \<times> u8 list \<times> u32) res" where
  "poll_key [] sh = Inl Diverge"
| "poll_key (data # inp) sh =
     (if data = 0x08 then poll_key inp sh
      else (let (c, sh) = poll_code data sh in Inr (c, inp, sh)))"

definition getchar :: "u8 list \<Rightarrow> u32 \<Rightarrow> (u8 \<times> u8 list \<times> u32) res" where
  "getchar inp sh = bind_res (wait_key inp) (\<lambda>_. poll_key inp sh)"

lemma getchar_shorter: "getchar inp sh = Inr (c, inp', sh') \<Longrightarrow> length inp' < length inp"
proof -
  have "poll_key inp sh = Inr (c, inp', sh') \<Longrightarrow> length inp' < length inp"
    by (induction inp sh rule: poll_key.induct) (auto simp: Let_def split: if_splits prod.splits)
  then show "getchar inp sh = Inr (c, inp', sh') \<Longrightarrow> length inp' < length inp"
    by (auto simp: getchar_def bind_res_eq_Inr)
qed

section \<open>The line editor\<close>

text \<open>
  \<open>erase i\<close> is what wipes a line of \<open>i\<close> characters from the terminal.  \<open>recall\<close> is the common body of
  the two history keys: copy the line into the buffer and redraw it.
\<close>

definition erase :: "nat \<Rightarrow> string" where
  "erase i = concat (replicate i [CHR 0x08, CHR '' '', CHR 0x08])"

definition recall :: "int \<Rightarrow> nat \<Rightarrow> kbd \<Rightarrow> (nat \<times> string \<times> kbd) res" where
  "recall hid i k =
     bind_res (cstring (history k (nat hid))) (\<lambda>h.
     bind_res (strcpy_field (buf k) h) (\<lambda>b.
     bind_res (strlen b) (\<lambda>n.
     Inr (n, erase i @ to_string (take n b), k\<lparr>history_id := hid, buf := b\<rparr>))))"

text \<open>
  The end of a line: terminate the buffer and copy it to the row \<^verbatim>\<open>history[history_id]\<close>, which must be
  one of the 200 rows and has 512 bytes.
\<close>

definition enter_line :: "nat \<Rightarrow> kbd \<Rightarrow> kbd res" where
  "enter_line i k =
     (let k = k\<lparr>buf := (buf k)[i := 0]\<rparr>; hid = nat (history_id k) in
      if 0 \<le> history_id k \<and> hid < NR_HISTORY then
        bind_res (cstring (buf k)) (\<lambda>line.
        bind_res (strcpy_field (history k hid) line) (\<lambda>row.
        Inr (k\<lparr>history := (history k)(hid := row), history_id := history_id k + 1\<rparr>)))
      else Inl OutOfBounds)"

function readline_loop ::
  "nat \<Rightarrow> u8 list \<Rightarrow> kbd \<Rightarrow> string \<Rightarrow> (u8 list option \<times> u8 list \<times> string \<times> kbd) res" where
  "readline_loop i inp k out =
     bind_res (getchar inp (shift k)) (\<lambda>(c, inp, sh).
     let k = k\<lparr>shift := sh\<rparr> in
     if c = KEY_UP then
       (if history_id k > 0 then
          bind_res (recall (history_id k - 1) i k) (\<lambda>(i, o', k). readline_loop i inp k (out @ o'))
        else readline_loop i inp k out)
     else if c = KEY_DN then
       (if history_id k < 199 then
          bind_res (recall (history_id k + 1) i k) (\<lambda>(i, o', k). readline_loop i inp k (out @ o'))
        else readline_loop i inp k out)
     else if uint c < 0 then Inr (None, inp, out @ ''read error: '' @ NL, k)
     else if (c = 0x08 \<or> c = 0x7F) \<and> i > 0 then
       readline_loop (i - 1) inp k (out @ [CHR 0x08, CHR '' '', CHR 0x08])
     else if c \<ge> 0x20 \<and> i < BUFLEN - 1 then
       readline_loop (i + 1) inp (k\<lparr>buf := (buf k)[i := c]\<rparr>) (out @ to_string [c])
     else if c = 0x0A \<or> c = 0x0D then
       bind_res (enter_line i k) (\<lambda>k. Inr (Some (buf k), inp, out @ NL, k))
     else readline_loop i inp k out)"
  by pat_completeness auto
termination by (relation "measure (\<lambda>(i, inp, k, out). length inp)") (auto dest: getchar_shorter)

declare readline_loop.simps [simp del]

definition readline :: "string option \<Rightarrow> u8 list \<Rightarrow> kbd \<Rightarrow> (u8 list option \<times> u8 list \<times> string \<times> kbd) res" where
  "readline prompt inp k = readline_loop 0 inp k (case prompt of None \<Rightarrow> [] | Some p \<Rightarrow> p)"

section \<open>Scan codes of the letters\<close>

lemma find_letter_spec:
  "find_letter n i code = find (\<lambda>j. letter ! j = code) [i..<i + n]"
proof (induction n arbitrary: i)
  case (Suc n)
  have "[i..<i + Suc n] = i # [Suc i..<Suc i + n]" by (subst upt_conv_Cons) simp_all
  with Suc show ?case by (simp del: upt_Suc)
qed simp

lemma letter_length: "length letter = 26"
  by (simp add: letter_def)

lemma letter_distinct: "distinct letter"
  by (simp add: letter_def)

lemma letter_make: "\<forall>c \<in> set letter. c AND 0x80 = 0 \<and> c AND 0x7F = c"
  by (simp add: letter_def)

lemma find_letter_nth: "j < 26 \<Longrightarrow> find_letter 26 0 (letter ! j) = Some j"
proof -
  assume j: "j < 26"
  have "find (\<lambda>i. letter ! i = letter ! j) [0..<26] = Some j"
    using j letter_distinct by (subst find_Some_iff) (auto simp: nth_eq_iff_index_eq letter_length intro!: exI [of _ j])
  then show ?thesis by (simp add: find_letter_spec)
qed

lemma find_letter_Some: "find_letter 26 0 code = Some j \<Longrightarrow> j < 26 \<and> letter ! j = code"
  by (auto simp: find_letter_spec find_Some_iff)

section \<open>Which keys are down\<close>

text \<open>
  The specification reads the history of scan codes: a key is held if its make code occurs and its
  break code does not occur after that.
\<close>

definition held :: "u8 list \<Rightarrow> u8 \<Rightarrow> bool" where
  "held codes mk \<longleftrightarrow> (\<exists>pre post. codes = pre @ mk # post \<and> (mk OR 0x80) \<notin> set post)"

lemma held_Nil [simp]: "\<not> held [] mk"
  by (simp add: held_def)

lemma held_snoc: "held (codes @ [c]) mk \<longleftrightarrow> c = mk \<or> (c \<noteq> mk OR 0x80 \<and> held codes mk)"
proof
  assume "held (codes @ [c]) mk"
  then obtain pre post where p: "codes @ [c] = pre @ mk # post" "(mk OR 0x80) \<notin> set post" by (auto simp: held_def)
  show "c = mk \<or> (c \<noteq> mk OR 0x80 \<and> held codes mk)"
    using p by (cases post rule: rev_cases) (auto simp: held_def)
next
  assume "c = mk \<or> (c \<noteq> mk OR 0x80 \<and> held codes mk)"
  then show "held (codes @ [c]) mk"
  proof
    assume "c = mk"
    then have "codes @ [c] = codes @ mk # [] \<and> (mk OR 0x80) \<notin> set []" by simp
    then show ?thesis unfolding held_def by blast
  next
    assume "c \<noteq> mk OR 0x80 \<and> held codes mk"
    then obtain pre post where "codes = pre @ mk # post" "(mk OR 0x80) \<notin> set (post @ [c])" by (auto simp: held_def)
    then have "codes @ [c] = pre @ mk # (post @ [c]) \<and> (mk OR 0x80) \<notin> set (post @ [c])" by simp
    then show ?thesis unfolding held_def by blast
  qed
qed

lemma byte_and_80: "(ucast (c :: u8) :: u32) AND 0x80 = 0 \<longleftrightarrow> \<not> bit c 7"
  using and_exp_eq_0_iff_not_bit [of "ucast c :: u32" 7] by (simp add: bit_simps)

lemma byte_and_80_u8: "(c :: u8) AND 0x80 = 0 \<longleftrightarrow> \<not> bit c 7"
  using and_exp_eq_0_iff_not_bit [of c 7] by simp

lemma byte_masks: "(0x7F :: u8) = mask 7" "(0x80 :: u8) = 2 ^ 7"
  by (simp_all add: mask_eq_exp_minus_1)

lemma break_code:
  assumes "bit c 7" "\<not> bit m 7"
  shows "c AND 0x7F = m \<longleftrightarrow> c = m OR (0x80 :: u8)"
proof -
  have split: "(\<forall>n < 8. P n) \<longleftrightarrow> (\<forall>n < 7. P n) \<and> P 7" for P :: "nat \<Rightarrow> bool"
    using less_Suc_eq [of _ 7] by auto
  have eq: "x = y \<longleftrightarrow> (\<forall>n < 8. bit x n = bit y n)" for x y :: u8
    by (auto intro: bit_word_eqI)
  have b: "bit (0x80 :: u8) n \<longleftrightarrow> n = 7" for n
    using bit_exp_iff [of 7 n, where ?'a = u8] by (auto simp: possible_bit_def)
  show ?thesis unfolding byte_masks(1) eq split using assms by (auto simp only: bit_and_iff bit_or_iff bit_mask_iff b possible_bit_word) auto
qed

lemma letter_bytes:
  assumes "j < 26"
  shows "(ucast (ucast (letter ! j) :: u8) :: u32) = letter ! j" "\<not> bit (ucast (letter ! j) :: u8) 7"
proof -
  have "\<forall>c \<in> set letter. (ucast (ucast c :: u8) :: u32) = c \<and> (ucast c :: u8) AND 0x80 = 0"
    by (simp add: letter_def)
  then show "(ucast (ucast (letter ! j) :: u8) :: u32) = letter ! j" "\<not> bit (ucast (letter ! j) :: u8) 7"
    using assms by (simp_all add: letter_length byte_and_80_u8)
qed

lemma unat_ucast_u8: "unat (ucast (a :: u8) :: u32) = unat a"
proof -
  have "unat a < 2 ^ 8" using unsigned_less [of a] by simp
  then show ?thesis by (simp add: unsigned_ucast_eq take_bit_nat_eq_self)
qed

lemma ucast_u8_u32_inj: "(ucast (a :: u8) :: u32) = ucast b \<Longrightarrow> a = b"
  using unat_ucast_u8 [of a] unat_ucast_u8 [of b] by (simp add: word_unat_eq_iff)

lemma sint_u8: "sint (x :: u8) = (if unat x < 128 then int (unat x) else int (unat x) - 256)"
proof -
  define n where "n = unat x"
  have n: "uint x = int n" "n < 256" using unsigned_less [of x] by (simp_all add: n_def)
  have "sint x = (int n + 128) mod 256 - 128"
    by (simp add: sint_uint signed_take_bit_eq_take_bit_shift take_bit_eq_mod n(1))
  also have "\<dots> = (if n < 128 then int n else int n - 256)"
  proof (cases "n < 128")
    case False
    with n(2) have "(int n + 128) mod 256 = int n + 128 - 256" by (simp add: mod_pos_geq)
    with False show ?thesis by simp
  qed simp
  finally show ?thesis by (simp add: n_def)
qed

lemma press_key_keydown:
  assumes "j < 26"
  shows "keydown (press_key (ucast c) k) j =
    (if c = ucast (letter ! j) then 1
     else if c = ucast (letter ! j) OR (0x80 :: u8) then 0 else keydown k j)"
proof -
  let ?m = "ucast (letter ! j) :: u8"
  note lb = letter_bytes [OF assms]
  have hit: "find_letter 26 0 (ucast (d :: u8)) = Some j \<longleftrightarrow> d = ?m" for d
  proof
    assume "find_letter 26 0 (ucast d) = Some j"
    then have "(ucast d :: u32) = ucast ?m" using find_letter_Some lb(1) by simp
    then show "d = ?m" by (rule ucast_u8_u32_inj)
  next
    assume "d = ?m"
    then show "find_letter 26 0 (ucast d) = Some j" using find_letter_nth [OF assms] by (simp only: lb(1))
  qed
  have km: "(ucast c :: u32) AND 0x7F = ucast (c AND 0x7F)" by (simp add: unsigned_and_eq)
  show ?thesis
  proof (cases "bit c 7")
    case False
    then have "c \<noteq> ?m OR 0x80" by (auto simp: byte_and_80_u8 [symmetric] and.assoc bit.conj_disj_distrib2)
    with False show ?thesis
      using hit [of c] by (auto simp: press_key_def byte_and_80 Let_def split: option.splits)
  next
    case True
    then have "c \<noteq> ?m" using lb(2) by auto
    then show ?thesis
      using True hit [of "c AND 0x7F"] break_code [OF True lb(2)]
      by (auto simp: press_key_def byte_and_80 Let_def km split: option.splits)
  qed
qed

text \<open>
  Which keys are down: after any sequence of keyboard interrupts, \<open>get_key\<close> of a letter is 1 exactly
  if that key is held, that is, if the make code of the letter was the last of its two codes; asked
  for anything else than a lower-case letter, it leaves the array \<^verbatim>\<open>keydown\<close>.
\<close>

theorem get_key_tracks_keyboard:
  "get_key s (fold (\<lambda>c. press_key (ucast c)) codes kbd_init) =
     (if 97 \<le> s \<and> s \<le> 122
      then Inr (if held codes (ucast (letter ! unat (s - 97))) then 1 else 0)
      else Inl OutOfBounds)"
proof -
  have kd: "keydown (fold (\<lambda>c. press_key (ucast c)) codes kbd_init) j
      = (if held codes (ucast (letter ! j)) then 1 else 0)" if "j < 26" for j
  proof (induction codes rule: rev_induct)
    case (snoc c codes)
    then show ?case using that letter_bytes(2) [OF that]
      by (auto simp: press_key_keydown held_snoc byte_and_80_u8 [symmetric] bit.conj_disj_distrib2)
  qed (simp add: kbd_init_def)
  have u: "97 \<le> s \<and> s \<le> 122 \<longleftrightarrow> 97 \<le> unat s \<and> unat s \<le> 122" by (simp add: word_le_nat_alt)
  have "unat s < 256" using unsigned_less [of s] by simp
  then have r: "0 \<le> sint s - 97 \<and> sint s - 97 < 26 \<longleftrightarrow> 97 \<le> unat s \<and> unat s \<le> 122"
    unfolding sint_u8 by presburger
  moreover have sub: "unat (s - 97) = unat s - 97" if "97 \<le> unat s"
    using that unat_sub [of 97 s] by (simp add: word_le_nat_alt)
  moreover have "nat (sint s - 97) = unat (s - 97)" if "97 \<le> unat s" "unat s \<le> 122"
  proof -
    have "nat ((if n < 128 then int n else int n - 256) - 97) = n - 97" if "n \<le> 122" for n using that by simp
    then show ?thesis unfolding sint_u8 sub [OF that(1)] using that(2) by blast
  qed
  moreover have "unat (s - 97) < 26" if "97 \<le> unat s" "unat s \<le> 122" using that sub by simp
  ultimately show ?thesis unfolding get_key_def Let_def u using kd by simp
qed

section \<open>Characters from scan codes\<close>

text \<open>The tables as bytes.\<close>

lemma normal_row_bytes [code]:
  "normal_row = [0, 27, 49, 50, 51, 52, 53, 54, 55, 56, 57, 48, 45, 61, 8, 9, 113, 119, 101, 114, 116, 121, 117,
     105, 111, 112, 91, 93, 10, 0, 97, 115, 100, 102, 103, 104, 106, 107, 108, 59, 39, 96, 0, 92,
     122, 120, 99, 118, 98, 110, 109, 44, 46, 47, 0, 42, 0, 32, 0, 0, 0, 0, 0, 0, 0, 0, 0, 0, 0, 0,
     0, 55, 56, 57, 45, 52, 53, 54, 43, 49, 50, 51, 48, 46, 0, 0, 0, 0]"
  by code_simp

lemma shift_row_bytes [code]:
  "shift_row = [0, 27, 33, 64, 35, 36, 37, 94, 38, 42, 40, 41, 95, 43, 8, 9, 81, 87, 69, 82, 84, 89, 85, 73,
     79, 80, 123, 125, 10, 0, 65, 83, 68, 70, 71, 72, 74, 75, 76, 58, 34, 126, 0, 124, 90, 88, 67,
     86, 66, 78, 77, 60, 62, 63, 0, 42, 0, 32, 0, 0, 0, 0, 0, 0, 0, 0, 0, 0, 0, 0, 0, 55, 56, 57,
     45, 52, 53, 54, 43, 49, 50, 51, 48, 46, 0, 0, 0, 0]"
  by code_simp

lemma ctl_row_bytes [code]:
  "ctl_row = [0, 0, 0, 0, 0, 0, 0, 0, 0, 0, 0, 0, 0, 0, 0, 0, 17, 23, 5, 18, 20, 25, 21, 9, 15, 16, 0, 0, 13,
     0, 1, 19, 4, 6, 7, 8, 10, 11, 12, 0, 0, 0, 0, 28, 26, 24, 3, 22, 2, 14, 13, 0, 0, 239, 0, 0]"
  by code_simp

lemma letter_tables:
  assumes "j < 26"
  shows "shiftcode (ucast (letter ! j)) = 0" "togglecode (ucast (letter ! j)) = 0"
    "normalmap (ucast (letter ! j)) = 97 + of_nat j" "shiftmap (ucast (letter ! j)) = 65 + of_nat j"
proof -
  have "list_all (\<lambda>j. shiftcode (ucast (letter ! j)) = 0 \<and> togglecode (ucast (letter ! j)) = 0 \<and>
      normalmap (ucast (letter ! j)) = 97 + of_nat j \<and> shiftmap (ucast (letter ! j)) = 65 + of_nat j) [0..<26]"
    by code_simp
  then show "shiftcode (ucast (letter ! j)) = 0" "togglecode (ucast (letter ! j)) = 0"
    "normalmap (ucast (letter ! j)) = 97 + of_nat j" "shiftmap (ucast (letter ! j)) = 65 + of_nat j"
    using assms by (simp_all add: list_all_iff)
qed

text \<open>Where \<^verbatim>\<open>7\<close> and the ampersand stand in the tables.\<close>

lemma table_inv:
  assumes "table row ds i = v" "v \<noteq> 0"
  shows "(i, v) \<in> set ds \<or> (unat i, v) \<in> set (enumerate 0 row)"
  using assms by (auto simp: table_def in_set_enumerate_eq dest: map_of_SomeD split: option.splits if_splits)

lemma sevens:
  "filter (\<lambda>p. snd p = 0x26 \<or> snd p = 0x37) (enumerate 0 normal_row) = [(8, 0x37), (71, 0x37)]"
  "filter (\<lambda>p. snd p = 0x26 \<or> snd p = 0x37) (enumerate 0 shift_row) = [(8, 0x26), (71, 0x37)]"
  "filter (\<lambda>p. snd p = 0x26 \<or> snd p = 0x37) (enumerate 0 ctl_row) = []"
  by code_simp+

lemma table_chars:
  assumes "table row ds d = v" "v = a \<or> v = b" "a \<noteq> 0" "b \<noteq> 0"
    and "filter (\<lambda>p. snd p = a \<or> snd p = b) (enumerate 0 row) = hits"
    and "list_all (\<lambda>p. snd p \<noteq> a \<and> snd p \<noteq> b) ds"
  shows "(unat d, v) \<in> set hits"
proof -
  have "(d, v) \<notin> set ds" using assms(2,6) by (auto simp: list_all_iff)
  then have "(unat d, v) \<in> set (enumerate 0 row)" using table_inv [OF assms(1)] assms(2-4) by blast
  then show ?thesis using assms(2) by (simp flip: assms(5))
qed

lemma table_sevens:
  "normalmap d = v \<Longrightarrow> v = 0x26 \<or> v = 0x37 \<Longrightarrow> unat d \<in> {8, 71} \<and> v = 0x37"
  "shiftmap d = v \<Longrightarrow> v = 0x26 \<or> v = 0x37 \<Longrightarrow> (unat d = 8 \<and> v = 0x26) \<or> (unat d = 71 \<and> v = 0x37)"
  "ctlmap d = v \<Longrightarrow> \<not> (v = 0x26 \<or> v = 0x37)"
proof -
  show "normalmap d = v \<Longrightarrow> v = 0x26 \<or> v = 0x37 \<Longrightarrow> unat d \<in> {8, 71} \<and> v = 0x37"
    using table_chars [OF _ _ _ _ sevens(1), of special_keys d v]
    by (auto simp: normalmap_def special_keys_def key_consts)
  show "shiftmap d = v \<Longrightarrow> v = 0x26 \<or> v = 0x37 \<Longrightarrow> (unat d = 8 \<and> v = 0x26) \<or> (unat d = 71 \<and> v = 0x37)"
    using table_chars [OF _ _ _ _ sevens(2), of special_keys d v]
    by (auto simp: shiftmap_def special_keys_def key_consts)
  show "ctlmap d = v \<Longrightarrow> \<not> (v = 0x26 \<or> v = 0x37)"
    using table_chars [OF _ _ _ _ sevens(3), of ctl_keys d v]
    by (auto simp: ctlmap_def ctl_keys_def key_consts C_def)
qed

lemma letter_ranges:
  assumes "j < 26"
  shows "(97 :: u8) \<le> 97 + of_nat j \<and> 97 + of_nat j \<le> (122 :: u8) \<and> \<not> (97 :: u8) \<le> 65 + of_nat j \<and>
    (65 :: u8) \<le> 65 + of_nat j \<and> 65 + of_nat j \<le> (90 :: u8)"
proof -
  have "unat (97 + of_nat j :: u8) = 97 + j" "unat (65 + of_nat j :: u8) = 65 + j"
    using assms by (simp_all add: unat_word_ariths unat_of_nat take_bit_eq_mod)
  then show ?thesis using assms by (simp add: word_le_nat_alt)
qed

lemma charcode_index: "unat (sh AND (CTL OR SHIFT)) < 4"
proof -
  have "CTL OR SHIFT = mask 2" by (simp add: flag_consts mask_eq_exp_minus_1)
  then have "sh AND (CTL OR SHIFT) = take_bit 2 sh" by (simp only: take_bit_eq_mask)
  then show ?thesis by (simp only: unsigned_take_bit_eq) (simp add: take_bit_eq_mod)
qed

text \<open>
  A letter key gives its lower-case letter, or the upper-case one if exactly one of Shift and Caps
  Lock is on, provided that Control is up and no escape code is pending; the modifiers stay as they are.
\<close>

theorem poll_code_letter:
  assumes "j < 26" "sh AND E0ESC = 0" "sh AND CTL = 0"
  shows "poll_code (ucast (letter ! j)) sh =
    ((if (sh AND SHIFT \<noteq> 0) \<noteq> (sh AND CAPSLOCK \<noteq> 0) then 65 else 97) + of_nat j, sh)"
proof -
  let ?d = "ucast (letter ! j) :: u8"
  have m: "?d AND 0x80 = 0" using letter_bytes(2) [OF assms(1)] by (simp add: byte_and_80_u8)
  then have e: "?d \<noteq> 0xE0" by auto
  have "sh AND (CTL OR SHIFT) = sh AND SHIFT" using assms(3) by (simp add: bit.conj_disj_distrib)
  moreover have "sh AND SHIFT = of_bool (odd sh)" by (simp add: SHIFT_def and_one_eq mod_2_eq_odd)
  ultimately have c: "(charcode ! unat (sh AND (CTL OR SHIFT))) ?d = (if odd sh then 65 else 97) + of_nat j"
    and s: "sh AND SHIFT \<noteq> 0 \<longleftrightarrow> odd sh"
    using letter_tables(3,4) [OF assms(1)] by (simp_all add: charcode_def)
  have ge: "(97 :: u8) \<le> 97 + of_nat j" "97 + of_nat j \<le> (122 :: u8)" "\<not> (97 :: u8) \<le> 65 + of_nat j"
    "(65 :: u8) \<le> 65 + of_nat j" "65 + of_nat j \<le> (90 :: u8)"
    using letter_ranges [OF assms(1)] by simp_all
  show ?thesis unfolding poll_code_def Let_def using m e assms(2) letter_tables(1,2) [OF assms(1)]
    by (simp add: c s ge swap_case_def)
qed

theorem poll_code_letter_witness: "poll_code 0x1E CAPSLOCK = (65, CAPSLOCK)"
  using poll_code_letter [of 0 CAPSLOCK] by (simp add: flag_consts letter_def)

lemma swap_case_seven:
  assumes "swap_case caps c = v" "v = 0x26 \<or> v = 0x37"
  shows "c = v"
proof -
  have "unat (c - 0x20) = unat c - 32" if "0x61 \<le> c"
    using that unat_sub [of 32 c] by (simp add: word_le_nat_alt)
  moreover have "unat (c + 0x20) = unat c + 32" if "c \<le> 0x5A"
    using that by (simp add: word_le_nat_alt unat_word_ariths)
  ultimately show ?thesis using assms
    by (auto simp: swap_case_def word_le_nat_alt word_unat_eq_iff split: if_splits)
qed

lemma charcode_sevens:
  assumes "(charcode ! n) d = v" "n < 4" "v = 0x26 \<or> v = 0x37"
  shows "(unat d = 8 \<or> unat d = 71) \<and> (unat d = 71 \<longrightarrow> v = 0x37)"
proof -
  have "n = 0 \<or> n = 1 \<or> n = 2 \<or> n = 3" using assms(2) by auto
  then show ?thesis using assms table_sevens [of d v] by (auto simp: charcode_def numeral_eq_Suc)
qed

lemma poll_code_make:
  assumes "data \<noteq> 0xE0" "data AND 0x80 = 0"
  shows "\<exists>n caps. n < 4 \<and> fst (poll_code data sh) =
    swap_case caps ((charcode ! n) (if sh AND E0ESC \<noteq> 0 then data OR 0x80 else data))"
proof (cases "sh AND E0ESC \<noteq> 0")
  case True
  with assms show ?thesis using charcode_index by (simp add: poll_code_def Let_def) blast
next
  case False
  with assms show ?thesis using charcode_index by (simp add: poll_code_def Let_def) blast
qed

lemma poll_code_sevens:
  assumes "data \<noteq> 0x08"
  shows "fst (poll_code data sh) \<noteq> 0x26 \<and> (fst (poll_code data sh) = 0x37 \<longrightarrow> data = 0x47)"
proof -
  { fix v assume v: "fst (poll_code data sh) = v" "v = 0x26 \<or> v = 0x37"
    then have make: "data \<noteq> 0xE0" "data AND 0x80 = 0" by (auto simp: poll_code_def Let_def split: if_splits)
    let ?d = "if sh AND E0ESC \<noteq> 0 then data OR 0x80 else data"
    obtain n caps where n: "n < 4" "v = swap_case caps ((charcode ! n) ?d)"
      using poll_code_make [OF make] v(1) by metis
    then have "(charcode ! n) ?d = v" using swap_case_seven [OF _ v(2)] by simp
    then have d: "(unat ?d = 8 \<or> unat ?d = 71) \<and> (unat ?d = 71 \<longrightarrow> v = 0x37)"
      using charcode_sevens [OF _ n(1) v(2)] by simp
    have "bit (data OR 0x80) 7" by (simp add: bit_or_iff)
    then have "data OR 0x80 \<noteq> 0x08 \<and> data OR 0x80 \<noteq> 0x47" by auto
    with d assms have "unat data = 71 \<and> v = 0x37" by (auto simp: word_unat_eq_iff split: if_splits)
    then have "data = 0x47 \<and> v = 0x37" by (simp add: word_unat_eq_iff) }
  then show ?thesis by auto
qed

text \<open>
  The keys \<^verbatim>\<open>7\<close> and \<^verbatim>\<open>&\<close> of the main block cannot be typed: \<open>poll_key\<close> throws their scan code 8 away, so
  that no input ever gives an ampersand, and a 7 only comes from the numeric keypad.
\<close>

theorem poll_key_loses_7:
  assumes "poll_key inp sh = Inr (c, inp', sh')"
  shows "c \<noteq> 0x26 \<and> (c = 0x37 \<longrightarrow> (\<exists>n. inp = replicate n 0x08 @ 0x47 # inp'))"
  using assms
proof (induction inp sh rule: poll_key.induct)
  case (2 data inp sh)
  show ?case
  proof (cases "data = 0x08")
    case True
    then have "c \<noteq> 0x26 \<and> (c = 0x37 \<longrightarrow> (\<exists>n. inp = replicate n 0x08 @ 0x47 # inp'))" using 2 by simp
    moreover have "data # replicate n 0x08 @ r = replicate (Suc n) 0x08 @ r" for n r using True by simp
    ultimately show ?thesis by metis
  next
    case False
    then have "fst (poll_code data sh) = c" "inp' = inp" using 2(2) by (auto split: prod.splits)
    then show ?thesis using poll_code_sevens [OF False, of sh] by (auto intro: exI [of _ 0])
  qed
qed simp

theorem poll_key_loses_7_witness: "0x37 \<noteq> (0x26 :: u8) \<and> (\<exists>n. [0x08, 0x47] = replicate n (0x08 :: u8) @ 0x47 # [])"
proof -
  have "poll_key [0x08, 0x47] 0 = Inr (0x37, [], 0)" by code_simp
  from poll_key_loses_7 [OF this] show ?thesis by blast
qed

section \<open>The line editor refines an editor of lists\<close>

text \<open>
  The abstract editor has the line as a list of bytes, the earlier lines as a function from row
  numbers to lines, and the row number; no buffer, no terminators.
\<close>

function edit_line :: "u8 list \<Rightarrow> u8 list \<Rightarrow> u32 \<Rightarrow> (nat \<Rightarrow> u8 list) \<Rightarrow> int \<Rightarrow>
    (u8 list \<times> u8 list \<times> u32 \<times> (nat \<Rightarrow> u8 list) \<times> int) res" where
  "edit_line line inp sh h hid =
     bind_res (getchar inp sh) (\<lambda>(c, inp, sh).
     if c = KEY_UP then
       (if hid > 0 then edit_line (h (nat (hid - 1))) inp sh h (hid - 1) else edit_line line inp sh h hid)
     else if c = KEY_DN then
       (if hid < 199 then edit_line (h (nat (hid + 1))) inp sh h (hid + 1) else edit_line line inp sh h hid)
     else if (c = 0x08 \<or> c = 0x7F) \<and> line \<noteq> [] then edit_line (butlast line) inp sh h hid
     else if c \<ge> 0x20 \<and> length line < 1023 then edit_line (line @ [c]) inp sh h hid
     else if c = 0x0A \<or> c = 0x0D then
       (if hid < 200 \<and> length line < 512 then Inr (line, inp, sh, h(nat hid := line), hid + 1)
        else Inl OutOfBounds)
     else edit_line line inp sh h hid)"
  by pat_completeness auto
termination by (relation "measure (\<lambda>(line, inp, sh, h, hid). length inp)") (auto dest: getchar_shorter)

declare edit_line.simps [simp del]

definition kbd_wf :: "kbd \<Rightarrow> bool" where
  "kbd_wf k \<longleftrightarrow> length (buf k) = BUFLEN \<and> 0 \<le> history_id k \<and> history_id k \<le> 200 \<and>
     (\<forall>i < NR_HISTORY. length (history k i) = LEN_HISTORY \<and> 0 \<in> set (history k i))"

definition line_of :: "u8 list \<Rightarrow> u8 list" where
  "line_of row = takeWhile (\<lambda>c. c \<noteq> 0) row"

lemma cstring_line_of: "0 \<in> set row \<Longrightarrow> cstring row = Inr (line_of row)"
  by (induction row) (auto simp: line_of_def)

lemma line_of_props: "0 \<notin> set (line_of row)" "0 \<in> set row \<Longrightarrow> length (line_of row) < length row"
proof -
  show "0 \<notin> set (line_of row)" by (auto simp: line_of_def dest: set_takeWhileD)
  show "0 \<in> set row \<Longrightarrow> length (line_of row) < length row"
    by (induction row) (auto simp: line_of_def)
qed

lemma line_of_terminated: "0 \<notin> set l \<Longrightarrow> line_of (l @ 0 # r) = l"
  by (induction l) (auto simp: line_of_def)

lemma line_of_cut: "i < length b \<Longrightarrow> 0 \<notin> set (take i b) \<Longrightarrow> line_of (b[i := 0]) = take i b"
  using line_of_terminated [of "take i b" "drop (Suc i) b"] by (simp add: upd_conv_take_nth_drop)

text \<open>\<open>editing i k line\<close>: the first \<open>i\<close> bytes of the buffer are the line.\<close>

definition editing :: "nat \<Rightarrow> kbd \<Rightarrow> u8 list \<Rightarrow> bool" where
  "editing i k line \<longleftrightarrow> i < BUFLEN \<and> take i (buf k) = line \<and> 0 \<notin> set line"

lemma recall_spec:
  assumes "kbd_wf k" "0 \<le> hid" "hid < 200"
  shows "\<exists>n o' k'. recall hid i k = Inr (n, o', k') \<and> kbd_wf k' \<and> editing n k' (line_of (history k (nat hid))) \<and>
    history k' = history k \<and> history_id k' = hid \<and> shift k' = shift k"
proof -
  let ?row = "history k (nat hid)" and ?l = "line_of (history k (nat hid))"
  have "nat hid < NR_HISTORY" using assms(2,3) by (simp add: NR_HISTORY_def nat_less_iff)
  then have row: "length ?row = LEN_HISTORY" "0 \<in> set ?row" using assms(1) by (auto simp: kbd_wf_def)
  have len: "length ?l < LEN_HISTORY" "length ?l < length (buf k)"
    using line_of_props(2) [OF row(2)] row(1) assms(1) by (auto simp: kbd_wf_def BUFLEN_def LEN_HISTORY_def)
  have "recall hid i k = Inr (length ?l, erase i @ to_string ?l,
      k\<lparr>history_id := hid, buf := ?l @ 0 # drop (length ?l + 1) (buf k)\<rparr>)"
    using len by (simp add: recall_def cstring_line_of row(2) strcpy_field_ok strlen_def cstring_field line_of_terminated line_of_props(1))
  then show ?thesis using assms len by (simp add: kbd_wf_def editing_def line_of_props(1) LEN_HISTORY_def BUFLEN_def)
qed

lemma enter_line_spec:
  assumes "kbd_wf k" "editing i k line"
  shows "if history_id k < 200 \<and> length line < 512
    then \<exists>k'. enter_line i k = Inr k' \<and> kbd_wf k' \<and> cstring (buf k') = Inr line \<and>
      line_of \<circ> history k' = (line_of \<circ> history k)(nat (history_id k) := line) \<and>
      history_id k' = history_id k + 1 \<and> shift k' = shift k
    else enter_line i k = Inl OutOfBounds"
proof -
  let ?b = "(buf k)[i := 0]" and ?id = "nat (history_id k)"
  have b: "line_of ?b = line" "0 \<in> set ?b" "i < length (buf k)"
    using assms by (auto simp: editing_def kbd_wf_def line_of_cut set_update_memI)
  have idlt: "history_id k < 200 \<longleftrightarrow> ?id < NR_HISTORY" "0 \<le> history_id k"
    using assms(1) by (auto simp: kbd_wf_def NR_HISTORY_def nat_less_iff)
  have row: "?id < NR_HISTORY \<Longrightarrow> length (history k ?id) = LEN_HISTORY" using assms(1) by (simp add: kbd_wf_def)
  let ?row = "line @ 0 # drop (length line + 1) (history k ?id)"
  have run: "enter_line i k = (if ?id < NR_HISTORY \<and> length line < LEN_HISTORY
      then Inr (k\<lparr>buf := ?b, history := (history k)(?id := ?row), history_id := history_id k + 1\<rparr>)
      else Inl OutOfBounds)"
    using idlt row by (auto simp: enter_line_def Let_def cstring_line_of [OF b(2)] b(1) strcpy_field_def)
  show ?thesis
  proof (cases "?id < NR_HISTORY \<and> length line < LEN_HISTORY")
    case True
    have "line_of ?row = line" using assms(2) by (intro line_of_terminated) (simp add: editing_def)
    then have "line_of \<circ> (history k)(?id := ?row) = (line_of \<circ> history k)(?id := line)" by (auto simp: fun_eq_iff)
    moreover have "length ?row = LEN_HISTORY" using True row by simp
    ultimately show ?thesis using True run idlt assms(1) b
      by (auto simp: kbd_wf_def cstring_line_of LEN_HISTORY_def NR_HISTORY_def)
  next
    case False
    then show ?thesis using run idlt by (auto simp: LEN_HISTORY_def)
  qed
qed

definition readline_agrees where
  "readline_agrees spec run \<longleftrightarrow> (case spec of
     Inl e \<Rightarrow> run = Inl e
   | Inr (line, inp', sh', h', hid') \<Rightarrow> \<exists>out' k'. run = Inr (Some (buf k'), inp', out', k') \<and>
       cstring (buf k') = Inr line \<and> kbd_wf k' \<and> line_of \<circ> history k' = h' \<and>
       history_id k' = hid' \<and> shift k' = sh')"

lemma readline_loop_agrees:
  assumes "kbd_wf k" "editing i k line"
  shows "readline_agrees (edit_line line inp (shift k) (line_of \<circ> history k) (history_id k)) (readline_loop i inp k out)"
  using assms
proof (induction inp arbitrary: i k out line rule: length_induct)
  case (1 inp)
  let ?h = "line_of \<circ> history k" and ?hid = "history_id k"
  show ?case
  proof (cases "getchar inp (shift k)")
    case (Inl e)
    then show ?thesis by (simp add: readline_agrees_def edit_line.simps [of line] readline_loop.simps [of i])
  next
    case (Inr r)
    obtain c inp' sh' where r: "r = (c, inp', sh')" by (cases r)
    define k1 where "k1 = k\<lparr>shift := sh'\<rparr>"
    have k1: "kbd_wf k1" "editing i k1 line" "history k1 = history k" "history_id k1 = ?hid" "shift k1 = sh'"
      using "1.prems" by (simp_all add: k1_def kbd_wf_def editing_def)
    have short: "length inp' < length inp" using Inr r getchar_shorter by blast
    have IH: "readline_agrees (edit_line l inp' (shift k') (line_of \<circ> history k') (history_id k'))
        (readline_loop i' inp' k' out')" if "kbd_wf k'" "editing i' k' l" for i' k' l out'
      using "1.IH" short that by blast
    have stay: "readline_agrees (edit_line line inp' sh' ?h ?hid) (readline_loop i inp' k1 out)"
      using IH [OF k1(1,2), of out] by (simp add: k1)
    have len: "length line = i" "i < BUFLEN" "length (buf k1) = BUFLEN" using k1(1,2) by (auto simp: editing_def kbd_wf_def)
    have recall: "readline_agrees (edit_line (?h (nat hid)) inp' sh' ?h hid)
        (bind_res (recall hid i k1) (\<lambda>(i, o', k). readline_loop i inp' k (out @ o')))"
      if "0 \<le> hid" "hid < 200" for hid
      using recall_spec [OF k1(1) that, of i] IH by (fastforce simp: k1)
    note step = edit_line.simps [of line inp] readline_loop.simps [of i inp] Inr r
    consider "c = KEY_UP" | "c = KEY_DN" | "c \<noteq> KEY_UP \<and> c \<noteq> KEY_DN" by blast
    then show ?thesis
    proof cases
      case 1
      then show ?thesis using recall [of "?hid - 1"] stay k1(1,4)
        by (simp add: step k1_def [symmetric] kbd_wf_def comp_def)
    next
      case 2
      then show ?thesis using recall [of "?hid + 1"] stay k1(1,4)
        by (simp add: step k1_def [symmetric] kbd_wf_def key_consts comp_def)
    next
      case 3
      have erase: "readline_agrees (edit_line (butlast line) inp' sh' ?h ?hid)
          (readline_loop (i - 1) inp' k1 out')" if "i > 0" for out'
      proof -
        have "take (i - 1) (buf k1) = butlast line"
          using butlast_take [of i "buf k1"] k1(2) len by (simp add: editing_def)
        then have "editing (i - 1) k1 (butlast line)" using k1(2) by (auto simp: editing_def dest: in_set_butlastD)
        from IH [OF k1(1) this] show ?thesis by (simp add: k1)
      qed
      have insert: "readline_agrees (edit_line (line @ [c]) inp' sh' ?h ?hid)
          (readline_loop (i + 1) inp' (k1\<lparr>buf := (buf k1)[i := c]\<rparr>) out')" if "0x20 \<le> c" "i < BUFLEN - 1" for out'
      proof -
        have "c \<noteq> 0" using that(1) by auto
        then have "editing (i + 1) (k1\<lparr>buf := (buf k1)[i := c]\<rparr>) (line @ [c])"
          using k1(2) that(2) len by (auto simp: editing_def take_Suc_conv_app_nth)
        moreover have "kbd_wf (k1\<lparr>buf := (buf k1)[i := c]\<rparr>)" using k1(1) by (simp add: kbd_wf_def)
        ultimately show ?thesis using IH [of "k1\<lparr>buf := (buf k1)[i := c]\<rparr>" "i + 1" "line @ [c]" out'] by (simp add: k1)
      qed
      have enter: "readline_agrees
          (if ?hid < 200 \<and> length line < 512 then Inr (line, inp', sh', ?h(nat ?hid := line), ?hid + 1)
           else Inl OutOfBounds)
          (bind_res (enter_line i k1) (\<lambda>k. Inr (Some (buf k), inp', out', k)))" for out'
        using enter_line_spec [OF k1(1,2)] by (fastforce simp: readline_agrees_def k1 split: if_splits)
      have conds: "line \<noteq> [] \<longleftrightarrow> i > 0" "length line < 1023 \<longleftrightarrow> i < BUFLEN - 1" "\<not> uint c < 0"
        using len by (auto simp: BUFLEN_def)
      let ?bs = "(c = 0x08 \<or> c = 0x7F) \<and> i > 0" and ?ins = "c \<ge> 0x20 \<and> i < BUFLEN - 1"
        and ?ent = "c = 0x0A \<or> c = 0x0D"
      have spec: "edit_line line inp (shift k) ?h ?hid =
          (if ?bs then edit_line (butlast line) inp' sh' ?h ?hid
           else if ?ins then edit_line (line @ [c]) inp' sh' ?h ?hid
           else if ?ent then (if ?hid < 200 \<and> length line < 512
             then Inr (line, inp', sh', ?h(nat ?hid := line), ?hid + 1) else Inl OutOfBounds)
           else edit_line line inp' sh' ?h ?hid)"
        unfolding edit_line.simps [of line inp] Inr r using 3 by (simp only: bind_res_simps prod.case if_False conds simp_thms)
      have run: "readline_loop i inp k out =
          (if ?bs then readline_loop (i - 1) inp' k1 (out @ [CHR 0x08, CHR '' '', CHR 0x08])
           else if ?ins then readline_loop (i + 1) inp' (k1\<lparr>buf := (buf k1)[i := c]\<rparr>) (out @ to_string [c])
           else if ?ent then bind_res (enter_line i k1) (\<lambda>k. Inr (Some (buf k), inp', out @ NL, k))
           else readline_loop i inp' k1 out)"
        unfolding readline_loop.simps [of i inp] Inr r using 3
        by (simp only: bind_res_simps prod.case if_False conds simp_thms Let_def k1_def [symmetric])
      show ?thesis
      proof (cases ?bs)
        case True
        then show ?thesis unfolding spec run if_P [OF True] by (intro erase) simp
      next
        case bs: False
        show ?thesis
        proof (cases ?ins)
          case True
          then show ?thesis unfolding spec run if_not_P [OF bs] if_P [OF True] by (intro insert) simp_all
        next
          case False
          then show ?thesis unfolding spec run if_not_P [OF bs] if_not_P [OF False]
            using enter [of "out @ NL"] stay by (cases ?ent) (simp_all only: if_True if_False)
        qed
      qed
    qed
  qed
qed

text \<open>
  C22. The line editor refines the editor of lists: started on a well-formed keyboard state, \<open>readline\<close>
  returns exactly when the abstract editor returns, with the same line in its buffer, the same rest of the
  input and the same history, and it leaves a well-formed state; where the abstract editor
  runs out of history rows or of bytes in a row, the code leaves the array \<^verbatim>\<open>history\<close>.
\<close>

theorem readline_refines_edit_line:
  assumes "kbd_wf k"
  shows "readline_agrees (edit_line [] inp (shift k) (line_of \<circ> history k) (history_id k)) (readline prompt inp k)"
  unfolding readline_def by (rule readline_loop_agrees [OF assms]) (simp add: editing_def BUFLEN_def)

text \<open>Typing \<^verbatim>\<open>h\<close>, \<^verbatim>\<open>i\<close>, backspace and Enter.\<close>

theorem readline_refines_edit_line_witness:
  "\<exists>out k'. readline (Some ''$> '') [0x23, 0x17, 0x0E, 0x1C] kbd_init = Inr (Some (buf k'), [], out, k') \<and>
     cstring (buf k') = Inr [0x68]"
proof -
  have wf: "kbd_wf kbd_init" by (simp add: kbd_wf_def kbd_init_def NR_HISTORY_def LEN_HISTORY_def)
  have g: "getchar [0x23, 0x17, 0x0E, 0x1C] 0 = Inr (0x68, [0x17, 0x0E, 0x1C], 0)"
    "getchar [0x17, 0x0E, 0x1C] 0 = Inr (0x69, [0x0E, 0x1C], 0)"
    "getchar [0x0E, 0x1C] 0 = Inr (0x08, [0x1C], 0)" "getchar [0x1C] 0 = Inr (0x0A, [], 0)"
    by code_simp+
  have "edit_line [] [0x23, 0x17, 0x0E, 0x1C] 0 h 0 = Inr ([0x68], [], 0, h(0 := [0x68]), 1)" for h
    by (simp add: edit_line.simps g key_consts)
  then show ?thesis using readline_refines_edit_line [OF wf, of "[0x23, 0x17, 0x0E, 0x1C]" "Some ''$> ''"]
    by (auto simp: readline_agrees_def kbd_init_def)
qed

end
