(* ===== verification/Video.thy ===== *)
theory Video
  imports Prelude
begin

text \<open>
  The frame buffer driver: \<^verbatim>\<open>src/kernel/src/video.c\<close> and \<^verbatim>\<open>video.h\<close>.  A program draws into the
  cache \<^verbatim>\<open>VCACHE\<close>; flushing copies the rows that were drawn to the video memory, and rows that were drawn in
  an earlier frame only are wiped.  \<open>x\<close> is the row and \<open>y\<close> the column, as in the source.
\<close>

section \<open>State and operations\<close>

definition VWIDTH :: nat where "VWIDTH = 320"
definition VHEIGHT :: nat where "VHEIGHT = 200"
definition VSIZE :: nat where "VSIZE = VWIDTH * VHEIGHT"

lemmas video_consts = VWIDTH_def VHEIGHT_def VSIZE_def

record video =
  VRAM :: "nat \<Rightarrow> u8"
  VCACHE :: "nat \<Rightarrow> u8"
  VDIRTY :: "nat \<Rightarrow> u8"
  VCDIRTY :: "nat \<Rightarrow> u8"
  stamp :: u8

definition VEMPTY :: "nat \<Rightarrow> u8" where "VEMPTY i = 0"

text \<open>\<open>copy_words d dst s src n\<close>: \<^verbatim>\<open>memcpy(dst + d, src + s, n)\<close>, which moves \<open>n\<close> words of four bytes.\<close>

definition copy_words :: "nat \<Rightarrow> (nat \<Rightarrow> u8) \<Rightarrow> nat \<Rightarrow> (nat \<Rightarrow> u8) \<Rightarrow> nat \<Rightarrow> nat \<Rightarrow> u8" where
  "copy_words d dst s src n i = (if d \<le> i \<and> i < d + 4 * n then src (s + (i - d)) else dst i)"

primrec clear_rows :: "nat \<Rightarrow> (nat \<Rightarrow> u8) \<Rightarrow> nat \<Rightarrow> u8" where
  "clear_rows 0 f = f"
| "clear_rows (Suc x) f = (clear_rows x f)(x := 0)"

definition initVCache :: "video \<Rightarrow> video" where
  "initVCache v = v\<lparr>VCACHE := copy_words 0 (VCACHE v) 0 VEMPTY (VSIZE div 4),
     VDIRTY := clear_rows VHEIGHT (VDIRTY v)\<rparr>"

definition refreshVCache :: "video \<Rightarrow> video" where
  "refreshVCache v = v\<lparr>VDIRTY := clear_rows VHEIGHT (VDIRTY v)\<rparr>"

primrec flush_rows :: "nat \<Rightarrow> video \<Rightarrow> video" where
  "flush_rows 0 v = v"
| "flush_rows (Suc x) v =
     (let v = flush_rows x v in
      if VDIRTY v x \<noteq> 0
      then v\<lparr>VRAM := copy_words (VWIDTH * x) (VRAM v) (VWIDTH * x) (VCACHE v) (VWIDTH div 4)\<rparr>
      else v)"

definition flushVCache :: "video \<Rightarrow> video" where
  "flushVCache v = flush_rows VHEIGHT v"

definition setPixelAt :: "u32 \<Rightarrow> u32 \<Rightarrow> u8 \<Rightarrow> video \<Rightarrow> video" where
  "setPixelAt x y color v =
     (if sint x < 0 \<or> sint x \<ge> int VHEIGHT \<or> sint y < 0 \<or> sint y \<ge> int VWIDTH then v
      else v\<lparr>VDIRTY := (VDIRTY v)(unat x := 1), VCDIRTY := (VCDIRTY v)(unat x := 1),
             VCACHE := (VCACHE v)(VWIDTH * unat x + unat y := color)\<rparr>)"

primrec wipe_rows :: "nat \<Rightarrow> video \<Rightarrow> video" where
  "wipe_rows 0 v = v"
| "wipe_rows (Suc x) v =
     (let v = wipe_rows x v in
      if VCDIRTY v x AND NOT (VDIRTY v x) \<noteq> 0
      then v\<lparr>VRAM := copy_words (VWIDTH * x) (VRAM v) 0 VEMPTY (VWIDTH div 4)\<rparr>
      else v)"

definition clearVRAM :: "video \<Rightarrow> video" where
  "clearVRAM v =
     (let v = wipe_rows VHEIGHT v;
          v = v\<lparr>stamp := stamp v + 1\<rparr>;
          v = (if stamp v = 30 then v\<lparr>stamp := 0\<rparr> else v)
      in if stamp v = 0 then v\<lparr>VCDIRTY := copy_words 0 (VCDIRTY v) 0 VEMPTY (VHEIGHT div 4)\<rparr> else v)"

text \<open>The system call \<^verbatim>\<open>SYS_FLUSH_VCACHE\<close>.\<close>

definition flush_frame :: "video \<Rightarrow> video" where
  "flush_frame v = flushVCache (clearVRAM v)"

section \<open>What the loops do\<close>

lemma clear_rows_eq: "clear_rows n f x = (if x < n then 0 else f x)"
  by (induction n) auto

lemma copy_row:
  "copy_words (VWIDTH * x) dst s src (VWIDTH div 4) i =
     (if i div VWIDTH = x then src (s + (i - VWIDTH * x)) else dst i)"
proof -
  have "VWIDTH * x \<le> i \<and> i < VWIDTH * x + 4 * (VWIDTH div 4) \<longleftrightarrow> i div VWIDTH = x"
    by (auto simp: VWIDTH_def)
  then show ?thesis by (simp add: copy_words_def)
qed

lemma VRAM_cong: "(\<And>i. f i = g i) \<Longrightarrow> v\<lparr>VRAM := f\<rparr> = v\<lparr>VRAM := g\<rparr>"
  by (auto intro: arg_cong [of f g "\<lambda>r. v\<lparr>VRAM := r\<rparr>"])

lemma flush_rows_eq:
  "flush_rows n v = v\<lparr>VRAM := (\<lambda>i. if i div VWIDTH < n \<and> VDIRTY v (i div VWIDTH) \<noteq> 0 then VCACHE v i else VRAM v i)\<rparr>"
proof (induction n)
  case (Suc n)
  have "VWIDTH * (i div VWIDTH) + (i - VWIDTH * (i div VWIDTH)) = i" for i
    using times_div_less_eq_dividend by (simp add: le_add_diff_inverse)
  then show ?case by (simp add: Suc Let_def) (auto simp: copy_row less_Suc_eq intro!: VRAM_cong)
qed simp

lemma wipe_rows_eq:
  "wipe_rows n v = v\<lparr>VRAM := (\<lambda>i. if i div VWIDTH < n \<and> VCDIRTY v (i div VWIDTH) AND NOT (VDIRTY v (i div VWIDTH)) \<noteq> 0
     then 0 else VRAM v i)\<rparr>"
proof (induction n)
  case (Suc n)
  then show ?case by (simp add: Suc Let_def) (auto simp: copy_row less_Suc_eq VEMPTY_def intro!: VRAM_cong)
qed simp

lemma clearVRAM_eq:
  "VDIRTY (clearVRAM v) = VDIRTY v" "VCACHE (clearVRAM v) = VCACHE v" "VRAM (clearVRAM v) = VRAM (wipe_rows VHEIGHT v)"
  "stamp v < 30 \<Longrightarrow> stamp (clearVRAM v) = (if stamp v = 29 then 0 else stamp v + 1)"
  "stamp v < 30 \<Longrightarrow> x < VHEIGHT \<Longrightarrow> VCDIRTY (clearVRAM v) x = (if stamp v = 29 then 0 else VCDIRTY v x)"
proof -
  have st: "stamp v + 1 = 30 \<longleftrightarrow> stamp v = 29" by (auto simp: algebra_simps)
  have nz: "stamp v + 1 \<noteq> 0" if "stamp v < 30" using that by (auto simp: add_eq_0_iff2)
  show "VDIRTY (clearVRAM v) = VDIRTY v" "VCACHE (clearVRAM v) = VCACHE v" "VRAM (clearVRAM v) = VRAM (wipe_rows VHEIGHT v)"
    by (simp_all add: clearVRAM_def Let_def wipe_rows_eq)
  show "stamp v < 30 \<Longrightarrow> stamp (clearVRAM v) = (if stamp v = 29 then 0 else stamp v + 1)"
    by (simp add: clearVRAM_def Let_def wipe_rows_eq)
  show "stamp v < 30 \<Longrightarrow> x < VHEIGHT \<Longrightarrow> VCDIRTY (clearVRAM v) x = (if stamp v = 29 then 0 else VCDIRTY v x)"
    using nz by (simp add: clearVRAM_def Let_def wipe_rows_eq st copy_words_def VEMPTY_def VHEIGHT_def)
qed

section \<open>Frames\<close>

text \<open>
  A frame is what the game does: clear the cache, set pixels, flush.  The abstract picture is a map from
  rows and columns to colours; pixels outside the screen are dropped.
\<close>

type_synonym pixel = "u32 \<times> u32 \<times> u8"

definition visible :: "pixel \<Rightarrow> bool" where
  "visible p = (case p of (x, y, c) \<Rightarrow> unat x < VHEIGHT \<and> unat y < VWIDTH)"

definition frame :: "pixel list \<Rightarrow> video \<Rightarrow> video" where
  "frame ps v = flush_frame (fold (\<lambda>(x, y, c). setPixelAt x y c) ps (initVCache v))"

definition picture :: "pixel list \<Rightarrow> nat \<Rightarrow> nat \<Rightarrow> u8" where
  "picture ps = fold (\<lambda>(x, y, c) f. if visible (x, y, c) then f(unat x := (f (unat x))(unat y := c)) else f) ps (\<lambda>_ _. 0)"

definition touched :: "pixel list \<Rightarrow> nat \<Rightarrow> bool" where
  "touched ps r \<longleftrightarrow> (\<exists>(x, y, c) \<in> set ps. visible (x, y, c) \<and> unat x = r)"

definition video_ok :: "video \<Rightarrow> bool" where
  "video_ok v \<longleftrightarrow> stamp v < 30 \<and>
     (\<forall>x < VHEIGHT. VCDIRTY v x \<in> {0, 1} \<and>
        (VCDIRTY v x = 0 \<longrightarrow> (\<forall>y < VWIDTH. VRAM v (VWIDTH * x + y) = 0)))"

lemma in_screen: "sint (x :: u32) < 0 \<or> sint x \<ge> int n \<longleftrightarrow> \<not> unat x < n" if "n < 2 ^ 31"
proof -
  define k where "k = unat x"
  have "k < 2 ^ 32" using unat_u32_less [of x] by (simp add: k_def)
  then show ?thesis using that unfolding sint_u32 k_def [symmetric] by auto
qed

lemma setPixelAt_visible:
  "setPixelAt x y c v = (if visible (x, y, c)
     then v\<lparr>VDIRTY := (VDIRTY v)(unat x := 1), VCDIRTY := (VCDIRTY v)(unat x := 1),
            VCACHE := (VCACHE v)(VWIDTH * unat x + unat y := c)\<rparr> else v)"
  using in_screen [of VHEIGHT x] in_screen [of VWIDTH y] by (auto simp: setPixelAt_def visible_def video_consts)

text \<open>What the cache holds after the pixels of a frame.\<close>

definition drawn :: "pixel list \<Rightarrow> video \<Rightarrow> video \<Rightarrow> bool" where
  "drawn ps v v' \<longleftrightarrow> VRAM v' = VRAM v \<and> stamp v' = stamp v \<and>
     (\<forall>r < VHEIGHT. VDIRTY v' r = (if touched ps r then 1 else 0) \<and>
        VCDIRTY v' r = (if touched ps r then 1 else VCDIRTY v r) \<and>
        (\<forall>q < VWIDTH. VCACHE v' (VWIDTH * r + q) = picture ps r q \<and> (\<not> touched ps r \<longrightarrow> picture ps r q = 0)))"

lemma pixel_index: "q < VWIDTH \<Longrightarrow> q' < VWIDTH \<Longrightarrow> VWIDTH * r + q = VWIDTH * r' + q' \<longleftrightarrow> r = r' \<and> q = q'"
proof -
  assume q: "q < VWIDTH" "q' < VWIDTH"
  have "(VWIDTH * a + b) div VWIDTH = a" "(VWIDTH * a + b) mod VWIDTH = b" if "b < VWIDTH" for a b
    using that by (simp_all add: VWIDTH_def)
  with q show ?thesis by metis
qed

lemma touched_snoc: "touched (ps @ [p]) r \<longleftrightarrow> touched ps r \<or> (visible p \<and> unat (fst p) = r)"
  by (cases p) (auto simp: touched_def)

lemma picture_snoc:
  "picture (ps @ [(x, y, c)]) r q = (if visible (x, y, c) \<and> unat x = r \<and> unat y = q then c else picture ps r q)"
  by (auto simp: picture_def)

lemma drawn_step:
  assumes d: "drawn ps v w"
  shows "drawn (ps @ [(x, y, c)]) v (setPixelAt x y c w)"
proof (cases "visible (x, y, c)")
  case True
  then have b: "unat x < VHEIGHT" "unat y < VWIDTH" by (simp_all add: visible_def)
  have t: "touched (ps @ [(x, y, c)]) r \<longleftrightarrow> touched ps r \<or> unat x = r" for r using True by (simp add: touched_snoc)
  have p: "picture (ps @ [(x, y, c)]) r q = (if unat x = r \<and> unat y = q then c else picture ps r q)" for r q
    using True by (simp add: picture_snoc)
  have "VCACHE (setPixelAt x y c w) (VWIDTH * r + q) = (if unat x = r \<and> unat y = q then c else VCACHE w (VWIDTH * r + q))"
    if "q < VWIDTH" for r q using True pixel_index [OF that b(2), of r "unat x"] by (auto simp: setPixelAt_visible)
  then show ?thesis using d True unfolding drawn_def t p by (auto simp: setPixelAt_visible)
next
  case False
  then show ?thesis using d by (simp add: drawn_def setPixelAt_visible touched_snoc picture_snoc)
qed

lemma drawn_fold: "drawn ps v (fold (\<lambda>(x, y, c). setPixelAt x y c) ps (initVCache v))"
proof (induction ps rule: rev_induct)
  case Nil
  have "VWIDTH * r + q < 4 * (VSIZE div 4)" if "r < VHEIGHT" "q < VWIDTH" for r q
    using that by (simp add: video_consts)
  then show ?case
    by (simp add: drawn_def initVCache_def copy_words_def VEMPTY_def picture_def touched_def clear_rows_eq)
next
  case (snoc p ps)
  then show ?case by (cases p) (simp add: drawn_step)
qed

text \<open>One frame, row by row.\<close>

lemma frame_effect:
  assumes "stamp v < 30" "r < VHEIGHT" "VCDIRTY v r \<in> {0, 1}"
  shows "q < VWIDTH \<Longrightarrow> VRAM (frame ps v) (VWIDTH * r + q) =
      (if touched ps r then picture ps r q else if VCDIRTY v r = 1 then 0 else VRAM v (VWIDTH * r + q))"
    "VCDIRTY (frame ps v) r = (if stamp v = 29 then 0 else if touched ps r then 1 else VCDIRTY v r)"
    "stamp (frame ps v) = (if stamp v = 29 then 0 else stamp v + 1)"
proof -
  let ?v = "fold (\<lambda>(x, y, c). setPixelAt x y c) ps (initVCache v)"
  have d: "drawn ps v ?v" by (rule drawn_fold)
  have row: "(VWIDTH * r + q) div VWIDTH = r" if "q < VWIDTH" for q using that by (simp add: VWIDTH_def)
  show "q < VWIDTH \<Longrightarrow> VRAM (frame ps v) (VWIDTH * r + q) =
      (if touched ps r then picture ps r q else if VCDIRTY v r = 1 then 0 else VRAM v (VWIDTH * r + q))"
    using d assms row
    by (auto simp: frame_def flush_frame_def flushVCache_def flush_rows_eq clearVRAM_eq wipe_rows_eq drawn_def)
  show "VCDIRTY (frame ps v) r = (if stamp v = 29 then 0 else if touched ps r then 1 else VCDIRTY v r)"
    "stamp (frame ps v) = (if stamp v = 29 then 0 else stamp v + 1)"
    using d assms by (simp_all add: frame_def flush_frame_def flushVCache_def flush_rows_eq clearVRAM_eq drawn_def)
qed

text \<open>
  C37. A frame refines its picture: on a consistent screen, clearing the cache, setting any pixels (also
  outside the screen) and flushing shows exactly the picture of those pixels, whatever was
  shown before.  The screen stays consistent, so that this holds for the next frame as well, unless this is the
  frame in which the counter wraps at 30.
\<close>

theorem frame_shows_picture:
  assumes "video_ok v"
  shows "(\<forall>r < VHEIGHT. \<forall>q < VWIDTH. VRAM (frame ps v) (VWIDTH * r + q) = picture ps r q) \<and>
    (stamp v \<noteq> 29 \<longrightarrow> video_ok (frame ps v))"
proof -
  have st: "stamp v < 30" and cd: "\<And>r. r < VHEIGHT \<Longrightarrow> VCDIRTY v r \<in> {0, 1}" and
    clean: "\<And>r q. r < VHEIGHT \<Longrightarrow> VCDIRTY v r = 0 \<Longrightarrow> q < VWIDTH \<Longrightarrow> VRAM v (VWIDTH * r + q) = 0"
    using assms by (auto simp: video_ok_def)
  note fe = frame_effect [OF st _ cd]
  have zero: "\<not> touched ps r \<Longrightarrow> r < VHEIGHT \<Longrightarrow> q < VWIDTH \<Longrightarrow> picture ps r q = 0" for r q
    using drawn_fold [of ps v] by (simp add: drawn_def)
  have show_it: "VRAM (frame ps v) (VWIDTH * r + q) = picture ps r q" if "r < VHEIGHT" "q < VWIDTH" for r q
    using fe(1) [OF that(1) that(1) that(2)] clean [OF that(1) _ that(2)] cd [OF that(1)] zero [OF _ that] by auto
  have "video_ok (frame ps v)" if "stamp v \<noteq> 29"
  proof -
    have "stamp v < 29" using st that by (auto simp: word_less_nat_alt word_unat_eq_iff)
    then have "stamp (frame ps v) < 30" using frame_effect(3) [OF st, of 0 ps] cd [of 0] that
      by (simp add: VHEIGHT_def word_less_nat_alt unat_word_ariths)
    then show ?thesis using fe(2) cd that show_it zero by (auto simp: video_ok_def)
  qed
  then show ?thesis using show_it by blast
qed

definition blank_video :: video where
  "blank_video = \<lparr>VRAM = (\<lambda>_. 0), VCACHE = (\<lambda>_. 0), VDIRTY = (\<lambda>_. 0), VCDIRTY = (\<lambda>_. 0), stamp = 0\<rparr>"

theorem frame_shows_picture_witness:
  "VRAM (frame [(1, 2, 7), (1, 400, 9)] blank_video) (VWIDTH * 1 + 2) = 7"
proof -
  have "video_ok blank_video" by (simp add: video_ok_def blank_video_def)
  then have "\<forall>r < VHEIGHT. \<forall>q < VWIDTH. VRAM (frame [(1, 2, 7), (1, 400, 9)] blank_video) (VWIDTH * r + q)
      = picture [(1, 2, 7), (1, 400, 9)] r q" using frame_shows_picture by blast
  from this [rule_format, of 1 2] show ?thesis by (simp add: picture_def visible_def video_consts)
qed

text \<open>
  A row drawn in the frame in which the counter wraps stays on the screen: no later frame that leaves
  the row alone wipes it, since the wrap forgets the row before it is flushed.
\<close>

theorem wrapped_frame_leaves_ghost:
  assumes "stamp v = 29" "VCDIRTY v r \<in> {0, 1}" "r < VHEIGHT" "q < VWIDTH" "touched ps r"
    and "\<forall>f \<in> set later. \<not> touched f r"
  shows "VRAM (fold frame later (frame ps v)) (VWIDTH * r + q) = picture ps r q"
proof -
  let ?w = "\<lambda>fs. fold frame fs (frame ps v)"
  have "stamp v < 30" using assms(1) by simp
  note fe = frame_effect [OF this assms(3,2)]
  have "stamp (?w later) < 30 \<and> VCDIRTY (?w later) r = 0 \<and> VRAM (?w later) (VWIDTH * r + q) = picture ps r q"
    using assms(6)
  proof (induction later rule: rev_induct)
    case Nil
    then show ?case using fe(1) [OF assms(4), of ps] fe(2,3) [of ps] assms(1,5) by simp
  next
    case (snoc f later)
    then have IH: "stamp (?w later) < 30" "VCDIRTY (?w later) r = 0" "VRAM (?w later) (VWIDTH * r + q) = picture ps r q"
      and f: "\<not> touched f r" by simp_all
    have "VCDIRTY (?w later) r \<in> {0, 1}" using IH(2) by simp
    note fe' = frame_effect [OF IH(1) assms(3) this, where ps = f]
    have "stamp (frame f (?w later)) < 30"
      using fe'(3) IH(1) by (cases "stamp (?w later) = 29") (auto simp: word_less_nat_alt unat_word_ariths word_unat_eq_iff)
    then show ?case using fe'(1) [OF assms(4)] fe'(2) IH(2,3) f by simp
  qed
  then show ?thesis by blast
qed

theorem wrapped_frame_leaves_ghost_witness:
  "VRAM (frame [] (frame [(1, 2, 7)] (blank_video\<lparr>stamp := 29\<rparr>))) (VWIDTH * 1 + 2) = 7"
  using wrapped_frame_leaves_ghost [of "blank_video\<lparr>stamp := 29\<rparr>" 1 2 "[(1, 2, 7)]" "[[]]"]
  by (simp add: blank_video_def picture_def touched_def visible_def video_consts)

end
