(* ===== verification/Page_Tables.thy ===== *)
theory Page_Tables
  imports Paging
begin

text \<open>
  What the page allocator and the page table operations of \<^verbatim>\<open>pmap.c\<close> guarantee.  The free list is a
  stack of page numbers; an address space is seen through the two-level walk of the processor
  (\<open>pt_lookup\<close>, \<open>mmu_translate\<close>).
\<close>

section \<open>The allocator as a stack\<close>

text \<open>
  The interface of a page allocator: \<open>stack s xs\<close> says that \<open>xs\<close> are the free pages of state \<open>s\<close>, next one first.
\<close>

locale page_stack =
  fixes alloc :: "'s \<Rightarrow> nat option \<times> 's"
    and free :: "nat \<Rightarrow> 's \<Rightarrow> 's"
    and stack :: "'s \<Rightarrow> nat list \<Rightarrow> bool"
  assumes alloc_empty: "stack s [] \<Longrightarrow> \<exists>s'. alloc s = (None, s') \<and> stack s' []"
    and alloc_top: "stack s (p # ps) \<Longrightarrow> \<exists>s'. alloc s = (Some p, s') \<and> stack s' ps"
    and free_push: "stack s ps \<Longrightarrow> p \<notin> set ps \<Longrightarrow> stack (free p s) (p # ps)"
    and stack_distinct: "stack s ps \<Longrightarrow> distinct ps"
begin

primrec alloc_n :: "nat \<Rightarrow> 's \<Rightarrow> nat option list \<times> 's" where
  "alloc_n 0 s = ([], s)"
| "alloc_n (Suc n) s = (case alloc s of (p, s) \<Rightarrow> case alloc_n n s of (ps, s) \<Rightarrow> (p # ps, s))"

lemma alloc_n_takes:
  "stack s ps \<Longrightarrow> n \<le> length ps \<Longrightarrow> \<exists>s'. alloc_n n s = (map Some (take n ps), s') \<and> stack s' (drop n ps)"
proof (induction n arbitrary: s ps)
  case (Suc n)
  then obtain p qs where ps: "ps = p # qs" by (cases ps) auto
  then obtain s1 where s1: "alloc s = (Some p, s1)" "stack s1 qs" using alloc_top Suc.prems(1) by blast
  then show ?case using Suc.IH [OF s1(2)] Suc.prems ps by auto
qed simp

lemma alloc_n_fails:
  assumes "stack s ps"
  shows "\<exists>s'. alloc_n (length ps + n) s = (map Some ps @ replicate n None, s') \<and> stack s' []"
  using assms
proof (induction ps arbitrary: s)
  case Nil
  then show ?case
  proof (induction n arbitrary: s)
    case (Suc n)
    then obtain s1 where "alloc s = (None, s1)" "stack s1 []" using alloc_empty by blast
    then show ?case using Suc.IH by fastforce
  qed simp
next
  case (Cons p ps)
  then obtain s1 where s1: "alloc s = (Some p, s1)" "stack s1 ps" using alloc_top by blast
  then show ?case using Cons.IH [OF s1(2)] by auto
qed

lemma alloc_n_distinct:
  assumes "stack s ps" "n \<le> length ps" "alloc_n n s = (rs, s')"
  shows "distinct rs \<and> None \<notin> set rs"
proof -
  have "rs = map Some (take n ps)" using alloc_n_takes [OF assms(1,2)] assms(3) by auto
  then show ?thesis using stack_distinct [OF assms(1)] by (auto simp: distinct_map)
qed

end

definition free_list :: "'a pagingst_scheme \<Rightarrow> nat list \<Rightarrow> bool" where
  "free_list s ps \<longleftrightarrow> chain (\<lambda>p. pp_link (pages s p)) (page_free_list s) ps"

lemma free_list_mem [simp]: "free_list (memset d v n s) ps = free_list s ps"
  "free_list (printk_str str s) ps = free_list s ps"
  by (simp_all add: free_list_def memset_def printk_str_def)

lemma chain_link_upd:
  assumes "p \<notin> set ps"
  shows "chain (\<lambda>q. pp_link (if q = p then x else g q)) y ps = chain (\<lambda>q. pp_link (g q)) y ps"
  using assms by (intro chain_cong) auto

lemma page_alloc_top:
  assumes "free_list s (p # ps)"
  shows "\<exists>s'. page_alloc fl s = (Some p, s') \<and> free_list s' ps"
proof -
  have h: "page_free_list s = Some p" "chain (\<lambda>p. pp_link (pages s p)) (pp_link (pages s p)) ps"
    using assms by (simp_all add: free_list_def)
  moreover have "p \<notin> set ps" using assms chain_distinct unfolding free_list_def by fastforce
  ultimately show ?thesis
    by (auto simp: page_alloc_def Let_def memset_def set_page_def free_list_def fun_upd_def chain_link_upd)
qed

lemma page_free_push:
  assumes "free_list s ps" "p \<notin> set ps"
  shows "free_list (page_free p s) (p # ps)"
  using assms by (simp add: page_free_def Let_def set_page_def free_list_def fun_upd_def chain_link_upd)

interpretation pgs: page_stack "page_alloc fl" page_free free_list for fl
proof unfold_locales
  show "free_list s [] \<Longrightarrow> \<exists>s'. page_alloc fl s = (None, s') \<and> free_list s' []" for s :: "'a pagingst_scheme"
    by (auto simp: free_list_def page_alloc_def printk_str_def)
  show "free_list s ps \<Longrightarrow> distinct ps" for s :: "'a pagingst_scheme" and ps
    unfolding free_list_def by (rule chain_distinct)
qed (auto intro: page_alloc_top page_free_push)

text \<open>
  C19. The page allocator refines a stack: asking for more pages than are free returns each free page once, in the order of
  the list, and then \<^verbatim>\<open>NULL\<close>; a page given back is the next one to be handed out.
\<close>

theorem page_allocator_is_stack:
  assumes "free_list s ps" "p \<notin> set ps"
  shows "(\<exists>s'. page_stack.alloc_n (page_alloc fl) (length ps + n) s = (map Some ps @ replicate n None, s') \<and>
      free_list s' []) \<and>
    (\<exists>s'. page_alloc fl (page_free p s) = (Some p, s') \<and> free_list s' ps)"
  using pgs.alloc_n_fails [OF assms(1)] pgs.alloc_top [OF pgs.free_push [OF assms]] by blast

lemma reserve_loop_list: "page_free_list (reserve_loop n s) = page_free_list s"
  by (induction n) (simp_all add: set_page_def)

lemma free_loop_list:
  assumes "free_list s ps" "\<forall>p \<in> set ps. base + n \<le> p"
  shows "free_list (free_loop n base s) ([base..<base + n] @ ps)"
  using assms
proof (induction n arbitrary: s ps)
  case (Suc n)
  let ?s1 = "set_page (base + n) (\<lambda>p. p\<lparr>pp_ref := 0\<rparr>) s"
  have notin: "base + n \<notin> set ps" using Suc.prems(2) by auto
  then have s1: "free_list ?s1 ps"
    using Suc.prems(1) by (simp add: free_list_def set_page_def fun_upd_def chain_link_upd)
  have push: "free_list (page_free (base + n) ?s1) ((base + n) # ps)" by (rule page_free_push [OF s1 notin])
  have "free_loop (Suc n) base s = free_loop n base (page_free (base + n) ?s1)"
    by (simp add: page_free_def Let_def)
  moreover have "free_list (free_loop n base (page_free (base + n) ?s1)) ([base..<base + n] @ (base + n) # ps)"
    using Suc.prems(2) by (intro Suc.IH push) (auto simp: Suc_le_eq)
  ultimately show ?case by simp
qed simp

section \<open>Address arithmetic\<close>

lemma and_3FF: "x AND 0x3FF = take_bit 10 (x :: u32)" and and_FFF: "x AND 0xFFF = take_bit 12 (x :: u32)"
  by (simp_all add: take_bit_eq_mask mask_eq_exp_minus_1)

lemma unat_take_bit: "unat (take_bit n x) = unat (x :: u32) mod 2 ^ n"
  by (simp only: unsigned_take_bit_eq) (simp add: take_bit_eq_mod)

lemma unat_drop_bit: "unat (drop_bit n x) = unat (x :: u32) div 2 ^ n"
  by (simp only: unsigned_drop_bit_eq) (use unat_u32_less [of x] in \<open>simp add: drop_bit_eq_div take_bit_eq_mod\<close>)

lemma PDX_nat: "PDX la = unat la div 2 ^ 22"
proof -
  have "unat la div 2 ^ 22 < 1024" using unat_u32_less [of la] by (simp add: less_mult_imp_div_less)
  then show ?thesis by (simp add: PDX_def and_3FF unat_take_bit unat_drop_bit)
qed

lemma PTX_nat: "PTX la = unat la div 2 ^ 12 mod 1024"
  by (simp add: PTX_def and_3FF unat_take_bit unat_drop_bit)

lemma PGOFF_nat: "unat (PGOFF la) = unat la mod 4096"
  by (simp add: PGOFF_def and_FFF unat_take_bit)

lemma not_FFF: "NOT (0xFFF :: u32) = NOT (mask 12)"
  by (simp add: mask_eq_exp_minus_1)

text \<open>An entry is a frame address with attribute bits.\<close>

lemma PTE_ADDR_or:
  assumes "take_bit 12 a = 0" "e AND NOT 0xFFF = 0"
  shows "PTE_ADDR (a OR e) = a"
proof (rule bit_word_eqI)
  fix n assume n: "n < LENGTH(32)"
  have "\<not> (n < 12 \<and> bit a n)" using assms(1) by (auto simp: bit_eq_iff bit_take_bit_iff)
  moreover have "\<not> (12 \<le> n \<and> bit e n)" using assms(2) n unfolding not_FFF
    by (auto simp: bit_eq_iff bit_and_iff bit_not_iff bit_mask_iff)
  ultimately show "bit (PTE_ADDR (a OR e)) n = bit a n" using n
    unfolding PTE_ADDR_def not_FFF by (auto simp: bit_and_iff bit_or_iff bit_not_iff bit_mask_iff)
qed

lemma flags_small: "PTE_P AND NOT 0xFFF = 0" "PTE_W AND NOT 0xFFF = 0" "PTE_U AND NOT 0xFFF = 0"
  by (simp_all add: pg_consts)

lemma flags_or: "e AND NOT 0xFFF = 0 \<Longrightarrow> e' AND NOT 0xFFF = (0 :: u32) \<Longrightarrow> (e OR e') AND NOT 0xFFF = 0"
  by (simp add: bit.conj_disj_distrib2)

lemma take_bit_page2pa: "take_bit 12 (page2pa p) = 0"
  by (rule bit_word_eqI) (auto simp: page2pa_def bit_take_bit_iff bit_push_bit_iff)

lemma PGADDR_parts:
  assumes D: "take_bit 10 D = D" and T: "take_bit 10 T = T" and E: "take_bit 12 E = E"
  shows "take_bit 10 (drop_bit 22 (PGADDR D T E)) = D" "take_bit 10 (drop_bit 12 (PGADDR D T E)) = T"
    "take_bit 12 (PGADDR D T E) = E"
proof -
  have b: "bit D n \<Longrightarrow> n < 10" "bit T n \<Longrightarrow> n < 10" "bit E n \<Longrightarrow> n < 12" for n
    using D T E by (metis bit_take_bit_iff)+
  show "take_bit 10 (drop_bit 22 (PGADDR D T E)) = D"
    by (rule bit_word_eqI)
      (use b in \<open>force simp: PGADDR_def bit_take_bit_iff bit_drop_bit_eq bit_or_iff bit_push_bit_iff\<close>)
  show "take_bit 10 (drop_bit 12 (PGADDR D T E)) = T"
    by (rule bit_word_eqI)
      (use b in \<open>force simp: PGADDR_def bit_take_bit_iff bit_drop_bit_eq bit_or_iff bit_push_bit_iff\<close>)
  show "take_bit 12 (PGADDR D T E) = E"
    by (rule bit_word_eqI) (use b in \<open>force simp: PGADDR_def bit_take_bit_iff bit_or_iff bit_push_bit_iff\<close>)
qed

lemma PGADDR_of_parts:
  "PGADDR (take_bit 10 (drop_bit 22 la)) (take_bit 10 (drop_bit 12 la)) (take_bit 12 la) = la"
proof (rule bit_word_eqI)
  fix n assume n: "n < LENGTH(32)"
  consider "n < 12" | "12 \<le> n" "n < 22" | "22 \<le> n" by linarith
  then show "bit (PGADDR (take_bit 10 (drop_bit 22 la)) (take_bit 10 (drop_bit 12 la)) (take_bit 12 la)) n = bit la n"
    by cases (use n in \<open>auto simp: PGADDR_def bit_take_bit_iff bit_drop_bit_eq bit_or_iff bit_push_bit_iff\<close>)
qed

lemma take_bit_of_nat: "n < 2 ^ k \<Longrightarrow> k \<le> 32 \<Longrightarrow> take_bit k (of_nat n :: u32) = of_nat n"
proof -
  assume n: "n < 2 ^ k" "k \<le> 32"
  have "n < 2 ^ 32" using n by (meson less_le_trans one_le_numeral power_increasing)
  then have "unat (of_nat n :: u32) = n" by (rule unat_small)
  then show ?thesis using n(1) by (simp only: word_unat_eq_iff unat_take_bit mod_less)
qed

text \<open>
  The page arithmetic of \<^verbatim>\<open>mmu.h\<close>: an address is put together again from its directory index, table index and
  offset, and any three in range are the parts of the address made from them.
\<close>

theorem PGADDR_roundtrip:
  "PGADDR (of_nat (PDX la)) (of_nat (PTX la)) (PGOFF la) = la \<and>
   (d < 1024 \<and> t < 1024 \<and> e < 4096 \<longrightarrow>
     PDX (PGADDR (of_nat d) (of_nat t) (of_nat e)) = d \<and> PTX (PGADDR (of_nat d) (of_nat t) (of_nat e)) = t \<and>
     PGOFF (PGADDR (of_nat d) (of_nat t) (of_nat e)) = of_nat e)"
proof -
  have "of_nat (PDX la) = take_bit 10 (drop_bit 22 la)" "of_nat (PTX la) = take_bit 10 (drop_bit 12 la)"
    "PGOFF la = take_bit 12 la" by (simp_all only: PDX_def PTX_def PGOFF_def and_3FF and_FFF of_nat_unat ucast_id)
  then have "PGADDR (of_nat (PDX la)) (of_nat (PTX la)) (PGOFF la) = la" using PGADDR_of_parts [of la] by simp
  moreover have "PDX (PGADDR (of_nat d) (of_nat t) (of_nat e)) = d \<and> PTX (PGADDR (of_nat d) (of_nat t) (of_nat e)) = t \<and>
      PGOFF (PGADDR (of_nat d) (of_nat t) (of_nat e)) = of_nat e" if r: "d < 1024" "t < 1024" "e < 4096"
  proof -
    have tb: "take_bit 10 (of_nat d :: u32) = of_nat d" "take_bit 10 (of_nat t :: u32) = of_nat t"
      "take_bit 12 (of_nat e :: u32) = of_nat e" using r by (auto intro!: take_bit_of_nat)
    show ?thesis using r unfolding PDX_def PTX_def PGOFF_def and_3FF and_FFF PGADDR_parts [OF tb]
      by (auto intro!: unat_small)
  qed
  ultimately show ?thesis by blast
qed

theorem PGADDR_roundtrip_witness: "PDX (PGADDR (of_nat 768) (of_nat 256) (of_nat 5)) = 768"
  using PGADDR_roundtrip [where d = 768 and t = 256 and e = 5] by simp

section \<open>Mapping a page\<close>

lemma page2kva_PADDR: "PADDR (page2kva p) = page2pa p"
  by (simp add: PADDR_def page2kva_def KADDR_def)

lemma present_bit: "x AND PTE_P \<noteq> 0 \<longleftrightarrow> bit x 0"
  by (simp add: PTE_P_def and_one_eq mod_2_eq_odd bit_0)

lemma state_mem [simp]:
  "mem (set_page p f s) = mem s" "mem (page_incref p s) = mem s" "mem (page_decref p s) = mem s"
  "mem (tlb_invalidate va s) = mem s" "mem (store a v s) = (mem s)(a := v)" "pages (store a v s) = pages s"
  "pages (tlb_invalidate va s) = pages s"
  by (simp_all add: set_page_def page_incref_def page_decref_def page_free_def tlb_invalidate_def store_def Let_def)

text \<open>After a successful walk the directory entry is present and leads to the entry returned.\<close>

lemma pgdir_walk_entry:
  assumes "pgdir_walk pgdir va create s = (Some pte, s1)"
  defines "pde \<equiv> mem s1 (entry_addr pgdir (PDX va))"
  shows "pde AND PTE_P \<noteq> 0" "pte = entry_addr (KADDR (PTE_ADDR pde)) (PTX va)"
proof -
  let ?p = "entry_addr pgdir (PDX va)"
  have "pde AND PTE_P \<noteq> 0 \<and> pte = entry_addr (KADDR (PTE_ADDR pde)) (PTX va)"
  proof (cases "mem s ?p AND PTE_P \<noteq> 0")
    case True
    then show ?thesis using assms by (auto simp: pgdir_walk_def Let_def)
  next
    case False
    then obtain p s2 where p: "page_alloc ALLOC_ZERO s = (Some p, s2)"
      and "pde = page2pa p OR PTE_P OR PTE_W OR PTE_U" and pte: "pte = entry_addr (page2kva p) (PTX va)"
      using assms by (auto simp: pgdir_walk_def Let_def page2kva_PADDR split: if_splits prod.splits option.splits)
    then have pde: "pde = page2pa p OR (PTE_P OR PTE_W OR PTE_U)" by (simp add: or.assoc)
    have "PTE_ADDR pde = page2pa p"
      unfolding pde by (intro PTE_ADDR_or take_bit_page2pa flags_or flags_small)
    moreover have "pde AND PTE_P \<noteq> 0" unfolding present_bit pde by (simp add: bit_or_iff pg_consts)
    ultimately show ?thesis by (simp add: pte page2kva_def)
  qed
  then show "pde AND PTE_P \<noteq> 0" "pte = entry_addr (KADDR (PTE_ADDR pde)) (PTX va)" by auto
qed

text \<open>Inserting changes the entry found by the walk and no other word.\<close>

lemma page_insert_effect:
  assumes "pgdir_walk pgdir va True s = (Some pte, s1)"
  shows "\<exists>s'. page_insert pgdir (Some pp) va perm s = Inr (0, s') \<and>
    mem s' = (mem s1)(pte := page2pa pp OR perm OR PTE_P)"
proof -
  note w = pgdir_walk_entry [OF assms]
  have "page_lookup pgdir va s1 = Some (pa2page (PTE_ADDR (mem s1 pte)), pte)"
    using w by (simp add: page_lookup_def pgdir_walk_def Let_def)
  then have "mem (page_remove pgdir va s1) = (mem s1)(pte := 0)" by (simp add: page_remove_def)
  then show ?thesis using assms by (simp add: page_insert_def Let_def)
qed

text \<open>
  C16. \<open>page_insert\<close> maps the page: whenever the walk finds or makes a page table that is not the directory
  itself, the processor afterwards translates every address of the page at \<open>va\<close> to the frame of the page,
  with the permissions asked for.
\<close>

theorem page_insert_maps:
  assumes "pgdir_walk pgdir va True s = (Some pte, s1)" "pte \<noteq> entry_addr pgdir (PDX va)"
    and "perm AND NOT 0xFFF = 0" "PDX va' = PDX va" "PTX va' = PTX va"
  shows "\<exists>s'. page_insert pgdir (Some pp) va perm s = Inr (0, s') \<and>
    pt_lookup (mem s') pgdir va' = Some (page2pa pp OR perm OR PTE_P) \<and>
    map_option PTE_ADDR (pt_lookup (mem s') pgdir va') = Some (page2pa pp)"
proof -
  note w = pgdir_walk_entry [OF assms(1)]
  obtain s' where s': "page_insert pgdir (Some pp) va perm s = Inr (0, s')"
    "mem s' = (mem s1)(pte := page2pa pp OR perm OR PTE_P)" using page_insert_effect [OF assms(1)] by blast
  have present: "(page2pa pp OR perm OR PTE_P) AND PTE_P \<noteq> 0" unfolding present_bit by (simp add: bit_or_iff pg_consts)
  have "PTE_ADDR (page2pa pp OR (perm OR PTE_P)) = page2pa pp"
    using assms(3) by (intro PTE_ADDR_or take_bit_page2pa flags_or flags_small)
  moreover have "pt_lookup (mem s') pgdir va' = Some (page2pa pp OR perm OR PTE_P)"
    using w assms(2,4,5) present unfolding pt_lookup_def s'(2) by (simp add: Let_def)
  ultimately show ?thesis using s'(1) by (auto simp: or.assoc)
qed

text \<open>A state with one page table, at frame 5, for the first 4 MiB of the directory at frame 4.\<close>

definition sample_paging :: pagingst where
  "sample_paging = \<lparr>serial = [], mem = (\<lambda>a. if a = 0xC0004000 then 0x5007 else 0),
     pages = (\<lambda>_. \<lparr>pp_link = None, pp_ref = 0\<rparr>)(0 := \<lparr>pp_link = None, pp_ref = 1\<rparr>),
     page_free_list = Some 9, kpgdir = 0, kpgtable = 0, kern_pgdir = 0, cr3 = 0, flushed = []\<rparr>"

theorem page_allocator_is_stack_witness:
  "\<exists>s'. page_stack.alloc_n (page_alloc 0) 2 sample_paging = ([Some 9, None], s') \<and> free_list s' []"
  using page_allocator_is_stack [of sample_paging "[9]" 3 0 1]
  by (simp add: free_list_def sample_paging_def numeral_2_eq_2)

lemma sample_walk:
  "pgdir_walk 0xC0004000 0x3000 create sample_paging = (Some 0xC000500C, sample_paging)"
  by (simp add: pgdir_walk_def sample_paging_def PDX_nat PTX_nat entry_addr_def KADDR_def KERNBASE_def PTE_ADDR_def pg_consts)

theorem page_insert_maps_witness:
  "\<exists>s'. page_insert 0xC0004000 (Some 9) 0x3000 PTE_W sample_paging = Inr (0, s') \<and>
     map_option PTE_ADDR (pt_lookup (mem s') 0xC0004000 0x3123) = Some (page2pa 9)"
  using page_insert_maps [OF sample_walk [of True], of PTE_W "0x3123" 9]
  by (auto simp: PDX_nat PTX_nat entry_addr_def pg_consts)

text \<open>
  \<open>page_remove\<close> of an address that is not mapped: since \<open>page_lookup\<close> does not look at the present bit, an empty
  entry of an existing page table counts as a mapping of page 0; the operation then drops a reference of
  page 0 and, when that was the last one, puts page 0, which holds the BIOS data, on the free list.
\<close>

theorem page_remove_unmapped_frees_page_0:
  assumes "pgdir_walk pgdir va False s = (Some pte, s)" "mem s pte = 0" "pp_ref (pages s 0) = 1"
  shows "page_free_list (page_remove pgdir va s) = Some 0 \<and> pp_ref (pages (page_remove pgdir va s) 0) = 0"
proof -
  have "page_lookup pgdir va s = Some (0, pte)"
    using assms(1,2) by (simp add: page_lookup_def PTE_ADDR_def pa2page_def PGNUM_def)
  then have r: "page_remove pgdir va s = tlb_invalidate va (page_decref 0 (store pte 0 s))"
    by (simp add: page_remove_def)
  show ?thesis unfolding r using assms(3)
    by (simp add: page_decref_def page_free_def set_page_def tlb_invalidate_def Let_def)
qed

theorem page_remove_unmapped_frees_page_0_witness:
  "page_free_list (page_remove 0xC0004000 0x3000 sample_paging) = Some 0"
  using page_remove_unmapped_frees_page_0 [OF sample_walk] by (simp add: sample_paging_def)

section \<open>Zeroed pages\<close>

lemma page2kva_waddr: "page2kva p = waddr (1024 * p)"
proof -
  have "push_bit 12 (of_nat p :: u32) = of_nat p * 2 ^ 12" by (simp add: push_bit_eq_mult)
  then show ?thesis by (simp add: page2kva_def KADDR_def page2pa_def waddr_def)
qed

lemma page_alloc_zero_mem:
  assumes "page_free_list s = Some p" "p + 4 \<le> 2 ^ 18" "k < 2 ^ 28"
  shows "mem (snd (page_alloc ALLOC_ZERO s)) (waddr k) =
    (if 1024 * p \<le> k \<and> k < 1024 * (p + 4) then 0 else mem s (waddr k))"
proof -
  have "mem (snd (page_alloc ALLOC_ZERO s)) = rep_stosl PGSIZE (waddr (1024 * p)) 0 (mem s)"
    using assms(1) by (simp add: page_alloc_def Let_def memset_def set_page_def page2kva_waddr ALLOC_ZERO_def)
  moreover have "1024 * p + PGSIZE \<le> 2 ^ 28" using assms(2) by (simp add: PGSIZE_def)
  ultimately show ?thesis using rep_stosl_at [OF _ assms(3), of "1024 * p" PGSIZE 0 "mem s"]
    by (simp add: PGSIZE_def algebra_simps)
qed

text \<open>
  \<open>page_alloc\<close> with \<^verbatim>\<open>ALLOC_ZERO\<close> clears the page it returns and the three pages behind it, whoever owns them,
  and leaves every other word of the kernel's memory alone.
\<close>

theorem page_alloc_zeroes_four_pages:
  assumes "page_free_list s = Some p" "p + 4 \<le> 2 ^ 18" "k < 2 ^ 28"
  shows "mem (snd (page_alloc ALLOC_ZERO s)) (waddr k) =
    (if 1024 * p \<le> k \<and> k < 1024 * (p + 4) then 0 else mem s (waddr k))"
  by (rule page_alloc_zero_mem [OF assms])

theorem page_alloc_zeroes_four_pages_witness:
  "mem (snd (page_alloc ALLOC_ZERO (sample_paging\<lparr>mem := (\<lambda>_. 7)\<rparr>))) (waddr (1024 * 12)) = 0"
  using page_alloc_zeroes_four_pages [of "sample_paging\<lparr>mem := (\<lambda>_. 7)\<rparr>" 9 "1024 * 12"]
  by (simp add: sample_paging_def)

section \<open>The kernel's address space\<close>

lemma entry_addr_waddr: "entry_addr (waddr t) i = waddr (t + i)"
  by (simp add: entry_addr_def waddr_add)

lemma store_waddr: "store (waddr i) v s = s\<lparr>mem := (mem s)(waddr i := v)\<rparr>"
  by (simp add: store_def)

lemma kern_pde_loop_spec:
  assumes "kpgdir s = waddr D" "D + 768 + pdx + n \<le> 2 ^ 28"
  shows "\<exists>m. kern_pde_loop n pdx (waddr T) s = (waddr (T + 1024 * n), s\<lparr>mem := m\<rparr>) \<and>
    (\<forall>k < 2 ^ 28. m (waddr k) =
      (if D + 768 + pdx \<le> k \<and> k < D + 768 + pdx + n
       then PADDR (waddr (T + 1024 * (k - (D + 768 + pdx)))) OR PTE_P OR PTE_W else mem s (waddr k)))"
  using assms
proof (induction n arbitrary: pdx T s)
  case 0
  then show ?case by (intro exI [of _ "mem s"]) auto
next
  case (Suc n)
  let ?v = "PADDR (waddr T) OR PTE_P OR PTE_W" and ?i = "D + 768 + pdx"
  let ?s = "s\<lparr>mem := (mem s)(waddr ?i := ?v)\<rparr>"
  have "unat (drop_bit 22 KERNBASE) = 768" by (simp add: KERNBASE_def)
  then have step: "kern_pde_loop (Suc n) pdx (waddr T) s = kern_pde_loop n (Suc pdx) (waddr (T + 1024)) ?s"
    using Suc.prems by (simp add: entry_addr_waddr store_def waddr_add NPTENTRIES_def algebra_simps)
  obtain m where m: "kern_pde_loop n (Suc pdx) (waddr (T + 1024)) ?s = (waddr (T + 1024 + 1024 * n), ?s\<lparr>mem := m\<rparr>)"
    "\<forall>k < 2 ^ 28. m (waddr k) = (if D + 768 + Suc pdx \<le> k \<and> k < D + 768 + Suc pdx + n
       then PADDR (waddr (T + 1024 + 1024 * (k - (D + 768 + Suc pdx)))) OR PTE_P OR PTE_W else mem ?s (waddr k))"
    using Suc.IH [of ?s "Suc pdx" "T + 1024"] Suc.prems by auto
  have "m (waddr k) = (if ?i \<le> k \<and> k < ?i + Suc n
       then PADDR (waddr (T + 1024 * (k - ?i))) OR PTE_P OR PTE_W else mem s (waddr k))" if "k < 2 ^ 28" for k
  proof (cases "k \<le> ?i")
    case True
    then show ?thesis using m(2) that Suc.prems(2) by (cases "k = ?i") auto
  next
    case False
    then have "\<exists>r. k = ?i + Suc r" by presburger
    then obtain r where r: "k = ?i + Suc r" by blast
    have e: "T + 1024 + 1024 * (k - (D + 768 + Suc pdx)) = T + 1024 * (k - ?i)" by (simp add: r)
    have "m (waddr k) = (if D + 768 + Suc pdx \<le> k \<and> k < D + 768 + Suc pdx + n
        then PADDR (waddr (T + 1024 * (k - ?i))) OR PTE_P OR PTE_W else mem ?s (waddr k))"
      using m(2) that unfolding e [symmetric] by blast
    moreover have "mem ?s (waddr k) = mem s (waddr k)" using False that Suc.prems(2) by simp
    ultimately show ?thesis using False by (simp split: if_splits)
  qed
  then show ?case unfolding step using m(1) by (intro exI [of _ m]) (simp add: algebra_simps)
qed

lemma kern_pte_loop_spec:
  assumes "T + n \<le> 2 ^ 28"
  shows "\<exists>m. kern_pte_loop n (waddr (T + n) - 4) s = s\<lparr>mem := m\<rparr> \<and>
    (\<forall>k < 2 ^ 28. m (waddr k) = (if T \<le> k \<and> k < T + n
       then of_nat ((k - T) * PGSIZE) OR PTE_P OR PTE_U OR PTE_W else mem s (waddr k)))"
  using assms
proof (induction n arbitrary: s)
  case 0
  then show ?case by (intro exI [of _ "mem s"]) auto
next
  case (Suc n)
  let ?v = "of_nat (n * PGSIZE) OR PTE_P OR PTE_U OR PTE_W"
  let ?s = "s\<lparr>mem := (mem s)(waddr (T + n) := ?v)\<rparr>"
  have "waddr (T + Suc n) - 4 = waddr (T + n)" by (simp add: waddr_Suc)
  then have step: "kern_pte_loop (Suc n) (waddr (T + Suc n) - 4) s = kern_pte_loop n (waddr (T + n) - 4) ?s"
    by (simp add: store_waddr)
  obtain m where m: "kern_pte_loop n (waddr (T + n) - 4) ?s = ?s\<lparr>mem := m\<rparr>"
    "\<forall>k < 2 ^ 28. m (waddr k) = (if T \<le> k \<and> k < T + n
       then of_nat ((k - T) * PGSIZE) OR PTE_P OR PTE_U OR PTE_W else mem ?s (waddr k))"
    using Suc.IH [of ?s] Suc.prems by auto
  have "m (waddr k) = (if T \<le> k \<and> k < T + Suc n
       then of_nat ((k - T) * PGSIZE) OR PTE_P OR PTE_U OR PTE_W else mem s (waddr k))" if "k < 2 ^ 28" for k
    using m(2) that Suc.prems by (cases "k = T + n") auto
  then show ?case unfolding step using m(1) by (intro exI [of _ m]) simp
qed

text \<open>
  \<open>tables_apart D T\<close>: the directory at word \<open>D\<close> of the kernel window and the 32 tables at word \<open>T\<close> are page aligned and
  do not overlap.
\<close>

definition tables_apart :: "nat \<Rightarrow> nat \<Rightarrow> bool" where
  "tables_apart D T \<longleftrightarrow> D mod 1024 = 0 \<and> T mod 1024 = 0 \<and> D + 1024 \<le> 2 ^ 28 \<and> T + 32768 \<le> 2 ^ 28 \<and>
     (D + 1024 \<le> T \<or> T + 32768 \<le> D)"

lemma init_kern_pgdir_spec:
  assumes "kpgdir s = waddr D" "kpgtable s = waddr T" "tables_apart D T"
  shows "\<exists>m. init_kern_pgdir s = s\<lparr>mem := m, kern_pgdir := waddr D, cr3 := PADDR (waddr D)\<rparr> \<and>
    (\<forall>k < 2 ^ 28. m (waddr k) =
      (if T \<le> k \<and> k < T + 32768 then of_nat ((k - T) * PGSIZE) OR PTE_P OR PTE_U OR PTE_W
       else if D + 768 \<le> k \<and> k < D + 800 then PADDR (waddr (T + 1024 * (k - (D + 768)))) OR PTE_P OR PTE_W
       else mem s (waddr k)))"
proof -
  obtain m1 where m1: "kern_pde_loop 32 0 (waddr T) s = (waddr (T + 1024 * 32), s\<lparr>mem := m1\<rparr>)"
    "\<forall>k < 2 ^ 28. m1 (waddr k) = (if D + 768 + 0 \<le> k \<and> k < D + 768 + 0 + 32
       then PADDR (waddr (T + 1024 * (k - (D + 768 + 0)))) OR PTE_P OR PTE_W else mem s (waddr k))"
    using kern_pde_loop_spec [OF assms(1), of 0 32 T] assms(3) by (auto simp: tables_apart_def)
  obtain m2 where m2: "kern_pte_loop 32768 (waddr (T + 32768) - 4) (s\<lparr>mem := m1\<rparr>) = s\<lparr>mem := m1\<rparr>\<lparr>mem := m2\<rparr>"
    "\<forall>k < 2 ^ 28. m2 (waddr k) = (if T \<le> k \<and> k < T + 32768
       then of_nat ((k - T) * PGSIZE) OR PTE_P OR PTE_U OR PTE_W else mem (s\<lparr>mem := m1\<rparr>) (waddr k))"
    using kern_pte_loop_spec [of T 32768 "s\<lparr>mem := m1\<rparr>"] assms(3) by (auto simp: tables_apart_def)
  have "npages div NPTENTRIES = 32" "PHY_MEM div PGSIZE = 32768" by (simp_all add: pg_consts)
  then have "init_kern_pgdir s = s\<lparr>mem := m2, kern_pgdir := waddr D, cr3 := PADDR (waddr D)\<rparr>"
    using m1(1) m2(1) assms(1,2) by (simp add: init_kern_pgdir_def Let_def lcr3_def)
  then show ?thesis using m1(2) m2(2) by (intro exI [of _ m2]) simp
qed

lemma unat_kern: "pa < 2 ^ 30 \<Longrightarrow> unat (KERNBASE + of_nat pa) = 3221225472 + pa"
proof -
  assume "pa < 2 ^ 30"
  then have "unat (of_nat (3221225472 + pa) :: u32) = 3221225472 + pa" by (intro unat_small) simp
  then show ?thesis by (simp add: KERNBASE_def)
qed

lemma aligned_waddr: "take_bit 12 (PADDR (waddr (1024 * n))) = 0"
proof -
  have "PADDR (waddr (1024 * n)) = of_nat n * 2 ^ 12" by (simp add: PADDR_def waddr_def)
  then have "PADDR (waddr (1024 * n)) = push_bit 12 (of_nat n)" by (simp add: push_bit_eq_mult)
  then show ?thesis by (auto simp: bit_eq_iff bit_take_bit_iff bit_push_bit_iff)
qed

lemma KADDR_entry:
  assumes "T mod 1024 = 0" "e AND NOT 0xFFF = 0"
  shows "KADDR (PTE_ADDR (PADDR (waddr T) OR e)) = waddr T"
proof -
  obtain n where "T = 1024 * n" using assms(1) by (metis mod_0_imp_dvd dvdE)
  then have "PTE_ADDR (PADDR (waddr T) OR e) = PADDR (waddr T)"
    using PTE_ADDR_or [OF aligned_waddr assms(2)] by simp
  then show ?thesis by (simp add: KADDR_def PADDR_def)
qed

text \<open>A memory with these tables translates the kernel window linearly.\<close>

lemma linear_window:
  assumes t: "tables_apart D T" and "pa < PHY_MEM"
    and m: "\<And>k. T \<le> k \<Longrightarrow> k < T + 32768 \<Longrightarrow> m (waddr k) = of_nat ((k - T) * PGSIZE) OR PTE_P OR PTE_U OR PTE_W"
    and d: "\<And>k. D + 768 \<le> k \<Longrightarrow> k < D + 800 \<Longrightarrow> m (waddr k) = PADDR (waddr (T + 1024 * (k - (D + 768)))) OR PTE_P OR PTE_W"
  shows "pt_lookup m (waddr D) (KERNBASE + of_nat pa) = Some (of_nat (pa - pa mod 4096) OR PTE_P OR PTE_U OR PTE_W)"
proof -
  have pa: "pa < 134217728" using assms(2) by (simp add: PHY_MEM_def)
  let ?i = "pa div 4194304" and ?j = "pa div 4096 mod 1024" and ?va = "KERNBASE + of_nat pa"
  have va: "unat ?va = 3221225472 + pa" using pa by (intro unat_kern) simp
  have x: "PDX ?va = 768 + ?i" "PTX ?va = ?j" unfolding PDX_nat PTX_nat va
    using div_mult_self1 [of 4096 pa 786432] mod_mult_self1 [of "pa div 4096" 768 1024] by (simp_all add: add.commute)
  have i: "?i < 32" using pa by (simp add: less_mult_imp_div_less)
  have pde: "m (waddr (D + (768 + ?i))) = PADDR (waddr (T + 1024 * ?i)) OR (PTE_P OR PTE_W)"
    using d [of "D + (768 + ?i)"] i by (simp add: or.assoc)
  have "(T + 1024 * ?i) mod 1024 = 0" using t by (simp add: tables_apart_def)
  then have tab: "KADDR (PTE_ADDR (m (waddr (D + (768 + ?i))))) = waddr (T + 1024 * ?i)"
    unfolding pde by (intro KADDR_entry flags_or flags_small)
  have idx: "1024 * ?i + ?j = pa div 4096"
    using mult_div_mod_eq [of 1024 "pa div 4096"] by (simp add: div_mult2_eq [symmetric])
  have "pa div 4096 < 32768" using pa by (simp add: less_mult_imp_div_less)
  then have pte: "m (waddr (T + 1024 * ?i + ?j)) = of_nat (pa div 4096 * 4096) OR PTE_P OR PTE_U OR PTE_W"
    using m [of "T + pa div 4096"] idx by (simp add: PGSIZE_def add.assoc)
  have "pa div 4096 * 4096 = pa - pa mod 4096" by (simp add: minus_mod_eq_div_mult)
  moreover have "m (waddr (D + (768 + ?i))) AND PTE_P \<noteq> 0" "m (waddr (T + 1024 * ?i + ?j)) AND PTE_P \<noteq> 0"
    unfolding pde pte present_bit by (simp_all add: bit_or_iff pg_consts)
  ultimately show ?thesis using tab pte unfolding pt_lookup_def x entry_addr_waddr Let_def by (simp add: entry_addr_waddr)
qed

text \<open>The boot-time mapping loop over one page table that is already there.\<close>

lemma boot_map_loop_spec:
  assumes "mem s (waddr D) = pde" "pde AND PTE_P \<noteq> 0" "KADDR (PTE_ADDR pde) = waddr B"
    and "D < 2 ^ 28" "B + 1024 \<le> 2 ^ 28" "D < B \<or> B + 1024 \<le> D" "j + n \<le> 1024"
  shows "\<exists>m. boot_map_loop n (waddr D) (of_nat (4096 * j)) pa perm s = s\<lparr>mem := m\<rparr> \<and>
    (\<forall>k < 2 ^ 28. \<not> (B + j \<le> k \<and> k < B + j + n) \<longrightarrow> m (waddr k) = mem s (waddr k))"
  using assms
proof (induction n arbitrary: j pa s)
  case 0
  then show ?case by (intro exI [of _ "mem s"]) simp
next
  case (Suc n)
  have va: "unat (of_nat (4096 * j) :: u32) = 4096 * j" using Suc.prems(7) by (intro unat_small) simp
  have "PDX (of_nat (4096 * j)) = 0" "PTX (of_nat (4096 * j)) = j"
    unfolding PDX_nat PTX_nat va using Suc.prems(7) by simp_all
  then have w: "pgdir_walk (waddr D) (of_nat (4096 * j)) True s = (Some (waddr (B + j)), s)"
    using Suc.prems(1-3) by (simp add: pgdir_walk_def Let_def entry_addr_waddr)
  let ?s = "s\<lparr>mem := (mem s)(waddr (B + j) := pa OR perm OR PTE_P)\<rparr>"
  have "(of_nat (4096 * j) :: u32) + of_nat PGSIZE = of_nat (4096 * Suc j)" by (simp add: PGSIZE_def)
  then have step: "boot_map_loop (Suc n) (waddr D) (of_nat (4096 * j)) pa perm s
      = boot_map_loop n (waddr D) (of_nat (4096 * Suc j)) (pa + of_nat PGSIZE) perm ?s"
    using w by (simp only: boot_map_loop.simps prod.case option.case) (simp add: store_def)
  have "D \<noteq> B + j" using Suc.prems(6,7) by auto
  then have "mem ?s (waddr D) = pde" using Suc.prems by simp
  then obtain m where m: "boot_map_loop n (waddr D) (of_nat (4096 * Suc j)) (pa + of_nat PGSIZE) perm ?s = ?s\<lparr>mem := m\<rparr>"
    "\<forall>k < 2 ^ 28. \<not> (B + Suc j \<le> k \<and> k < B + Suc j + n) \<longrightarrow> m (waddr k) = mem ?s (waddr k)"
    using Suc.IH [of ?s "Suc j" "pa + of_nat PGSIZE"] Suc.prems(2-7) by auto
  show ?case unfolding step
    by (intro exI [of _ m]) (use m Suc.prems(5,7) in auto)
qed

text \<open>
  \<open>page_init\<close> runs with the kernel's static tables below the first free page (frame 1024), at words \<open>D\<close> and \<open>T\<close> of the kernel
  window, an empty free list and the first directory entry clear, as static storage is.
\<close>

definition boot_state :: "nat \<Rightarrow> nat \<Rightarrow> 'a pagingst_scheme \<Rightarrow> bool" where
  "boot_state D T s \<longleftrightarrow> kpgdir s = waddr D \<and> kpgtable s = waddr T \<and> tables_apart D T \<and>
     D + 1024 \<le> 1024 * 1024 \<and> T + 32768 \<le> 1024 * 1024 \<and> mem s (waddr D) = 0 \<and> page_free_list s = None"

lemma page_init_loops [simp]:
  "mem (reserve_loop n s) = mem s" "kern_pgdir (reserve_loop n s) = kern_pgdir s"
  "mem (free_loop n base s) = mem s" "kern_pgdir (free_loop n base s) = kern_pgdir s"
proof -
  show "mem (reserve_loop n s) = mem s" "kern_pgdir (reserve_loop n s) = kern_pgdir s"
    by (induction n) (simp_all add: set_page_def)
  show "mem (free_loop n base s) = mem s" "kern_pgdir (free_loop n base s) = kern_pgdir s"
    by (induction n arbitrary: s) (simp_all add: set_page_def Let_def)
qed

lemma free_list_upd [simp]:
  "free_list (s\<lparr>mem := m\<rparr>) ps = free_list s ps" "free_list (store a v s) ps = free_list s ps"
  "free_list (page_incref p s) ps = free_list s ps"
proof -
  have "pp_link (pages (page_incref p s) q) = pp_link (pages s q)" for q
    by (simp add: page_incref_def set_page_def)
  moreover have "page_free_list (page_incref p s) = page_free_list s" by (simp add: page_incref_def set_page_def)
  ultimately show "free_list (page_incref p s) ps = free_list s ps" by (simp add: free_list_def)
qed (simp_all add: free_list_def store_def)

lemma kern_pgdir_kept [simp]:
  "kern_pgdir (page_incref p s) = kern_pgdir s" "kern_pgdir (store a v s) = kern_pgdir s"
  "kern_pgdir (snd (page_alloc fl s)) = kern_pgdir s"
  by (simp_all add: page_incref_def set_page_def store_def page_alloc_def printk_str_def memset_def Let_def
      split: option.splits)

text \<open>The state in which the video memory is mapped: the free list is complete, the first directory entry empty.\<close>

lemma first_walk:
  assumes "free_list s (1024 # ps)" "mem s (waddr D) = 0" "D < 1024 * 1024"
  shows "\<exists>s'. pgdir_walk (waddr D) (of_nat (4096 * 160)) True s = (Some (waddr (1024 * 1024 + 160)), s') \<and>
    free_list s' ps \<and> kern_pgdir s' = kern_pgdir s \<and>
    (\<forall>k < 1024 * 1024. mem s' (waddr k) = (if k = D then page2pa 1024 OR (PTE_P OR PTE_W OR PTE_U) else mem s (waddr k))) \<and>
    (\<forall>j < 1024. mem s' (waddr (1024 * 1024 + j)) = 0)"
proof -
  obtain sA where sA: "page_alloc ALLOC_ZERO s = (Some 1024, sA)" "free_list sA ps"
    using page_alloc_top [OF assms(1)] by blast
  have top: "page_free_list s = Some 1024" using assms(1) by (simp add: free_list_def)
  have mA: "mem sA (waddr k) = mem s (waddr k)" if "k < 1024 * 1024" for k
    using page_alloc_zero_mem [OF top, of k] that by (simp add: sA(1))
  have kA: "kern_pgdir sA = kern_pgdir s" using kern_pgdir_kept(3) [of ALLOC_ZERO s] by (simp add: sA(1))
  have "unat (of_nat (4096 * 160) :: u32) = 4096 * 160" by (rule unat_small) simp
  then have x: "PDX (of_nat (4096 * 160)) = 0" "PTX (of_nat (4096 * 160)) = 160" unfolding PDX_nat PTX_nat by simp_all
  let ?s = "store (waddr D) (page2pa 1024 OR PTE_P OR PTE_W OR PTE_U) (page_incref 1024 sA)"
  have "pgdir_walk (waddr D) (of_nat (4096 * 160)) True s = (Some (waddr (1024 * 1024 + 160)), ?s)"
    unfolding pgdir_walk_def x Let_def page2kva_waddr entry_addr_waddr
    using assms(2) sA(1) page2kva_PADDR [of 1024] by (simp add: page2kva_waddr)
  moreover have "mem ?s (waddr k) = (if k = D then page2pa 1024 OR (PTE_P OR PTE_W OR PTE_U) else mem s (waddr k))"
    if "k < 1024 * 1024" for k using that mA assms(3) by (simp add: or.assoc)
  moreover have "mem ?s (waddr (1024 * 1024 + j)) = 0" if "j < 1024" for j
    using page_alloc_zero_mem [OF top, of "1024 * 1024 + j"] that assms(3) by (simp add: sA(1))
  ultimately show ?thesis using sA(2) kA by auto
qed

lemma page_init_words:
  assumes b: "boot_state D T s"
  shows "\<exists>m. free_list (page_init s) [1025..<npages] \<and> kern_pgdir (page_init s) = waddr D \<and> mem (page_init s) = m \<and>
    (\<forall>k. T \<le> k \<and> k < T + 32768 \<longrightarrow> m (waddr k) = of_nat ((k - T) * PGSIZE) OR PTE_P OR PTE_U OR PTE_W) \<and>
    (\<forall>k. D + 768 \<le> k \<and> k < D + 800 \<longrightarrow> m (waddr k) = PADDR (waddr (T + 1024 * (k - (D + 768)))) OR PTE_P OR PTE_W) \<and>
    m (waddr D) = page2pa 1024 OR (PTE_P OR PTE_W OR PTE_U) \<and>
    (\<forall>k. D < k \<and> k < D + 1024 \<and> \<not> (D + 768 \<le> k \<and> k < D + 800) \<longrightarrow> m (waddr k) = mem s (waddr k)) \<and>
    (\<forall>k < 1024 * 1024. \<not> (D \<le> k \<and> k < D + 1024) \<and> \<not> (T \<le> k \<and> k < T + 32768) \<longrightarrow> m (waddr k) = mem s (waddr k)) \<and>
    (\<forall>j < 160. m (waddr (1024 * 1024 + j)) = 0)"
proof -
  have bs: "kpgdir s = waddr D" "kpgtable s = waddr T" "tables_apart D T" "D + 1024 \<le> 1024 * 1024"
    "T + 32768 \<le> 1024 * 1024" "mem s (waddr D) = 0" "page_free_list s = None" using b by (simp_all add: boot_state_def)
  have ap: "D + 1024 \<le> T \<or> T + 32768 \<le> D" using bs(3) by (simp add: tables_apart_def)
  obtain m1 where m1: "init_kern_pgdir s = s\<lparr>mem := m1, kern_pgdir := waddr D, cr3 := PADDR (waddr D)\<rparr>"
    "\<forall>k < 2 ^ 28. m1 (waddr k) =
      (if T \<le> k \<and> k < T + 32768 then of_nat ((k - T) * PGSIZE) OR PTE_P OR PTE_U OR PTE_W
       else if D + 768 \<le> k \<and> k < D + 800 then PADDR (waddr (T + 1024 * (k - (D + 768)))) OR PTE_P OR PTE_W
       else mem s (waddr k))" using init_kern_pgdir_spec [OF bs(1-3)] by blast
  define s3 where "s3 = free_loop (npages - 0x400) 0x400 (reserve_loop 0x400 (init_kern_pgdir s))"
  have s3: "mem s3 = m1" "kern_pgdir s3 = waddr D" by (simp_all add: s3_def m1(1))
  have "free_list (reserve_loop 1024 (init_kern_pgdir s)) []" by (simp add: free_list_def reserve_loop_list m1(1) bs(7))
  then have "free_list s3 ([1024..<1024 + (npages - 1024)] @ [])" unfolding s3_def by (rule free_loop_list) simp
  moreover have "1024 + (npages - 1024) = npages" by (simp add: npages_def)
  moreover have "[1024..<npages] = 1024 # [Suc 1024..<npages]" by (rule upt_conv_Cons) (simp add: npages_def)
  ultimately have "free_list s3 (1024 # [1025..<npages])" by (simp only: append_Nil2) simp
  moreover have "\<not> (T \<le> D \<and> D < T + 32768)" "D < 2 ^ 28" using ap bs(4) by auto
  then have "mem s3 (waddr D) = 0" using m1(2) bs(6) by (auto simp: s3(1))
  ultimately obtain s4 where s4: "pgdir_walk (waddr D) (of_nat (4096 * 160)) True s3 = (Some (waddr (1024 * 1024 + 160)), s4)"
    "free_list s4 [1025..<npages]" "kern_pgdir s4 = waddr D"
    "\<forall>k < 1024 * 1024. mem s4 (waddr k) = (if k = D then page2pa 1024 OR (PTE_P OR PTE_W OR PTE_U) else m1 (waddr k))"
    "\<forall>j < 1024. mem s4 (waddr (1024 * 1024 + j)) = 0"
    using first_walk [of s3 "[1025..<npages]" D] bs(4) s3 by auto
  let ?B = "1024 * 1024 :: nat" and ?pde = "page2pa 1024 OR (PTE_P OR PTE_W OR PTE_U)"
  define s5 where "s5 = store (waddr (?B + 160)) (VMEM_ADDR OR (PTE_W OR PTE_P) OR PTE_P) s4"
  have pde: "mem s5 (waddr D) = ?pde" using s4(4) bs(4) by (simp add: s5_def)
  have present: "?pde AND PTE_P \<noteq> 0" unfolding present_bit by (simp add: bit_or_iff pg_consts)
  have "PTE_ADDR ?pde = page2pa 1024" by (intro PTE_ADDR_or take_bit_page2pa flags_or flags_small)
  then have "KADDR (PTE_ADDR ?pde) = waddr ?B" using page2kva_waddr [of 1024] by (simp add: page2kva_def)
  then obtain m where m: "boot_map_loop 15 (waddr D) (of_nat (4096 * 161)) (VMEM_ADDR + of_nat PGSIZE) (PTE_W OR PTE_P) s5 = s5\<lparr>mem := m\<rparr>"
    "\<forall>k < 2 ^ 28. \<not> (?B + 161 \<le> k \<and> k < ?B + 161 + 15) \<longrightarrow> m (waddr k) = mem s5 (waddr k)"
    using boot_map_loop_spec [OF pde present, of ?B 161 15 "VMEM_ADDR + of_nat PGSIZE" "PTE_W OR PTE_P"] bs(4) by auto
  have cnt: "unat (ROUNDUP SCR_SIZE (of_nat PGSIZE)) div PGSIZE = Suc 15"
    by (simp add: ROUNDUP_def ROUNDDOWN_def SCR_SIZE_def PGSIZE_def)
  have va: "(of_nat (4096 * 160) :: u32) = VMEM_ADDR" "(of_nat (4096 * 161) :: u32) = VMEM_ADDR + of_nat PGSIZE"
    by (simp_all add: VMEM_ADDR_def PGSIZE_def)
  have "page_init s = boot_map_loop (Suc 15) (waddr D) VMEM_ADDR VMEM_ADDR (PTE_W OR PTE_P) s3"
    unfolding page_init_def Let_def s3_def [symmetric] boot_map_region_def s3(2) cnt by (rule refl)
  also have "\<dots> = boot_map_loop 15 (waddr D) (VMEM_ADDR + of_nat PGSIZE) (VMEM_ADDR + of_nat PGSIZE) (PTE_W OR PTE_P) s5"
    by (simp only: boot_map_loop.simps s4(1) [unfolded va] prod.case option.case s5_def)
  finally have init: "page_init s = s5\<lparr>mem := m\<rparr>" using m(1) unfolding va by simp
  have low: "m (waddr k) = m1 (waddr k)" if "k < ?B" "k \<noteq> D" for k
    using m(2) s4(4) that by (simp add: s5_def)
  have "m (waddr k) = of_nat ((k - T) * PGSIZE) OR PTE_P OR PTE_U OR PTE_W" if "T \<le> k" "k < T + 32768" for k
    using low [of k] m1(2) that ap bs(4,5) by auto
  moreover have "m (waddr k) = PADDR (waddr (T + 1024 * (k - (D + 768)))) OR PTE_P OR PTE_W" if "D + 768 \<le> k" "k < D + 800" for k
    using low [of k] m1(2) that ap bs(4,5) by auto
  moreover have "m (waddr D) = ?pde" using m(2) pde bs(4) by simp
  moreover have "m (waddr k) = mem s (waddr k)" if "D < k" "k < D + 1024" "\<not> (D + 768 \<le> k \<and> k < D + 800)" for k
    using low [of k] m1(2) that ap bs(4,5) by auto
  moreover have "m (waddr k) = mem s (waddr k)" if "k < ?B" "\<not> (D \<le> k \<and> k < D + 1024)" "\<not> (T \<le> k \<and> k < T + 32768)" for k
    using low [of k] m1(2) that by auto
  moreover have "m (waddr (?B + j)) = 0" if "j < 160" for j
    using m(2) s4(5) that by (simp add: s5_def)
  ultimately show ?thesis using init s4(2,3) by (intro exI [of _ m]) (simp add: s5_def)
qed

lemma page_init_effect:
  assumes b: "boot_state D T s"
  shows "\<exists>m. free_list (page_init s) [1025..<npages] \<and> kern_pgdir (page_init s) = waddr D \<and> mem (page_init s) = m \<and>
    (\<forall>k. T \<le> k \<and> k < T + 32768 \<longrightarrow> m (waddr k) = of_nat ((k - T) * PGSIZE) OR PTE_P OR PTE_U OR PTE_W) \<and>
    (\<forall>k. D + 768 \<le> k \<and> k < D + 800 \<longrightarrow> m (waddr k) = PADDR (waddr (T + 1024 * (k - (D + 768)))) OR PTE_P OR PTE_W) \<and>
    m (waddr D) = page2pa 1024 OR (PTE_P OR PTE_W OR PTE_U) \<and>
    (\<forall>k. D < k \<and> k < D + 1024 \<and> \<not> (D + 768 \<le> k \<and> k < D + 800) \<longrightarrow> m (waddr k) = mem s (waddr k))"
  using page_init_words [OF b] by (elim exE conjE) (intro exI conjI; assumption)

text \<open>
  C18. \<open>page_init\<close> builds the kernel's address space: the processor translates the window above \<^verbatim>\<open>KERNBASE\<close> linearly, every
  kernel address to the physical address it stands for, over all of the 128 MiB of memory; and the
  free list holds exactly the frames from 1025 on, in order (frame 1024 became the page table of the screen).  That these
  frames are free of the kernel's own static storage is not claimed: the pool of process descriptors reaches beyond frame 1025.
\<close>

theorem page_init_address_space:
  assumes "boot_state D T s" "pa < PHY_MEM"
  shows "pt_lookup (mem (page_init s)) (kern_pgdir (page_init s)) (KERNBASE + of_nat pa)
      = Some (of_nat (pa - pa mod 4096) OR PTE_P OR PTE_U OR PTE_W) \<and>
    free_list (page_init s) [1025..<npages]"
proof -
  obtain m where m: "free_list (page_init s) [1025..<npages]" "kern_pgdir (page_init s) = waddr D" "mem (page_init s) = m"
    "\<And>k. T \<le> k \<Longrightarrow> k < T + 32768 \<Longrightarrow> m (waddr k) = of_nat ((k - T) * PGSIZE) OR PTE_P OR PTE_U OR PTE_W"
    "\<And>k. D + 768 \<le> k \<Longrightarrow> k < D + 800 \<Longrightarrow> m (waddr k) = PADDR (waddr (T + 1024 * (k - (D + 768)))) OR PTE_P OR PTE_W"
    using page_init_effect [OF assms(1)] by blast
  have "tables_apart D T" using assms(1) by (simp add: boot_state_def)
  from linear_window [OF this assms(2) m(4,5)] show ?thesis using m(1-3) by simp
qed

theorem page_init_address_space_witness:
  "free_list (page_init (sample_paging\<lparr>kpgdir := waddr 0, kpgtable := waddr 1024, page_free_list := None\<rparr>)) [1025..<npages]"
proof -
  have "mem sample_paging (waddr 0) = 0" by (simp add: sample_paging_def waddr_def KERNBASE_def)
  then show ?thesis
    using page_init_address_space [of 0 1024 "sample_paging\<lparr>kpgdir := waddr 0, kpgtable := waddr 1024, page_free_list := None\<rparr>" 0]
    by (simp add: boot_state_def tables_apart_def PHY_MEM_def)
qed

end
