(* ===== verification/User_Memory.thy ===== *)
theory User_Memory
  imports Page_Tables File_System
begin

text \<open>
  How kernel code reads and writes the memory of a process: byte by byte through the page tables
  in \<^verbatim>\<open>%cr3\<close>, as the pointers of a system call or the addresses of a program header are used.  The word at physical
  address \<open>pa\<close> is \<open>mem\<close> at \<open>KADDR pa\<close>; the bytes of a word are little-endian.
\<close>

section \<open>Accesses\<close>

definition byte_of :: "nat \<Rightarrow> u32 \<Rightarrow> u8" where
  "byte_of k w = ucast (drop_bit (8 * k) w)"

definition put_byte :: "nat \<Rightarrow> u8 \<Rightarrow> u32 \<Rightarrow> u32" where
  "put_byte k b w = (w AND NOT (push_bit (8 * k) 0xFF)) OR push_bit (8 * k) (ucast b)"

definition vread8 :: "u32 \<Rightarrow> 'a pagingst_scheme \<Rightarrow> u8 res" where
  "vread8 va s =
     (case mmu_translate (mem s) (cr3 s) va of
        None \<Rightarrow> Inl PageFault
      | Some pa \<Rightarrow> Inr (byte_of (unat (pa AND 3)) (mem s (KADDR (pa AND NOT 3)))))"

definition vwrite8 :: "u32 \<Rightarrow> u8 \<Rightarrow> 'a pagingst_scheme \<Rightarrow> 'a pagingst_scheme res" where
  "vwrite8 va b s =
     (case mmu_translate (mem s) (cr3 s) va of
        None \<Rightarrow> Inl PageFault
      | Some pa \<Rightarrow>
          (let a = KADDR (pa AND NOT 3) in Inr (store a (put_byte (unat (pa AND 3)) b (mem s a)) s)))"

primrec vread_bytes :: "nat \<Rightarrow> u32 \<Rightarrow> 'a pagingst_scheme \<Rightarrow> u8 list res" where
  "vread_bytes 0 va s = Inr []"
| "vread_bytes (Suc n) va s =
     bind_res (vread8 va s) (\<lambda>b. bind_res (vread_bytes n (va + 1) s) (\<lambda>bs. Inr (b # bs)))"

primrec vwrite_bytes :: "u8 list \<Rightarrow> u32 \<Rightarrow> 'a pagingst_scheme \<Rightarrow> 'a pagingst_scheme res" where
  "vwrite_bytes [] va s = Inr s"
| "vwrite_bytes (b # bs) va s = bind_res (vwrite8 va b s) (vwrite_bytes bs (va + 1))"

definition vread32 :: "u32 \<Rightarrow> 'a pagingst_scheme \<Rightarrow> u32 res" where
  "vread32 va s =
     bind_res (vread8 va s) (\<lambda>b0. bind_res (vread8 (va + 1) s) (\<lambda>b1.
     bind_res (vread8 (va + 2) s) (\<lambda>b2. bind_res (vread8 (va + 3) s) (\<lambda>b3.
     Inr (ucast b0 OR push_bit 8 (ucast b1) OR push_bit 16 (ucast b2) OR push_bit 24 (ucast b3))))))"

definition vread16 :: "u32 \<Rightarrow> 'a pagingst_scheme \<Rightarrow> u32 res" where
  "vread16 va s =
     bind_res (vread8 va s) (\<lambda>b0. bind_res (vread8 (va + 1) s) (\<lambda>b1.
     Inr (ucast b0 OR push_bit 8 (ucast b1))))"

text \<open>A string of the process, without its terminator; a string without end is never read to its end.\<close>

partial_function (option) vstring_loop :: "u32 \<Rightarrow> 'a pagingst_scheme \<Rightarrow> u8 list \<Rightarrow> u8 list res option" where
  "vstring_loop va s acc =
     (case vread8 va s of
        Inl e \<Rightarrow> Some (Inl e)
      | Inr b \<Rightarrow> if b = 0 then Some (Inr acc) else vstring_loop (va + 1) s (acc @ [b]))"

definition vstring :: "u32 \<Rightarrow> 'a pagingst_scheme \<Rightarrow> u8 list res" where
  "vstring va s = (case vstring_loop va s [] of None \<Rightarrow> Inl Diverge | Some r \<Rightarrow> r)"

section \<open>Reading back\<close>

lemma byte_put_same:
  assumes "k < 4"
  shows "byte_of k (put_byte k b w) = b"
proof (rule bit_word_eqI)
  fix n assume n: "n < LENGTH(8)"
  have FF: "(0xFF :: u32) = mask 8" by (simp add: mask_eq_exp_minus_1)
  show "bit (byte_of k (put_byte k b w)) n = bit b n"
    unfolding byte_of_def put_byte_def FF using n assms
    by (auto simp: bit_simps)
qed

lemma byte_put_other:
  assumes "k < 4" "j < 4" "j \<noteq> k"
  shows "byte_of j (put_byte k b w) = byte_of j w"
proof (rule bit_word_eqI)
  fix n assume n: "n < LENGTH(8)"
  have FF: "(0xFF :: u32) = mask 8" by (simp add: mask_eq_exp_minus_1)
  have "j = 0 \<or> j = 1 \<or> j = 2 \<or> j = 3" "k = 0 \<or> k = 1 \<or> k = 2 \<or> k = 3" using assms by auto
  then show "bit (byte_of j (put_byte k b w)) n = bit (byte_of j w) n"
    unfolding byte_of_def put_byte_def FF using n assms(3)
    by (auto simp: bit_simps dest: bit_imp_le_length)
qed

text \<open>Word and byte of a physical address.\<close>

lemma and_3_lt: "unat ((pa :: u32) AND 3) < 4"
proof -
  have "(3 :: u32) = mask 2" by (simp add: mask_eq_exp_minus_1)
  then have "pa AND 3 = take_bit 2 pa" by (simp only: take_bit_eq_mask)
  then show ?thesis by (simp only: unsigned_take_bit_eq) (simp add: take_bit_eq_mod)
qed

lemma phys_parts: "pa AND NOT 3 = pb AND NOT 3 \<Longrightarrow> pa AND 3 = pb AND 3 \<Longrightarrow> pa = (pb :: u32)"
proof -
  assume "pa AND NOT 3 = pb AND NOT 3" "pa AND 3 = pb AND 3"
  then have "(pa AND NOT 3) OR (pa AND 3) = (pb AND NOT 3) OR (pb AND 3)" by simp
  then show "pa = pb" by (simp flip: bit.conj_disj_distrib)
qed

text \<open>
  \<open>keeps_tables s s'\<close>: the write did not hit a page table, so that both states translate alike.
\<close>

definition keeps_tables :: "'a pagingst_scheme \<Rightarrow> 'a pagingst_scheme \<Rightarrow> bool" where
  "keeps_tables s s' \<longleftrightarrow> cr3 s' = cr3 s \<and> mmu_translate (mem s') (cr3 s) = mmu_translate (mem s) (cr3 s)"

text \<open>
  The memory of a process is a byte memory behind its page tables: a byte written at a mapped address is read back
  there and at every other address that the tables send to the same physical byte, all other bytes keep
  their value, and an access to an unmapped address faults.
\<close>

theorem vwrite8_vread8:
  assumes "vwrite8 va b s = Inr s'" "keeps_tables s s'"
  shows "vread8 va' s' =
    (if mmu_translate (mem s) (cr3 s) va' = mmu_translate (mem s) (cr3 s) va then Inr b else vread8 va' s)"
proof -
  let ?tr = "mmu_translate (mem s) (cr3 s)"
  obtain pa where pa: "?tr va = Some pa" using assms(1) by (cases "?tr va") (auto simp: vwrite8_def)
  let ?a = "KADDR (pa AND NOT 3)" and ?k = "unat (pa AND 3)"
  have s': "s' = store ?a (put_byte ?k b (mem s ?a)) s" using assms(1) pa by (simp add: vwrite8_def Let_def)
  have tr': "mmu_translate (mem s') (cr3 s') = ?tr" using assms(2) by (simp add: keeps_tables_def)
  have m': "mem s' a = (if a = ?a then put_byte ?k b (mem s ?a) else mem s a)" for a
    unfolding s' by (simp add: store_def)
  show ?thesis
  proof (cases "?tr va'")
    case None
    then show ?thesis using pa unfolding vread8_def tr' by simp
  next
    case (Some pb)
    let ?b = "KADDR (pb AND NOT 3)" and ?j = "unat (pb AND 3)"
    have same: "?b = ?a \<longleftrightarrow> pb AND NOT 3 = pa AND NOT 3" by (simp add: KADDR_def)
    have other: "byte_of ?j (put_byte ?k b w) = byte_of ?j w" if "?j \<noteq> ?k" for w
      by (rule byte_put_other [OF and_3_lt and_3_lt that])
    have eq: "pb = pa" if "pb AND NOT 3 = pa AND NOT 3" "?j = ?k"
      using that(2) by (intro phys_parts [OF that(1)]) (simp only: word_unat_eq_iff)
    have "byte_of ?j (mem s' ?b) = (if pb = pa then b else byte_of ?j (mem s ?b))"
    proof (cases "pb AND NOT 3 = pa AND NOT 3 \<and> pb \<noteq> pa")
      case True
      then have "?j \<noteq> ?k" using eq by blast
      with True show ?thesis unfolding m' using other [of "mem s ?a"] by simp
    next
      case False
      then show ?thesis unfolding m' same using byte_put_same [OF and_3_lt] by (cases "pb = pa") simp_all
    qed
    then show ?thesis using Some pa unfolding vread8_def tr' by auto
  qed
qed

text \<open>The directory at frame 4 has one table, at frame 5, whose entry 3 maps frame 9.\<close>

definition user_mem :: wmem where
  "user_mem = (\<lambda>a. if a = 0xC0004000 then 0x5007 else if a = 0xC000500C then 0x9007 else 0)"

definition user_sample :: pagingst where
  "user_sample = \<lparr>serial = [], mem = user_mem, pages = (\<lambda>_. \<lparr>pp_link = None, pp_ref = 0\<rparr>),
     page_free_list = None, kpgdir = 0, kpgtable = 0, kern_pgdir = 0, cr3 = 0x4000, flushed = []\<rparr>"

lemma sample_entry:
  "entry_addr 0xC0004000 i = waddr (4096 + i)" "entry_addr 0xC0005000 i = waddr (5120 + i)" "0xC0009000 = waddr 9216"
  by (simp_all add: entry_addr_def waddr_def KERNBASE_def algebra_simps)

lemma user_sample_write:
  "vwrite8 0x3001 0x41 user_sample = Inr (store 0xC0009000 0x4100 user_sample)"
  "keeps_tables user_sample (store 0xC0009000 0x4100 user_sample)"
proof -
  show "vwrite8 0x3001 0x41 user_sample = Inr (store 0xC0009000 0x4100 user_sample)"
  proof -
    have "mmu_translate user_mem 0x4000 0x3001 = Some 0x9001" "put_byte 1 0x41 0 = 0x4100"
      "user_mem 0xC0009000 = 0" "unat ((0x9001 :: u32) AND 3) = 1" "KADDR (0x9001 AND NOT 3) = 0xC0009000"
      by code_simp+
    then show ?thesis by (simp add: vwrite8_def user_sample_def Let_def)
  qed
  have i: "PDX va < 1024" "PTX va < 1024" for va :: u32
  proof -
    have "unat va < 2 ^ 32" using unsigned_less [of va] by simp
    then show "PDX va < 1024" "PTX va < 1024" by (auto simp: PDX_nat PTX_nat)
  qed
  have dir: "waddr (4096 + PDX va) \<noteq> waddr 9216" "waddr (5120 + PTX va) \<noteq> waddr 9216"
      "waddr (4096 + PDX va) = waddr 5123 \<longleftrightarrow> False" for va :: u32
    using i [of va] by (simp_all add: waddr_eq_iff)
  have c: "(0xC0004000 :: u32) = waddr 4096" "(0xC000500C :: u32) = waddr 5123"
    by (simp_all add: waddr_def KERNBASE_def)
  have pde: "user_mem (waddr (4096 + PDX va)) = (if PDX va = 0 then 0x5007 else 0)" for va :: u32
    using i [of va] unfolding user_mem_def c by (simp add: waddr_eq_iff)
  have "pt_lookup (user_mem(waddr 9216 := v)) 0xC0004000 va = pt_lookup user_mem 0xC0004000 va" for v va
    unfolding pt_lookup_def Let_def sample_entry
    by (simp add: dir pde KADDR_def KERNBASE_def PTE_ADDR_def PTE_P_def sample_entry)
  then show "keeps_tables user_sample (store 0xC0009000 0x4100 user_sample)"
    unfolding keeps_tables_def mmu_translate_def sample_entry(3)
    by (simp add: user_sample_def store_def fun_eq_iff KADDR_def KERNBASE_def PTE_ADDR_def)
qed

theorem vwrite8_vread8_witness:
  "vread8 0x3001 (store 0xC0009000 0x4100 user_sample) = Inr 0x41 \<and>
   vread8 0x3002 (store 0xC0009000 0x4100 user_sample) = Inr 0"
proof -
  note w = vwrite8_vread8 [OF user_sample_write]
  have "vread8 0x3002 (store 0xC0009000 0x4100 user_sample) = vread8 0x3002 user_sample"
    unfolding w by code_simp
  moreover have "vread8 0x3002 user_sample = Inr 0" by code_simp
  ultimately show ?thesis using w [of "0x3001"] by simp
qed

end
