(* ===== verification/Elf.thy ===== *)
theory Elf
  imports Files
begin

text \<open>
  What the boot loader and the program loader share: the layout of an executable
  (\<^verbatim>\<open>src/inc/elf.h\<close>) and \<^verbatim>\<open>readseg\<close> of \<^verbatim>\<open>src/inc/disk.h\<close>, which copies whole sectors.  The memory that
  the sectors go to is physical memory in one case and the address space of a process in the other,
  so \<open>readseg\<close> takes the operation \<^verbatim>\<open>readsect\<close> on it as an argument.
\<close>

section \<open>The layout of an executable\<close>

definition ELF_MAGIC :: u32 where "ELF_MAGIC = 0x464C457F"

text \<open>Offsets of the members of \<^verbatim>\<open>struct ELFHeader\<close> and \<^verbatim>\<open>struct ProgramHeader\<close>.\<close>

definition ELF_magic :: u32 where "ELF_magic = 0"
definition ELF_entry :: u32 where "ELF_entry = 24"
definition ELF_phoff :: u32 where "ELF_phoff = 28"
definition ELF_phnum :: u32 where "ELF_phnum = 44"
definition PH_off :: u32 where "PH_off = 4"
definition PH_vaddr :: u32 where "PH_vaddr = 8"
definition PH_paddr :: u32 where "PH_paddr = 12"
definition PH_filesz :: u32 where "PH_filesz = 16"
definition PH_memsz :: u32 where "PH_memsz = 20"
definition PH_size :: u32 where "PH_size = 32"

lemmas elf_defs = ELF_MAGIC_def ELF_magic_def ELF_entry_def ELF_phoff_def ELF_phnum_def
  PH_off_def PH_vaddr_def PH_paddr_def PH_filesz_def PH_memsz_def PH_size_def

text \<open>
  \<open>ph_count ph phnum\<close>: the number of headers that the loop \<^verbatim>\<open>for(; ph < eph; ph ++)\<close> visits, where
  \<^verbatim>\<open>eph = ph + phnum\<close>; none if that sum wraps around.
\<close>

definition ph_count :: "u32 \<Rightarrow> u32 \<Rightarrow> nat" where
  "ph_count ph phnum = (let eph = ph + PH_size * phnum in if ph < eph then unat phnum else 0)"

section \<open>Reading a segment\<close>

text \<open>Division and remainder of a C \<^verbatim>\<open>int\<close> by a positive constant, rounding towards zero.\<close>

definition int_div :: "u32 \<Rightarrow> u32 \<Rightarrow> u32" where
  "int_div x n = (if sint x < 0 then - ((- x) div n) else x div n)"

definition int_mod :: "u32 \<Rightarrow> u32 \<Rightarrow> u32" where
  "int_mod x n = x - int_div x n * n"

definition SECTSIZE :: u32 where "SECTSIZE = 512"

partial_function (option) readseg_loop ::
  "(u32 \<Rightarrow> u32 \<Rightarrow> 's \<Rightarrow> 's res) \<Rightarrow> u32 \<Rightarrow> u32 \<Rightarrow> u32 \<Rightarrow> 's \<Rightarrow> 's res option" where
  "readseg_loop rs pa epa offset s =
     (if pa < epa
      then (case rs pa offset s of
              Inl e \<Rightarrow> Some (Inl e)
            | Inr s \<Rightarrow> readseg_loop rs (pa + SECTSIZE) epa (offset + 1) s)
      else Some (Inr s))"

definition readseg :: "(u32 \<Rightarrow> u32 \<Rightarrow> 's \<Rightarrow> 's res) \<Rightarrow> u32 \<Rightarrow> u32 \<Rightarrow> u32 \<Rightarrow> 's \<Rightarrow> 's res" where
  "readseg rs pa count offset s =
     (let epa = pa + count;
          pa = pa - int_mod offset SECTSIZE;
          offset = int_div offset SECTSIZE + 1
      in bind_res (loop_res (readseg_loop rs pa epa offset s)) id)"

lemma int_div_mod_nat:
  assumes "n < 2 ^ 31"
  shows "int_div (of_nat n) SECTSIZE = of_nat (n div 512)" "int_mod (of_nat n) SECTSIZE = of_nat (n mod 512)"
proof -
  have n: "unat (of_nat n :: u32) = n" using assms by (intro unat_small) simp
  then have "0 \<le> sint (of_nat n :: u32)" using assms by (simp add: sint_u32)
  moreover have d: "(of_nat n :: u32) div 512 = of_nat (n div 512)"
    unfolding word_unat_eq_iff unat_div_distrib n using assms by (subst unat_small) simp_all
  ultimately show q: "int_div (of_nat n) SECTSIZE = of_nat (n div 512)"
    by (simp add: int_div_def SECTSIZE_def)
  have "(of_nat (n div 512 * 512 + n mod 512) :: u32) = of_nat (n div 512) * 512 + of_nat (n mod 512)"
    by (simp only: of_nat_add of_nat_mult of_nat_numeral)
  then show "int_mod (of_nat n) SECTSIZE = of_nat (n mod 512)"
    unfolding int_mod_def q by (simp only: div_mult_mod_eq SECTSIZE_def) simp
qed

end
