(* ===== verification/Boot.thy ===== *)
theory Boot
  imports Elf
begin

text \<open>
  The boot loader, \<^verbatim>\<open>src/boot/bootloader.c\<close>: it runs before paging is on, so memory is the physical byte
  memory, and it loads the kernel image that the build puts behind the file system's inode sectors.
\<close>

section \<open>Operations\<close>

text \<open>
  \<^verbatim>\<open>readsect\<close> stores the 128 words of the sector at \<open>dst\<close>; \<open>read32\<close> and \<open>read16\<close> are loads of little-endian
  members of the headers.
\<close>

definition put_sector :: "sector \<Rightarrow> u32 \<Rightarrow> bmem \<Rightarrow> bmem" where
  "put_sector sec dst m a = (if unat (a - dst) < 512 then sec (unat (a - dst)) else m a)"

definition boot_readsect :: "(nat \<Rightarrow> sector) \<Rightarrow> u32 \<Rightarrow> u32 \<Rightarrow> bmem \<Rightarrow> bmem res" where
  "boot_readsect d dst offset m = Inr (put_sector (d (ide_addressed (ide_command offset 0x20))) dst m)"

definition read32 :: "u32 \<Rightarrow> bmem \<Rightarrow> u32" where
  "read32 a m = ucast (m a) OR push_bit 8 (ucast (m (a + 1))) OR push_bit 16 (ucast (m (a + 2))) OR
     push_bit 24 (ucast (m (a + 3)))"

definition read16 :: "u32 \<Rightarrow> bmem \<Rightarrow> u32" where
  "read16 a m = ucast (m a) OR push_bit 8 (ucast (m (a + 1)))"

definition boot_elf :: u32 where "boot_elf = 0x8000"
definition boot_offset :: u32 where "boot_offset = (256 + 256 + 256) * SECTSIZE"

text \<open>\<^verbatim>\<open>for (i = pa + ph->filesz; i < pa + ph->memsz; *i ++ = 0);\<close>\<close>

partial_function (option) boot_zero :: "u32 \<Rightarrow> u32 \<Rightarrow> u32 \<Rightarrow> bmem \<Rightarrow> bmem option" where
  "boot_zero i pa ph m =
     (if i < pa + read32 (ph + PH_memsz) m then boot_zero (i + 1) pa ph (m(i := 0)) else Some m)"

primrec boot_segments :: "nat \<Rightarrow> u32 \<Rightarrow> (nat \<Rightarrow> sector) \<Rightarrow> bmem \<Rightarrow> bmem res" where
  "boot_segments 0 ph d m = Inr m"
| "boot_segments (Suc n) ph d m =
     (let pa = read32 (ph + PH_paddr) m in
      bind_res (readseg (boot_readsect d) pa (read32 (ph + PH_filesz) m)
                  (boot_offset + read32 (ph + PH_off) m) m) (\<lambda>m.
      bind_res (loop_res (boot_zero (pa + read32 (ph + PH_filesz) m) pa ph m)) (\<lambda>m.
      boot_segments n (ph + PH_size) d m)))"

text \<open>The boot loader ends in a jump to the kernel or in the endless loop at \<^verbatim>\<open>bad\<close>.\<close>

datatype boot_end = Jump u32 | Bad

definition bootmain :: "(nat \<Rightarrow> sector) \<Rightarrow> bmem \<Rightarrow> (boot_end \<times> bmem) res" where
  "bootmain d m =
     bind_res (readseg (boot_readsect d) boot_elf (8 * SECTSIZE) boot_offset m) (\<lambda>m.
     if read32 (boot_elf + ELF_magic) m \<noteq> ELF_MAGIC then Inr (Bad, m)
     else
       (let ph = boot_elf + read32 (boot_elf + ELF_phoff) m;
            n = ph_count ph (read16 (boot_elf + ELF_phnum) m)
        in bind_res (boot_segments n ph d m) (\<lambda>m.
           Inr (Jump (read32 (boot_elf + ELF_entry) m), m))))"

section \<open>Reading a segment\<close>

text \<open>Byte \<open>k\<close> of the disk as \<^verbatim>\<open>readseg\<close> counts them: sector 0, the boot sector, comes before byte 0.\<close>

definition disk_byte :: "(nat \<Rightarrow> sector) \<Rightarrow> nat \<Rightarrow> u8" where
  "disk_byte d k = d (k div 512 + 1) (k mod 512)"

text \<open>\<open>filled A n f m\<close>: the memory \<open>m\<close> with the \<open>n\<close> bytes from \<open>A\<close> on replaced.\<close>

definition filled :: "nat \<Rightarrow> nat \<Rightarrow> (nat \<Rightarrow> u8) \<Rightarrow> bmem \<Rightarrow> bmem" where
  "filled A n f m a = (if A \<le> unat a \<and> unat a < A + n then f (unat a - A) else m a)"

lemma filled_0 [simp]: "filled A 0 f m = m"
  by (rule ext) (auto simp: filled_def)

lemma put_sector_filled:
  assumes "A + 512 \<le> 2 ^ 32"
  shows "put_sector sec (of_nat A) m = filled A 512 sec m"
proof
  fix a :: u32
  have A: "unat (of_nat A :: u32) = A" using assms by (intro unat_small) simp
  have "unat (a - of_nat A) = (if A \<le> unat a then unat a - A else unat a + 2 ^ 32 - A)"
    using A unat_sub_if' [of a "of_nat A"] by simp
  with assms show "put_sector sec (of_nat A) m a = filled A 512 sec m a"
    by (auto simp: put_sector_def filled_def)
qed

lemma filled_append:
  "filled (A + n) k g (filled A n f m) = filled A (n + k) (\<lambda>i. if i < n then f i else g (i - n)) m"
  by (rule ext) (auto simp: filled_def)

lemma readseg_loop_spec:
  assumes "E \<le> A + 512 * n" "n = 0 \<or> A + 512 * n < E + 512" "A + 512 * n < 2 ^ 32" "E < 2 ^ 32" "S + n < 2 ^ 29"
  shows "readseg_loop (boot_readsect d) (of_nat A) (of_nat E) (of_nat S) m
    = Some (Inr (filled A (512 * n) (\<lambda>i. d (S + i div 512) (i mod 512)) m))"
  using assms
proof (induction n arbitrary: A S m)
  case 0
  then have "\<not> (of_nat A :: u32) < of_nat E" by (simp add: word_less_nat_alt unat_small)
  then show ?case by (subst readseg_loop.simps) simp
next
  case (Suc n)
  from Suc.prems have lt: "(of_nat A :: u32) < of_nat E" by (simp add: word_less_nat_alt unat_small)
  have sec: "ide_sector (of_nat S) = S"
    using Suc.prems(5) by (simp add: ide_sector_eq unat_small)
  have next_pa: "(of_nat A :: u32) + SECTSIZE = of_nat (A + 512)" "(of_nat S :: u32) + 1 = of_nat (S + 1)"
    by (simp_all add: SECTSIZE_def)
  have put: "put_sector (d S) (of_nat A) m = filled A 512 (d S) m"
    using Suc.prems by (intro put_sector_filled) simp
  have "readseg_loop (boot_readsect d) (of_nat A) (of_nat E) (of_nat S) m
      = readseg_loop (boot_readsect d) (of_nat (A + 512)) (of_nat E) (of_nat (S + 1)) (filled A 512 (d S) m)"
    unfolding next_pa [symmetric] by (subst readseg_loop.simps) (simp add: lt boot_readsect_def sec put)
  also have "\<dots> = Some (Inr (filled (A + 512) (512 * n) (\<lambda>i. d (S + 1 + i div 512) (i mod 512)) (filled A 512 (d S) m)))"
    using Suc.prems by (intro Suc.IH) auto
  also have "filled (A + 512) (512 * n) (\<lambda>i. d (S + 1 + i div 512) (i mod 512)) (filled A 512 (d S) m)
      = filled A (512 * Suc n) (\<lambda>i. d (S + i div 512) (i mod 512)) m"
    unfolding filled_append by (rule ext) (auto simp: filled_def le_div_geq le_mod_geq)
  finally show ?case .
qed

text \<open>The number of sectors that a segment of \<open>c\<close> bytes at \<open>off\<close> is spread over.\<close>

definition seg_sectors :: "nat \<Rightarrow> nat \<Rightarrow> nat" where
  "seg_sectors off c = (off mod 512 + c + 511) div 512"

lemma readseg_spec:
  assumes "off mod 512 \<le> P" "P + c + 512 < 2 ^ 32" "off + c + 1024 < 2 ^ 31"
  shows "readseg (boot_readsect d) (of_nat P) (of_nat c) (of_nat off) m
    = Inr (filled (P - off mod 512) (512 * seg_sectors off c) (\<lambda>i. disk_byte d (off - off mod 512 + i)) m)"
proof -
  define r where "r = off mod 512"
  define q where "q = off div 512"
  have off: "off = 512 * q + r" "r < 512" by (simp_all add: r_def q_def)
  have n: "r + c \<le> 512 * seg_sectors off c" "seg_sectors off c = 0 \<or> 512 * seg_sectors off c < r + c + 512"
    unfolding seg_sectors_def r_def [symmetric] by linarith+
  have e: "(of_nat P :: u32) + of_nat c = of_nat (P + c)" "(of_nat P :: u32) - of_nat r = of_nat (P - r)"
    "(of_nat q :: u32) + 1 = of_nat (q + 1)" using assms(1) by (simp_all add: r_def of_nat_diff)
  have dm: "int_div (of_nat off) SECTSIZE = of_nat q" "int_mod (of_nat off) SECTSIZE = of_nat r"
    using assms(3) unfolding q_def r_def by (simp_all add: int_div_mod_nat)
  have r: "r \<le> P" using assms(1) by (simp add: r_def)
  have "readseg_loop (boot_readsect d) (of_nat (P - r)) (of_nat (P + c)) (of_nat (q + 1)) m
      = Some (Inr (filled (P - r) (512 * seg_sectors off c) (\<lambda>i. d (q + 1 + i div 512) (i mod 512)) m))"
  proof (rule readseg_loop_spec)
    define k where "k = seg_sectors off c"
    note n = n [folded k_def]
    show "P + c \<le> P - r + 512 * k" using n(1) r by linarith
    show "k = 0 \<or> P - r + 512 * k < P + c + 512" using n(2) r by linarith
    show "P - r + 512 * k < 2 ^ 32" "P + c < 2 ^ 32" using n(2) r assms(2) by linarith+
    have "512 * k < r + c + 512" using n(2) by auto
    with off(1) assms(3) show "q + 1 + k < 2 ^ 29" by simp
  qed
  moreover have "disk_byte d (off - off mod 512 + i) = d (q + 1 + i div 512) (i mod 512)" for i
    using off by (simp add: disk_byte_def flip: r_def)
  ultimately show ?thesis
    unfolding readseg_def Let_def dm e r_def [symmetric] by (simp add: loop_res_def)
qed

section \<open>The kernel image\<close>

text \<open>
  Byte \<open>k\<close> of the kernel image, its little-endian words, and the members of its headers as numbers.
  \<open>hdr d m\<close>: the first eight sectors of the image are in memory at \<^verbatim>\<open>0x8000\<close>.
\<close>

definition img :: "(nat \<Rightarrow> sector) \<Rightarrow> nat \<Rightarrow> u8" where
  "img d k = disk_byte d (768 * 512 + k)"

definition img32 :: "(nat \<Rightarrow> sector) \<Rightarrow> nat \<Rightarrow> u32" where
  "img32 d k = ucast (img d k) OR push_bit 8 (ucast (img d (k + 1))) OR push_bit 16 (ucast (img d (k + 2))) OR
     push_bit 24 (ucast (img d (k + 3)))"

definition img16 :: "(nat \<Rightarrow> sector) \<Rightarrow> nat \<Rightarrow> u32" where
  "img16 d k = ucast (img d k) OR push_bit 8 (ucast (img d (k + 1)))"

definition phoff :: "(nat \<Rightarrow> sector) \<Rightarrow> nat" where "phoff d = unat (img32 d 28)"
definition phnum :: "(nat \<Rightarrow> sector) \<Rightarrow> nat" where "phnum d = unat (img16 d 44)"
definition seg_off :: "(nat \<Rightarrow> sector) \<Rightarrow> nat \<Rightarrow> nat" where "seg_off d i = unat (img32 d (phoff d + 32 * i + 4))"
definition seg_pa :: "(nat \<Rightarrow> sector) \<Rightarrow> nat \<Rightarrow> nat" where "seg_pa d i = unat (img32 d (phoff d + 32 * i + 12))"
definition seg_filesz :: "(nat \<Rightarrow> sector) \<Rightarrow> nat \<Rightarrow> nat" where "seg_filesz d i = unat (img32 d (phoff d + 32 * i + 16))"
definition seg_memsz :: "(nat \<Rightarrow> sector) \<Rightarrow> nat \<Rightarrow> nat" where "seg_memsz d i = unat (img32 d (phoff d + 32 * i + 20))"

definition hdr :: "(nat \<Rightarrow> sector) \<Rightarrow> bmem \<Rightarrow> bool" where
  "hdr d m \<longleftrightarrow> (\<forall>k < 4096. m (of_nat (0x8000 + k)) = img d k)"

lemma hdr_read:
  assumes "hdr d m" "k + 4 \<le> 4096"
  shows "read32 (boot_elf + of_nat k) m = img32 d k" "read16 (boot_elf + of_nat k) m = img16 d k"
proof -
  have b: "m (boot_elf + of_nat k + of_nat j) = img d (k + j)" if "j < 4" for j
    using assms that unfolding hdr_def boot_elf_def by (auto simp: add.assoc dest: spec [of _ "k + j"])
  show "read32 (boot_elf + of_nat k) m = img32 d k" "read16 (boot_elf + of_nat k) m = img16 d k"
    using b [of 0] b [of 1] b [of 2] b [of 3]
    by (simp_all add: read32_def read16_def img32_def img16_def)
qed

text \<open>A segment touches whole sectors before and behind its image.\<close>

definition seg_lo :: "(nat \<Rightarrow> sector) \<Rightarrow> nat \<Rightarrow> nat" where
  "seg_lo d i = seg_pa d i - seg_off d i mod 512"

definition seg_hi :: "(nat \<Rightarrow> sector) \<Rightarrow> nat \<Rightarrow> nat" where
  "seg_hi d i = max (seg_pa d i + seg_memsz d i) (seg_lo d i + 512 * seg_sectors (seg_off d i) (seg_filesz d i))"

definition seg_ok :: "(nat \<Rightarrow> sector) \<Rightarrow> nat \<Rightarrow> bool" where
  "seg_ok d i \<longleftrightarrow>
     seg_off d i mod 512 \<le> seg_pa d i \<and> seg_filesz d i \<le> seg_memsz d i \<and>
     seg_pa d i + seg_memsz d i + 512 < 2 ^ 32 \<and> seg_off d i + seg_filesz d i < 2 ^ 30 \<and>
     (seg_hi d i \<le> 0x7C00 \<or> 0x9000 \<le> seg_lo d i)"

text \<open>
  An image that the boot loader can load: an executable whose headers are in its first eight sectors,
  whose segments stay clear of these headers (\<^verbatim>\<open>0x8000\<close> to \<^verbatim>\<open>0x9000\<close>) and of the running boot sector with its stack
  (\<^verbatim>\<open>0x7C00\<close> to \<^verbatim>\<open>0x8000\<close>), and none of which is hit by the sectors of a later one.
\<close>

definition bootable :: "(nat \<Rightarrow> sector) \<Rightarrow> bool" where
  "bootable d \<longleftrightarrow>
     img32 d 0 = ELF_MAGIC \<and> phoff d + 32 * phnum d \<le> 4096 \<and>
     (\<forall>i < phnum d. seg_ok d i) \<and>
     (\<forall>j < phnum d. \<forall>i < j. seg_hi d j \<le> seg_pa d i \<or> seg_pa d i + seg_memsz d i \<le> seg_lo d j)"

definition loaded :: "(nat \<Rightarrow> sector) \<Rightarrow> nat \<Rightarrow> bmem \<Rightarrow> bmem" where
  "loaded d i m =
     filled (seg_pa d i + seg_filesz d i) (seg_memsz d i - seg_filesz d i) (\<lambda>_. 0)
       (filled (seg_lo d i) (512 * seg_sectors (seg_off d i) (seg_filesz d i))
          (\<lambda>j. img d (seg_off d i - seg_off d i mod 512 + j)) m)"

lemma filled_outside: "\<not> (A \<le> unat a \<and> unat a < A + n) \<Longrightarrow> filled A n f m a = m a"
  by (auto simp: filled_def)

lemma hdr_filled:
  assumes "hdr d m" "A + n \<le> 0x8000 \<or> 0x9000 \<le> A"
  shows "hdr d (filled A n f m)"
proof -
  have "unat (of_nat (0x8000 + k) :: u32) = 0x8000 + k" if "k < 4096" for k
    using that by (intro unat_small) simp
  with assms show ?thesis unfolding hdr_def by (intro allI impI) (subst filled_outside, auto)
qed

lemma boot_zero_spec:
  assumes "hdr d m" "k + 4 \<le> 4096" "ph + PH_memsz = boot_elf + of_nat k"
    and "I + n = P + unat (img32 d k)" "I + n < 2 ^ 32" "I + n \<le> 0x8000 \<or> 0x9000 \<le> I"
  shows "boot_zero (of_nat I) (of_nat P) ph m = Some (filled I n (\<lambda>_. 0) m)"
  using assms
proof (induction n arbitrary: I m)
  case 0
  have "(of_nat P :: u32) + img32 d k = of_nat (P + unat (img32 d k))" by simp
  then have "(of_nat P :: u32) + img32 d k = of_nat I" using 0(4) by (simp only: add_0_right)
  then show ?case using hdr_read(1) [OF 0(1,2)] 0(3) by (subst boot_zero.simps) simp
next
  case (Suc n)
  have "(of_nat P :: u32) + img32 d k = of_nat (P + unat (img32 d k))" by simp
  then have e: "(of_nat P :: u32) + img32 d k = of_nat (I + Suc n)" using Suc.prems(4) by (simp only:)
  have lt: "(of_nat I :: u32) < of_nat (I + Suc n)"
    using Suc.prems(5) by (simp only: word_less_nat_alt unat_small)
  have w: "m(of_nat I := 0) = filled I 1 (\<lambda>_. 0) m"
    using Suc.prems(5) by (intro ext) (auto simp: filled_def fun_upd_nat simp del: fun_upd_apply)
  have "boot_zero (of_nat I) (of_nat P) ph m = boot_zero (of_nat (I + 1)) (of_nat P) ph (filled I 1 (\<lambda>_. 0) m)"
    using hdr_read(1) [OF Suc.prems(1,2)] Suc.prems(3) e lt w by (subst boot_zero.simps) (simp add: add.commute)
  also have "\<dots> = Some (filled (I + 1) n (\<lambda>_. 0) (filled I 1 (\<lambda>_. 0) m))"
    using Suc.prems by (intro Suc.IH hdr_filled) auto
  finally show ?case unfolding filled_append by (simp cong: if_cong)
qed

section \<open>Loading the kernel\<close>

lemma hdr_loaded:
  assumes "hdr d m" "seg_ok d i"
  shows "hdr d (loaded d i m)"
  unfolding loaded_def using assms
  by (intro hdr_filled) (auto simp: seg_ok_def seg_hi_def seg_lo_def)

lemma sector_shift:
  "(768 * 512 + off) mod 512 = off mod 512" "seg_sectors (768 * 512 + off) c = seg_sectors off c"
proof -
  show m: "(768 * 512 + off) mod 512 = off mod 512"
    using mod_mult_self3 [of 768 512 off] by simp
  show "seg_sectors (768 * 512 + off) c = seg_sectors off c" unfolding seg_sectors_def m ..
qed

lemma read_segment:
  assumes "hdr d m" "phoff d + 32 * i + 32 \<le> 4096" "seg_ok d i"
  defines "ph \<equiv> boot_elf + of_nat (phoff d + 32 * i)"
  shows "boot_segments (Suc n) ph d m = boot_segments n (ph + PH_size) d (loaded d i m)"
proof -
  let ?k = "phoff d + 32 * i"
  have f: "ph + PH_paddr = boot_elf + of_nat (?k + 12)" "ph + PH_filesz = boot_elf + of_nat (?k + 16)"
    "ph + PH_off = boot_elf + of_nat (?k + 4)" "ph + PH_memsz = boot_elf + of_nat (?k + 20)"
    unfolding ph_def elf_defs by simp_all
  have r: "read32 (ph + PH_paddr) m' = of_nat (seg_pa d i)" "read32 (ph + PH_filesz) m' = of_nat (seg_filesz d i)"
    "read32 (ph + PH_off) m' = of_nat (seg_off d i)" if "hdr d m'" for m'
    using assms(2) unfolding f seg_pa_def seg_filesz_def seg_off_def
    by (subst hdr_read(1) [OF that]; simp)+
  have ok: "seg_off d i mod 512 \<le> seg_pa d i" "seg_filesz d i \<le> seg_memsz d i"
    "seg_pa d i + seg_memsz d i + 512 < 2 ^ 32" "seg_off d i + seg_filesz d i < 2 ^ 30"
    "seg_hi d i \<le> 0x7C00 \<or> 0x9000 \<le> seg_lo d i" using assms(3) by (simp_all add: seg_ok_def)
  let ?m1 = "filled (seg_lo d i) (512 * seg_sectors (seg_off d i) (seg_filesz d i))
      (\<lambda>j. img d (seg_off d i - seg_off d i mod 512 + j)) m"
  have o: "boot_offset + of_nat (seg_off d i) = of_nat (768 * 512 + seg_off d i)"
    by (simp add: boot_offset_def SECTSIZE_def)
  have "readseg (boot_readsect d) (of_nat (seg_pa d i)) (of_nat (seg_filesz d i))
      (of_nat (768 * 512 + seg_off d i)) m = Inr ?m1"
    using ok by (subst readseg_spec) (simp_all only: sector_shift seg_lo_def img_def, auto simp: add.assoc)
  moreover have h1: "hdr d ?m1" using ok(5) assms(1) by (intro hdr_filled) (auto simp: seg_hi_def)
  moreover have "boot_zero (of_nat (seg_pa d i + seg_filesz d i)) (of_nat (seg_pa d i)) ph ?m1 = Some (loaded d i m)"
    unfolding loaded_def
    by (rule boot_zero_spec [OF h1 _ f(4)]; use assms(2) ok in \<open>auto simp: seg_memsz_def seg_hi_def seg_lo_def\<close>)
  ultimately show ?thesis by (simp add: r assms(1) o loop_res_def flip: of_nat_add)
qed

lemma boot_segments_spec:
  assumes "hdr d m" "phoff d + 32 * (i + n) \<le> 4096" "\<forall>j < i + n. seg_ok d j"
  shows "boot_segments n (boot_elf + of_nat (phoff d + 32 * i)) d m = Inr (fold (loaded d) [i..<i + n] m) \<and>
    hdr d (fold (loaded d) [i..<i + n] m)"
  using assms
proof (induction n arbitrary: i m)
  case (Suc n)
  have next_ph: "boot_elf + of_nat (phoff d + 32 * i) + PH_size = boot_elf + of_nat (phoff d + 32 * (i + 1))"
    by (simp add: elf_defs)
  have l: "[i..<i + Suc n] = i # [i + 1..<i + 1 + n]" by (simp add: upt_conv_Cons)
  show ?case
    using Suc.IH [of "loaded d i m" "i + 1"] Suc.prems hdr_loaded [OF Suc.prems(1), of i]
    unfolding l by (subst read_segment) (simp_all only: next_ph, auto)
qed simp

lemma loaded_image:
  assumes "seg_ok d i" "k < seg_memsz d i"
  shows "loaded d i m (of_nat (seg_pa d i + k)) = (if k < seg_filesz d i then img d (seg_off d i + k) else 0)"
proof -
  define r where "r = seg_off d i mod 512"
  define c where "c = seg_filesz d i"
  have u: "unat (of_nat (seg_pa d i + k) :: u32) = seg_pa d i + k"
    using assms by (intro unat_small) (auto simp: seg_ok_def)
  have n: "r + c \<le> 512 * seg_sectors (seg_off d i) c" unfolding seg_sectors_def r_def by linarith
  have r: "r \<le> seg_pa d i" "r \<le> seg_off d i" "c \<le> seg_memsz d i"
    using assms(1) by (auto simp: seg_ok_def r_def c_def)
  show ?thesis
    using assms(2) n r unfolding loaded_def filled_def u seg_lo_def r_def [symmetric] c_def [symmetric]
    by auto
qed

lemma loaded_outside:
  assumes "seg_ok d j" "seg_hi d j \<le> unat a \<or> unat a < seg_lo d j"
  shows "loaded d j m a = m a"
  using assms unfolding loaded_def
  by (subst filled_outside, force simp: seg_ok_def seg_hi_def seg_lo_def)+ simp

text \<open>
  C20. The boot loader loads the kernel: for a bootable image it leaves its loops and jumps to the entry point of the
  image, with every segment in place: the bytes of the file at the physical address of the segment, then
  zeros up to its size in memory.
\<close>

theorem bootmain_loads_kernel:
  assumes "bootable d"
  shows "\<exists>m'. bootmain d m = Inr (Jump (img32 d 24), m') \<and>
    (\<forall>i < phnum d. \<forall>k < seg_memsz d i.
       m' (of_nat (seg_pa d i + k)) = (if k < seg_filesz d i then img d (seg_off d i + k) else 0))"
proof -
  let ?m = "filled 0x8000 4096 (img d) m"
  have b: "img32 d 0 = ELF_MAGIC" "phoff d + 32 * phnum d \<le> 4096" "\<forall>i < phnum d. seg_ok d i"
    "\<forall>j < phnum d. \<forall>i < j. seg_hi d j \<le> seg_pa d i \<or> seg_pa d i + seg_memsz d i \<le> seg_lo d j"
    using assms by (simp_all add: bootable_def)
  have rd: "readseg (boot_readsect d) boot_elf (8 * SECTSIZE) boot_offset m = Inr ?m"
    using readseg_spec [where off = 393216 and P = "0x8000" and c = 4096 and d = d and m = m]
    by (simp add: boot_elf_def SECTSIZE_def boot_offset_def seg_sectors_def img_def [abs_def])
  have "unat (of_nat (0x8000 + k) :: u32) = 0x8000 + k" if "k < 4096" for k using that by (intro unat_small) simp
  then have h: "hdr d ?m" by (auto simp: hdr_def filled_def)
  have r: "read32 (boot_elf + ELF_magic) m' = img32 d 0" "read32 (boot_elf + ELF_phoff) m' = of_nat (phoff d)"
    "read16 (boot_elf + ELF_phnum) m' = of_nat (phnum d)" "read32 (boot_elf + ELF_entry) m' = img32 d 24" if "hdr d m'" for m'
    using hdr_read(1) [OF that, of 0] hdr_read(1) [OF that, of 28] hdr_read(2) [OF that, of 44] hdr_read(1) [OF that, of 24]
    by (simp_all add: elf_defs phoff_def phnum_def)
  have "ph_count (boot_elf + of_nat (phoff d)) (of_nat (phnum d)) = phnum d"
  proof -
    have e: "boot_elf + of_nat (phoff d) = of_nat (0x8000 + phoff d)"
      "boot_elf + of_nat (phoff d) + PH_size * of_nat (phnum d) = of_nat (0x8000 + phoff d + 32 * phnum d)"
      by (simp_all add: boot_elf_def PH_size_def)
    have u: "unat (of_nat (0x8000 + phoff d) :: u32) = 0x8000 + phoff d" "unat (of_nat (phnum d) :: u32) = phnum d"
      "unat (of_nat (0x8000 + phoff d + 32 * phnum d) :: u32) = 0x8000 + phoff d + 32 * phnum d"
      using b(2) by (auto intro!: unat_small simp del: of_nat_add)
    show ?thesis unfolding ph_count_def Let_def e(2) unfolding e(1) word_less_nat_alt u by simp
  qed
  then have run: "bootmain d m = Inr (Jump (img32 d 24), fold (loaded d) [0..<phnum d] ?m)"
    using boot_segments_spec [OF h, of 0 "phnum d"] b r(1-3) [OF h]
    by (auto simp: bootmain_def rd r(4) Let_def)
  have "fold (loaded d) [0..<n] ?m (of_nat (seg_pa d i + k)) = (if k < seg_filesz d i then img d (seg_off d i + k) else 0)"
    if "i < n" "n \<le> phnum d" "k < seg_memsz d i" for n i k
    using that
  proof (induction n)
    case (Suc n)
    have "seg_ok d i" using b(3) Suc.prems by simp
    then have u: "unat (of_nat (seg_pa d i + k) :: u32) = seg_pa d i + k"
      using Suc.prems(3) by (intro unat_small) (simp add: seg_ok_def)
    show ?case
    proof (cases "i = n")
      case True
      then show ?thesis using Suc.prems b(3) loaded_image by simp
    next
      case False
      then have i: "i < n" using Suc.prems(1) by simp
      have n: "seg_ok d n" "seg_hi d n \<le> seg_pa d i \<or> seg_pa d i + seg_memsz d i \<le> seg_lo d n"
        using b(3,4) i Suc.prems(2) by simp_all
      then have "seg_hi d n \<le> unat (of_nat (seg_pa d i + k) :: u32) \<or> unat (of_nat (seg_pa d i + k) :: u32) < seg_lo d n"
        unfolding u using Suc.prems(3) by auto
      then have "loaded d n m' (of_nat (seg_pa d i + k)) = m' (of_nat (seg_pa d i + k))" for m'
        by (rule loaded_outside [OF n(1)])
      then show ?thesis using Suc i by simp
    qed
  qed simp
  with run show ?thesis by blast
qed

text \<open>One segment of three bytes at 1 MiB, followed by two bytes of uninitialised data.\<close>

definition boot_image :: "nat \<Rightarrow> u8" where
  "boot_image k =
     (case map_of [(0, 0x7F), (1, 0x45), (2, 0x4C), (3, 0x46), (26, 0x10), (28, 52), (44, 1),
        (57, 0x10), (66, 0x10), (68, 3), (72, 5), (4096, 0xAA), (4097, 0xBB), (4098, 0xCC)] k of
        None \<Rightarrow> 0 | Some v \<Rightarrow> v)"

definition boot_disk :: "nat \<Rightarrow> sector" where
  "boot_disk n k = (if 769 \<le> n then boot_image ((n - 769) * 512 + k) else 0)"

lemma img_boot_disk: "img boot_disk k = boot_image k"
proof -
  have "(768 * 512 + k) div 512 = 768 + k div 512" using div_mult_self3 [of 512 768 k] by simp
  then show ?thesis unfolding img_def disk_byte_def sector_shift(1) boot_disk_def by simp
qed

lemma boot_disk_fields:
  "phoff boot_disk = 52" "phnum boot_disk = 1" "seg_off boot_disk 0 = 0x1000" "seg_pa boot_disk 0 = 0x100000"
  "seg_filesz boot_disk 0 = 3" "seg_memsz boot_disk 0 = 5" "img32 boot_disk 0 = ELF_MAGIC" "img32 boot_disk 24 = 0x100000"
proof -
  show p: "phoff boot_disk = 52" by (simp add: phoff_def img32_def img_boot_disk boot_image_def)
  show "phnum boot_disk = 1" by (simp add: phnum_def img16_def img_boot_disk boot_image_def)
  show "seg_off boot_disk 0 = 0x1000" "seg_pa boot_disk 0 = 0x100000"
    "seg_filesz boot_disk 0 = 3" "seg_memsz boot_disk 0 = 5"
    by (simp_all add: seg_off_def seg_pa_def seg_filesz_def seg_memsz_def p img32_def img_boot_disk boot_image_def)
  show "img32 boot_disk 0 = ELF_MAGIC" "img32 boot_disk 24 = 0x100000"
    by (simp_all add: img32_def img_boot_disk boot_image_def ELF_MAGIC_def)
qed

theorem bootmain_loads_kernel_witness:
  "\<exists>m'. bootmain boot_disk (\<lambda>_. 0xFF) = Inr (Jump 0x100000, m') \<and> m' 0x100001 = 0xBB \<and> m' 0x100004 = 0"
proof -
  have "bootable boot_disk"
    by (simp add: bootable_def boot_disk_fields seg_ok_def seg_hi_def seg_lo_def seg_sectors_def)
  from bootmain_loads_kernel [OF this, of "\<lambda>_. 0xFF"] obtain m'
    where "bootmain boot_disk (\<lambda>_. 0xFF) = Inr (Jump 0x100000, m')"
      "\<forall>k < 5. m' (of_nat (0x100000 + k)) = (if k < 3 then img boot_disk (0x1000 + k) else 0)"
    by (auto simp: boot_disk_fields)
  then show ?thesis by (auto simp: img_boot_disk boot_image_def dest: spec [of _ 1] spec [of _ 4])
qed

end
