(* ===== verification/Loader.thy ===== *)
theory Loader
  imports System User_Memory Keyboard Video Elf
begin

text \<open>
  The program loader, \<^verbatim>\<open>src/kernel/src/loader.c\<close>, on the state of the whole kernel: processes, memory
  and file system, with the keyboard and the screen beside them.  All accesses to the program image
  go through the page tables of the process that is loaded.
\<close>

section \<open>The state of the kernel\<close>

text \<open>
  \<open>kbinput\<close> holds the scan codes that the keyboard delivers to the polling loops, \<open>entry\<close> is the global
  variable of \<^verbatim>\<open>loader.c\<close>.
\<close>

record kernst = fsst +
  kb :: kbd
  vid :: video
  kbinput :: "u8 list"
  entry :: u32

section \<open>Addresses\<close>

definition ELFADDR :: u32 where "ELFADDR = 0"
definition USTACKTOP :: u32 where "USTACKTOP = 0xBEBFE000"
definition USTACKSIZE :: u32 where "USTACKSIZE = 0x8000"

section \<open>Loading\<close>

text \<open>
  \<^verbatim>\<open>for (i = pa + ph->filesz; i < pa + ph->memsz; *i ++ = 0);\<close>  The bound is read again in every
  iteration.
\<close>

partial_function (option) zero_loop ::
  "u32 \<Rightarrow> u32 \<Rightarrow> u32 \<Rightarrow> 'a pagingst_scheme \<Rightarrow> 'a pagingst_scheme res option" where
  "zero_loop i pa ph s =
     (case vread32 (ph + PH_memsz) s of
        Inl e \<Rightarrow> Some (Inl e)
      | Inr memsz \<Rightarrow>
          if i < pa + memsz
          then (case vwrite8 i 0 s of Inl e \<Rightarrow> Some (Inl e) | Inr s \<Rightarrow> zero_loop (i + 1) pa ph s)
          else Some (Inr s))"

text \<open>
  \<^verbatim>\<open>for(; ph < eph; ph ++)\<close> over an array of \<open>n\<close> headers; \<^verbatim>\<open>break\<close> ends it at the first header with an
  empty segment.
\<close>

primrec load_segments :: "nat \<Rightarrow> u32 \<Rightarrow> nat \<Rightarrow> u32 \<Rightarrow> kernst \<Rightarrow> kernst res" where
  "load_segments 0 ph pcb fd s = Inr s"
| "load_segments (Suc n) ph pcb fd s =
     bind_res (vread32 (ph + PH_vaddr) s) (\<lambda>pa.
     bind_res (vread32 (ph + PH_memsz) s) (\<lambda>memsz.
     if pa = 0 \<or> memsz = 0 then Inr s
     else
       bind_res (mm_alloc (pgdir (PCBPool s pcb)) pa memsz s) (\<lambda>s.
       bind_res (vread32 (ph + PH_off) s) (\<lambda>off.
       bind_res (fs_lseek_kr fd off s) (\<lambda>s.
       bind_res (vread32 (ph + PH_filesz) s) (\<lambda>filesz.
       bind_res (fs_read_kr fd filesz s) (\<lambda>(_, bytes, s).
       bind_res (vwrite_bytes bytes pa s) (\<lambda>s.
       bind_res (vread32 (ph + PH_filesz) s) (\<lambda>filesz.
       bind_res (bind_res (loop_res (zero_loop (pa + filesz) pa ph s)) id) (\<lambda>s.
       load_segments n (ph + PH_size) pcb fd s))))))))))"

definition loader_file :: "nat \<Rightarrow> u32 \<Rightarrow> kernst \<Rightarrow> (u32 \<times> kernst) res" where
  "loader_file pcb fname s =
     (let s = lcr3 (PADDR (pgdir (PCBPool s pcb))) s in
      bind_res (mm_alloc (pgdir (PCBPool s pcb)) ELFADDR 0x1000 s) (\<lambda>s.
      bind_res (vstring fname s) (\<lambda>name.
      bind_res (fs_open_kr name s) (\<lambda>(fd, s).
      bind_res (fs_read_kr fd (8 * 512) s) (\<lambda>(_, bytes, s).
      bind_res (vwrite_bytes bytes ELFADDR s) (\<lambda>s.
      bind_res (vread32 (ELFADDR + ELF_magic) s) (\<lambda>magic.
      if magic \<noteq> ELF_MAGIC then Inr (- 1, s)
      else
        bind_res (vread32 (ELFADDR + ELF_phoff) s) (\<lambda>phoff.
        bind_res (vread16 (ELFADDR + ELF_phnum) s) (\<lambda>phnum.
        bind_res (load_segments (ph_count (ELFADDR + phoff) phnum) (ELFADDR + phoff) pcb fd s) (\<lambda>s.
        bind_res (vread32 (ELFADDR + ELF_entry) s) (\<lambda>e.
        let s = s\<lparr>entry := e\<rparr> in
        bind_res (mm_alloc (pgdir (PCBPool s pcb)) (USTACKTOP - USTACKSIZE) USTACKSIZE s) (\<lambda>s.
        let s = init_pcb pcb (USTACKTOP - 0x80) (entry s) 3 s in
        Inr (0, lcr3 (PADDR (kern_pgdir s)) s)))))))))))))"

text \<open>
  The older loader takes the image from a byte offset of the disk.  It prints whether the magic number is right and
  goes on in any case; segments go to their physical address, for which no page is allocated unless it
  is the virtual one.
\<close>

definition kern_readsect :: "u32 \<Rightarrow> u32 \<Rightarrow> kernst \<Rightarrow> kernst res" where
  "kern_readsect dst offset s = vwrite_bytes (map (readsect offset s) [0..<512]) dst s"

primrec load_disk_segments :: "nat \<Rightarrow> u32 \<Rightarrow> nat \<Rightarrow> u32 \<Rightarrow> kernst \<Rightarrow> kernst res" where
  "load_disk_segments 0 ph pcb offset s = Inr s"
| "load_disk_segments (Suc n) ph pcb offset s =
     bind_res (vread32 (ph + PH_paddr) s) (\<lambda>pa.
     bind_res (vread32 (ph + PH_vaddr) s) (\<lambda>vaddr.
     bind_res (vread32 (ph + PH_memsz) s) (\<lambda>memsz.
     bind_res (mm_alloc (pgdir (PCBPool s pcb)) vaddr memsz s) (\<lambda>s.
     bind_res (vread32 (ph + PH_filesz) s) (\<lambda>filesz.
     bind_res (vread32 (ph + PH_off) s) (\<lambda>off.
     bind_res (readseg kern_readsect pa filesz (offset + off) s) (\<lambda>s.
     bind_res (vread32 (ph + PH_filesz) s) (\<lambda>filesz.
     bind_res (bind_res (loop_res (zero_loop (pa + filesz) pa ph s)) id) (\<lambda>s.
     load_disk_segments n (ph + PH_size) pcb offset s)))))))))"

definition loader :: "nat \<Rightarrow> u32 \<Rightarrow> kernst \<Rightarrow> kernst res" where
  "loader pcb offset s =
     (let s = lcr3 (PADDR (pgdir (PCBPool s pcb))) s in
      bind_res (mm_alloc (pgdir (PCBPool s pcb)) ELFADDR 0x1000 s) (\<lambda>s.
      bind_res (readseg kern_readsect ELFADDR (8 * SECTSIZE) offset s) (\<lambda>s.
      bind_res (vread32 (ELFADDR + ELF_magic) s) (\<lambda>magic.
      bind_res (printk (''Magic Assertion: %x'' @ NL) [Num (if magic = ELF_MAGIC then 1 else 0)] s) (\<lambda>s.
      bind_res (vread32 (ELFADDR + ELF_phoff) s) (\<lambda>phoff.
      bind_res (vread16 (ELFADDR + ELF_phnum) s) (\<lambda>phnum.
      bind_res (load_disk_segments (ph_count (ELFADDR + phoff) phnum) (ELFADDR + phoff) pcb offset s) (\<lambda>s.
      bind_res (vread32 (ELFADDR + ELF_entry) s) (\<lambda>e.
      let s = s\<lparr>entry := e\<rparr> in
      bind_res (mm_alloc (pgdir (PCBPool s pcb)) (USTACKTOP - USTACKSIZE) USTACKSIZE s) (\<lambda>s.
      let s = init_pcb pcb (USTACKTOP - 0x80) (entry s) 3 s in
      Inr (lcr3 (PADDR (kern_pgdir s)) s)))))))))))"

definition empty_loader :: "nat \<Rightarrow> u32 \<Rightarrow> kernst \<Rightarrow> kernst" where
  "empty_loader pcb ptr s =
     (let s = lcr3 (PADDR (pgdir (PCBPool s pcb))) s;
          s = s\<lparr>entry := ptr\<rparr>;
          s = init_pcb pcb (kstacktop_addr s pcb - 0x80) (entry s) 0 s
      in lcr3 (PADDR (kern_pgdir s)) s)"

end
