(* ===== verification/Sched_Frame.thy ===== *)
theory Sched_Frame
  imports System
begin

text \<open>
  What scheduling and semaphore operations leave alone.  \<open>sched_frame\<close> erases everything that they own
  (queues, states, time slices, semaphores, counters, the address space register); what is left, the memory, the trap
  frames, the open files, the disk and whatever a larger state adds, is the same before and after.
\<close>

definition pcb_frame :: "PCB \<Rightarrow> PCB" where
  "pcb_frame p = p\<lparr>nxt := None, join_list := None, ts := READY, timeslice := 0, used := 0\<rparr>"

definition sched_frame :: "'a procst_scheme \<Rightarrow> 'a procst_scheme" where
  "sched_frame s = s\<lparr>ready_list := None, sleep_list := None, current := None, sched_count := 0, ticks := 0,
     cr3 := 0, tss_esp0 := 0, sems := (\<lambda>_. \<lparr>sem_used = 0, sem_count = 0, block_list = None\<rparr>),
     PCBPool := (\<lambda>p. pcb_frame (PCBPool s p))\<rparr>"

lemma pcb_frame_simps [simp]:
  "pcb_frame (p\<lparr>nxt := v\<rparr>) = pcb_frame p" "pcb_frame (p\<lparr>join_list := v\<rparr>) = pcb_frame p"
  "pcb_frame (p\<lparr>ts := w\<rparr>) = pcb_frame p" "pcb_frame (p\<lparr>timeslice := n\<rparr>) = pcb_frame p"
  "pcb_frame (p\<lparr>used := n\<rparr>) = pcb_frame p"
  by (simp_all add: pcb_frame_def)

lemma sched_frame_upd_pcb [simp]:
  "(\<And>x. pcb_frame (f x) = pcb_frame x) \<Longrightarrow> sched_frame (upd_pcb p f s) = sched_frame s"
  by (auto simp: sched_frame_def upd_pcb_def fun_eq_iff)

lemma sched_frame_simps [simp]:
  "sched_frame (s\<lparr>current := c\<rparr>) = sched_frame s" "sched_frame (s\<lparr>sched_count := n\<rparr>) = sched_frame s"
  "sched_frame (s\<lparr>ticks := n\<rparr>) = sched_frame s" "sched_frame (s\<lparr>cr3 := n\<rparr>) = sched_frame s"
  "sched_frame (s\<lparr>tss_esp0 := n\<rparr>) = sched_frame s" "sched_frame (s\<lparr>sems := m\<rparr>) = sched_frame s"
  "sched_frame (s\<lparr>ready_list := h\<rparr>) = sched_frame s" "sched_frame (s\<lparr>sleep_list := h\<rparr>) = sched_frame s"
  by (simp_all add: sched_frame_def)

lemma sched_frame_set_head [simp]: "sched_frame (set_head h v s) = sched_frame s"
  by (cases h) simp_all

lemma sched_frame_upd_sem [simp]: "sched_frame (upd_sem a f s) = sched_frame s"
  by (simp add: upd_sem_def)

section \<open>Queues\<close>

lemma ll_delete_frame: "ll_delete h p s = Inr (r, s') \<Longrightarrow> sched_frame s' = sched_frame s"
proof -
  assume d: "ll_delete h p s = Inr (r, s')"
  then obtain found where f: "loop_res (ll_find_loop (nexts s) p None (get_head h s)) = Inr found"
    by (auto simp: ll_delete_def bind_res_eq_Inr)
  show ?thesis
  proof (cases found)
    case None
    with d f show ?thesis by (simp add: ll_delete_def)
  next
    case (Some x)
    obtain pre sl where "x = (pre, sl)" by (cases x)
    with d f Some show ?thesis by (cases pre) (auto simp: ll_delete_def Let_def)
  qed
qed

lemma ll_pop_frame: "ll_pop h s = Inr (r, s') \<Longrightarrow> sched_frame s' = sched_frame s"
  by (auto simp: ll_pop_def bind_res_eq_Inr Let_def dest: ll_delete_frame)

lemma ll_entail_frame: "ll_entail h p s = Inr (r, s') \<Longrightarrow> sched_frame s' = sched_frame s"
  by (auto simp: ll_entail_def bind_res_eq_Inr Let_def split: option.split_asm)

lemmas ll_frames = ll_delete_frame ll_pop_frame ll_entail_frame

definition keeps_frame :: "('x \<Rightarrow> 'a procst_scheme \<Rightarrow> ('y \<times> 'a procst_scheme) res) \<Rightarrow> bool" where
  "keeps_frame f \<longleftrightarrow> (\<forall>x s y s'. f x s = Inr (y, s') \<longrightarrow> sched_frame s' = sched_frame s)"

lemma drain_frame:
  assumes "drain pop keep entail s = Some (Inr s')" "keeps_frame (\<lambda>(_ :: unit). pop)" "keeps_frame entail"
  shows "sched_frame s' = sched_frame s"
proof -
  have "keeps_frame (\<lambda>(_ :: unit). pop) \<longrightarrow> keeps_frame entail \<longrightarrow> (\<forall>s'. r = Inr s' \<longrightarrow> sched_frame s' = sched_frame s)"
    if "drain pop keep entail s = Some r" for r
    using that
  proof (induction rule: drain.raw_induct [rotated, consumes 1])
    case (1 f pop keep entail s r)
    show ?case
    proof (intro impI allI)
      fix s' assume p: "keeps_frame (\<lambda>(_ :: unit). pop)" and e: "keeps_frame entail" and r: "r = Inr s'"
      have pop: "sched_frame t' = sched_frame t" if "pop t = Inr (x, t')" for t x t'
        using p that by (auto simp: keeps_frame_def)
      have entail: "sched_frame t' = sched_frame t" if "entail q t = Inr (x, t')" for q t x t'
        using e that by (auto simp: keeps_frame_def)
      have ih: "sched_frame t' = sched_frame t" if "f pop keep entail t = Some (Inr t')" for t t'
        using 1(1) [OF that] p e by simp
      show "sched_frame s' = sched_frame s"
        using 1(2) unfolding r
        by (auto split: sum.split_asm option.split_asm if_splits dest!: ih pop entail)
    qed
  qed
  with assms show ?thesis by blast
qed

lemma ll_keeps_frame: "keeps_frame (\<lambda>(_ :: unit). ll_pop h)" "keeps_frame (ll_entail h)"
  by (auto simp: keeps_frame_def dest: ll_frames)

section \<open>Scheduler and timer\<close>

lemma scheduler_switch_frame [simp]: "sched_frame (ctl_state (scheduler_switch c s)) = sched_frame s"
  by (simp add: scheduler_switch_def Let_def set_tss_esp0_def lcr3_def)

lemma do_scheduler_frame: "do_scheduler s = Inr ct \<Longrightarrow> sched_frame (ctl_state ct) = sched_frame s"
proof -
  have none: "sched_frame (ctl_state ct) = sched_frame s" if "do_scheduler s = Inr ct" "current s = None" for s ct
    using that(1) by (subst (asm) do_scheduler.simps) (auto simp: that(2) Let_def bind_res_eq_Inr dest!: ll_frames)
  assume "do_scheduler s = Inr ct"
  then show ?thesis
  proof (cases "current s")
    case (Some c)
    with \<open>do_scheduler s = Inr ct\<close> show ?thesis
      by (subst (asm) do_scheduler.simps)
        (auto simp: Let_def bind_res_eq_Inr split: if_splits dest!: ll_frames none)
  qed (rule none)
qed

lemma mem_sched_frame [simp]: "mem (sched_frame s) = mem s" "tt (PCBPool (sched_frame s) p) = tt (PCBPool s p)"
  by (simp_all add: sched_frame_def pcb_frame_def)

lemma sched_frame_eqD: "sched_frame s' = sched_frame s \<Longrightarrow> mem s' = mem s"
  by (metis mem_sched_frame(1))

lemma timer_loop_frame:
  assumes "timer_loop sl s = Some (Inr s')"
  shows "sched_frame s' = sched_frame s"
proof -
  have "\<forall>s'. r = Inr s' \<longrightarrow> sched_frame s' = sched_frame s" if "timer_loop sl s = Some r" for sl s r
    using that
  proof (induction rule: timer_loop.raw_induct [rotated, consumes 1])
    case (1 f sl s r)
    then show ?case
      by (auto simp: Let_def bind_res_eq_Inr split: sum.split_asm option.split_asm if_splits dest!: ll_frames)
  qed
  with assms show ?thesis by blast
qed

lemma do_timer_frame: "do_timer s = Inr s' \<Longrightarrow> sched_frame s' = sched_frame s"
  by (auto simp: do_timer_def Let_def bind_res_eq_Inr loop_res_def split: option.split_asm dest!: timer_loop_frame)

section \<open>System calls\<close>

lemma exit_current_frame: "exit_current s = Inr ct \<Longrightarrow> sched_frame (ctl_state ct) = sched_frame s"
  by (auto simp: exit_current_def free_pcb_def Let_def bind_res_eq_Inr loop_res_def split: option.split_asm
      dest!: do_scheduler_frame drain_frame [OF _ ll_keeps_frame])

lemma join_current_frame: "join_current k s = Inr ct \<Longrightarrow> sched_frame (ctl_state ct) = sched_frame s"
  by (auto simp: join_current_def Let_def bind_res_eq_Inr split: if_splits dest!: do_scheduler_frame ll_frames)

lemma sem_wait_frame: "sem_wait_kr a s = Inr ct \<Longrightarrow> sched_frame (ctl_state ct) = sched_frame s"
  by (auto simp: sem_wait_kr_def Let_def bind_res_eq_Inr split: if_splits dest!: do_scheduler_frame ll_frames)

lemma sem_post_frame: "sem_post_kr a s = Inr s' \<Longrightarrow> sched_frame s' = sched_frame s"
  by (auto simp: sem_post_kr_def Let_def bind_res_eq_Inr split: if_splits dest!: ll_frames)

lemma sem_close_frame: "sem_close_kr a s = Inr s' \<Longrightarrow> sched_frame s' = sched_frame s"
  by (auto simp: sem_close_kr_def Let_def bind_res_eq_Inr loop_res_def split: if_splits option.split_asm
      dest!: drain_frame [OF _ ll_keeps_frame])

lemma sem_init_frame [simp]: "sched_frame (sem_init_kr a n s) = sched_frame s"
  by (simp add: sem_init_kr_def)

lemma handle_frame: "handle e s = Inr ct \<Longrightarrow> sched_frame (ctl_state ct) = sched_frame s"
  by (cases e)
    (auto simp: bind_res_eq_Inr do_handout_def do_sleep_def sem_open_kr_def sem_trywait_kr_def Let_def split: if_splits
      dest: do_timer_frame exit_current_frame join_current_frame sem_wait_frame sem_post_frame sem_close_frame)

text \<open>
  The events that concern processes alone.  The semaphore calls are not among them: their argument is an address in the memory of the caller, and in the
  program the kernel writes the semaphore there, which the map \<open>sems\<close> beside the memory does not show.
\<close>

primrec process_event :: "kevent \<Rightarrow> bool" where
  "process_event Tick = True"
| "process_event Yield = True"
| "process_event (Sleep n) = True"
| "process_event Exit = True"
| "process_event (Join k) = True"
| "process_event (SemInit a n) = False"
| "process_event (SemOpen i n) = False"
| "process_event (SemWait a) = False"
| "process_event (SemTrywait a) = False"
| "process_event (SemPost a) = False"
| "process_event (SemClose a) = False"

text \<open>
  C21. Isolation of the scheduling core: when a timer tick, a yield, a sleep, an exit or a join is handled, the memory outside the
  queues and the process descriptors, the trap frames of all processes, their page directories and open files, the page allocator, and every
  component beside the processes (disk, keyboard, screen) keep their contents; only queues, process states, time
  slices, semaphores, counters and the active address space may change.  (Semaphore calls write through a pointer that the caller supplies; nothing is claimed of them.)
\<close>

theorem interrupt_isolation:
  assumes "interrupt e s = Inr ct" "process_event e"
  shows "sched_frame (ctl_state ct) = sched_frame s"
proof -
  obtain c where c: "handle e s = Inr c" using assms(1) by (cases "handle e s") (auto simp: interrupt_def)
  with assms show ?thesis
    using handle_frame [OF c] by (cases c) (auto simp: interrupt_def dest!: do_scheduler_frame)
qed

theorem interrupt_isolation_witness:
  "\<exists>ct. interrupt (Sleep 3) sample = Inr ct \<and> mem (ctl_state ct) = mem sample"
proof -
  obtain ct where ct: "interrupt (Sleep 3) sample = Inr ct"
    using interrupt_keeps_ok [OF sample_kernel_ok, of "Sleep 3"] by (auto simp: sample_def)
  with sched_frame_eqD [of "ctl_state ct" sample] interrupt_isolation [OF ct] show ?thesis by auto
qed

end
