(* ===== verification/Syscall.thy ===== *)
theory Syscall
  imports Loader Sched_Frame File_Ops
begin

text \<open>
  The way into the kernel: \<^verbatim>\<open>src/kernel/src/irq/irq_handle.c\<close>, \<^verbatim>\<open>src/kernel/src/do_syscall.c\<close> with the
  numbers of \<^verbatim>\<open>src/lib/syscall.h\<close>, and \<^verbatim>\<open>exec_current\<close>.  The registers of the interrupted process are
  the words of the trap frame that \<^verbatim>\<open>asm_do_irq\<close> has pushed.  The refinement to the events of
  \<open>System\<close> carries the safety of the scheduling core over to the real entry point.
\<close>

section \<open>Numbers of the system calls\<close>

definition SYS_PRINT_CHAR :: u32 where "SYS_PRINT_CHAR = 1000"
definition SYS_INIT_CACHE :: u32 where "SYS_INIT_CACHE = 1100"
definition SYS_CLEAR_VRAM :: u32 where "SYS_CLEAR_VRAM = 1101"
definition SYS_FLUSH_VCACHE :: u32 where "SYS_FLUSH_VCACHE = 1102"
definition SYS_SET_PIXEL :: u32 where "SYS_SET_PIXEL = 1103"
definition SYS_GET_KEY :: u32 where "SYS_GET_KEY = 1200"
definition SYS_ADD_TIMER :: u32 where "SYS_ADD_TIMER = 1300"
definition SYS_GET_TICK :: u32 where "SYS_GET_TICK = 1301"
definition SYS_HANDOUT :: u32 where "SYS_HANDOUT = 1500"
definition SYS_PID :: u32 where "SYS_PID = 1501"
definition SYS_SLEEP :: u32 where "SYS_SLEEP = 1502"
definition SYS_EXIT :: u32 where "SYS_EXIT = 1503"
definition SYS_FORK :: u32 where "SYS_FORK = 1504"
definition SYS_PPID :: u32 where "SYS_PPID = 1505"
definition SYS_JOIN :: u32 where "SYS_JOIN = 1506"
definition SYS_THREAD :: u32 where "SYS_THREAD = 1510"
definition SYS_SEM_INIT :: u32 where "SYS_SEM_INIT = 1600"
definition SYS_SEM_OPEN :: u32 where "SYS_SEM_OPEN = 1601"
definition SYS_SEM_POST :: u32 where "SYS_SEM_POST = 1602"
definition SYS_SEM_WAIT :: u32 where "SYS_SEM_WAIT = 1603"
definition SYS_SEM_CLOSE :: u32 where "SYS_SEM_CLOSE = 1604"
definition SYS_SEM_GET :: u32 where "SYS_SEM_GET = 1605"
definition SYS_SEM_TRYWAIT :: u32 where "SYS_SEM_TRYWAIT = 1606"
definition SYS_FS_OPEN :: u32 where "SYS_FS_OPEN = 1700"
definition SYS_FS_READ :: u32 where "SYS_FS_READ = 1701"
definition SYS_FS_WRITE :: u32 where "SYS_FS_WRITE = 1702"
definition SYS_FS_LSEEK :: u32 where "SYS_FS_LSEEK = 1703"
definition SYS_FS_CLOSE :: u32 where "SYS_FS_CLOSE = 1704"
definition SYS_FS_LS :: u32 where "SYS_FS_LS = 1705"
definition SYS_READLINE :: u32 where "SYS_READLINE = 1800"
definition SYS_EXEC :: u32 where "SYS_EXEC = 1900"

lemmas SYS_defs = SYS_PRINT_CHAR_def SYS_INIT_CACHE_def SYS_CLEAR_VRAM_def SYS_FLUSH_VCACHE_def
  SYS_SET_PIXEL_def SYS_GET_KEY_def SYS_ADD_TIMER_def SYS_GET_TICK_def SYS_HANDOUT_def SYS_PID_def
  SYS_SLEEP_def SYS_EXIT_def SYS_FORK_def SYS_PPID_def SYS_JOIN_def SYS_THREAD_def SYS_SEM_INIT_def
  SYS_SEM_OPEN_def SYS_SEM_POST_def SYS_SEM_WAIT_def SYS_SEM_CLOSE_def SYS_SEM_GET_def
  SYS_SEM_TRYWAIT_def SYS_FS_OPEN_def SYS_FS_READ_def SYS_FS_WRITE_def SYS_FS_LSEEK_def
  SYS_FS_CLOSE_def SYS_FS_LS_def SYS_READLINE_def SYS_EXEC_def

section \<open>Registers and pointers of the caller\<close>

definition TF_EBX :: u32 where "TF_EBX = 16"
definition TF_EDX :: u32 where "TF_EDX = 20"
definition TF_ECX :: u32 where "TF_ECX = 24"
definition TF_IRQ :: u32 where "TF_IRQ = 48"

definition set_eax :: "u32 \<Rightarrow> u32 \<Rightarrow> 'a pagingst_scheme \<Rightarrow> 'a pagingst_scheme" where
  "set_eax t v s = store (t + TF_EAX) v s"

text \<open>
  A \<^verbatim>\<open>Semaphore*\<close> of a process is a pointer into its address space; the object is known by the kernel
  address of its frame, so that processes which share the page share the semaphore.
\<close>

definition user_sem :: "u32 \<Rightarrow> 'a pagingst_scheme \<Rightarrow> u32 res" where
  "user_sem va s =
     (case mmu_translate (mem s) (cr3 s) va of None \<Rightarrow> Inl PageFault | Some pa \<Rightarrow> Inr (KADDR pa))"

definition serial_printc :: "u32 \<Rightarrow> 'a pagingst_scheme \<Rightarrow> 'a pagingst_scheme" where
  "serial_printc ch s = printk_str (to_string [ucast ch]) s"

section \<open>Replacing the program of a process\<close>

definition exec_current :: "u32 \<Rightarrow> kernst \<Rightarrow> kernst ctl res" where
  "exec_current fname s =
     bind_res (deref (current s)) (\<lambda>c.
     bind_res (loader_file c fname s) (\<lambda>(status, s).
     if status = - 1
     then bind_res (printk (''Not executable'' @ NL) [] s) (\<lambda>s. Inr (Returns s))
     else
       bind_res (ll_entail Ready_list (current s) s) (\<lambda>(_, s).
       do_scheduler (s\<lparr>current := None\<rparr>))))"

section \<open>Calls with buffers\<close>

definition do_readline :: "u32 \<Rightarrow> kernst \<Rightarrow> kernst res" where
  "do_readline dst s =
     bind_res (readline (Some ''$> '') (kbinput s) (kb s)) (\<lambda>(str, inp, out, k).
     let s = printk_str out (s\<lparr>kbinput := inp, kb := k\<rparr>) in
     (case str of
        None \<Rightarrow> Inl NullDeref
      | Some str \<Rightarrow> bind_res (cstring str) (\<lambda>line. vwrite_bytes (line @ [0]) dst s)))"

definition do_fs_open :: "u32 \<Rightarrow> u32 \<Rightarrow> kernst \<Rightarrow> (u32 \<times> kernst) res" where
  "do_fs_open pathname flags s = bind_res (vstring pathname s) (\<lambda>name. fs_open_port name flags s)"

definition do_fs_read :: "u32 \<Rightarrow> u32 \<Rightarrow> u32 \<Rightarrow> kernst \<Rightarrow> (u32 \<times> kernst) res" where
  "do_fs_read fd dst len s =
     bind_res (fs_read_port fd len s) (\<lambda>(r, bytes, s).
     bind_res (vwrite_bytes bytes dst s) (\<lambda>s. Inr (r, s)))"

definition do_fs_write :: "u32 \<Rightarrow> u32 \<Rightarrow> u32 \<Rightarrow> kernst \<Rightarrow> (u32 \<times> kernst) res" where
  "do_fs_write fd src len s =
     bind_res (if fd = - 1 then Inr [] else vread_bytes (unat len) src s) (\<lambda>bytes.
     fs_write_port fd (\<lambda>k. if k < length bytes then bytes ! k else 0) len s)"

section \<open>The dispatcher\<close>

text \<open>A call that delivers a value in \<^verbatim>\<open>%eax\<close>, and one that does not.\<close>

definition value_call :: "u32 \<Rightarrow> (u32 \<times> kernst) res \<Rightarrow> kernst ctl res" where
  "value_call t r = bind_res r (\<lambda>(v, s). Inr (Returns (set_eax t v s)))"

definition plain_call :: "kernst res \<Rightarrow> kernst ctl res" where
  "plain_call r = bind_res r (\<lambda>s. Inr (Returns s))"

definition do_syscall :: "u32 \<Rightarrow> kernst \<Rightarrow> kernst ctl res" where
  "do_syscall t s =
     (let eax = mem s (t + TF_EAX); ebx = mem s (t + TF_EBX); ecx = mem s (t + TF_ECX); edx = mem s (t + TF_EDX) in
      if eax = SYS_EXEC then exec_current ebx s
      else if eax = SYS_READLINE then plain_call (do_readline ebx s)
      else if eax = SYS_FS_LS then plain_call (fs_ls_kr ebx s)
      else if eax = SYS_FS_OPEN then value_call t (do_fs_open ebx ecx s)
      else if eax = SYS_FS_READ then value_call t (do_fs_read ebx ecx edx s)
      else if eax = SYS_FS_WRITE then value_call t (do_fs_write ebx ecx edx s)
      else if eax = SYS_FS_LSEEK then value_call t (fs_lseek_port ebx ecx edx s)
      else if eax = SYS_FS_CLOSE then value_call t (fs_close_port ebx s)
      else if eax = SYS_SEM_INIT then
        bind_res (user_sem ebx s) (\<lambda>sem. Inr (Returns (sem_init_kr sem ecx s)))
      else if eax = SYS_SEM_OPEN then value_call t (sem_open_kr ebx ecx s)
      else if eax = SYS_SEM_POST then bind_res (user_sem ebx s) (\<lambda>sem. plain_call (sem_post_kr sem s))
      else if eax = SYS_SEM_WAIT then bind_res (user_sem ebx s) (\<lambda>sem. sem_wait_kr sem s)
      else if eax = SYS_SEM_TRYWAIT then
        bind_res (user_sem ebx s) (\<lambda>sem. case sem_trywait_kr sem s of (v, s) \<Rightarrow> value_call t (Inr (of_int v, s)))
      else if eax = SYS_SEM_CLOSE then bind_res (user_sem ebx s) (\<lambda>sem. plain_call (sem_close_kr sem s))
      else if eax = SYS_SEM_GET then
        bind_res (user_sem ebx s) (\<lambda>sem. value_call t (Inr (of_int (sem_get_kr sem s), s)))
      else if eax = SYS_THREAD then plain_call (thread_current ebx ecx edx s)
      else if eax = SYS_JOIN then join_current ebx s
      else if eax = SYS_PID then
        bind_res (deref (current s)) (\<lambda>c. value_call t (Inr (pid (PCBPool s c), s)))
      else if eax = SYS_PPID then
        bind_res (deref (current s)) (\<lambda>c. value_call t (Inr (ppid (PCBPool s c), s)))
      else if eax = SYS_SLEEP then plain_call (do_sleep ebx s)
      else if eax = SYS_HANDOUT then plain_call (do_handout s)
      else if eax = SYS_EXIT then exit_current s
      else if eax = SYS_FORK then plain_call (fork_current s)
      else if eax = SYS_PRINT_CHAR then Inr (Returns (serial_printc ebx s))
      else if eax = SYS_INIT_CACHE then Inr (Returns (s\<lparr>vid := initVCache (vid s)\<rparr>))
      else if eax = SYS_CLEAR_VRAM then Inr (Returns (s\<lparr>vid := clearVRAM (vid s)\<rparr>))
      else if eax = SYS_FLUSH_VCACHE then Inr (Returns (s\<lparr>vid := flushVCache (clearVRAM (vid s))\<rparr>))
      else if eax = SYS_SET_PIXEL then Inr (Returns (s\<lparr>vid := setPixelAt ebx ecx (ucast edx) (vid s)\<rparr>))
      else if eax = SYS_GET_KEY then
        value_call t (bind_res (get_key (ucast ebx) (kb s)) (\<lambda>v. Inr (of_int v, s)))
      else if eax = SYS_GET_TICK then value_call t (Inr (tick s, s))
      else Inr (Returns s))"

section \<open>Interrupts\<close>

text \<open>\<open>code\<close> is the byte that the keyboard controller has at port \<^verbatim>\<open>0x60\<close>.\<close>

definition keyboard_irq :: "u8 \<Rightarrow> u32 \<Rightarrow> kernst \<Rightarrow> kernst ctl res" where
  "keyboard_irq code t s =
     (let s = s\<lparr>kb := press_key (ucast code) (kb s)\<rparr> in
      case ctrl_c (kb s) of
        (pressed, k) \<Rightarrow>
          let s = s\<lparr>kb := k\<rparr> in
          if pressed then
            bind_res (deref (current s)) (\<lambda>c.
            if tt (PCBPool s c) \<noteq> KERNEL then do_syscall t (set_eax t SYS_EXIT s) else Inr (Returns s))
          else Inr (Returns s))"

definition irq_handle :: "u8 \<Rightarrow> u32 \<Rightarrow> kernst \<Rightarrow> kernst ctl res" where
  "irq_handle code t s =
     bind_res (deref (current s)) (\<lambda>c.
     let s = upd_pcb c (\<lambda>p. p\<lparr>tf := t\<rparr>) s in
     then_ctl (if mem s (t + TF_IRQ) = 0x80 then do_syscall t s else Inr (Returns s)) (\<lambda>s.
     then_ctl
       (if mem s (t + TF_IRQ) = 1000 then bind_res (do_timer s) do_scheduler
        else if mem s (t + TF_IRQ) = 1001 then keyboard_irq code t s
        else Inr (Returns s)) (\<lambda>s.
     if mem s (t + TF_IRQ) = 0x80 \<and> mem s (t + TF_EAX) \<noteq> SYS_PRINT_CHAR then do_scheduler s
     else Inr (Returns s))))"

section \<open>System calls as events of the scheduling core\<close>

text \<open>
  The event that a trap frame asks for, if its number is one of the scheduling and semaphore calls and its semaphore
  pointer is mapped, and the value that the call delivers.
\<close>

definition sem_event :: "u32 \<Rightarrow> (u32 \<Rightarrow> kevent) \<Rightarrow> kernst \<Rightarrow> kevent option" where
  "sem_event va E s = (case user_sem va s of Inl _ \<Rightarrow> None | Inr a \<Rightarrow> Some (E a))"

definition syscall_event :: "u32 \<Rightarrow> kernst \<Rightarrow> kevent option" where
  "syscall_event t s =
     (let eax = mem s (t + TF_EAX); ebx = mem s (t + TF_EBX); ecx = mem s (t + TF_ECX) in
      if eax = SYS_HANDOUT then Some Yield
      else if eax = SYS_SLEEP then Some (Sleep ebx)
      else if eax = SYS_EXIT then Some Exit
      else if eax = SYS_JOIN then Some (Join ebx)
      else if eax = SYS_SEM_INIT then sem_event ebx (\<lambda>a. SemInit a ecx) s
      else if eax = SYS_SEM_OPEN then Some (SemOpen ebx ecx)
      else if eax = SYS_SEM_WAIT then sem_event ebx SemWait s
      else if eax = SYS_SEM_TRYWAIT then sem_event ebx SemTrywait s
      else if eax = SYS_SEM_POST then sem_event ebx SemPost s
      else if eax = SYS_SEM_CLOSE then sem_event ebx SemClose s
      else None)"

fun ret_value :: "kevent \<Rightarrow> 'a procst_scheme \<Rightarrow> u32 option" where
  "ret_value (SemOpen i n) s = Some (sems_addr s + 12 * i)"
| "ret_value (SemTrywait a) s = Some (of_int (fst (sem_trywait_kr a s)))"
| "ret_value e s = None"

definition deliver :: "u32 \<Rightarrow> u32 option \<Rightarrow> kernst \<Rightarrow> kernst" where
  "deliver t v s = (case v of None \<Rightarrow> s | Some v \<Rightarrow> set_eax t v s)"

lemma do_syscall_event:
  assumes "syscall_event t s = Some e"
  shows "do_syscall t s = then_ctl (handle e s) (\<lambda>s'. Inr (Returns (deliver t (ret_value e s) s')))"
    and "mem s (t + TF_EAX) \<noteq> SYS_PRINT_CHAR"
proof -
  have id: "then_ctl r (\<lambda>s'. Inr (Returns s')) = r" for r :: "kernst ctl res"
    by (cases r) (auto simp: then_ctl_def split: ctl.splits)
  show "do_syscall t s = then_ctl (handle e s) (\<lambda>s'. Inr (Returns (deliver t (ret_value e s) s')))"
    using assms unfolding syscall_event_def Let_def sem_event_def
    by (auto simp: do_syscall_def SYS_defs deliver_def id plain_call_def value_call_def sem_open_kr_def Let_def
        split: if_splits sum.split_asm prod.splits)
  show "mem s (t + TF_EAX) \<noteq> SYS_PRINT_CHAR"
    using assms by (auto simp: syscall_event_def Let_def SYS_defs split: if_splits)
qed

lemma frame_words [simp]: "TF_IRQ \<noteq> TF_EAX" "TF_EAX \<noteq> TF_IRQ"
  by (simp_all add: TF_IRQ_def TF_EAX_def)

lemma mem_set_eax: "mem (set_eax t v s) = (mem s)(t + TF_EAX := v)"
  by (simp add: set_eax_def store_def)

lemma upd_tf [simp]:
  "mem (upd_pcb c f s) = mem s" "cr3 (upd_pcb c f s) = cr3 s" "sems (upd_pcb c f s) = sems s"
  "sems_addr (upd_pcb c f s) = sems_addr s" "current (upd_pcb c f s) = current s"
  by (simp_all add: upd_pcb_def)

lemma syscall_event_tf [simp]: "syscall_event t (upd_pcb c f s) = syscall_event t s"
  by (simp add: syscall_event_def sem_event_def user_sem_def Let_def)

lemma ret_value_tf [simp]: "ret_value e (upd_pcb c f s) = ret_value e s"
  by (cases e) (simp_all add: sem_trywait_kr_def)

lemma admissible_tf [simp]: "admissible idle e (upd_pcb c f s) = admissible idle e s"
  by (cases e) simp_all

lemma irq_runs_event:
  assumes "current s = Some c" "mem s (t + TF_IRQ) = 0x80" "syscall_event t s = Some e"
    and "ret_value e s \<noteq> Some SYS_PRINT_CHAR"
  shows "irq_handle code t s =
    then_ctl (handle e (upd_pcb c (\<lambda>p. p\<lparr>tf := t\<rparr>) s)) (\<lambda>s'. do_scheduler (deliver t (ret_value e s) s'))"
proof -
  let ?s = "upd_pcb c (\<lambda>p. p\<lparr>tf := t\<rparr>) s"
  have e: "syscall_event t ?s = Some e" using assms(3) by simp
  note d = do_syscall_event [OF e]
  have after: "mem (deliver t (ret_value e s) s') (t + TF_IRQ) = 0x80"
    "mem (deliver t (ret_value e s) s') (t + TF_EAX) \<noteq> SYS_PRINT_CHAR" if "mem s' = mem s" for s'
    using that assms(2,4) d(2) by (auto simp: deliver_def mem_set_eax split: option.split)
  show ?thesis
  proof (cases "handle e ?s")
    case (Inl f)
    then show ?thesis using assms(1,2) d(1) by (simp add: irq_handle_def Let_def)
  next
    case (Inr ct)
    then have m: "mem (ctl_state ct) = mem s" using sched_frame_eqD [OF handle_frame [OF Inr]] by simp
    show ?thesis
      using assms(1,2) d(1) Inr after m by (cases ct) (simp_all add: irq_handle_def Let_def)
  qed
qed

text \<open>
  C3. The real entry point refines the machine of scheduling events: an interrupt \<^verbatim>\<open>0x80\<close> with the number of a scheduling or
  semaphore call runs the handler of the corresponding event, delivers its value in \<^verbatim>\<open>%eax\<close> and then calls the
  scheduler, unless the value delivered happens to be the number of \<^verbatim>\<open>SYS_PRINT_CHAR\<close>.
\<close>

theorem irq_handle_runs_event:
  assumes "current s = Some c" "mem s (t + TF_IRQ) = 0x80" "syscall_event t s = Some e"
    and "ret_value e s \<noteq> Some SYS_PRINT_CHAR"
  shows "irq_handle code t s =
    then_ctl (handle e (upd_pcb c (\<lambda>p. p\<lparr>tf := t\<rparr>) s)) (\<lambda>s'. do_scheduler (deliver t (ret_value e s) s'))"
  using assms by (rule irq_runs_event)

lemma kernel_ok_cong:
  assumes "PCBPool s' = PCBPool s" "current s' = current s" "ready_list s' = ready_list s"
    "sleep_list s' = sleep_list s" "sems s' = sems s"
  shows "kernel_ok idle L s' = kernel_ok idle L s"
proof -
  have "get_head h s' = get_head h s" for h using assms by (cases h) simp_all
  moreover have "nexts s' = nexts s" using assms(1) by (simp add: nexts_def fun_eq_iff)
  ultimately have "lists_ok L s' = lists_ok L s" by (intro lists_ok_cong)
  then show ?thesis using assms by (simp add: kernel_ok_def sem_ok_def)
qed

lemma kernel_ok_deliver [simp]: "kernel_ok idle L (deliver t v s) = kernel_ok idle L s"
  by (rule kernel_ok_cong) (simp_all add: deliver_def set_eax_def store_def split: option.split)

lemma kernel_ok_kb [simp]: "kernel_ok idle L (s\<lparr>kb := k\<rparr>) = kernel_ok idle L s"
  by (rule kernel_ok_cong) simp_all

lemma kernel_ok_tf:
  assumes "kernel_ok idle L s"
  shows "kernel_ok idle L (upd_pcb c (\<lambda>p. p\<lparr>tf := t\<rparr>) s)"
  using assms by (auto simp: kernel_ok_def sem_ok_def)

text \<open>The test behind the handlers does not fire when the interrupt was not a system call.\<close>

lemma no_resched:
  assumes "\<And>ct. r = Inr ct \<Longrightarrow> mem (ctl_state ct) (t + TF_IRQ) \<noteq> 0x80"
  shows "then_ctl r (\<lambda>s'. if mem s' (t + TF_IRQ) = 0x80 \<and> mem s' (t + TF_EAX) \<noteq> SYS_PRINT_CHAR
    then do_scheduler s' else Inr (Returns s')) = r"
  using assms by (cases r) (auto simp: then_ctl_def split: ctl.split)

lemma irq_timer:
  assumes "current s = Some c" "mem s (t + TF_IRQ) = 1000"
  shows "irq_handle code t s = interrupt Tick (upd_pcb c (\<lambda>p. p\<lparr>tf := t\<rparr>) s)"
proof (cases "do_timer (upd_pcb c (\<lambda>p. p\<lparr>tf := t\<rparr>) s)")
  case (Inr s1)
  then have "mem s1 = mem s" using sched_frame_eqD [OF do_timer_frame [OF Inr]] by simp
  then have "mem (ctl_state ct) (t + TF_IRQ) \<noteq> 0x80" if "do_scheduler s1 = Inr ct" for ct
    using sched_frame_eqD [OF do_scheduler_frame [OF that]] assms(2) by simp
  with Inr assms show ?thesis by (simp add: irq_handle_def interrupt_def Let_def no_resched)
qed (use assms in \<open>simp add: irq_handle_def interrupt_def Let_def\<close>)

lemma irq_other:
  assumes "current s = Some c" "mem s (t + TF_IRQ) \<notin> {0x80, 1000, 1001}"
  shows "irq_handle code t s = Inr (Returns (upd_pcb c (\<lambda>p. p\<lparr>tf := t\<rparr>) s))"
  using assms by (simp add: irq_handle_def Let_def)

text \<open>A key that does not complete Ctrl-C only updates the keyboard state; Ctrl-C ends a process that is not a kernel task.\<close>

lemma irq_key:
  assumes "current s = Some c" "mem s (t + TF_IRQ) = 1001"
    and k: "ctrl_c (press_key (ucast code) (kb s)) = (pressed, k)"
    and s0: "s0 = (upd_pcb c (\<lambda>p. p\<lparr>tf := t\<rparr>) s)\<lparr>kb := k\<rparr>"
  shows "irq_handle code t s =
    (if pressed \<and> tt (PCBPool s c) \<noteq> KERNEL then exit_current (set_eax t SYS_EXIT s0) else Inr (Returns s0))"
proof -
  let ?e = "exit_current (set_eax t SYS_EXIT s0)"
  have d: "do_syscall t (set_eax t SYS_EXIT s') = exit_current (set_eax t SYS_EXIT s')" for s'
    by (simp add: do_syscall_def mem_set_eax SYS_defs)
  have after: "mem (ctl_state ct) (t + TF_IRQ) \<noteq> 0x80" if "?e = Inr ct" for ct
    using sched_frame_eqD [OF exit_current_frame [OF that]] assms(2) by (simp add: mem_set_eax s0)
  have tt: "tt (PCBPool (upd_pcb c (\<lambda>p. p\<lparr>tf := t\<rparr>) s) c) = tt (PCBPool s c)" by (simp add: upd_pcb_def)
  have m: "mem s0 = mem s" "current s0 = Some c" "tt (PCBPool s0 c) = tt (PCBPool s c)"
    using assms(1) tt by (simp_all add: s0)
  have key: "keyboard_irq code t (upd_pcb c (\<lambda>p. p\<lparr>tf := t\<rparr>) s) =
      (if pressed \<and> tt (PCBPool s c) \<noteq> KERNEL then ?e else Inr (Returns s0))"
    using k assms(1) tt by (simp add: keyboard_irq_def Let_def d s0 upd_pcb_def)
  show ?thesis
    using assms(1,2) key m no_resched [OF after] by (simp add: irq_handle_def Let_def)
qed

text \<open>
  A state of the whole kernel with a trap frame at \<open>0xC0401000\<close>: the sample processes, of which the
  idle one is a kernel task.
\<close>

definition trap_frame :: u32 where "trap_frame = 0xC0401000"

definition trap_sample :: "u32 \<Rightarrow> u32 \<Rightarrow> u32 \<Rightarrow> kernst" where
  "trap_sample irq eax ebx = upd_pcb 0 (\<lambda>p. p\<lparr>tt := KERNEL\<rparr>)
     (fsst.extend (fs_sample zero_disk\<lparr>mem := (\<lambda>_. 0)(trap_frame + TF_IRQ := irq,
        trap_frame + TF_EAX := eax, trap_frame + TF_EBX := ebx)\<rparr>)
      \<lparr>kb = kbd_init, vid = blank_video, kbinput = [], entry = 0\<rparr>)"

lemma trap_sample_simps [simp]:
  "mem (trap_sample irq eax ebx) (trap_frame + TF_IRQ) = irq" "mem (trap_sample irq eax ebx) (trap_frame + TF_EAX) = eax"
  "mem (trap_sample irq eax ebx) (trap_frame + TF_EBX) = ebx" "current (trap_sample irq eax ebx) = Some 1"
  "PCBPool (trap_sample irq eax ebx) = (PCBPool sample)(0 := (PCBPool sample 0)\<lparr>tt := KERNEL\<rparr>)"
  "kb (trap_sample irq eax ebx) = kbd_init"
  by (simp_all add: trap_sample_def upd_pcb_def fs_sample_def fsst.defs procst.defs TF_IRQ_def TF_EAX_def TF_EBX_def sample_def)

lemma trap_sample_ok: "kernel_ok 0 sample_queues (trap_sample irq eax ebx)"
proof -
  have "kernel_ok 0 sample_queues (upd_pcb 0 (\<lambda>p. p\<lparr>tt := KERNEL\<rparr>) sample)"
    by (rule kernel_ok_upd_pcb [OF sample_kernel_ok]) (simp_all add: sample_def blank_pcb_def)
  then show ?thesis
    by (subst kernel_ok_cong [of _ "upd_pcb 0 (\<lambda>p. p\<lparr>tt := KERNEL\<rparr>) sample"])
      (simp_all add: trap_sample_def upd_pcb_def fs_sample_def fsst.defs procst.defs)
qed

theorem irq_handle_runs_event_witness:
  "irq_handle 0 trap_frame (trap_sample 0x80 SYS_HANDOUT 0) =
     then_ctl (handle Yield (upd_pcb 1 (\<lambda>p. p\<lparr>tf := trap_frame\<rparr>) (trap_sample 0x80 SYS_HANDOUT 0))) do_scheduler"
proof -
  have e: "syscall_event trap_frame (trap_sample 0x80 SYS_HANDOUT 0) = Some Yield"
    by (simp add: syscall_event_def)
  have r: "ret_value Yield (trap_sample 0x80 SYS_HANDOUT 0) \<noteq> Some SYS_PRINT_CHAR" by simp
  show ?thesis
    using irq_handle_runs_event [OF trap_sample_simps(4,1) e r, of 0] by (simp add: deliver_def)
qed

text \<open>
  C2. Safety of the interrupt entry: in a state that satisfies the invariant of the scheduling core, where the idle process is a
  kernel task, every timer and keyboard interrupt, every unexpected interrupt and every admissible scheduling or semaphore
  call is handled without a fault, and the invariant holds again afterwards.  Ctrl-C never ends the idle process.
\<close>

theorem irq_handle_safe:
  assumes "kernel_ok idle L s" "tt (PCBPool s idle) = KERNEL"
    and "mem s (t + TF_IRQ) = 0x80 \<longrightarrow>
      (\<exists>e. syscall_event t s = Some e \<and> admissible idle e s \<and> ret_value e s \<noteq> Some SYS_PRINT_CHAR)"
  shows "\<exists>ct L'. irq_handle code t s = Inr ct \<and> kernel_ok idle L' (ctl_state ct)"
proof -
  obtain c where c: "current s = Some c" using assms(1) by (auto simp: kernel_ok_def)
  let ?s = "upd_pcb c (\<lambda>p. p\<lparr>tf := t\<rparr>) s"
  have ok: "kernel_ok idle L ?s" by (rule kernel_ok_tf [OF assms(1)])
  consider (sys) "mem s (t + TF_IRQ) = 0x80" | (timer) "mem s (t + TF_IRQ) = 1000" | (key) "mem s (t + TF_IRQ) = 1001"
    | (other) "mem s (t + TF_IRQ) \<notin> {0x80, 1000, 1001}" by auto
  then show ?thesis
  proof cases
    case sys
    then obtain e where e: "syscall_event t s = Some e" "admissible idle e s" "ret_value e s \<noteq> Some SYS_PRINT_CHAR"
      using assms(3) by blast
    obtain ct L' where ct: "handle e ?s = Inr ct" "kernel_ok idle L' (ctl_state ct)"
      using handle_keeps_ok [OF ok, of e] e(2) by auto
    have "irq_handle code t s = then_ctl (Inr ct) (\<lambda>s'. do_scheduler (deliver t (ret_value e s) s'))"
      unfolding ct(1) [symmetric] by (rule irq_runs_event [OF c sys e(1,3)])
    with ct(2) show ?thesis
      using do_scheduler_keeps_ok [of idle L' "deliver t (ret_value e s) (ctl_state ct)"] by (cases ct) auto
  next
    case timer
    then show ?thesis unfolding irq_timer [OF c timer] by (intro interrupt_keeps_ok [OF ok]) simp
  next
    case key
    obtain pressed k where k: "ctrl_c (press_key (ucast code) (kb s)) = (pressed, k)" by fastforce
    note irq = irq_key [OF c key k refl]
    show ?thesis
    proof (cases "pressed \<and> tt (PCBPool s c) \<noteq> KERNEL")
      case True
      let ?e = "set_eax t SYS_EXIT (?s\<lparr>kb := k\<rparr>)"
      have "kernel_ok idle L ?e" using ok kernel_ok_deliver [of idle L t "Some SYS_EXIT" "?s\<lparr>kb := k\<rparr>"]
        by (simp add: deliver_def)
      moreover have "current ?e \<noteq> Some idle" using True assms(2) c by (auto simp: set_eax_def store_def)
      ultimately have "\<exists>s' L'. exit_current ?e = Inr (Switched s') \<and> kernel_ok idle L' s'"
        by (rule exit_keeps_ok)
      with True irq show ?thesis by auto
    next
      case False
      with irq ok show ?thesis by auto
    qed
  next
    case other
    with ok show ?thesis by (auto simp: irq_other [OF c other])
  qed
qed

theorem irq_handle_safe_witness:
  "\<exists>ct L'. irq_handle 0 trap_frame (trap_sample 0x80 SYS_HANDOUT 0) = Inr ct \<and> kernel_ok 0 L' (ctl_state ct)"
proof (rule irq_handle_safe [OF trap_sample_ok])
  show "tt (PCBPool (trap_sample 0x80 SYS_HANDOUT 0) 0) = KERNEL" by simp
  show "mem (trap_sample 0x80 SYS_HANDOUT 0) (trap_frame + TF_IRQ) = 0x80 \<longrightarrow>
    (\<exists>e. syscall_event trap_frame (trap_sample 0x80 SYS_HANDOUT 0) = Some e \<and>
      admissible 0 e (trap_sample 0x80 SYS_HANDOUT 0) \<and>
      ret_value e (trap_sample 0x80 SYS_HANDOUT 0) \<noteq> Some SYS_PRINT_CHAR)"
    by (auto simp: syscall_event_def)
qed

text \<open>
  C39. Ctrl-C: the keyboard interrupt that completes the combination ends the running process, exactly as if it had made the
  system call \<^verbatim>\<open>SYS_EXIT\<close>, unless it is a kernel task; the combination is consumed, and every
  other key only updates the keyboard state.
\<close>

theorem ctrl_c_ends_process:
  assumes "current s = Some c" "mem s (t + TF_IRQ) = 1001"
  shows "irq_handle code t s =
    (let k = press_key (ucast code) (kb s);
         pressed = (ctrl k \<noteq> 0 \<and> keydown k 2 \<noteq> 0);
         k' = (if pressed then k\<lparr>ctrl := 0, keydown := (keydown k)(2 := 0)\<rparr> else k);
         s' = (upd_pcb c (\<lambda>p. p\<lparr>tf := t\<rparr>) s)\<lparr>kb := k'\<rparr>
     in if pressed \<and> tt (PCBPool s c) \<noteq> KERNEL then exit_current (set_eax t SYS_EXIT s') else Inr (Returns s'))"
  by (subst irq_key [OF assms _ refl]) (auto simp: ctrl_c_def Let_def)

theorem ctrl_c_ends_process_witness:
  "\<exists>s'. irq_handle 0x2E trap_frame ((trap_sample 1001 0 0)\<lparr>kb := kbd_init\<lparr>ctrl := 1\<rparr>\<rparr>) = exit_current s' \<and>
     current s' = Some 1 \<and> mem s' (trap_frame + TF_EAX) = SYS_EXIT"
proof -
  let ?s = "(trap_sample 1001 0 0)\<lparr>kb := kbd_init\<lparr>ctrl := 1\<rparr>\<rparr>"
  have "find_letter 26 0 0x2E = Some 2" by code_simp
  then have k: "ctrl (press_key 0x2E (kbd_init\<lparr>ctrl := 1\<rparr>)) = 1" "keydown (press_key 0x2E (kbd_init\<lparr>ctrl := 1\<rparr>)) 2 = 1"
    by (simp_all add: press_key_def)
  have c: "current ?s = Some 1" "mem ?s (trap_frame + TF_IRQ) = 1001" by simp_all
  have tt: "tt (PCBPool ?s 1) = USER" by (simp add: sample_def blank_pcb_def)
  show ?thesis
    using ctrl_c_ends_process [OF c, of "0x2E"] k tt
    by (auto simp: Let_def mem_set_eax set_eax_def store_def)
qed

end
