(* ===== verification/Syscall_Lib.thy ===== *)
theory Syscall_Lib
  imports Syscall
begin

text \<open>
  The library of user programs, \<^verbatim>\<open>src/lib/syscall.h\<close>: each wrapper loads the number of the call and its arguments
  into registers and executes \<^verbatim>\<open>int $0x80\<close>.  A wrapper is modelled by what it does to the registers.  The theorem says that
  the two sides of the interface agree.
\<close>

section \<open>Wrappers\<close>

record regs =
  r_eax :: u32
  r_ebx :: u32
  r_ecx :: u32
  r_edx :: u32

definition sys_exec :: "u32 \<Rightarrow> regs \<Rightarrow> regs" where
  "sys_exec fname r = r\<lparr>r_eax := SYS_EXEC, r_ebx := fname\<rparr>"

definition sys_readline :: "u32 \<Rightarrow> regs \<Rightarrow> regs" where
  "sys_readline dest r = r\<lparr>r_eax := SYS_READLINE, r_ebx := dest\<rparr>"

definition sys_fs_ls :: "u32 \<Rightarrow> regs \<Rightarrow> regs" where
  "sys_fs_ls msk r = r\<lparr>r_eax := SYS_FS_LS, r_ebx := msk\<rparr>"

definition sys_fs_open :: "u32 \<Rightarrow> u32 \<Rightarrow> regs \<Rightarrow> regs" where
  "sys_fs_open pathname flags r = r\<lparr>r_eax := SYS_FS_OPEN, r_ebx := pathname, r_ecx := flags\<rparr>"

definition sys_fs_read :: "u32 \<Rightarrow> u32 \<Rightarrow> u32 \<Rightarrow> regs \<Rightarrow> regs" where
  "sys_fs_read fd bf len r = r\<lparr>r_eax := SYS_FS_READ, r_ebx := fd, r_ecx := bf, r_edx := len\<rparr>"

definition sys_fs_write :: "u32 \<Rightarrow> u32 \<Rightarrow> u32 \<Rightarrow> regs \<Rightarrow> regs" where
  "sys_fs_write fd bf len r = r\<lparr>r_eax := SYS_FS_WRITE, r_ebx := fd, r_ecx := bf, r_edx := len\<rparr>"

definition sys_fs_lseek :: "u32 \<Rightarrow> u32 \<Rightarrow> u32 \<Rightarrow> regs \<Rightarrow> regs" where
  "sys_fs_lseek fd off whence r = r\<lparr>r_eax := SYS_FS_LSEEK, r_ebx := fd, r_ecx := off, r_edx := whence\<rparr>"

definition sys_fs_close :: "u32 \<Rightarrow> regs \<Rightarrow> regs" where
  "sys_fs_close fd r = r\<lparr>r_eax := SYS_FS_CLOSE, r_ebx := fd\<rparr>"

definition sys_sem_init :: "u32 \<Rightarrow> u32 \<Rightarrow> regs \<Rightarrow> regs" where
  "sys_sem_init sem cnt r = r\<lparr>r_eax := SYS_SEM_INIT, r_ebx := sem, r_ecx := cnt\<rparr>"

definition sys_sem_open :: "u32 \<Rightarrow> u32 \<Rightarrow> regs \<Rightarrow> regs" where
  "sys_sem_open idx cnt r = r\<lparr>r_eax := SYS_SEM_OPEN, r_ebx := idx, r_ecx := cnt\<rparr>"

definition sys_sem_post :: "u32 \<Rightarrow> regs \<Rightarrow> regs" where
  "sys_sem_post sem r = r\<lparr>r_eax := SYS_SEM_POST, r_ebx := sem\<rparr>"

definition sys_sem_wait :: "u32 \<Rightarrow> regs \<Rightarrow> regs" where
  "sys_sem_wait sem r = r\<lparr>r_eax := SYS_SEM_WAIT, r_ebx := sem\<rparr>"

definition sys_sem_trywait :: "u32 \<Rightarrow> regs \<Rightarrow> regs" where
  "sys_sem_trywait sem r = r\<lparr>r_eax := SYS_SEM_TRYWAIT, r_ebx := sem\<rparr>"

definition sys_sem_close :: "u32 \<Rightarrow> regs \<Rightarrow> regs" where
  "sys_sem_close sem r = r\<lparr>r_eax := SYS_SEM_CLOSE, r_ebx := sem\<rparr>"

definition sys_sem_get :: "u32 \<Rightarrow> regs \<Rightarrow> regs" where
  "sys_sem_get sem r = r\<lparr>r_eax := SYS_SEM_GET, r_ebx := sem\<rparr>"

definition sys_handout :: "regs \<Rightarrow> regs" where
  "sys_handout r = r\<lparr>r_eax := SYS_HANDOUT\<rparr>"

definition sys_fork :: "regs \<Rightarrow> regs" where
  "sys_fork r = r\<lparr>r_eax := SYS_FORK\<rparr>"

definition sys_pid :: "regs \<Rightarrow> regs" where
  "sys_pid r = r\<lparr>r_eax := SYS_PID\<rparr>"

definition sys_ppid :: "regs \<Rightarrow> regs" where
  "sys_ppid r = r\<lparr>r_eax := SYS_PPID\<rparr>"

definition sys_sleep :: "u32 \<Rightarrow> regs \<Rightarrow> regs" where
  "sys_sleep cnt r = r\<lparr>r_eax := SYS_SLEEP, r_ebx := cnt\<rparr>"

definition sys_join :: "u32 \<Rightarrow> regs \<Rightarrow> regs" where
  "sys_join k r = r\<lparr>r_eax := SYS_JOIN, r_ebx := k\<rparr>"

definition sys_init_vcache :: "regs \<Rightarrow> regs" where
  "sys_init_vcache r = r\<lparr>r_eax := SYS_INIT_CACHE\<rparr>"

definition sys_clear_vram :: "regs \<Rightarrow> regs" where
  "sys_clear_vram r = r\<lparr>r_eax := SYS_CLEAR_VRAM\<rparr>"

definition sys_flush_vcache :: "regs \<Rightarrow> regs" where
  "sys_flush_vcache r = r\<lparr>r_eax := SYS_FLUSH_VCACHE\<rparr>"

definition sys_set_pixel :: "u32 \<Rightarrow> u32 \<Rightarrow> u32 \<Rightarrow> regs \<Rightarrow> regs" where
  "sys_set_pixel x y color r = r\<lparr>r_eax := SYS_SET_PIXEL, r_ebx := x, r_ecx := y, r_edx := color\<rparr>"

definition sys_get_tick :: "regs \<Rightarrow> regs" where
  "sys_get_tick r = r\<lparr>r_eax := SYS_GET_TICK\<rparr>"

text \<open>A \<^verbatim>\<open>char\<close> operand fills the low byte of its register only; \<open>sys_exit_addr\<close> is the address of \<^verbatim>\<open>sys_exit\<close>.\<close>

definition low_byte :: "u32 \<Rightarrow> u8 \<Rightarrow> u32" where
  "low_byte w b = (w AND NOT 0xFF) OR ucast b"

definition sys_printch :: "u8 \<Rightarrow> regs \<Rightarrow> regs" where
  "sys_printch c r = r\<lparr>r_eax := SYS_PRINT_CHAR, r_ebx := low_byte (r_ebx r) c\<rparr>"

definition sys_key_down :: "u8 \<Rightarrow> regs \<Rightarrow> regs" where
  "sys_key_down c r = r\<lparr>r_eax := SYS_GET_KEY, r_ebx := low_byte (r_ebx r) c\<rparr>"

definition sys_add_timer :: "u32 \<Rightarrow> regs \<Rightarrow> regs" where
  "sys_add_timer ptr r = r\<lparr>r_eax := SYS_ADD_TIMER, r_ebx := ptr\<rparr>"

definition sys_thread :: "u32 \<Rightarrow> u32 \<Rightarrow> u32 \<Rightarrow> regs \<Rightarrow> regs" where
  "sys_thread sys_exit_addr ent arg r = r\<lparr>r_eax := SYS_THREAD, r_ebx := ent, r_ecx := sys_exit_addr, r_edx := arg\<rparr>"

text \<open>\<^verbatim>\<open>sys_exit\<close> traps twice: it gives up the processor first.\<close>

definition sys_exit :: "regs \<Rightarrow> regs list" where
  "sys_exit r = [r\<lparr>r_eax := SYS_HANDOUT\<rparr>, r\<lparr>r_eax := SYS_EXIT\<rparr>]"

section \<open>The interface\<close>

text \<open>\<open>carries t r s\<close>: the trap frame at \<open>t\<close> holds the registers \<open>r\<close>.\<close>

definition carries :: "u32 \<Rightarrow> regs \<Rightarrow> kernst \<Rightarrow> bool" where
  "carries t r s \<longleftrightarrow> mem s (t + TF_EAX) = r_eax r \<and> mem s (t + TF_EBX) = r_ebx r \<and>
     mem s (t + TF_ECX) = r_ecx r \<and> mem s (t + TF_EDX) = r_edx r"

text \<open>
  The calls a program can make, the register contents of the traps that the library makes of them, and the kernel operation
  that each of these traps stands for.  Every wrapper of the library is here except \<^verbatim>\<open>sys_add_timer\<close>, for whose number the kernel has no branch.
\<close>

datatype ucall =
    U_exec u32
  | U_readline u32
  | U_fs_ls u32
  | U_fs_open u32 u32
  | U_fs_read u32 u32 u32
  | U_fs_write u32 u32 u32
  | U_fs_lseek u32 u32 u32
  | U_fs_close u32
  | U_sem_init u32 u32
  | U_sem_open u32 u32
  | U_sem_post u32
  | U_sem_wait u32
  | U_sem_trywait u32
  | U_sem_close u32
  | U_sem_get u32
  | U_handout
  | U_fork
  | U_pid
  | U_ppid
  | U_sleep u32
  | U_join u32
  | U_init_vcache
  | U_clear_vram
  | U_flush_vcache
  | U_set_pixel u32 u32 u32
  | U_get_tick
  | U_printch u8
  | U_key_down u8
  | U_thread u32 u32 u32
  | U_exit

primrec lib_traps :: "ucall \<Rightarrow> regs \<Rightarrow> regs list" where
  "lib_traps (U_exec fname) r = [sys_exec fname r]"
| "lib_traps (U_readline dest) r = [sys_readline dest r]"
| "lib_traps (U_fs_ls msk) r = [sys_fs_ls msk r]"
| "lib_traps (U_fs_open pathname flags) r = [sys_fs_open pathname flags r]"
| "lib_traps (U_fs_read fd bf len) r = [sys_fs_read fd bf len r]"
| "lib_traps (U_fs_write fd bf len) r = [sys_fs_write fd bf len r]"
| "lib_traps (U_fs_lseek fd off whence) r = [sys_fs_lseek fd off whence r]"
| "lib_traps (U_fs_close fd) r = [sys_fs_close fd r]"
| "lib_traps (U_sem_init sem cnt) r = [sys_sem_init sem cnt r]"
| "lib_traps (U_sem_open idx cnt) r = [sys_sem_open idx cnt r]"
| "lib_traps (U_sem_post sem) r = [sys_sem_post sem r]"
| "lib_traps (U_sem_wait sem) r = [sys_sem_wait sem r]"
| "lib_traps (U_sem_trywait sem) r = [sys_sem_trywait sem r]"
| "lib_traps (U_sem_close sem) r = [sys_sem_close sem r]"
| "lib_traps (U_sem_get sem) r = [sys_sem_get sem r]"
| "lib_traps U_handout r = [sys_handout r]"
| "lib_traps U_fork r = [sys_fork r]"
| "lib_traps U_pid r = [sys_pid r]"
| "lib_traps U_ppid r = [sys_ppid r]"
| "lib_traps (U_sleep cnt) r = [sys_sleep cnt r]"
| "lib_traps (U_join k) r = [sys_join k r]"
| "lib_traps U_init_vcache r = [sys_init_vcache r]"
| "lib_traps U_clear_vram r = [sys_clear_vram r]"
| "lib_traps U_flush_vcache r = [sys_flush_vcache r]"
| "lib_traps (U_set_pixel x y color) r = [sys_set_pixel x y color r]"
| "lib_traps U_get_tick r = [sys_get_tick r]"
| "lib_traps (U_printch c) r = [sys_printch c r]"
| "lib_traps (U_key_down c) r = [sys_key_down c r]"
| "lib_traps (U_thread ex ent arg) r = [sys_thread ex ent arg r]"
| "lib_traps U_exit r = sys_exit r"

primrec kernel_does :: "ucall \<Rightarrow> (u32 \<Rightarrow> kernst \<Rightarrow> kernst ctl res) list" where
  "kernel_does (U_exec fname) = [\<lambda>t s. exec_current fname s]"
| "kernel_does (U_readline dest) = [\<lambda>t s. plain_call (do_readline dest s)]"
| "kernel_does (U_fs_ls msk) = [\<lambda>t s. plain_call (fs_ls_kr msk s)]"
| "kernel_does (U_fs_open pathname flags) = [\<lambda>t s. value_call t (do_fs_open pathname flags s)]"
| "kernel_does (U_fs_read fd bf len) = [\<lambda>t s. value_call t (do_fs_read fd bf len s)]"
| "kernel_does (U_fs_write fd bf len) = [\<lambda>t s. value_call t (do_fs_write fd bf len s)]"
| "kernel_does (U_fs_lseek fd off whence) = [\<lambda>t s. value_call t (fs_lseek_port fd off whence s)]"
| "kernel_does (U_fs_close fd) = [\<lambda>t s. value_call t (fs_close_port fd s)]"
| "kernel_does (U_sem_init sem cnt) = [\<lambda>t s. bind_res (user_sem sem s) (\<lambda>a. Inr (Returns (sem_init_kr a cnt s)))]"
| "kernel_does (U_sem_open idx cnt) = [\<lambda>t s. value_call t (sem_open_kr idx cnt s)]"
| "kernel_does (U_sem_post sem) = [\<lambda>t s. bind_res (user_sem sem s) (\<lambda>a. plain_call (sem_post_kr a s))]"
| "kernel_does (U_sem_wait sem) = [\<lambda>t s. bind_res (user_sem sem s) (\<lambda>a. sem_wait_kr a s)]"
| "kernel_does (U_sem_trywait sem) = [\<lambda>t s. bind_res (user_sem sem s) (\<lambda>a. value_call t (Inr (of_int (fst (sem_trywait_kr a s)), snd (sem_trywait_kr a s))))]"
| "kernel_does (U_sem_close sem) = [\<lambda>t s. bind_res (user_sem sem s) (\<lambda>a. plain_call (sem_close_kr a s))]"
| "kernel_does (U_sem_get sem) = [\<lambda>t s. bind_res (user_sem sem s) (\<lambda>a. value_call t (Inr (of_int (sem_get_kr a s), s)))]"
| "kernel_does U_handout = [\<lambda>t s. plain_call (do_handout s)]"
| "kernel_does U_fork = [\<lambda>t s. plain_call (fork_current s)]"
| "kernel_does U_pid = [\<lambda>t s. bind_res (deref (current s)) (\<lambda>c. value_call t (Inr (pid (PCBPool s c), s)))]"
| "kernel_does U_ppid = [\<lambda>t s. bind_res (deref (current s)) (\<lambda>c. value_call t (Inr (ppid (PCBPool s c), s)))]"
| "kernel_does (U_sleep cnt) = [\<lambda>t s. plain_call (do_sleep cnt s)]"
| "kernel_does (U_join k) = [\<lambda>t s. join_current k s]"
| "kernel_does U_init_vcache = [\<lambda>t s. Inr (Returns (s\<lparr>vid := initVCache (vid s)\<rparr>))]"
| "kernel_does U_clear_vram = [\<lambda>t s. Inr (Returns (s\<lparr>vid := clearVRAM (vid s)\<rparr>))]"
| "kernel_does U_flush_vcache = [\<lambda>t s. Inr (Returns (s\<lparr>vid := flush_frame (vid s)\<rparr>))]"
| "kernel_does (U_set_pixel x y color) = [\<lambda>t s. Inr (Returns (s\<lparr>vid := setPixelAt x y (ucast color) (vid s)\<rparr>))]"
| "kernel_does U_get_tick = [\<lambda>t s. value_call t (Inr (tick s, s))]"
| "kernel_does (U_printch c) = [\<lambda>t s. Inr (Returns (printk_str (to_string [c]) s))]"
| "kernel_does (U_key_down c) = [\<lambda>t s. value_call t (bind_res (get_key c (kb s)) (\<lambda>v. Inr (of_int v, s)))]"
| "kernel_does (U_thread ex ent arg) = [\<lambda>t s. plain_call (thread_current ent ex arg s)]"
| "kernel_does U_exit = [\<lambda>t s. plain_call (do_handout s), \<lambda>t s. exit_current s]"

lemma low_byte [simp]: "ucast (low_byte w b) = b"
proof (rule bit_word_eqI)
  fix n assume n: "n < LENGTH(8)"
  have FF: "(0xFF :: u32) = mask 8" by (simp add: mask_eq_exp_minus_1)
  show "bit (ucast (low_byte w b) :: u8) n = bit b n"
    unfolding low_byte_def FF using n by (auto simp: bit_simps)
qed

lemmas wrapper_defs = sys_exec_def sys_readline_def sys_fs_ls_def sys_fs_open_def sys_fs_read_def
  sys_fs_write_def sys_fs_lseek_def sys_fs_close_def sys_sem_init_def sys_sem_open_def
  sys_sem_post_def sys_sem_wait_def sys_sem_trywait_def sys_sem_close_def sys_sem_get_def
  sys_handout_def sys_fork_def sys_pid_def sys_ppid_def sys_sleep_def
  sys_join_def sys_init_vcache_def sys_clear_vram_def sys_flush_vcache_def sys_set_pixel_def
  sys_get_tick_def
  sys_printch_def sys_key_down_def sys_add_timer_def sys_thread_def sys_exit_def

text \<open>
  C29. Library and kernel agree: for every wrapper of the library other than \<^verbatim>\<open>sys_add_timer\<close>, each trap that the wrapper makes (two for
  \<^verbatim>\<open>sys_exit\<close>, which gives up the processor first, and one for all others) makes \<^verbatim>\<open>do_syscall\<close> perform the operation that the wrapper is
  named after, on the arguments of the wrapper in their order.  The kernel has no branch for the number of \<^verbatim>\<open>sys_add_timer\<close>: its trap
  leaves the state as it is.
\<close>

theorem library_matches_kernel:
  "list_all2 (\<lambda>regs operation. \<forall>t s. carries t regs s \<longrightarrow> do_syscall t s = operation t s) (lib_traps call r) (kernel_does call) \<and>
   (\<forall>t s. carries t (sys_add_timer ptr r) s \<longrightarrow> do_syscall t s = Inr (Returns s))"
  by (cases call)
    (simp_all add: carries_def wrapper_defs do_syscall_def Let_def SYS_defs serial_printc_def flush_frame_def case_prod_beta)

theorem library_matches_kernel_witness:
  "do_syscall trap_frame (trap_sample 0x80 SYS_JOIN 3) = join_current 3 (trap_sample 0x80 SYS_JOIN 3) \<and>
   do_syscall trap_frame (trap_sample 0x80 SYS_HANDOUT 3) = plain_call (do_handout (trap_sample 0x80 SYS_HANDOUT 3)) \<and>
   do_syscall trap_frame (trap_sample 0x80 SYS_EXIT 3) = exit_current (trap_sample 0x80 SYS_EXIT 3) \<and>
   do_syscall trap_frame (trap_sample 0x80 SYS_ADD_TIMER 3) = Inr (Returns (trap_sample 0x80 SYS_ADD_TIMER 3))"
proof -
  define r where "r n = \<lparr>r_eax = n, r_ebx = 3, r_ecx = mem (trap_sample 0x80 n 3) (trap_frame + TF_ECX),
    r_edx = mem (trap_sample 0x80 n 3) (trap_frame + TF_EDX)\<rparr>" for n
  have r: "carries trap_frame (r n) (trap_sample 0x80 n 3)" for n by (simp add: carries_def r_def)
  have "lib_traps (U_join 3) (r SYS_JOIN) = [r SYS_JOIN]" by (simp add: sys_join_def r_def)
  moreover have "lib_traps U_exit (r SYS_HANDOUT) ! 0 = r SYS_HANDOUT" "lib_traps U_exit (r SYS_EXIT) ! 1 = r SYS_EXIT"
    "sys_add_timer 3 (r SYS_ADD_TIMER) = r SYS_ADD_TIMER" by (simp_all add: sys_exit_def sys_add_timer_def r_def)
  ultimately show ?thesis
    using library_matches_kernel [of "U_join 3" "r SYS_JOIN" 3] library_matches_kernel [of U_exit "r SYS_HANDOUT" 3]
      library_matches_kernel [of U_exit "r SYS_EXIT" 3] library_matches_kernel [of U_exit "r SYS_ADD_TIMER" 3] r
    by (auto simp: list_all2_conv_all_nth)
qed

end
