(* ===== verification/Descriptors.thy ===== *)
theory Descriptors
  imports Process
begin

text \<open>
  Processor tables: segment descriptors and the task state segment (\<^verbatim>\<open>src/kernel/src/memory/kvm.c\<close>),
  interrupt gates (\<^verbatim>\<open>src/kernel/src/irq/idt.c\<close>), the old page table helpers
  (\<^verbatim>\<open>src/kernel/src/memory/util.c\<close>), with the bit-field structures of \<^verbatim>\<open>src/inc/memory.h\<close> and \<^verbatim>\<open>src/inc/x86.h\<close>.
  A bit field keeps the low bits of what is stored in it; fields are laid out from the least significant bit.
  The port writes of the device set-up routines are lists of ports and bytes.
\<close>

section \<open>Bit fields\<close>

text \<open>\<open>pack\<close> lays out a list of fields (width, value) from bit \<open>k\<close> on; \<open>field\<close> reads one back.\<close>

primrec pack :: "nat \<Rightarrow> (nat \<times> u32) list \<Rightarrow> u32" where
  "pack k [] = 0"
| "pack k (f # fs) = push_bit k (take_bit (fst f) (snd f)) OR pack (k + fst f) fs"

definition field :: "nat \<Rightarrow> nat \<Rightarrow> u32 \<Rightarrow> u32" where
  "field k w x = take_bit w (drop_bit k x)"

section \<open>Segments\<close>

definition SEG_TSS_32BIT :: u32 where "SEG_TSS_32BIT = 0x9"
definition DPL_KERNEL :: u32 where "DPL_KERNEL = 0"
definition DPL_USER :: u32 where "DPL_USER = 3"
definition SEG_WRITABLE :: u32 where "SEG_WRITABLE = 0x2"
definition SEG_READABLE :: u32 where "SEG_READABLE = 0x2"
definition SEG_EXECUTABLE :: u32 where "SEG_EXECUTABLE = 0x8"
definition NR_SEGMENTS :: nat where "NR_SEGMENTS = 6"
definition SEG_KERNEL_CODE :: nat where "SEG_KERNEL_CODE = 1"
definition SEG_KERNEL_DATA :: nat where "SEG_KERNEL_DATA = 2"
definition SEG_USER_CODE :: nat where "SEG_USER_CODE = 3"
definition SEG_USER_DATA :: nat where "SEG_USER_DATA = 4"
definition SEG_TSS :: nat where "SEG_TSS = 5"

definition SELECTOR_KERNEL :: "nat \<Rightarrow> u32" where "SELECTOR_KERNEL s = push_bit 3 (of_nat s) OR DPL_KERNEL"
definition SELECTOR_USER :: "nat \<Rightarrow> u32" where "SELECTOR_USER s = push_bit 3 (of_nat s) OR DPL_USER"

lemmas seg_consts = SEG_TSS_32BIT_def DPL_KERNEL_def DPL_USER_def SEG_WRITABLE_def SEG_READABLE_def
  SEG_EXECUTABLE_def NR_SEGMENTS_def SEG_KERNEL_CODE_def SEG_KERNEL_DATA_def SEG_USER_CODE_def
  SEG_USER_DATA_def SEG_TSS_def SELECTOR_KERNEL_def SELECTOR_USER_def

record SegDesc =
  limit_15_0 :: u32
  base_15_0 :: u32
  base_23_16 :: u32
  seg_type :: u32
  segment_type :: u32
  privilege_level :: u32
  present :: u32
  limit_19_16 :: u32
  soft_use :: u32
  operation_size :: u32
  pad0 :: u32
  granularity :: u32
  base_31_24 :: u32

text \<open>The two 32-bit halves of a descriptor.\<close>

definition seg_words :: "SegDesc \<Rightarrow> u32 \<times> u32" where
  "seg_words d =
     (pack 0 [(16, limit_15_0 d), (16, base_15_0 d)],
      pack 0 [(8, base_23_16 d), (4, seg_type d), (1, segment_type d), (2, privilege_level d), (1, present d),
        (4, limit_19_16 d), (1, soft_use d), (1, operation_size d), (1, pad0 d), (1, granularity d),
        (8, base_31_24 d)])"

text \<open>
  The state of \<^verbatim>\<open>kvm.c\<close>: the words in memory from \<^verbatim>\<open>gdt\<close> on (the array has 12 words), the fields of the
  TSS, and the two processor registers.
\<close>

record descst =
  gdt :: "nat \<Rightarrow> u32"
  tss_ss0 :: u32
  gdtr :: "u16 \<times> u16 \<times> u16"
  tr :: u16

definition put_desc :: "nat \<Rightarrow> SegDesc \<Rightarrow> descst \<Rightarrow> descst" where
  "put_desc i d s = s\<lparr>gdt := (gdt s)(2 * i := fst (seg_words d), 2 * i + 1 := snd (seg_words d))\<rparr>"

definition SIZEOF_TSS :: u32 where "SIZEOF_TSS = 100"

definition set_segment :: "nat \<Rightarrow> u32 \<Rightarrow> u32 \<Rightarrow> descst \<Rightarrow> descst" where
  "set_segment i pl type s =
     put_desc i \<lparr>limit_15_0 = 0xFFFF, base_15_0 = 0x0, base_23_16 = 0x0, seg_type = type, segment_type = 1,
       privilege_level = pl, present = 1, limit_19_16 = 0xF, soft_use = 0, operation_size = 0, pad0 = 1,
       granularity = 1, base_31_24 = 0x0\<rparr> s"

text \<open>\<open>tss\<close> is the address of the TSS.\<close>

definition set_tss :: "u32 \<Rightarrow> nat \<Rightarrow> descst \<Rightarrow> descst" where
  "set_tss tss i s =
     (let s = s\<lparr>tss_ss0 := SELECTOR_KERNEL SEG_KERNEL_DATA\<rparr>; base = tss; limit = SIZEOF_TSS - 1 in
      put_desc i \<lparr>limit_15_0 = limit AND 0xFFFF, base_15_0 = base AND 0xFFFF,
        base_23_16 = drop_bit 16 base AND 0xFF, seg_type = SEG_TSS_32BIT, segment_type = 0,
        privilege_level = DPL_USER, present = 1, limit_19_16 = drop_bit 16 limit, soft_use = 0,
        operation_size = 0, pad0 = 1, granularity = 0, base_31_24 = drop_bit 24 base\<rparr> s)"

definition table_register :: "u32 \<Rightarrow> u32 \<Rightarrow> u16 \<times> u16 \<times> u16" where
  "table_register addr sz = (ucast (sz - 1), ucast addr, ucast (drop_bit 16 addr))"

definition write_gdtr :: "u32 \<Rightarrow> u32 \<Rightarrow> descst \<Rightarrow> descst" where
  "write_gdtr addr sz s = s\<lparr>gdtr := table_register addr sz\<rparr>"

definition write_tr :: "u32 \<Rightarrow> descst \<Rightarrow> descst" where
  "write_tr selector s = s\<lparr>tr := ucast selector\<rparr>"

text \<open>
  \<^verbatim>\<open>memset\<close> counts words, and \<^verbatim>\<open>sizeof(gdt)\<close> is 48 bytes: the first line clears four times the array.
\<close>

definition init_segment :: "u32 \<Rightarrow> u32 \<Rightarrow> descst \<Rightarrow> descst" where
  "init_segment gdt_addr tss s =
     (let s = s\<lparr>gdt := (\<lambda>i. if i < 8 * NR_SEGMENTS then 0 else gdt s i)\<rparr>;
          s = set_segment SEG_KERNEL_CODE DPL_KERNEL (SEG_EXECUTABLE OR SEG_READABLE) s;
          s = set_segment SEG_KERNEL_DATA DPL_KERNEL SEG_WRITABLE s;
          s = set_segment SEG_USER_CODE DPL_USER (SEG_EXECUTABLE OR SEG_READABLE) s;
          s = set_segment SEG_USER_DATA DPL_USER SEG_WRITABLE s;
          s = write_gdtr gdt_addr (of_nat (8 * NR_SEGMENTS)) s;
          s = set_tss tss SEG_TSS s
      in write_tr (SELECTOR_USER SEG_TSS) s)"

section \<open>Gates\<close>

definition NR_IRQ :: nat where "NR_IRQ = 256"
definition INTERRUPT_GATE_32 :: u32 where "INTERRUPT_GATE_32 = 0xE"
definition TRAP_GATE_32 :: u32 where "TRAP_GATE_32 = 0xF"

record GateDescriptor =
  offset_15_0 :: u32
  segment :: u32
  gate_pad0 :: u32
  gate_type :: u32
  system :: u32
  gate_dpl :: u32
  gate_present :: u32
  offset_31_16 :: u32

definition gate_words :: "GateDescriptor \<Rightarrow> u32 \<times> u32" where
  "gate_words d =
     (pack 0 [(16, offset_15_0 d), (16, segment d)],
      pack 0 [(8, gate_pad0 d), (4, gate_type d), (1, system d), (2, gate_dpl d), (1, gate_present d),
        (16, offset_31_16 d)])"

type_synonym idt = "nat \<Rightarrow> u32 \<times> u32"

definition set_intr :: "nat \<Rightarrow> nat \<Rightarrow> u32 \<Rightarrow> u32 \<Rightarrow> idt \<Rightarrow> idt" where
  "set_intr i selector offset dpl t = t(i := gate_words \<lparr>offset_15_0 = offset AND 0xFFFF,
     segment = push_bit 3 (of_nat selector), gate_pad0 = 0, gate_type = INTERRUPT_GATE_32, system = 0,
     gate_dpl = dpl, gate_present = 1, offset_31_16 = drop_bit 16 offset AND 0xFFFF\<rparr>)"

definition set_trap :: "nat \<Rightarrow> nat \<Rightarrow> u32 \<Rightarrow> u32 \<Rightarrow> idt \<Rightarrow> idt" where
  "set_trap i selector offset dpl t = t(i := gate_words \<lparr>offset_15_0 = offset AND 0xFFFF,
     segment = push_bit 3 (of_nat selector), gate_pad0 = 0, gate_type = TRAP_GATE_32, system = 0,
     gate_dpl = dpl, gate_present = 1, offset_31_16 = drop_bit 16 offset AND 0xFFFF\<rparr>)"

text \<open>The entry points in \<^verbatim>\<open>do_irq.S\<close>; \<open>addr\<close> below gives their addresses.\<close>

datatype entry_point = irq_empty | vec nat | vecsys | irq nat

primrec empty_gates :: "nat \<Rightarrow> (entry_point \<Rightarrow> u32) \<Rightarrow> idt \<Rightarrow> idt" where
  "empty_gates 0 addr t = t"
| "empty_gates (Suc i) addr t = set_trap i SEG_KERNEL_CODE (addr irq_empty) DPL_KERNEL (empty_gates i addr t)"

definition init_idt :: "u32 \<Rightarrow> (entry_point \<Rightarrow> u32) \<Rightarrow> idt \<Rightarrow> (u16 \<times> u16 \<times> u16) \<times> idt" where
  "init_idt idt_addr addr t =
     (let t = empty_gates NR_IRQ addr t;
          t = set_trap 0 SEG_KERNEL_CODE (addr (vec 0)) DPL_KERNEL t;
          t = set_trap 1 SEG_KERNEL_CODE (addr (vec 1)) DPL_KERNEL t;
          t = set_trap 2 SEG_KERNEL_CODE (addr (vec 2)) DPL_KERNEL t;
          t = set_trap 3 SEG_KERNEL_CODE (addr (vec 3)) DPL_KERNEL t;
          t = set_trap 4 SEG_KERNEL_CODE (addr (vec 4)) DPL_KERNEL t;
          t = set_trap 5 SEG_KERNEL_CODE (addr (vec 5)) DPL_KERNEL t;
          t = set_trap 6 SEG_KERNEL_CODE (addr (vec 6)) DPL_KERNEL t;
          t = set_trap 7 SEG_KERNEL_CODE (addr (vec 7)) DPL_KERNEL t;
          t = set_trap 8 SEG_KERNEL_CODE (addr (vec 8)) DPL_KERNEL t;
          t = set_trap 9 SEG_KERNEL_CODE (addr (vec 9)) DPL_KERNEL t;
          t = set_trap 10 SEG_KERNEL_CODE (addr (vec 10)) DPL_KERNEL t;
          t = set_trap 11 SEG_KERNEL_CODE (addr (vec 11)) DPL_KERNEL t;
          t = set_trap 12 SEG_KERNEL_CODE (addr (vec 12)) DPL_KERNEL t;
          t = set_trap 13 SEG_KERNEL_CODE (addr (vec 13)) DPL_KERNEL t;
          t = set_trap 0x80 SEG_KERNEL_CODE (addr vecsys) DPL_USER t;
          t = set_intr 32 SEG_KERNEL_CODE (addr (irq 0)) DPL_KERNEL t;
          t = set_intr 33 SEG_KERNEL_CODE (addr (irq 1)) DPL_KERNEL t
      in (table_register idt_addr (of_nat (8 * NR_IRQ)), t))"

section \<open>Page table entries\<close>

definition make_invalid_pde :: "u32 \<Rightarrow> u32" where "make_invalid_pde p = 0"
definition make_invalid_pte :: "u32 \<Rightarrow> u32" where "make_invalid_pte p = 0"

definition make_pde :: "u32 \<Rightarrow> u32" where
  "make_pde addr = pack 0 [(1, 1), (1, 1), (1, 1), (1, 0), (1, 0), (1, 0), (6, 0), (20, drop_bit 12 addr)]"

definition make_pte :: "u32 \<Rightarrow> u32" where
  "make_pte addr = pack 0 [(1, 1), (1, 1), (1, 1), (1, 0), (1, 0), (1, 0), (1, 0), (1, 0), (1, 0), (3, 0),
     (20, drop_bit 12 addr)]"

section \<open>Devices\<close>

type_synonym outs = "(nat \<times> u8) list"

definition PORT_CH_0 :: nat where "PORT_CH_0 = 0x40"
definition PORT_CMD :: nat where "PORT_CMD = 0x43"
definition PIT_FREQUENCE :: u32 where "PIT_FREQUENCE = 1193182"
definition HZ :: u32 where "HZ = 200"

text \<open>\<^verbatim>\<open>mode\<close>: binary counting, rate generator, low byte then high byte, channel 0.\<close>

definition pit_mode :: u8 where
  "pit_mode = ucast (pack 0 [(1, 0), (3, 2), (2, 3), (2, 0)])"

definition init_timer :: outs where
  "init_timer =
     (let counter = PIT_FREQUENCE div HZ in
      [(PORT_CMD, pit_mode), (PORT_CH_0, ucast (counter AND 0xFF)),
       (PORT_CH_0, ucast (drop_bit 8 counter AND 0xFF))])"

definition SERIAL_PORT :: nat where "SERIAL_PORT = 0x3F8"

definition init_serial :: outs where
  "init_serial =
     [(SERIAL_PORT + 1, 0x00), (SERIAL_PORT + 3, 0x80), (SERIAL_PORT + 0, 0x01), (SERIAL_PORT + 1, 0x00),
      (SERIAL_PORT + 3, 0x03), (SERIAL_PORT + 2, 0xC7), (SERIAL_PORT + 4, 0x0B)]"

definition IO_PIC1 :: nat where "IO_PIC1 = 0x20"
definition IO_PIC2 :: nat where "IO_PIC2 = 0xA0"
definition IRQ_OFFSET :: u8 where "IRQ_OFFSET = 0x20"
definition IRQ_SLAVE :: nat where "IRQ_SLAVE = 2"

definition init_intr :: outs where
  "init_intr =
     [(IO_PIC1 + 1, 0xFF), (IO_PIC2 + 1, 0xFF),
      (IO_PIC1, 0x11), (IO_PIC1 + 1, IRQ_OFFSET), (IO_PIC1 + 1, push_bit IRQ_SLAVE 1), (IO_PIC1 + 1, 0x3),
      (IO_PIC2, 0x11), (IO_PIC2 + 1, IRQ_OFFSET + 8), (IO_PIC2 + 1, of_nat IRQ_SLAVE), (IO_PIC2 + 1, 0x01),
      (IO_PIC1, 0x68), (IO_PIC1, 0x0A), (IO_PIC2, 0x68), (IO_PIC2, 0x0A)]"

section \<open>Reading fields back\<close>

lemma bit_pack_Cons:
  "bit (pack k (f # fs)) n \<longleftrightarrow> (k \<le> n \<and> n < k + fst f \<and> n < 32 \<and> bit (snd f) (n - k)) \<or> bit (pack (k + fst f) fs) n"
  by (auto simp: bit_or_iff bit_push_bit_iff bit_take_bit_iff)

lemma pack_low: "n < k \<Longrightarrow> \<not> bit (pack k fs) n"
  by (induction fs arbitrary: k) (auto simp: bit_pack_Cons simp del: pack.simps(2))

lemma bit_field: "bit (field k w x) n \<longleftrightarrow> n < w \<and> bit x (k + n)"
  by (simp add: field_def bit_take_bit_iff bit_drop_bit_eq)

lemma field_pack_hd: "k + w \<le> 32 \<Longrightarrow> field k w (pack k ((w, v) # fs)) = take_bit w v"
  by (rule bit_eqI) (auto simp: bit_field bit_pack_Cons bit_take_bit_iff pack_low simp del: pack.simps(2))

lemma field_pack_tl:
  "k + w \<le> j \<Longrightarrow> field j w' (pack k ((w, v) # fs)) = field j w' (pack (k + w) fs)"
  by (rule bit_eqI) (auto simp: bit_field bit_pack_Cons simp del: pack.simps(2))

lemmas field_pack = field_pack_hd field_pack_tl

lemma take_bit_word: "take_bit w v = v AND (mask w :: u32)"
  by (simp add: take_bit_eq_mask)

text \<open>The processor's view of a descriptor.\<close>

definition seg_base :: "(nat \<Rightarrow> u32) \<Rightarrow> nat \<Rightarrow> u32" where
  "seg_base t i = field 16 16 (t (2 * i)) OR push_bit 16 (field 0 8 (t (2 * i + 1))) OR
     push_bit 24 (field 24 8 (t (2 * i + 1)))"

definition seg_limit :: "(nat \<Rightarrow> u32) \<Rightarrow> nat \<Rightarrow> u32" where
  "seg_limit t i = field 0 16 (t (2 * i)) OR push_bit 16 (field 16 4 (t (2 * i + 1)))"

definition seg_kind :: "(nat \<Rightarrow> u32) \<Rightarrow> nat \<Rightarrow> u32" where "seg_kind t i = field 8 4 (t (2 * i + 1))"
definition seg_dpl :: "(nat \<Rightarrow> u32) \<Rightarrow> nat \<Rightarrow> u32" where "seg_dpl t i = field 13 2 (t (2 * i + 1))"
definition seg_present :: "(nat \<Rightarrow> u32) \<Rightarrow> nat \<Rightarrow> u32" where "seg_present t i = field 15 1 (t (2 * i + 1))"
definition seg_page_granular :: "(nat \<Rightarrow> u32) \<Rightarrow> nat \<Rightarrow> u32" where
  "seg_page_granular t i = field 23 1 (t (2 * i + 1))"

lemmas seg_view = seg_base_def seg_limit_def seg_kind_def seg_dpl_def seg_present_def seg_page_granular_def

lemma set_segment_view:
  assumes "pl \<le> 3" "type \<le> 15"
  shows "seg_base (gdt (set_segment i pl type s)) i = 0" "seg_limit (gdt (set_segment i pl type s)) i = 0xFFFFF"
    "seg_kind (gdt (set_segment i pl type s)) i = type" "seg_dpl (gdt (set_segment i pl type s)) i = pl"
    "seg_present (gdt (set_segment i pl type s)) i = 1" "seg_page_granular (gdt (set_segment i pl type s)) i = 1"
proof -
  have t: "take_bit 4 type = type" "take_bit 2 pl = pl"
    using assms by (simp_all add: word_unat_eq_iff unsigned_take_bit_eq take_bit_nat_eq_self word_le_nat_alt)
  show "seg_base (gdt (set_segment i pl type s)) i = 0" "seg_limit (gdt (set_segment i pl type s)) i = 0xFFFFF"
    "seg_kind (gdt (set_segment i pl type s)) i = type" "seg_dpl (gdt (set_segment i pl type s)) i = pl"
    "seg_present (gdt (set_segment i pl type s)) i = 1" "seg_page_granular (gdt (set_segment i pl type s)) i = 1"
    by (simp_all add: set_segment_def put_desc_def seg_words_def seg_view field_pack t del: pack.simps(2))
qed

lemma masks: "x AND 0xFFFF = take_bit 16 (x :: u32)" "x AND 0xFF = take_bit 8 (x :: u32)"
  by (simp_all add: take_bit_eq_mask mask_eq_exp_minus_1)

lemma split_16: "take_bit 16 x OR push_bit 16 (take_bit 16 (drop_bit 16 x)) = (x :: u32)"
proof (rule bit_word_eqI)
  fix n assume "n < LENGTH(32)"
  then show "bit (take_bit 16 x OR push_bit 16 (take_bit 16 (drop_bit 16 x))) n = bit x n"
    by (cases "n < 16") (auto simp: bit_or_iff bit_push_bit_iff bit_take_bit_iff bit_drop_bit_eq)
qed

lemma split_16_8_8:
  "take_bit 16 x OR push_bit 16 (take_bit 8 (drop_bit 16 x)) OR push_bit 24 (take_bit 8 (drop_bit 24 x)) = (x :: u32)"
proof (rule bit_word_eqI)
  fix n assume "n < LENGTH(32)"
  then show "bit (take_bit 16 x OR push_bit 16 (take_bit 8 (drop_bit 16 x)) OR push_bit 24 (take_bit 8 (drop_bit 24 x))) n
      = bit x n"
    by (cases "n < 16"; cases "n < 24") (auto simp: bit_or_iff bit_push_bit_iff bit_take_bit_iff bit_drop_bit_eq)
qed

lemma set_tss_view:
  "seg_base (gdt (set_tss tss i s)) i = tss" "seg_limit (gdt (set_tss tss i s)) i = SIZEOF_TSS - 1"
  "seg_kind (gdt (set_tss tss i s)) i = SEG_TSS_32BIT" "seg_dpl (gdt (set_tss tss i s)) i = DPL_USER"
  "seg_present (gdt (set_tss tss i s)) i = 1" "seg_page_granular (gdt (set_tss tss i s)) i = 0"
  using split_16_8_8 [of tss]
  by (simp_all add: set_tss_def Let_def put_desc_def seg_words_def seg_view field_pack masks SIZEOF_TSS_def
      SEG_TSS_32BIT_def DPL_USER_def or.assoc del: pack.simps(2))

lemma put_desc_other:
  "i \<noteq> j \<Longrightarrow> gdt (put_desc i d s) (2 * j) = gdt s (2 * j) \<and> gdt (put_desc i d s) (Suc (2 * j)) = gdt s (Suc (2 * j))"
  by (auto simp: put_desc_def)

lemma set_segment_other:
  assumes "i \<noteq> j"
  shows "gdt (set_segment i pl type s) (2 * j) = gdt s (2 * j)"
    "gdt (set_segment i pl type s) (Suc (2 * j)) = gdt s (Suc (2 * j))"
    "gdt (set_tss tss i s) (2 * j) = gdt s (2 * j)" "gdt (set_tss tss i s) (Suc (2 * j)) = gdt s (Suc (2 * j))"
  using put_desc_other [OF assms] by (simp_all add: set_segment_def set_tss_def Let_def)

lemma registers_keep_gdt [simp]:
  "gdt (write_gdtr a n s) = gdt s" "gdt (write_tr w s) = gdt s"
  by (simp_all add: write_gdtr_def write_tr_def)

lemma seg_distinct:
  "SEG_TSS \<noteq> SEG_KERNEL_CODE" "SEG_TSS \<noteq> SEG_KERNEL_DATA" "SEG_TSS \<noteq> SEG_USER_CODE" "SEG_TSS \<noteq> SEG_USER_DATA"
  "SEG_USER_DATA \<noteq> SEG_KERNEL_CODE" "SEG_USER_DATA \<noteq> SEG_KERNEL_DATA" "SEG_USER_DATA \<noteq> SEG_USER_CODE"
  "SEG_USER_CODE \<noteq> SEG_KERNEL_CODE" "SEG_USER_CODE \<noteq> SEG_KERNEL_DATA" "SEG_KERNEL_DATA \<noteq> SEG_KERNEL_CODE"
  by (simp_all add: seg_consts)

text \<open>\<open>same_desc t t' i\<close>: two tables have the same descriptor \<open>i\<close>.\<close>

definition same_desc :: "(nat \<Rightarrow> u32) \<Rightarrow> (nat \<Rightarrow> u32) \<Rightarrow> nat \<Rightarrow> bool" where
  "same_desc t t' i \<longleftrightarrow> t (2 * i) = t' (2 * i) \<and> t (Suc (2 * i)) = t' (Suc (2 * i))"

lemma init_segment_descs:
  "\<exists>s1. same_desc (gdt (init_segment ga tss s)) (gdt (set_segment SEG_KERNEL_CODE DPL_KERNEL (SEG_EXECUTABLE OR SEG_READABLE) s1)) SEG_KERNEL_CODE"
  "\<exists>s1. same_desc (gdt (init_segment ga tss s)) (gdt (set_segment SEG_KERNEL_DATA DPL_KERNEL SEG_WRITABLE s1)) SEG_KERNEL_DATA"
  "\<exists>s1. same_desc (gdt (init_segment ga tss s)) (gdt (set_segment SEG_USER_CODE DPL_USER (SEG_EXECUTABLE OR SEG_READABLE) s1)) SEG_USER_CODE"
  "\<exists>s1. same_desc (gdt (init_segment ga tss s)) (gdt (set_segment SEG_USER_DATA DPL_USER SEG_WRITABLE s1)) SEG_USER_DATA"
  "\<exists>s1. same_desc (gdt (init_segment ga tss s)) (gdt (set_tss tss SEG_TSS s1)) SEG_TSS"
  unfolding init_segment_def Let_def same_desc_def
  by (simp_all only: set_segment_other registers_keep_gdt seg_distinct not_False_eq_True) blast+

lemma same_desc_view:
  assumes "same_desc t t' i"
  shows "seg_base t i = seg_base t' i" "seg_limit t i = seg_limit t' i" "seg_kind t i = seg_kind t' i"
    "seg_dpl t i = seg_dpl t' i" "seg_present t i = seg_present t' i" "seg_page_granular t i = seg_page_granular t' i"
  using assms by (simp_all add: same_desc_def seg_view)

text \<open>A flat segment: all 4 GiB, present, of the given privilege and kind.\<close>

definition flat :: "(nat \<Rightarrow> u32) \<Rightarrow> nat \<Rightarrow> u32 \<Rightarrow> u32 \<Rightarrow> bool" where
  "flat t i pl kind \<longleftrightarrow> seg_base t i = 0 \<and> seg_limit t i = 0xFFFFF \<and> seg_page_granular t i = 1 \<and>
     seg_present t i = 1 \<and> seg_dpl t i = pl \<and> seg_kind t i = kind"

lemma flatI: "same_desc t (gdt (set_segment i pl type s)) i \<Longrightarrow> pl \<le> 3 \<Longrightarrow> type \<le> 15 \<Longrightarrow> flat t i pl type"
  unfolding flat_def by (simp add: same_desc_view set_segment_view)

text \<open>
  After \<open>init_segment\<close>, the code and data selectors that \<open>init_pcb\<close> puts into the trap frames of
  kernel threads and of user processes name flat, present segments whose privilege is the one the selector
  asks for; the task register names a descriptor of the TSS at its address.
\<close>

theorem selectors_match_descriptors:
  "let t = gdt (init_segment ga tss s) in
    flat t (unat (drop_bit 3 GD_KT)) (GD_KT AND 3) (SEG_EXECUTABLE OR SEG_READABLE) \<and>
    flat t (unat (drop_bit 3 GD_KD)) (GD_KD AND 3) SEG_WRITABLE \<and>
    flat t (unat (drop_bit 3 (GD_UT OR 3))) ((GD_UT OR 3) AND 3) (SEG_EXECUTABLE OR SEG_READABLE) \<and>
    flat t (unat (drop_bit 3 (GD_UD OR 3))) ((GD_UD OR 3) AND 3) SEG_WRITABLE \<and>
    seg_base t (unat (drop_bit 3 (tr (init_segment ga tss s)))) = tss \<and>
    seg_kind t (unat (drop_bit 3 (tr (init_segment ga tss s)))) = SEG_TSS_32BIT"
proof -
  define t where "t = gdt (init_segment ga tss s)"
  have i: "unat (drop_bit 3 GD_KT) = SEG_KERNEL_CODE" "unat (drop_bit 3 GD_KD) = SEG_KERNEL_DATA"
    "unat (drop_bit 3 (GD_UT OR 3)) = SEG_USER_CODE" "unat (drop_bit 3 (GD_UD OR 3)) = SEG_USER_DATA"
    "unat (drop_bit 3 (tr (init_segment ga tss s))) = SEG_TSS"
    by (simp_all add: GD_KT_def GD_KD_def GD_UT_def GD_UD_def seg_consts init_segment_def write_tr_def)
  have p: "GD_KT AND 3 = DPL_KERNEL" "GD_KD AND 3 = DPL_KERNEL" "(GD_UT OR 3) AND 3 = DPL_USER" "(GD_UD OR 3) AND 3 = DPL_USER"
    by (simp_all add: GD_KT_def GD_KD_def GD_UT_def GD_UD_def seg_consts)
  have le: "DPL_KERNEL \<le> 3" "DPL_USER \<le> 3" "SEG_EXECUTABLE OR SEG_READABLE \<le> 15" "SEG_WRITABLE \<le> 15"
    by (simp_all add: seg_consts)
  obtain s5 where "same_desc t (gdt (set_tss tss SEG_TSS s5)) SEG_TSS" using init_segment_descs(5) unfolding t_def by blast
  then have "seg_base t SEG_TSS = tss" "seg_kind t SEG_TSS = SEG_TSS_32BIT"
    by (simp_all add: same_desc_view set_tss_view)
  then show ?thesis unfolding i p t_def [symmetric] Let_def
    using init_segment_descs(1-4) [of ga tss s, folded t_def] le by (blast intro: flatI)
qed

text \<open>
  \<open>init_segment\<close> clears more than its table: the 36 words that follow the 12 words of the descriptor table are
  zero afterwards, whatever they held.
\<close>

theorem init_segment_overruns:
  assumes "2 * NR_SEGMENTS \<le> i" "i < 8 * NR_SEGMENTS"
  shows "gdt (init_segment ga tss s) i = 0"
  using assms by (simp add: init_segment_def Let_def set_segment_def set_tss_def put_desc_def seg_consts)

theorem init_segment_overruns_witness:
  "gdt (init_segment 0 0 \<lparr>gdt = (\<lambda>_. 7), tss_ss0 = 0, gdtr = (0, 0, 0), tr = 0\<rparr>) 12 = 0"
  by (rule init_segment_overruns) (simp_all add: seg_consts)

section \<open>Interrupt dispatch\<close>

definition gate_offset :: "u32 \<times> u32 \<Rightarrow> u32" where
  "gate_offset g = field 0 16 (fst g) OR push_bit 16 (field 16 16 (snd g))"
definition gate_selector :: "u32 \<times> u32 \<Rightarrow> u32" where "gate_selector g = field 16 16 (fst g)"
definition gate_kind :: "u32 \<times> u32 \<Rightarrow> u32" where "gate_kind g = field 8 4 (snd g)"
definition gate_privilege :: "u32 \<times> u32 \<Rightarrow> u32" where "gate_privilege g = field 13 2 (snd g)"
definition gate_valid :: "u32 \<times> u32 \<Rightarrow> bool" where "gate_valid g \<longleftrightarrow> field 15 1 (snd g) = 1 \<and> field 12 1 (snd g) = 0"

lemmas gate_view = gate_offset_def gate_selector_def gate_kind_def gate_privilege_def gate_valid_def

text \<open>\<open>gate_is g kind dpl target\<close>: a valid gate to the kernel's code segment.\<close>

definition gate_is :: "u32 \<times> u32 \<Rightarrow> u32 \<Rightarrow> u32 \<Rightarrow> u32 \<Rightarrow> bool" where
  "gate_is g kind dpl target \<longleftrightarrow> gate_valid g \<and> gate_kind g = kind \<and> gate_privilege g = dpl \<and>
     gate_selector g = GD_KT \<and> gate_offset g = target"

lemma set_gates:
  assumes "dpl \<le> 3"
  shows "gate_is (set_trap i SEG_KERNEL_CODE offset dpl t i) TRAP_GATE_32 dpl offset"
    "gate_is (set_intr i SEG_KERNEL_CODE offset dpl t i) INTERRUPT_GATE_32 dpl offset"
proof -
  have "take_bit 2 dpl = dpl"
    using assms by (simp add: word_unat_eq_iff unsigned_take_bit_eq take_bit_nat_eq_self word_le_nat_alt)
  then show "gate_is (set_trap i SEG_KERNEL_CODE offset dpl t i) TRAP_GATE_32 dpl offset"
    "gate_is (set_intr i SEG_KERNEL_CODE offset dpl t i) INTERRUPT_GATE_32 dpl offset"
    using split_16 [of offset]
    by (simp_all add: gate_is_def gate_view set_trap_def set_intr_def gate_words_def field_pack masks
        TRAP_GATE_32_def INTERRUPT_GATE_32_def SEG_KERNEL_CODE_def GD_KT_def del: pack.simps(2))
qed

lemma set_gates_other:
  "i \<noteq> j \<Longrightarrow> set_trap i sel offset dpl t j = t j" "i \<noteq> j \<Longrightarrow> set_intr i sel offset dpl t j = t j"
  by (simp_all add: set_trap_def set_intr_def)

lemma empty_gates_eq:
  "j < n \<Longrightarrow> empty_gates n addr t j = set_trap j SEG_KERNEL_CODE (addr irq_empty) DPL_KERNEL t j"
  by (induction n) (auto simp: set_trap_def)

text \<open>The table the kernel means to install.\<close>

definition handler :: "nat \<Rightarrow> entry_point" where
  "handler i = (if i < 14 then vec i else if i = 32 then irq 0 else if i = 33 then irq 1
     else if i = 0x80 then vecsys else irq_empty)"

lemma below_14:
  "i < (14 :: nat) \<Longrightarrow> i = 0 \<or> i = 1 \<or> i = 2 \<or> i = 3 \<or> i = 4 \<or> i = 5 \<or> i = 6 \<or> i = 7 \<or> i = 8 \<or> i = 9 \<or>
     i = 10 \<or> i = 11 \<or> i = 12 \<or> i = 13"
  by presburger

lemma init_idt_gate:
  assumes "i < NR_IRQ"
  shows "\<exists>t'. snd (init_idt idt_addr addr t) i =
    (if i = 32 \<or> i = 33 then set_intr i SEG_KERNEL_CODE (addr (handler i)) DPL_KERNEL t' i
     else set_trap i SEG_KERNEL_CODE (addr (handler i)) (if i = 0x80 then DPL_USER else DPL_KERNEL) t' i)"
proof -
  have "snd (init_idt idt_addr addr t) i =
    (if i = 32 \<or> i = 33 then set_intr i SEG_KERNEL_CODE (addr (handler i)) DPL_KERNEL t i
     else set_trap i SEG_KERNEL_CODE (addr (handler i)) (if i = 0x80 then DPL_USER else DPL_KERNEL) t i)"
    using empty_gates_eq [OF assms, of addr t] below_14
    by (auto simp: init_idt_def Let_def set_trap_def set_intr_def handler_def)
  then show ?thesis by blast
qed

text \<open>
  C38. Interrupt dispatch: after \<open>init_idt\<close>, each of the 256 vectors has a valid gate into the kernel's code
  segment that leads to its handler; only the gate of vector 0x80 may be used from user mode, and
  the gates of the timer and of the keyboard, and only those, disable interrupts.
\<close>

theorem idt_dispatch:
  assumes "i < NR_IRQ"
  shows "gate_is (snd (init_idt idt_addr addr t) i)
    (if i = 32 \<or> i = 33 then INTERRUPT_GATE_32 else TRAP_GATE_32)
    (if i = 0x80 then DPL_USER else DPL_KERNEL) (addr (handler i))"
proof -
  obtain t' where g: "snd (init_idt idt_addr addr t) i =
      (if i = 32 \<or> i = 33 then set_intr i SEG_KERNEL_CODE (addr (handler i)) DPL_KERNEL t' i
       else set_trap i SEG_KERNEL_CODE (addr (handler i)) (if i = 0x80 then DPL_USER else DPL_KERNEL) t' i)"
    using init_idt_gate [OF assms] by blast
  have "DPL_KERNEL \<le> 3" "DPL_USER \<le> 3" by (simp_all add: seg_consts)
  then show ?thesis unfolding g using set_gates by auto
qed

theorem idt_dispatch_witness:
  "gate_is (snd (init_idt 0 (\<lambda>e. if e = vecsys then 0xC0101234 else 0) (\<lambda>_. (0, 0))) 0x80) TRAP_GATE_32 DPL_USER 0xC0101234"
  using idt_dispatch [of "0x80" 0 "\<lambda>e. if e = vecsys then 0xC0101234 else 0" "\<lambda>_. (0, 0)"]
  by (simp add: NR_IRQ_def handler_def)

section \<open>Page table entries and devices\<close>

text \<open>
  The bit-field constructors of \<^verbatim>\<open>util.c\<close> build the entries that the macros of \<^verbatim>\<open>mmu.h\<close> describe: the frame
  address with the three permission bits.
\<close>

theorem make_pte_is_macro:
  "make_pte addr = PTE_ADDR addr OR PTE_P OR PTE_W OR PTE_U \<and> make_pde addr = make_pte addr"
proof -
  have "push_bit 12 (take_bit 20 (drop_bit 12 addr)) = addr AND NOT (mask 12)"
    by (rule bit_word_eqI)
      (auto simp: bit_and_iff bit_not_iff bit_mask_iff bit_push_bit_iff bit_take_bit_iff bit_drop_bit_eq)
  moreover have "(0xFFF :: u32) = mask 12" by (simp add: mask_eq_exp_minus_1)
  ultimately have "push_bit 12 (take_bit 20 (drop_bit 12 addr)) = PTE_ADDR addr" by (simp only: PTE_ADDR_def)
  moreover have "make_pte addr = 1 OR 2 OR 4 OR push_bit 12 (take_bit 20 (drop_bit 12 addr))"
    "make_pde addr = 1 OR 2 OR 4 OR push_bit 12 (take_bit 20 (drop_bit 12 addr))"
    by (simp_all add: make_pte_def make_pde_def)
  ultimately show ?thesis by (simp only: PTE_P_def PTE_W_def PTE_U_def ac_simps)
qed

lemma init_timer_counts:
  "init_timer = [(PORT_CMD, 0x34), (PORT_CH_0, lo), (PORT_CH_0, hi)] \<longleftrightarrow> lo = 0x4D \<and> hi = 0x17"
  "0x174D = PIT_FREQUENCE div HZ"
  by (auto simp: init_timer_def pit_mode_def PIT_FREQUENCE_def HZ_def Let_def)

end
