(* ===== verification/File_Frame.thy ===== *)
theory File_Frame
  imports File_System
begin

text \<open>File code changes nothing but the file system's own variables and the disk.\<close>

section \<open>The frame\<close>

text \<open>\<open>fs_erase s\<close> is everything else.\<close>

definition fs_erase :: "'a fsst_scheme \<Rightarrow> 'a fsst_scheme" where
  "fs_erase s = s\<lparr>disk := undefined, bitmap := undefined, inode := undefined, dir := undefined, buffer := undefined,
     fs := undefined\<rparr>"

lemma fs_erase_upd [simp]:
  "fs_erase (s\<lparr>disk := d\<rparr>) = fs_erase s" "fs_erase (s\<lparr>bitmap := b\<rparr>) = fs_erase s" "fs_erase (s\<lparr>inode := n\<rparr>) = fs_erase s"
  "fs_erase (s\<lparr>dir := e\<rparr>) = fs_erase s" "fs_erase (s\<lparr>buffer := x\<rparr>) = fs_erase s" "fs_erase (s\<lparr>fs := f\<rparr>) = fs_erase s"
  by (simp_all add: fs_erase_def)

lemma fs_erase_ops [simp]:
  "fs_erase (readDir o' s) = fs_erase s" "fs_erase (readINode o' s) = fs_erase s" "fs_erase (readData o' s) = fs_erase s"
  "fs_erase (upd_stream i g s) = fs_erase s" "fs_erase (advance i n s) = fs_erase s"
  by (simp_all add: readDir_def readINode_def readData_def upd_stream_def advance_def)

lemma find_dir_frame: "find_dir n d test s = Inr (r, s') \<Longrightarrow> fs_erase s' = fs_erase s"
  by (induction n arbitrary: d s) (auto simp: Let_def bind_res_eq_Inr split: option.splits)

lemma open_stream_frame: "open_stream d e s = Inr (r, s') \<Longrightarrow> fs_erase s' = fs_erase s"
  by (auto simp: open_stream_def Let_def bind_res_eq_Inr split: option.splits)

lemma fs_open_frame: "fs_open_kr name s = Inr (r, s') \<Longrightarrow> fs_erase s' = fs_erase s"
  by (auto simp: fs_open_kr_def bind_res_eq_Inr dest!: open_stream_frame find_dir_frame split: option.splits)

lemma read_blocks_frame: "read_blocks i len s = Inr (out, len', s') \<Longrightarrow> fs_erase s' = fs_erase s"
proof (induction i len s arbitrary: out len' s' rule: read_blocks.induct)
  case (1 i len s)
  show ?case
  proof (cases "512 \<le> sint len")
    case True
    with 1(2) obtain b out1 r where r: "block_ptr (drop_bit 9 (st_offset (fs s i))) s = Inr b"
      "buf_read 0 BLOCK_SIZE (readData b s) = Inr out1"
      "read_blocks i (len - 512) (advance i 512 (readData b s)) = Inr r" "s' = snd (snd r)"
      by (auto simp: read_blocks.simps [of i len s] Let_def bind_res_eq_Inr)
    from 1(1) [OF True r(1) refl r(2) refl, of "fst r" "fst (snd r)" s'] r(3,4) show ?thesis by simp
  qed (use 1(2) in \<open>simp add: read_blocks.simps\<close>)
qed

lemma fs_read_frame: "fs_read_kr fd len s = Inr (r, out, s') \<Longrightarrow> fs_erase s' = fs_erase s"
proof -
  have "fs_read_base_kr fd len s = Inr (out, s') \<Longrightarrow> fs_erase s' = fs_erase s" for fd len out and s s' :: "'a fsst_scheme"
    by (auto simp: fs_read_base_kr_def Let_def bind_res_eq_Inr dest!: read_blocks_frame split: if_splits)
  then show "fs_read_kr fd len s = Inr (r, out, s') \<Longrightarrow> fs_erase s' = fs_erase s"
    by (auto simp: fs_read_kr_def Let_def bind_res_eq_Inr split: if_splits)
qed

lemma fs_lseek_frame: "fs_lseek_kr fd i s = Inr s' \<Longrightarrow> fs_erase s' = fs_erase s"
  by (auto simp: fs_lseek_kr_def bind_res_eq_Inr)

lemma fs_close_frame: "fs_close_kr fd s = Inr (r, s') \<Longrightarrow> fs_erase s' = fs_erase s"
  by (auto simp: fs_close_kr_def bind_res_eq_Inr Let_def split: if_splits)

lemma fs_erase_saves [simp]:
  "fs_erase (saveDir o' s) = fs_erase s" "fs_erase (saveINode o' s) = fs_erase s" "fs_erase (saveData o' s) = fs_erase s"
  by (simp_all add: saveDir_def saveINode_def saveData_def writesect_def)

lemma fs_erase_bitmap [simp]: "fs_erase (readBitmap s) = fs_erase s" "fs_erase (saveBitmap s) = fs_erase s"
proof -
  have "fs_erase (readBitmap_loop n s) = fs_erase s" "fs_erase (saveBitmap_loop n s) = fs_erase s" for n and s :: "'a fsst_scheme"
    by (induction n arbitrary: s) (simp_all add: writesect_def Let_def)
  then show "fs_erase (readBitmap s) = fs_erase s" "fs_erase (saveBitmap s) = fs_erase s"
    by (simp_all add: readBitmap_def saveBitmap_def)
qed

lemma dataAlloc_frame: "dataAlloc s = (b, s') \<Longrightarrow> fs_erase s' = fs_erase s"
  by (auto simp: dataAlloc_def Let_def split: option.splits)

lemma buf_write_frame: "buf_write off src n s = Inr s' \<Longrightarrow> fs_erase s' = fs_erase s"
  by (auto simp: buf_write_def split: if_splits)

lemma grow_loop_frame: "grow_loop n d s = Inr s' \<Longrightarrow> fs_erase s' = fs_erase s"
  by (induction n arbitrary: d s) (auto dest!: dataAlloc_frame split: prod.splits if_splits)

lemma write_blocks_frame: "write_blocks i src off len s = Inr (off', len', s') \<Longrightarrow> fs_erase s' = fs_erase s"
proof (induction i src off len s arbitrary: off' len' s' rule: write_blocks.induct)
  case (1 i src off len s)
  show ?case
  proof (cases "512 \<le> sint len")
    case True
    with 1(2) obtain s1 b where r: "buf_write 0 (\<lambda>k. src (unat off + k)) BLOCK_SIZE s = Inr s1"
      "block_ptr (drop_bit 9 (st_offset (fs s i))) s1 = Inr b"
      "write_blocks i src (off + 512) (len - 512) (advance i 512 (saveData b s1)) = Inr (off', len', s')"
      by (auto simp: write_blocks.simps [of i src off len s] Let_def bind_res_eq_Inr)
    from 1(1) [OF True refl r(1) r(2) refl refl r(3)] show ?thesis using buf_write_frame [OF r(1)] by simp
  qed (use 1(2) in \<open>simp add: write_blocks.simps\<close>)
qed

lemma fs_write_base_frame: "fs_write_base_kr fd src len s = Inr s' \<Longrightarrow> fs_erase s' = fs_erase s"
  by (auto simp: fs_write_base_kr_def Let_def bind_res_eq_Inr dest!: write_blocks_frame buf_write_frame split: if_splits)

lemma fs_write_frame:
  assumes "fs_write_kr fd src len s = Inr (r, s')"
  shows "fs_erase s' = fs_erase s"
  using assms unfolding fs_write_kr_def Let_def
  by (auto simp: bind_res_eq_Inr dest!: fs_write_base_frame grow_loop_frame dataAlloc_frame split: if_splits prod.splits)

end
