(* ===== verification/Loader_Frame.thy ===== *)
theory Loader_Frame
  imports Loader File_Frame
begin

text \<open>
  What the loader leaves alone: the paging code it calls changes no variable of the process code, the file code it calls nothing but
  the file system's own variables, so that loading a program changes no queue and no process descriptor but the trap frame and the
  kind of the process that is loaded.
\<close>

section \<open>What paging leaves alone\<close>

text \<open>Paging code changes no member of the state that the process code has added.\<close>

lemma paging_frame [simp]:
  "pagingst.more (lcr3 v s) = pagingst.more s" "pagingst.more (set_page p f s) = pagingst.more s"
  "pagingst.more (store a v s) = pagingst.more s" "pagingst.more (memset d c n s) = pagingst.more s"
  "pagingst.more (memcpy d c n s) = pagingst.more s" "pagingst.more (printk_str str s) = pagingst.more s"
  "pagingst.more (page_incref p s) = pagingst.more s" "pagingst.more (page_free p s) = pagingst.more s"
  "pagingst.more (page_decref p s) = pagingst.more s" "pagingst.more (tlb_invalidate va s) = pagingst.more s"
  "pagingst.more (store16 a v s) = pagingst.more s"
  by (simp_all add: lcr3_def set_page_def store_def memset_def memcpy_def printk_str_def page_incref_def page_free_def
      page_decref_def tlb_invalidate_def store16_def Let_def)

lemma page_alloc_frame: "page_alloc fl s = (p, s') \<Longrightarrow> pagingst.more s' = pagingst.more s"
  by (auto simp: page_alloc_def Let_def split: option.splits if_splits)

lemma pgdir_walk_frame: "pgdir_walk d va c s = (p, s') \<Longrightarrow> pagingst.more s' = pagingst.more s"
  by (auto simp: pgdir_walk_def Let_def dest: page_alloc_frame split: if_splits prod.splits option.splits)

lemma page_remove_frame [simp]: "pagingst.more (page_remove d va s) = pagingst.more s"
  by (simp add: page_remove_def split: option.split)

lemma page_insert_frame: "page_insert d p va perm s = Inr (r, s') \<Longrightarrow> pagingst.more s' = pagingst.more s"
  by (auto simp: page_insert_def Let_def bind_res_eq_Inr dest: pgdir_walk_frame split: prod.splits option.splits if_splits)

lemma mm_alloc_loop_frame: "mm_alloc_loop n d i s = Inr s' \<Longrightarrow> pagingst.more s' = pagingst.more s"
  by (induction n arbitrary: i s)
    (auto simp: bind_res_eq_Inr dest!: page_insert_frame dest: page_alloc_frame split: prod.splits)

lemma mm_alloc_frame: "mm_alloc d va len s = Inr s' \<Longrightarrow> pagingst.more s' = pagingst.more s"
  by (auto simp: mm_alloc_def Let_def dest: mm_alloc_loop_frame)

lemma vwrite8_frame: "vwrite8 va b s = Inr s' \<Longrightarrow> pagingst.more s' = pagingst.more s"
  by (auto simp: vwrite8_def Let_def split: option.splits)

lemma vwrite_bytes_frame: "vwrite_bytes bs va s = Inr s' \<Longrightarrow> pagingst.more s' = pagingst.more s"
  by (induction bs arbitrary: va s) (auto simp: bind_res_eq_Inr dest: vwrite8_frame)

lemma zero_loop_frame:
  assumes "zero_loop i pa ph s = Some (Inr s')"
  shows "pagingst.more s' = pagingst.more s"
proof -
  have "\<forall>s'. r = Inr s' \<longrightarrow> pagingst.more s' = pagingst.more s" if "zero_loop i pa ph s = Some r" for r
    using that
    by (induction rule: zero_loop.raw_induct [rotated, consumes 1])
      (auto dest: vwrite8_frame split: sum.splits if_splits)
  with assms show ?thesis by blast
qed

lemma boot_map_loop_frame [simp]: "pagingst.more (boot_map_loop n d va pa perm s) = pagingst.more s"
  by (induction n arbitrary: va pa s) (auto dest: pgdir_walk_frame split: prod.splits option.splits)

lemma page_init_loops_frame [simp]:
  "pagingst.more (reserve_loop n s) = pagingst.more s" "pagingst.more (free_loop n base s) = pagingst.more s"
  "pagingst.more (kern_pte_loop n t s) = pagingst.more s"
proof -
  show "pagingst.more (reserve_loop n s) = pagingst.more s" by (induction n) simp_all
  show "pagingst.more (free_loop n base s) = pagingst.more s" by (induction n arbitrary: s) (simp_all add: Let_def)
  show "pagingst.more (kern_pte_loop n t s) = pagingst.more s" by (induction n arbitrary: t s) simp_all
qed

lemma kern_pde_loop_frame: "kern_pde_loop n i t s = (t', s') \<Longrightarrow> pagingst.more s' = pagingst.more s"
  by (induction n arbitrary: i t s) auto

lemma page_init_frame [simp]: "pagingst.more (page_init s) = pagingst.more s"
proof -
  have "pagingst.more (init_kern_pgdir s) = pagingst.more s"
    by (auto simp: init_kern_pgdir_def Let_def dest: kern_pde_loop_frame split: prod.splits)
  then show ?thesis by (simp add: page_init_def Let_def boot_map_region_def)
qed

lemma more_procs:
  assumes "pagingst.more s' = pagingst.more (s :: 'a procst_scheme)"
  shows "PCBPool s' = PCBPool s" "current s' = current s" "ready_list s' = ready_list s" "procst.more s' = procst.more s" 
  "next_pid s' = next_pid s" "tfPool_addr s' = tfPool_addr s" "PCBPool_addr s' = PCBPool_addr s"
  using assms by (cases s; cases s'; simp)+

section \<open>What the loader leaves alone\<close>

text \<open>\<open>same_procs q s s'\<close>: all queues, semaphores and process descriptors agree, but for the trap frame and the kind of process \<open>q\<close>.\<close>

definition same_procs :: "nat \<Rightarrow> 'a procst_scheme \<Rightarrow> 'a procst_scheme \<Rightarrow> bool" where
  "same_procs q s s' \<longleftrightarrow> current s' = current s \<and> ready_list s' = ready_list s \<and> sleep_list s' = sleep_list s \<and>
     sems s' = sems s \<and> (\<forall>p. p \<noteq> q \<longrightarrow> PCBPool s' p = PCBPool s p) \<and>
     (PCBPool s' q)\<lparr>tf := 0, tt := KERNEL\<rparr> = (PCBPool s q)\<lparr>tf := 0, tt := KERNEL\<rparr>"

lemma same_procs_trans: "same_procs q s s1 \<Longrightarrow> same_procs q s1 s2 \<Longrightarrow> same_procs q s s2"
  by (auto simp: same_procs_def)

lemma same_procs_paging: "pagingst.more s' = pagingst.more s \<Longrightarrow> same_procs q (s :: 'a procst_scheme) s'"
  by (cases s; cases s') (simp add: same_procs_def)

lemma same_procs_files: "fs_erase s' = fs_erase s \<Longrightarrow> same_procs q (s :: 'a fsst_scheme) s'"
  by (cases s; cases s') (simp add: same_procs_def fs_erase_def)

lemma same_procs_refl [simp]: "same_procs q s s"
  by (simp add: same_procs_def)

lemmas same_procs_ops = mm_alloc_frame [THEN same_procs_paging] vwrite_bytes_frame [THEN same_procs_paging]
  zero_loop_frame [THEN same_procs_paging] fs_open_frame [THEN same_procs_files] fs_read_frame [THEN same_procs_files]
  fs_lseek_frame [THEN same_procs_files]

lemma load_segments_frame: "load_segments n ph pcb fd s = Inr s' \<Longrightarrow> same_procs q s s'"
proof (induction n arbitrary: ph s)
  case (Suc n)
  show ?case
  proof (cases "load_segments (Suc n) ph pcb fd s = Inr s \<and> s' = s")
    case False
    with Suc.prems obtain pa memsz s1 off s2 filesz r bytes s3 s4 filesz' z s5 where
      "mm_alloc (pgdir (PCBPool s pcb)) pa memsz s = Inr s1" "fs_lseek_kr fd off s1 = Inr s2"
      "fs_read_kr fd filesz s2 = Inr (r, bytes, s3)" "vwrite_bytes bytes pa s3 = Inr s4"
      "zero_loop (pa + filesz') pa ph s4 = Some (Inr s5)" "load_segments n (ph + PH_size) pcb fd s5 = Inr s'"
      by (auto simp: bind_res_eq_Inr loop_res_def split: if_splits option.splits)
    then show ?thesis using Suc.IH by (meson same_procs_ops same_procs_trans)
  qed simp
qed simp

lemma init_pcb_frame: "same_procs p s (init_pcb p ustack ent pri s)"
proof -
  have m: "pagingst.more (set_frame_segments t d c s) = pagingst.more s" for t d c and s :: "'a procst_scheme"
    by (simp add: set_frame_segments_def Let_def)
  have upd: "same_procs p s (upd_pcb p (\<lambda>x. x\<lparr>tf := t\<rparr>) s1)" "same_procs p s (upd_pcb p (\<lambda>x. x\<lparr>tt := k\<rparr>) s1)"
    if "same_procs p s s1" for t k and s1 :: "'a procst_scheme"
    using that by (auto simp: same_procs_def upd_pcb_def)
  have mm: "same_procs p s (memcpy a b n s1)" "same_procs p s (store a v s1)" "same_procs p s (set_frame_segments t d c s1)"
    if "same_procs p s s1" for a b n v t d c and s1 :: "'a procst_scheme"
    using that by (auto intro!: same_procs_trans [OF that same_procs_paging] simp: m)
  show ?thesis unfolding init_pcb_def Let_def by (auto intro!: upd mm)
qed

lemma loader_file_frame:
  assumes "loader_file pcb fname s = Inr (r, s')"
  shows "same_procs pcb s s'"
proof -
  let ?s = "lcr3 (PADDR (pgdir (PCBPool s pcb))) s"
  note T = same_procs_trans
  obtain s1 name fd s2 n bytes s3 s4 magic where
    a: "mm_alloc (pgdir (PCBPool ?s pcb)) ELFADDR 0x1000 ?s = Inr s1" "fs_open_kr name s1 = Inr (fd, s2)"
      "fs_read_kr fd (8 * 512) s2 = Inr (n, bytes, s3)" "vwrite_bytes bytes ELFADDR s3 = Inr s4"
      "vread32 (ELFADDR + ELF_magic) s4 = Inr magic"
    and rest: "magic \<noteq> ELF_MAGIC \<and> s' = s4 \<or> (\<exists>k ph s5 e s6. load_segments k ph pcb fd s4 = Inr s5 \<and>
      mm_alloc (pgdir (PCBPool s5 pcb)) (USTACKTOP - USTACKSIZE) USTACKSIZE (s5\<lparr>entry := e\<rparr>) = Inr s6 \<and>
      s' = lcr3 (PADDR (kern_pgdir (init_pcb pcb (USTACKTOP - 0x80) (entry s6) 3 s6))) (init_pcb pcb (USTACKTOP - 0x80) (entry s6) 3 s6))"
    using assms unfolding loader_file_def Let_def by (auto simp: bind_res_eq_Inr split: if_splits) blast+
  have "same_procs pcb s ?s" by (rule same_procs_paging) simp
  then have s4: "same_procs pcb s s4" using a by (meson T same_procs_ops)
  from rest show ?thesis
  proof (elim disjE exE conjE)
    fix k ph s5 e s6
    assume "load_segments k ph pcb fd s4 = Inr s5"
    then have "same_procs pcb s s5" by (rule T [OF s4 load_segments_frame])
    then have s5: "same_procs pcb s (s5\<lparr>entry := e\<rparr>)" by (simp add: same_procs_def)
    assume "mm_alloc (pgdir (PCBPool s5 pcb)) (USTACKTOP - USTACKSIZE) USTACKSIZE (s5\<lparr>entry := e\<rparr>) = Inr s6"
    from T [OF s5 same_procs_ops(1) [OF this]] have s6: "same_procs pcb s s6" .
    assume "s' = lcr3 (PADDR (kern_pgdir (init_pcb pcb (USTACKTOP - 0x80) (entry s6) 3 s6))) (init_pcb pcb (USTACKTOP - 0x80) (entry s6) 3 s6)"
    then show ?thesis using T [OF s6 T [OF init_pcb_frame same_procs_paging]] by simp
  qed (use s4 in simp)
qed

end
