(* ===== verification/Kernel_Start.thy ===== *)
theory Kernel_Start
  imports Syscall_Lib Descriptors Loader_Frame
begin

text \<open>
  The start of the kernel, \<^verbatim>\<open>src/kernel/src/kernel.c\<close>: \<^verbatim>\<open>main\<close> calls the initialisers of all components, creates the
  idle process and the shell, and enters the scheduler.  The lemmas connect the start with the invariant
  that \<open>System\<close> and \<open>Syscall\<close> keep; \<open>First_Process\<close> has the theorem about the whole start.
\<close>

section \<open>The machine\<close>

text \<open>
  The kernel state beside the tables of the processor and the bytes written to the ports of the devices; \<open>linkmap\<close> holds
  the addresses that the linker has chosen, and what the stack held where \<^verbatim>\<open>init_fs\<close> puts its buffer.
\<close>

record machine =
  kern :: kernst
  desc :: descst
  gates :: idt
  idtr :: "u16 \<times> u16 \<times> u16"
  ports :: outs

record linkmap =
  gdt_addr :: u32
  tss_addr :: u32
  idt_addr :: u32
  handlers :: "entry_point \<Rightarrow> u32"
  idle_addr :: u32
  cshell_str :: u32
  fs_stack :: "u8 list"

section \<open>The idle process\<close>

text \<open>\<open>idle n r\<close>: the registers at the traps of the first \<open>n\<close> turns of \<^verbatim>\<open>while(1) yield();\<close>.\<close>

primrec idle :: "nat \<Rightarrow> regs \<Rightarrow> regs list" where
  "idle 0 r = []"
| "idle (Suc n) r = sys_handout r # idle n (sys_handout r)"

section \<open>main\<close>

definition start_process :: "(nat \<Rightarrow> kernst \<Rightarrow> kernst res) \<Rightarrow> kernst \<Rightarrow> kernst res" where
  "start_process load s =
     bind_res (pcb_create s) (\<lambda>(pcb, s).
     bind_res (deref pcb) (\<lambda>pcb.
     bind_res (load pcb s) (\<lambda>s. Inr (enready_pcb pcb s))))"

definition kernel_main :: "linkmap \<Rightarrow> machine \<Rightarrow> machine ctl res" where
  "kernel_main k m =
     (let m = m\<lparr>kern := page_init (kern m)\<rparr>;
          m = m\<lparr>desc := init_segment (gdt_addr k) (tss_addr k) (desc m)\<rparr>;
          m = m\<lparr>ports := ports m @ init_serial\<rparr>;
          m = m\<lparr>ports := ports m @ init_timer\<rparr>;
          m = (case init_idt (idt_addr k) (handlers k) (gates m) of (r, t) \<Rightarrow> m\<lparr>idtr := r, gates := t\<rparr>);
          m = m\<lparr>ports := ports m @ init_intr\<rparr>
      in bind_res (init_fs (fs_stack k) (kern m)) (\<lambda>s.
         let s = init_pcb_pool s in
         bind_res (printk (''This is kernel!'' @ NL) [] s) (\<lambda>s.
         bind_res (start_process (\<lambda>pidle s. Inr (empty_loader pidle (idle_addr k) s)) s) (\<lambda>s.
         bind_res (start_process (\<lambda>pshell s. bind_res (loader_file pshell (cshell_str k) s) (\<lambda>(_, s). Inr s)) s) (\<lambda>s.
         bind_res (do_scheduler s) (\<lambda>ct.
         Inr (case ct of Returns s \<Rightarrow> Returns (m\<lparr>kern := s\<rparr>) | Switched s \<Rightarrow> Switched (m\<lparr>kern := s\<rparr>))))))))"

section \<open>Creating processes\<close>

lemma same_procs_fields:
  assumes "same_procs q s s'"
  shows "nxt (PCBPool s' p) = nxt (PCBPool s p)" "join_list (PCBPool s' p) = join_list (PCBPool s p)"
    "ts (PCBPool s' p) = ts (PCBPool s p)" "used (PCBPool s' p) = used (PCBPool s p)"
proof -
  have "(PCBPool s' p)\<lparr>tf := 0, tt := KERNEL\<rparr> = (PCBPool s p)\<lparr>tf := 0, tt := KERNEL\<rparr>"
    using assms by (cases "p = q") (simp_all add: same_procs_def)
  then show "nxt (PCBPool s' p) = nxt (PCBPool s p)" "join_list (PCBPool s' p) = join_list (PCBPool s p)"
    "ts (PCBPool s' p) = ts (PCBPool s p)" "used (PCBPool s' p) = used (PCBPool s p)"
    by (cases "PCBPool s' p"; cases "PCBPool s p"; simp)+
qed

lemma enready_pushes:
  assumes "lists_ok L s" "p < PCBPOOLMAX" "\<And>h. p \<notin> set (L h)"
  shows "lists_ok (L(Ready_list := p # L Ready_list)) (enready_pcb p s)"
proof -
  obtain r s' where s': "ll_push Ready_list (Some p) s = Inr (r, s')" "lists_ok (L(Ready_list := p # L Ready_list)) s'"
    using ll_push_fresh [OF assms] by blast
  have n: "nexts (enready_pcb p s) = nexts s'"
    using s'(1) by (auto simp: ll_push_def enready_pcb_def Let_def fun_eq_iff nexts_def upd_pcb_def split: option.splits)
  have "get_head h (enready_pcb p s) = get_head h s'" for h
    using s'(1) by (cases h) (auto simp: ll_push_def enready_pcb_def Let_def upd_pcb_def split: option.splits)
  from lists_ok_cong [OF n this] s'(2) show ?thesis by simp
qed

text \<open>
  \<open>started n s\<close>: the first \<open>n\<close> processes have been created and are ready, the last one first; nothing runs yet and no
  semaphore has been used.
\<close>

definition started_queues :: "nat \<Rightarrow> ll_head \<Rightarrow> nat list" where
  "started_queues n h = (if h = Ready_list then rev [0..<n] else [])"

definition started :: "nat \<Rightarrow> 'a procst_scheme \<Rightarrow> bool" where
  "started n s \<longleftrightarrow> lists_ok (started_queues n) s \<and> current s = None \<and> (\<forall>p. ts (PCBPool s p) = READY) \<and>
     (\<forall>p < PCBPOOLMAX. used (PCBPool s p) = 0 \<longleftrightarrow> n \<le> p) \<and> (\<forall>a. sem_used (sems s a) = 0)"

lemma find_unused_started:
  assumes "\<forall>p < PCBPOOLMAX. used (pool p) = 0 \<longleftrightarrow> n \<le> p" "PCBPOOLMAX - k \<le> n" "n < PCBPOOLMAX" "k \<le> PCBPOOLMAX"
  shows "find_unused k pool = n"
  using assms(2,4)
proof (induction k)
  case (Suc k)
  let ?i = "PCBPOOLMAX - Suc k"
  have u: "used (pool ?i) = 0 \<longleftrightarrow> n \<le> ?i" using assms(1) Suc.prems by simp
  show ?case
  proof (cases "n \<le> ?i")
    case True
    then show ?thesis using u Suc.prems(1) by (simp add: Let_def)
  next
    case False
    then show ?thesis using u Suc.IH Suc.prems(2) by (simp add: Let_def)
  qed
qed (use assms(3) in simp)

lemma pcb_create_started:
  assumes "started n s" "n < PCBPOOLMAX" "free_list s (f # ps)"
  shows "\<exists>s'. pcb_create s = Inr (Some n, s') \<and> free_list s' ps \<and> lists_ok (started_queues n) s' \<and> current s' = None \<and>
    (\<forall>p. ts (PCBPool s' p) = READY) \<and> (\<forall>p < PCBPOOLMAX. used (PCBPool s' p) = 0 \<longleftrightarrow> Suc n \<le> p) \<and>
    sems s' = sems s \<and> (\<forall>p. p \<noteq> n \<longrightarrow> PCBPool s' p = PCBPool s p)"
proof -
  have i: "find_unused PCBPOOLMAX (PCBPool s) = n"
    using assms(1,2) by (intro find_unused_started) (simp_all add: started_def)
  let ?s = "upd_pcb n (\<lambda>p. p\<lparr>used := 1\<rparr>) (upd_pcb n (\<lambda>p. p\<lparr>fcb := (\<lambda>j. if j < FCBMAX then - 1 else fcb p j)\<rparr>)
     (upd_pcb n (\<lambda>p. p\<lparr>tf := tfPool_addr s + of_nat (TF_SIZE * n)\<rparr>) s))"
  have "free_list ?s (f # ps)" using assms(3) by (simp add: free_list_def upd_pcb_def)
  then obtain s1 where s1: "page_alloc ALLOC_ZERO ?s = (Some f, s1)" "free_list s1 ps" using page_alloc_top by blast
  have m: "pagingst.more s1 = pagingst.more ?s" by (rule page_alloc_frame [OF s1(1)])
  have s1f: "PCBPool s1 = PCBPool ?s" "current s1 = current ?s" "ready_list s1 = ready_list ?s" "sleep_list s1 = sleep_list ?s"
    "sems s1 = sems ?s" using m by (cases s1; cases ?s; simp)+
  let ?upd = "\<lambda>s. upd_pcb n (\<lambda>p. p\<lparr>timeslice := 0\<rparr>) (upd_pcb n (\<lambda>p. p\<lparr>pid := next_pid s\<rparr>) (upd_pcb n (\<lambda>p. p\<lparr>pgdir := page2kva f\<rparr>) s))"
  define s2 where "s2 = ?upd s1"
  define s3 where "s3 = page_incref f (s2\<lparr>next_pid := next_pid s2 + 1\<rparr>)"
  define s4 where "s4 = memcpy (page2kva f) (kern_pgdir s3) PGSIZE s3"
  have c: "pcb_create s = Inr (Some n, s4)"
    using assms(2) s1(1) unfolding pcb_create_def i s4_def s3_def s2_def Let_def by (simp add: upd_pcb_def)
  have m4: "pagingst.more s4 = pagingst.more (s2\<lparr>next_pid := next_pid s2 + 1\<rparr>)" by (simp add: s4_def s3_def)
  have f4: "PCBPool s4 = PCBPool s2" "current s4 = current s2" "ready_list s4 = ready_list s2" "sleep_list s4 = sleep_list s2"
    "sems s4 = sems s2" using m4 by (cases s4; cases s2; simp)+
  have pool: "p \<noteq> n \<Longrightarrow> PCBPool s4 p = PCBPool s p" "nxt (PCBPool s4 p) = nxt (PCBPool s p)"
    "join_list (PCBPool s4 p) = join_list (PCBPool s p)" "ts (PCBPool s4 p) = ts (PCBPool s p)"
    "used (PCBPool s4 p) = (if p = n then 1 else used (PCBPool s p))" for p
    unfolding f4(1) s2_def by (simp_all add: upd_pcb_def s1f(1))
  have rest: "current s4 = current s" "ready_list s4 = ready_list s" "sleep_list s4 = sleep_list s" "sems s4 = sems s"
    unfolding f4 s2_def by (simp_all add: upd_pcb_def s1f)
  have "nexts s4 = nexts s" by (simp add: nexts_def pool fun_eq_iff)
  moreover have "get_head h s4 = get_head h s" for h by (cases h) (simp_all add: rest pool)
  ultimately have "lists_ok (started_queues n) s4 = lists_ok (started_queues n) s" by (intro lists_ok_cong)
  moreover have "free_list s2 ps" using s1(2) by (simp add: s2_def free_list_def upd_pcb_def)
  then have "free_list (s2\<lparr>next_pid := next_pid s2 + 1\<rparr>) ps" by (simp add: free_list_def)
  then have "free_list s3 ps" by (simp add: s3_def)
  then have "free_list s4 ps" by (simp add: s4_def memcpy_def)
  ultimately show ?thesis using c assms(1,2) rest pool by (auto simp: started_def Suc_le_eq)
qed

lemma started_enready:
  assumes "lists_ok (started_queues n) s" "current s = None" "\<forall>p. ts (PCBPool s p) = READY"
    "\<forall>p < PCBPOOLMAX. used (PCBPool s p) = 0 \<longleftrightarrow> Suc n \<le> p" "\<forall>a. sem_used (sems s a) = 0" "n < PCBPOOLMAX"
  shows "started (Suc n) (enready_pcb n s)"
proof -
  have "n \<notin> set (started_queues n h)" for h by (simp add: started_queues_def)
  from enready_pushes [OF assms(1,6) this] have "lists_ok ((started_queues n)(Ready_list := n # started_queues n Ready_list)) (enready_pcb n s)" .
  moreover have "(started_queues n)(Ready_list := n # started_queues n Ready_list) = started_queues (Suc n)"
    by (auto simp: started_queues_def fun_eq_iff)
  ultimately show ?thesis using assms(2-5)
    by (auto simp: started_def enready_pcb_def Let_def upd_pcb_def split: option.splits)
qed

lemma start_process_started:
  assumes "started n s" "n < PCBPOOLMAX" "free_list s (f # ps)"
    and "\<And>s1 s2. load n s1 = Inr s2 \<Longrightarrow> same_procs n s1 s2"
  shows "\<exists>s1. pcb_create s = Inr (Some n, s1) \<and> free_list s1 ps \<and> (\<forall>p. p \<noteq> n \<longrightarrow> PCBPool s1 p = PCBPool s p) \<and>
    start_process load s = bind_res (load n s1) (\<lambda>s2. Inr (enready_pcb n s2)) \<and>
    (\<forall>s2. load n s1 = Inr s2 \<longrightarrow> started (Suc n) (enready_pcb n s2))"
proof -
  obtain s1 where s1: "pcb_create s = Inr (Some n, s1)" "free_list s1 ps" "lists_ok (started_queues n) s1" "current s1 = None"
    "\<forall>p. ts (PCBPool s1 p) = READY" "\<forall>p < PCBPOOLMAX. used (PCBPool s1 p) = 0 \<longleftrightarrow> Suc n \<le> p" "sems s1 = sems s"
    "\<forall>p. p \<noteq> n \<longrightarrow> PCBPool s1 p = PCBPool s p" using pcb_create_started [OF assms(1-3)] by blast
  have "started (Suc n) (enready_pcb n s2)" if "load n s1 = Inr s2" for s2
  proof -
    note sp = assms(4) [OF that]
    have eqs: "current s2 = current s1" "ready_list s2 = ready_list s1" "sleep_list s2 = sleep_list s1" "sems s2 = sems s1"
      using sp by (simp_all add: same_procs_def)
    note fs = same_procs_fields [OF sp]
    have "nexts s2 = nexts s1" by (simp add: nexts_def fs fun_eq_iff)
    moreover have "get_head h s2 = get_head h s1" for h by (cases h) (simp_all add: fs eqs)
    ultimately have "lists_ok (started_queues n) s2" using s1(3) lists_ok_cong by blast
    then show ?thesis using s1 assms(1,2) by (intro started_enready) (simp_all add: fs eqs started_def)
  qed
  then show ?thesis using s1(1,2,8) by (auto simp: start_process_def)
qed

section \<open>The kernel starts\<close>

text \<open>The state that \<^verbatim>\<open>bootmain\<close> leaves: static storage is clear.\<close>

definition fresh_kernel :: "nat \<Rightarrow> nat \<Rightarrow> 'a procst_scheme \<Rightarrow> bool" where
  "fresh_kernel D T s \<longleftrightarrow> boot_state D T s \<and> current s = None \<and> ready_list s = None \<and> sleep_list s = None \<and>
     (\<forall>p. nxt (PCBPool s p) = None \<and> join_list (PCBPool s p) = None \<and> ts (PCBPool s p) = READY) \<and>
     (\<forall>a. sems s a = \<lparr>sem_used = 0, sem_count = 0, block_list = None\<rparr>)"

lemma init_pool_slots:
  "PCBPool (init_pcb_pool_loop n s) p = (if p < n then (PCBPool s p)\<lparr>used := 0\<rparr> else PCBPool s p)"
  by (induction n) (auto simp: upd_pcb_def less_Suc_eq)

lemma init_pool_rest:
  "init_pcb_pool_loop n s = s\<lparr>PCBPool := PCBPool (init_pcb_pool_loop n s)\<rparr>"
proof -
  have "\<exists>P. init_pcb_pool_loop n s = s\<lparr>PCBPool := P\<rparr>"
  proof (induction n)
    case 0
    show ?case by (rule exI [of _ "PCBPool s"]) simp
  qed (auto simp: upd_pcb_def)
  then show ?thesis by auto
qed

lemma init_fs_frame:
  assumes "init_fs stk s = Inr s'"
  shows "fs_erase s' = fs_erase (s\<lparr>serial := serial s'\<rparr>)"
proof -
  let ?s = "s\<lparr>fs := (\<lambda>i. if i < NR_FILE_STREAM then (fs s i)\<lparr>st_used := 0\<rparr> else fs s i)\<rparr>"
  obtain fd s1 r out s2 r' s3 str where a: "fs_open_kr (of_string ''test.txt'') ?s = Inr (fd, s1)"
    "fs_read_kr fd 80 s1 = Inr (r, out, s2)" "fs_close_kr fd s2 = Inr (r', s3)" "printk (''%s'' @ NL) [Str (to_string str)] s3 = Inr s'"
    using assms by (auto simp: init_fs_def Let_def bind_res_eq_Inr)
  have "fs_erase s3 = fs_erase s" using fs_open_frame [OF a(1)] fs_read_frame [OF a(2)] fs_close_frame [OF a(3)] by simp
  moreover have "s' = s3\<lparr>serial := serial s'\<rparr>" using a(4) by (auto simp: printk_def bind_res_eq_Inr printk_str_def)
  ultimately show ?thesis by (cases s; cases s'; cases s3) (simp add: fs_erase_def)
qed

lemma started_zero:
  assumes "fresh_kernel D T s" "init_fs stk (page_init s) = Inr s1" "s2 = printk_str str (init_pcb_pool s1)"
  shows "started 0 s2 \<and> free_list s2 [1025..<npages]"
proof -
  have fl: "free_list (page_init s) [1025..<npages]" using page_init_effect assms(1) by (auto simp: fresh_kernel_def)
  note e = init_fs_frame [OF assms(2)]
  have "pages s1 = pages (page_init s)" "page_free_list s1 = page_free_list (page_init s)"
    using e by (cases s1; cases "page_init s"; simp add: fs_erase_def)+
  then have fl1: "free_list s1 [1025..<npages]" using fl by (simp add: free_list_def)
  have p1: "PCBPool s1 = PCBPool s" "current s1 = current s" "ready_list s1 = ready_list s" "sleep_list s1 = sleep_list s"
    "sems s1 = sems s"
    using e page_init_frame [of s] by (cases s1; cases "page_init s"; cases s; simp add: fs_erase_def)+
  have s2: "s2 = printk_str str (s1\<lparr>PCBPool := PCBPool (init_pcb_pool_loop PCBPOOLMAX s1)\<rparr>)"
    unfolding assms(3) init_pcb_pool_def by (subst init_pool_rest) simp
  have pool: "PCBPool s2 p = (if p < PCBPOOLMAX then (PCBPool s p)\<lparr>used := 0\<rparr> else PCBPool s p)" for p
    unfolding s2 by (simp add: printk_str_def init_pool_slots p1)
  have r2: "current s2 = current s" "ready_list s2 = ready_list s" "sleep_list s2 = sleep_list s" "sems s2 = sems s"
    unfolding s2 by (simp_all add: printk_str_def p1)
  have z: "nxt (PCBPool s p) = None" "join_list (PCBPool s p) = None" "ts (PCBPool s p) = READY" "current s = None"
    "ready_list s = None" "sleep_list s = None" "sems s a = \<lparr>sem_used = 0, sem_count = 0, block_list = None\<rparr>" for p a
    using assms(1) by (simp_all add: fresh_kernel_def)
  have "get_head h s2 = None" for h by (cases h) (simp_all add: r2 z pool)
  then have "lists_ok (started_queues 0) s2" by (auto simp: lists_ok_def started_queues_def nexts_def pool z)
  moreover have "free_list s2 [1025..<npages]" using fl1 unfolding s2 by (simp add: free_list_def printk_str_def)
  ultimately show ?thesis by (simp add: started_def r2 z pool)
qed

lemma frames: "[1025..<npages] = 1025 # [1026..<npages]" "[1026..<npages] = 1026 # [1027..<npages]"
proof -
  have "[n..<npages] = n # [Suc n..<npages]" if "n < 2000" for n
    using that by (intro upt_conv_Cons) (simp add: npages_def)
  from this [of 1025] this [of 1026] show "[1025..<npages] = 1025 # [1026..<npages]" "[1026..<npages] = 1026 # [1027..<npages]"
    by simp_all
qed

lemma init_pcb_kernel [simp]: "tt (PCBPool (init_pcb p ustack ent 0 s) p) = KERNEL"
  by (simp add: init_pcb_def Let_def upd_pcb_def)

lemma free_list_procs [simp]:
  "free_list (enready_pcb p s) ps = free_list s ps" "free_list (empty_loader p ptr s) ps = free_list s ps"
proof -
  show "free_list (enready_pcb p s) ps = free_list s ps"
    by (simp add: free_list_def enready_pcb_def upd_pcb_def Let_def split: option.split)
  have upd: "free_list (upd_pcb q f s) ps = free_list s ps" "free_list (lcr3 v s) ps = free_list s ps"
    "free_list (memcpy d c n s) ps = free_list s ps" "free_list (store16 a w s) ps = free_list s ps"
    "free_list (s\<lparr>entry := w\<rparr>) ps = free_list s ps"
    for q f v d c n a w and s :: kernst
    by (simp_all add: free_list_def upd_pcb_def lcr3_def memcpy_def store16_def store_def)
  have "free_list (init_pcb q u e pri s) ps = free_list s ps" for q u e pri and s :: kernst
    by (simp add: init_pcb_def set_frame_segments_def Let_def upd)
  then show "free_list (empty_loader p ptr s) ps = free_list s ps"
    by (simp add: empty_loader_def Let_def upd)
qed

lemma started_runs:
  assumes "started 2 s" "tt (PCBPool s 0) = KERNEL"
  shows "\<exists>s'. do_scheduler s = Inr (Switched s') \<and> kernel_ok 0 (started_queues 1) s' \<and> dispatched 1 s' \<and>
    tt (PCBPool s' 0) = KERNEL"
proof -
  have ok: "lists_ok (started_queues 2) s" "current s = None" "\<forall>p. ts (PCBPool s p) = READY" "\<forall>a. sem_used (sems s a) = 0"
    using assms(1) by (simp_all add: started_def)
  have q: "started_queues 2 Ready_list = 1 # [0]" by (simp add: started_queues_def upt_rec)
  have q1: "(started_queues 2)(Ready_list := [0]) = started_queues 1" by (auto simp: started_queues_def)
  obtain s' where s': "do_scheduler s = Inr (Switched s')" "dispatched 1 s'" "lists_ok (started_queues 1) s'"
    "ts (PCBPool s' 0) = ts (PCBPool s 0)" "\<forall>a. sem_used (sems s' a) = sem_used (sems s a)"
    using do_scheduler_pick [OF ok(1,2) q] unfolding q1 by (metis zero_neq_one)
  have sem: "sem_ok ((started_queues 2)(Ready_list := [0])) s' a" for a
    using s'(5) ok(4) by (simp add: sem_ok_def started_queues_def)
  have "kernel_ok 0 ((started_queues 2)(Ready_list := [0])) s'"
    by (rule kernel_ok_dispatched [OF ok(1) q _ s'(2)]) (use s'(3,4) ok(3) q1 sem in \<open>simp_all add: q\<close>)
  moreover have "sched_frame s' = sched_frame s" using do_scheduler_frame [OF s'(1)] by simp
  then have "pcb_frame (PCBPool s' 0) = pcb_frame (PCBPool s 0)"
    unfolding sched_frame_def by (cases s; cases s') (simp add: fun_eq_iff)
  then have "tt (PCBPool s' 0) = KERNEL" using assms(2) by (cases "PCBPool s' 0"; cases "PCBPool s 0") (simp add: pcb_frame_def)
  ultimately show ?thesis using s'(1,2) q1 by auto
qed

text \<open>
  The run of \<^verbatim>\<open>main\<close> after \<^verbatim>\<open>init_fs\<close> has read its file: the idle process is created in \<open>s3\<close> and the shell in \<open>s4\<close>, and everything depends on
  what the loader does with the shell in this state.  If it loads the shell, \<^verbatim>\<open>main\<close> ends by dispatching it, with the idle process behind it, in a
  state that satisfies the invariant that interrupts keep; if it faults, so does \<^verbatim>\<open>main\<close>.
\<close>

lemma kernel_main_runs:
  assumes "fresh_kernel D T (kern m)" "init_fs (fs_stack k) (page_init (kern m)) = Inr s1"
    and s2: "s2 = printk_str (''This is kernel!'' @ NL) (init_pcb_pool s1)"
  shows "\<exists>s3 s4. pcb_create s2 = Inr (Some 0, s3) \<and> free_list s2 [1025..<npages] \<and> started 0 s2 \<and>
    pcb_create (enready_pcb 0 (empty_loader 0 (idle_addr k) s3)) = Inr (Some 1, s4) \<and>
    free_list (enready_pcb 0 (empty_loader 0 (idle_addr k) s3)) [1026..<npages] \<and> started 1 (enready_pcb 0 (empty_loader 0 (idle_addr k) s3)) \<and>
    (case loader_file 1 (cshell_str k) s4 of
       Inl e \<Rightarrow> kernel_main k m = Inl e
     | Inr (r, s5) \<Rightarrow> \<exists>s6. do_scheduler (enready_pcb 1 s5) = Inr (Switched s6) \<and> kernel_ok 0 (started_queues 1) s6 \<and> dispatched 1 s6 \<and>
         tt (PCBPool s6 0) = KERNEL \<and> kernel_main k m = Inr (Switched (m\<lparr>desc := init_segment (gdt_addr k) (tss_addr k) (desc m),
           idtr := fst (init_idt (idt_addr k) (handlers k) (gates m)), gates := snd (init_idt (idt_addr k) (handlers k) (gates m)),
           ports := ports m @ init_serial @ init_timer @ init_intr, kern := s6\<rparr>)))"
proof -
  have p: "printk (''This is kernel!'' @ NL) [] (init_pcb_pool s1) = Inr s2"
  proof -
    have "vfprintf (''This is kernel!'' @ NL) False [] = Inr (''This is kernel!'' @ NL)" by code_simp
    then show ?thesis by (simp add: printk_def s2)
  qed
  from started_zero [OF assms] have st2: "started 0 s2" "free_list s2 (1025 # [1026..<npages])"
    by (simp_all only: frames)
  let ?idle = "\<lambda>pidle s. Inr (empty_loader pidle (idle_addr k) s)"
  let ?shell = "\<lambda>pshell s. bind_res (loader_file pshell (cshell_str k) s) (\<lambda>(_, s). Inr s)"
  let ?m = "m\<lparr>desc := init_segment (gdt_addr k) (tss_addr k) (desc m),
     idtr := fst (init_idt (idt_addr k) (handlers k) (gates m)), gates := snd (init_idt (idt_addr k) (handlers k) (gates m)),
     ports := ports m @ init_serial @ init_timer @ init_intr\<rparr>"
  have main: "kernel_main k m = bind_res (start_process ?idle s2) (\<lambda>s. bind_res (start_process ?shell s) (\<lambda>s.
      bind_res (do_scheduler s) (\<lambda>ct. Inr (case ct of Returns s \<Rightarrow> Returns (?m\<lparr>kern := s\<rparr>) | Switched s \<Rightarrow> Switched (?m\<lparr>kern := s\<rparr>)))))"
    unfolding kernel_main_def Let_def using assms(2) p by (simp add: case_prod_beta cong: ctl.case_cong)
  have "same_procs 0 s (empty_loader 0 (idle_addr k) s)" for s
    unfolding empty_loader_def Let_def
    by (rule same_procs_trans [OF _ same_procs_paging]; simp?; rule same_procs_trans [OF _ init_pcb_frame])
      (simp add: same_procs_def lcr3_def)
  then have "(\<And>s1 s3. ?idle 0 s1 = Inr s3 \<Longrightarrow> same_procs 0 s1 s3)" by auto
  from start_process_started [of 0 s2 1025 "[1026..<npages]" ?idle, OF st2(1) _ st2(2) this] obtain s3
    where i: "pcb_create s2 = Inr (Some 0, s3)" "free_list s3 [1026..<npages]"
      "start_process ?idle s2 = Inr (enready_pcb 0 (empty_loader 0 (idle_addr k) s3))"
      "started 1 (enready_pcb 0 (empty_loader 0 (idle_addr k) s3))" by (auto simp: PCBPOOLMAX_def)
  let ?s = "enready_pcb 0 (empty_loader 0 (idle_addr k) s3)"
  have k0: "tt (PCBPool ?s 0) = KERNEL"
    by (auto simp: empty_loader_def Let_def lcr3_def enready_pcb_def upd_pcb_def split: option.split)
  have fl: "free_list ?s (1026 # [1027..<npages])" using i(2) unfolding frames(2) [symmetric] by simp
  have sp: "same_procs 1 s s'" if "?shell 1 s = Inr s'" for s s'
    using that by (auto simp: bind_res_eq_Inr dest: loader_file_frame)
  from start_process_started [of 1 ?s 1026 "[1027..<npages]" ?shell, OF i(4) _ fl sp] obtain s4
    where j: "pcb_create ?s = Inr (Some 1, s4)" "\<forall>p. p \<noteq> 1 \<longrightarrow> PCBPool s4 p = PCBPool ?s p"
      "start_process ?shell ?s = bind_res (?shell 1 s4) (\<lambda>s2. Inr (enready_pcb 1 s2))"
      "\<forall>s2. ?shell 1 s4 = Inr s2 \<longrightarrow> started (Suc 1) (enready_pcb 1 s2)"
    unfolding PCBPOOLMAX_def by auto
  have "case loader_file 1 (cshell_str k) s4 of
       Inl e \<Rightarrow> kernel_main k m = Inl e
     | Inr (r, s5) \<Rightarrow> \<exists>s6. do_scheduler (enready_pcb 1 s5) = Inr (Switched s6) \<and> kernel_ok 0 (started_queues 1) s6 \<and> dispatched 1 s6 \<and>
         tt (PCBPool s6 0) = KERNEL \<and> kernel_main k m = Inr (Switched (?m\<lparr>kern := s6\<rparr>))"
  proof (cases "loader_file 1 (cshell_str k) s4")
    case (Inl e)
    then show ?thesis by (simp add: main i(3) j(3))
  next
    case (Inr x)
    obtain r s5 where x: "x = (r, s5)" by fastforce
    have l: "?shell 1 s4 = Inr s5" using Inr by (simp add: x)
    have "PCBPool s5 0 = PCBPool ?s 0" using sp [OF l] j(2) by (simp add: same_procs_def)
    then have "tt (PCBPool (enready_pcb 1 s5) 0) = KERNEL"
      using k0 by (auto simp: enready_pcb_def upd_pcb_def Let_def split: option.split)
    moreover have "started 2 (enready_pcb 1 s5)" using j(4) l by (simp add: numeral_2_eq_2)
    ultimately obtain s6 where "do_scheduler (enready_pcb 1 s5) = Inr (Switched s6)" "kernel_ok 0 (started_queues 1) s6" "dispatched 1 s6"
      "tt (PCBPool s6 0) = KERNEL" using started_runs by blast
    then show ?thesis using Inr x by (simp add: main i(3) j(3))
  qed
  then show ?thesis using i(1,4) j(1) st2(1) fl st2(2) unfolding frames [symmetric] by blast
qed

text \<open>
  The free list does not start behind the kernel's static storage: the kernel is linked at 1 MiB, and the last process descriptors of a pool at or above this
  address lie in frames of the free list.
\<close>

lemma pool_in_free_frames:
  assumes "PCBPool_addr s = KERNBASE + of_nat b" "0x100000 \<le> b" "b + 0x246C * 1000 \<le> PHY_MEM" "boot_state D T s"
  shows "\<exists>ps. pcb_addr s 999 = KERNBASE + of_nat (b + 0x246C * 999) \<and> (b + 0x246C * 999) div 4096 \<in> set ps \<and> free_list (page_init s) ps"
proof -
  have "1025 \<le> (b + 0x246C * 999) div 4096" "(b + 0x246C * 999) div 4096 < npages"
    using assms(2,3) by (simp_all add: PHY_MEM_def npages_def less_mult_imp_div_less)
  then have "(b + 0x246C * 999) div 4096 \<in> set [1025..<npages]" by simp
  moreover have "free_list (page_init s) [1025..<npages]" using page_init_effect [OF assms(4)] by blast
  moreover have "pcb_addr s 999 = KERNBASE + of_nat (b + 0x246C * 999)" using assms(1) by (simp add: pcb_addr_def PCB_SIZE_def)
  ultimately show ?thesis by blast
qed

definition boot_sample :: machine where
  "boot_sample = \<lparr>kern = (trap_sample 0 0 0)\<lparr>kpgdir := waddr 0, kpgtable := waddr 1024, page_free_list := None,
      current := None, ready_list := None, sleep_list := None, PCBPool := (\<lambda>_. blank_pcb),
      sems := (\<lambda>_. \<lparr>sem_used = 0, sem_count = 0, block_list = None\<rparr>)\<rparr>,
    desc = \<lparr>gdt = (\<lambda>_. 0), tss_ss0 = 0, gdtr = (0, 0, 0), tr = 0\<rparr>, gates = (\<lambda>_. (0, 0)), idtr = (0, 0, 0), ports = []\<rparr>"

definition link_sample :: linkmap where
  "link_sample = \<lparr>gdt_addr = 0xC0130000, tss_addr = 0xC0131000, idt_addr = 0xC0132000, handlers = (\<lambda>_. 0xC0101000),
     idle_addr = 0xC0102000, cshell_str = 0xC0103000, fs_stack = [0]\<rparr>"

lemma boot_sample_fresh: "fresh_kernel 0 1024 (kern boot_sample)"
proof -
  have "mem (trap_sample 0 0 0) a = 0" for a
    by (simp add: trap_sample_def fs_sample_def fsst.defs procst.defs upd_pcb_def)
  then show ?thesis
    by (simp add: fresh_kernel_def boot_state_def boot_sample_def tables_apart_def blank_pcb_def)
qed

text \<open>The idle process keeps the promise that the invariant asks of it: all it ever does is to yield.\<close>

lemma idle_yields:
  assumes "r' \<in> set (idle n r)" "carries t r' s"
  shows "syscall_event t s = Some Yield \<and> admissible p Yield s"
proof -
  have "r_eax r' = SYS_HANDOUT" using assms(1) by (induction n arbitrary: r) (auto simp: sys_handout_def)
  then show ?thesis using assms(2) by (simp add: carries_def syscall_event_def Let_def)
qed

end
