(* ===== verification/Address_Space.thy ===== *)
theory Address_Space
  imports Kernel_Start
begin

text \<open>
  Address spaces: a page directory as a partial function from page numbers to frame numbers, and what \<^verbatim>\<open>mm_alloc\<close> does to it
  while the free list is the upper end of the memory, as \<^verbatim>\<open>page_init\<close> leaves it.
\<close>

section \<open>The abstraction\<close>

text \<open>\<open>slot m f k\<close>: the frame that entry \<open>k\<close> of the table in frame \<open>f\<close> points to, if it is present; used for both levels.\<close>

definition slot :: "wmem \<Rightarrow> nat \<Rightarrow> nat \<Rightarrow> nat option" where
  "slot m f k = (let e = m (waddr (1024 * f + k)) in if e AND PTE_P = 0 then None else Some (pa2page (PTE_ADDR e)))"

definition page_map :: "wmem \<Rightarrow> nat \<Rightarrow> nat \<Rightarrow> nat option" where
  "page_map m d v = (case slot m d (v div 1024) of None \<Rightarrow> None | Some t \<Rightarrow> slot m t (v mod 1024))"

lemma pa2page_frame: "page2pa (pa2page (PTE_ADDR e)) = PTE_ADDR e"
proof (rule bit_word_eqI)
  fix n assume n: "n < LENGTH(32)"
  show "bit (page2pa (pa2page (PTE_ADDR e))) n = bit (PTE_ADDR e) n"
    using n unfolding page2pa_def pa2page_def PGNUM_def PTE_ADDR_def not_FFF
    by (auto simp: bit_simps)
qed

lemma slot_table: "slot m d k = Some t \<Longrightarrow> KADDR (PTE_ADDR (m (waddr (1024 * d + k)))) = waddr (1024 * t)"
  using pa2page_frame page2kva_waddr [of t] by (auto simp: slot_def Let_def page2kva_def split: if_splits)

text \<open>This is what the processor does.\<close>

lemma page_map_mmu:
  "page_map m d (unat va div 4096) = map_option (\<lambda>e. pa2page (PTE_ADDR e)) (pt_lookup m (page2kva d) va)"
proof -
  have x: "PDX va = unat va div 4096 div 1024" "PTX va = unat va div 4096 mod 1024"
    by (simp_all add: PDX_nat PTX_nat div_mult2_eq [symmetric])
  show ?thesis
  proof (cases "slot m d (PDX va)")
    case None
    then show ?thesis
      by (simp add: page_map_def x [symmetric] pt_lookup_def page2kva_waddr entry_addr_waddr) (simp add: slot_def Let_def split: if_splits)
  next
    case (Some t)
    then have "m (waddr (1024 * d + PDX va)) AND PTE_P \<noteq> 0" by (auto simp: slot_def Let_def split: if_splits)
    then show ?thesis using Some slot_table [OF Some]
      by (simp add: page_map_def x [symmetric] pt_lookup_def page2kva_waddr entry_addr_waddr Let_def) (simp add: slot_def Let_def)
  qed
qed

lemma slot_entry:
  assumes "f < 2 ^ 20" "flags AND NOT 0xFFF = 0" "flags AND PTE_P \<noteq> 0" "m (waddr (1024 * d + k)) = page2pa f OR flags"
  shows "slot m d k = Some f"
proof -
  have a: "PTE_ADDR (page2pa f OR flags) = page2pa f" by (intro PTE_ADDR_or take_bit_page2pa assms(2))
  have "pa2page (page2pa f) = f"
  proof -
    have "page2pa f = of_nat (f * 4096)" by (simp add: page2pa_def push_bit_eq_mult mult.commute)
    moreover have "unat (of_nat (f * 4096) :: u32) = f * 4096" using assms(1) by (intro unat_small) simp
    ultimately show ?thesis by (simp add: pa2page_def PGNUM_def unat_drop_bit)
  qed
  moreover have "(page2pa f OR flags) AND PTE_P \<noteq> 0" using assms(3) unfolding present_bit by (simp add: bit_or_iff)
  ultimately show ?thesis using a assms(4) by (simp add: slot_def Let_def)
qed

lemma slot_cong: "m' (waddr (1024 * f + k)) = m (waddr (1024 * f + k)) \<Longrightarrow> slot m' f k = slot m f k"
  by (simp add: slot_def)

lemma word_split: "k < 1024 \<Longrightarrow> j < 1024 \<Longrightarrow> 1024 * g + k = 1024 * t + (j :: nat) \<longleftrightarrow> g = t \<and> k = j"
proof
  assume b: "k < 1024" "j < 1024" and e: "1024 * g + k = 1024 * t + j"
  have "(1024 * g + k) div 1024 = g" "(1024 * t + j) div 1024 = t" using b by simp_all
  then show "g = t \<and> k = j" using e by simp
qed simp

lemma slot_upd:
  assumes "f < 2 ^ 18" "k < 1024" "a < 2 ^ 28" "a \<noteq> 1024 * f + k"
  shows "slot (m(waddr a := x)) f k = slot m f k"
proof (rule slot_cong)
  have "1024 * f + k < 2 ^ 28" using assms(1,2) by simp
  then show "(m(waddr a := x)) (waddr (1024 * f + k)) = m (waddr (1024 * f + k))" using assms(3,4) by (simp add: waddr_eq_iff)
qed

text \<open>
  \<open>space_ok d n s\<close>: the directory is in frame \<open>d\<close>, its tables are distinct frames other than \<open>d\<close>, and all of them are below \<open>n\<close>, where the
  free memory begins.
\<close>

definition space_ok :: "nat \<Rightarrow> nat \<Rightarrow> 'a pagingst_scheme \<Rightarrow> bool" where
  "space_ok d n s \<longleftrightarrow> free_list s [n..<npages] \<and> d < n \<and>
     (\<forall>k < 1024. \<forall>t. slot (mem s) d k = Some t \<longrightarrow> t < n \<and> t \<noteq> d) \<and>
     (\<forall>j < 1024. \<forall>k < 1024. \<forall>t. slot (mem s) d j = Some t \<longrightarrow> slot (mem s) d k = Some t \<longrightarrow> j = k)"

text \<open>\<open>table_frame\<close>: the frames that hold the directory or a table of it.\<close>

definition table_frame :: "wmem \<Rightarrow> nat \<Rightarrow> nat \<Rightarrow> bool" where
  "table_frame m d f \<longleftrightarrow> f = d \<or> (\<exists>k < 1024. slot m d k = Some f)"

text \<open>\<open>keeps_data d n m m'\<close>: below frame \<open>n\<close> there is no new table, and all frames that are not tables keep their contents.\<close>

definition keeps_data :: "nat \<Rightarrow> nat \<Rightarrow> wmem \<Rightarrow> wmem \<Rightarrow> bool" where
  "keeps_data d n m m' \<longleftrightarrow> (\<forall>g < n. table_frame m' d g \<longrightarrow> table_frame m d g) \<and>
     (\<forall>g < n. \<forall>k < 1024. \<not> table_frame m d g \<longrightarrow> m' (waddr (1024 * g + k)) = m (waddr (1024 * g + k)))"

lemma keeps_data_trans: "keeps_data d n m m1 \<Longrightarrow> keeps_data d n' m1 m2 \<Longrightarrow> n \<le> n' \<Longrightarrow> keeps_data d n m m2"
  unfolding keeps_data_def by (metis order_less_le_trans)

definition PERM :: u32 where "PERM = PTE_W OR PTE_P OR PTE_U"

text \<open>Mapping a frame at a page that is not mapped yet.\<close>

definition maps_one :: "nat \<Rightarrow> nat \<Rightarrow> nat \<Rightarrow> wmem \<Rightarrow> wmem \<Rightarrow> bool" where
  "maps_one d v f m m' \<longleftrightarrow> page_map m' d v = Some f \<and> (\<forall>w < 2 ^ 20. w \<noteq> v \<longrightarrow> page_map m' d w = page_map m d w)"

lemma page_alloc_plain:
  assumes "free_list s (p # ps)"
  shows "\<exists>s'. page_alloc 0 s = (Some p, s') \<and> free_list s' ps \<and> mem s' = mem s"
proof -
  obtain s' where s': "page_alloc 0 s = (Some p, s')" "free_list s' ps" using page_alloc_top [OF assms] by blast
  then have "mem s' = mem s" by (auto simp: page_alloc_def Let_def set_page_def split: option.splits)
  then show ?thesis using s' by blast
qed

lemma insert_absent:
  assumes "pgdir_walk dirp va True s = (Some pte, s1)" "mem s1 pte AND PTE_P = 0"
  shows "page_insert dirp (Some f) va PERM s = Inr (0, page_incref f (store pte (page2pa f OR PERM) s1))"
proof -
  have "PERM OR PTE_P = PERM" by (simp add: PERM_def pg_consts)
  then show ?thesis using assms by (simp add: page_insert_def Let_def or.assoc)
qed

lemma PERM_flags: "PERM AND NOT 0xFFF = 0" "PERM AND PTE_P \<noteq> 0"
  by (simp_all add: PERM_def pg_consts)

lemma page_addr:
  assumes "v < 2 ^ 20"
  shows "PDX (of_nat (4096 * v)) = v div 1024" "PTX (of_nat (4096 * v)) = v mod 1024"
proof -
  have "unat (of_nat (4096 * v) :: u32) = 4096 * v" using assms by (intro unat_small) simp
  then show "PDX (of_nat (4096 * v)) = v div 1024" "PTX (of_nat (4096 * v)) = v mod 1024"
    unfolding PDX_nat PTX_nat by (simp_all add: div_mult2_eq [of _ 4096 1024, simplified])
qed

text \<open>First case: the table is there.\<close>

lemma map_in_table:
  assumes ok: "space_ok d n s" and n: "n \<le> npages" and v: "v < 2 ^ 20" and t: "slot (mem s) d (v div 1024) = Some t"
    and free: "slot (mem s) t (v mod 1024) = None" and f: "f < 2 ^ 20"
  shows "\<exists>s'. page_insert (page2kva d) (Some f) (of_nat (4096 * v)) PERM s = Inr (0, s') \<and> space_ok d n s' \<and>
    maps_one d v f (mem s) (mem s') \<and> keeps_data d n (mem s) (mem s')"
proof -
  let ?a = "1024 * t + v mod 1024" and ?x = "page2pa f OR PERM"
  have vd: "v div 1024 < 1024" using v by simp
  have td: "t < n" "t \<noteq> d" "d < n" using ok vd t by (auto simp: space_ok_def)
  have np: "n \<le> 32768" using n by (simp add: npages_def)
  have a: "?a < 2 ^ 28" using td(1) np by simp
  have p: "mem s (waddr (1024 * d + v div 1024)) AND PTE_P \<noteq> 0" using t by (auto simp: slot_def Let_def split: if_splits)
  have w: "pgdir_walk (page2kva d) (of_nat (4096 * v)) True s = (Some (waddr ?a), s)"
    using p slot_table [OF t] unfolding pgdir_walk_def page_addr [OF v] page2kva_waddr entry_addr_waddr Let_def
    by (simp add: entry_addr_waddr)
  have "mem s (waddr ?a) AND PTE_P = 0" using free by (auto simp: slot_def Let_def split: if_splits)
  from insert_absent [OF w this, of f]
  have i: "page_insert (page2kva d) (Some f) (of_nat (4096 * v)) PERM s = Inr (0, page_incref f (store (waddr ?a) ?x s))" .
  let ?s = "page_incref f (store (waddr ?a) ?x s)" and ?m = "(mem s)(waddr ?a := page2pa f OR PERM)"
  have same: "slot ?m g k = slot (mem s) g k" if "g < n" "k < 1024" "g \<noteq> t \<or> k \<noteq> v mod 1024" for g k
    using that np word_split [of "v mod 1024" k t g] by (intro slot_upd [OF _ _ a]) auto
  have dir: "slot ?m d k = slot (mem s) d k" if "k < 1024" for k using same td that by blast
  have new: "slot ?m t (v mod 1024) = Some f" by (rule slot_entry [OF f PERM_flags]) simp
  have m: "page_map ?m d w = (if w = v then Some f else page_map (mem s) d w)" if w: "w < 2 ^ 20" for w
  proof (cases "slot (mem s) d (w div 1024)")
    case (Some u)
    have wd: "w div 1024 < 1024" using w by simp
    have u: "u < n" using ok wd Some by (auto simp: space_ok_def)
    have "u = t \<Longrightarrow> w div 1024 = v div 1024" using ok wd vd Some t unfolding space_ok_def by blast
    then have "u = t \<and> w mod 1024 = v mod 1024 \<longrightarrow> w = v" by (metis div_mult_mod_eq)
    then have "slot ?m u (w mod 1024) = (if w = v then Some f else slot (mem s) u (w mod 1024))"
      using same [OF u, of "w mod 1024"] new t Some by auto
    then show ?thesis using dir [OF wd] Some by (simp add: page_map_def)
  next
    case None
    then show ?thesis using dir [of "w div 1024"] w t by (auto simp: page_map_def)
  qed
  have "space_ok d n ?s" using ok dir by (simp add: space_ok_def)
  moreover have "maps_one d v f (mem s) (mem ?s)" using m v by (simp add: maps_one_def)
  moreover have "mem ?s (waddr (1024 * g + k)) = mem s (waddr (1024 * g + k))" if "g < n" "k < 1024" "\<not> table_frame (mem s) d g" for g k
  proof -
    have "g \<noteq> t" using that(3) t vd by (auto simp: table_frame_def)
    then have "1024 * g + k \<noteq> ?a" using that(2) word_split [of k "v mod 1024" g t] by simp
    then show ?thesis using that(1,2) np a by simp
  qed
  moreover have "table_frame (mem ?s) d g = table_frame (mem s) d g" for g using dir by (auto simp: table_frame_def)
  ultimately show ?thesis using i by (auto simp: keeps_data_def)
qed

text \<open>Second case: the walk makes a table, in the first free frame.\<close>

lemma walk_new_table:
  assumes ok: "space_ok d n s" and n: "n < npages" and v: "v < 2 ^ 20" and none: "slot (mem s) d (v div 1024) = None"
  shows "\<exists>s'. pgdir_walk (page2kva d) (of_nat (4096 * v)) True s = (Some (waddr (1024 * n + v mod 1024)), s') \<and> space_ok d (Suc n) s' \<and>
    (\<forall>k < 1024. slot (mem s') d k = (if k = v div 1024 then Some n else slot (mem s) d k)) \<and> (\<forall>k < 1024. slot (mem s') n k = None) \<and>
    (\<forall>w < 2 ^ 20. page_map (mem s') d w = page_map (mem s) d w) \<and>
    (\<forall>g < n. \<forall>k < 1024. g \<noteq> d \<longrightarrow> mem s' (waddr (1024 * g + k)) = mem s (waddr (1024 * g + k)))"
proof -
  let ?i = "v div 1024" and ?a = "1024 * d + v div 1024" and ?x = "page2pa n OR (PTE_P OR PTE_W OR PTE_U)"
  have np: "n < 32768" using n by (simp add: npages_def)
  have d: "d < n" using ok by (simp add: space_ok_def)
  have i: "?i < 1024" using v by simp
  have a: "?a < 2 ^ 28" using d np i by simp
  have fl: "free_list s (n # [Suc n..<npages])" using ok n by (simp add: space_ok_def upt_conv_Cons)
  obtain sA where sA: "page_alloc ALLOC_ZERO s = (Some n, sA)" "free_list sA [Suc n..<npages]" using page_alloc_top [OF fl] by blast
  have top: "page_free_list s = Some n" using fl by (simp add: free_list_def)
  have mA: "mem sA (waddr k) = (if 1024 * n \<le> k \<and> k < 1024 * (n + 4) then 0 else mem s (waddr k))" if "k < 2 ^ 28" for k
    using page_alloc_zero_mem [OF top _ that] np by (simp add: sA(1))
  let ?s = "store (waddr ?a) ?x (page_incref n sA)"
  have absent: "mem s (waddr ?a) AND PTE_P = 0" using none by (auto simp: slot_def Let_def split: if_splits)
  have w: "pgdir_walk (page2kva d) (of_nat (4096 * v)) True s = (Some (waddr (1024 * n + v mod 1024)), ?s)"
    unfolding pgdir_walk_def page_addr [OF v] page2kva_waddr entry_addr_waddr Let_def
    using absent sA(1) page2kva_PADDR [of n] by (simp add: page2kva_waddr or.assoc)
  have low: "mem ?s (waddr (1024 * g + k)) = mem s (waddr (1024 * g + k))" if "g < n" "k < 1024" "g \<noteq> d \<or> k \<noteq> ?i" for g k
  proof -
    have "1024 * g + k < 1024 * n" "1024 * g + k < 2 ^ 28" using that(1,2) np by simp_all
    then show ?thesis using mA [of "1024 * g + k"] a that word_split [of k ?i g d] i by auto
  qed
  have zero: "mem ?s (waddr (1024 * n + k)) = 0" if "k < 1024" for k
    using mA [of "1024 * n + k"] that np a d i word_split [of k ?i n d] by simp
  have low_slot: "slot (mem ?s) g k = slot (mem s) g k" if "g < n" "k < 1024" "g \<noteq> d \<or> k \<noteq> ?i" for g k
    unfolding slot_def low [OF that] ..
  have new: "slot (mem ?s) d ?i = Some n"
    by (rule slot_entry [of n "PTE_P OR PTE_W OR PTE_U"]) (use np in \<open>simp_all add: pg_consts\<close>)
  have empty: "slot (mem ?s) n k = None" if "k < 1024" for k using zero [OF that] by (simp add: slot_def)
  have dir: "slot (mem ?s) d k = (if k = ?i then Some n else slot (mem s) d k)" if "k < 1024" for k
    using new low_slot [OF d that] by auto
  have tab: "t < n \<and> t \<noteq> d" if "slot (mem s) d k = Some t" "k < 1024" for k t using ok that by (auto simp: space_ok_def)
  have inj: "j = k" if "slot (mem s) d j = Some t" "slot (mem s) d k = Some t" "j < 1024" "k < 1024" for j k t
    using ok that unfolding space_ok_def by blast
  have "free_list ?s [Suc n..<npages]" using sA(2) by simp
  moreover have "t < Suc n \<and> t \<noteq> d" if "slot (mem ?s) d k = Some t" "k < 1024" for k t
    using that d tab [of k t] dir [of k] by (auto split: if_splits)
  moreover have "j = k" if "slot (mem ?s) d j = Some t" "slot (mem ?s) d k = Some t" "j < 1024" "k < 1024" for j k t
  proof -
    have "(if j = ?i then Some n else slot (mem s) d j) = Some t" "(if k = ?i then Some n else slot (mem s) d k) = Some t"
      using that(1,2) dir [OF that(3)] dir [OF that(4)] by simp_all
    then show ?thesis using tab [OF _ that(3), of t] tab [OF _ that(4), of t] inj [OF _ _ that(3,4), of t] by (auto split: if_splits)
  qed
  ultimately have "space_ok d (Suc n) ?s" using d unfolding space_ok_def by auto
  moreover have "page_map (mem ?s) d w = page_map (mem s) d w" if "w < 2 ^ 20" for w
  proof (cases "w div 1024 = ?i")
    case True
    then show ?thesis using new empty none by (simp add: page_map_def)
  next
    case False
    have "w div 1024 < 1024" using that by simp
    then have "slot (mem ?s) d (w div 1024) = slot (mem s) d (w div 1024)" using dir False by simp
    then show ?thesis using tab [OF _ \<open>w div 1024 < 1024\<close>] low_slot [of _ "w mod 1024"] by (auto simp: page_map_def split: option.split)
  qed
  ultimately show ?thesis using w dir empty low by blast
qed

lemma map_fresh:
  assumes ok: "space_ok d n s" and n: "n < npages" and v: "v < 2 ^ 20" and free: "page_map (mem s) d v = None" and f: "f < 2 ^ 20"
  shows "\<exists>s' n'. page_insert (page2kva d) (Some f) (of_nat (4096 * v)) PERM s = Inr (0, s') \<and> n \<le> n' \<and> n' \<le> Suc n \<and> space_ok d n' s' \<and>
    maps_one d v f (mem s) (mem s') \<and> keeps_data d n (mem s) (mem s')"
proof (cases "slot (mem s) d (v div 1024)")
  case (Some t)
  moreover have "slot (mem s) t (v mod 1024) = None" using free Some by (simp add: page_map_def)
  ultimately show ?thesis using map_in_table [OF ok _ v Some _ f] n le_refl [of n] le_SucI [of n n] less_imp_le [OF n] by blast
next
  case None
  obtain s1 where s1: "pgdir_walk (page2kva d) (of_nat (4096 * v)) True s = (Some (waddr (1024 * n + v mod 1024)), s1)" "space_ok d (Suc n) s1"
    "\<forall>k < 1024. slot (mem s1) d k = (if k = v div 1024 then Some n else slot (mem s) d k)" "\<forall>k < 1024. slot (mem s1) n k = None"
    "\<forall>w < 2 ^ 20. page_map (mem s1) d w = page_map (mem s) d w"
    "\<forall>g < n. \<forall>k < 1024. g \<noteq> d \<longrightarrow> mem s1 (waddr (1024 * g + k)) = mem s (waddr (1024 * g + k))"
    using walk_new_table [OF ok n v None] by blast
  have t: "slot (mem s1) d (v div 1024) = Some n" using s1(3) v by simp
  have e: "slot (mem s1) n (v mod 1024) = None" using s1(4) by simp
  then have absent: "mem s1 (waddr (1024 * n + v mod 1024)) AND PTE_P = 0" by (auto simp: slot_def Let_def split: if_splits)
  have w1: "pgdir_walk (page2kva d) (of_nat (4096 * v)) True s1 = (Some (waddr (1024 * n + v mod 1024)), s1)"
    using t slot_table [OF t] unfolding pgdir_walk_def page_addr [OF v] page2kva_waddr entry_addr_waddr Let_def
    by (auto simp: entry_addr_waddr slot_def Let_def split: if_splits)
  have same: "page_insert (page2kva d) (Some f) (of_nat (4096 * v)) PERM s = page_insert (page2kva d) (Some f) (of_nat (4096 * v)) PERM s1"
    unfolding insert_absent [OF s1(1) absent] insert_absent [OF w1 absent] ..
  have "Suc n \<le> npages" using n by simp
  from map_in_table [OF s1(2) this v t e f] obtain s' where
    s': "page_insert (page2kva d) (Some f) (of_nat (4096 * v)) PERM s1 = Inr (0, s')" "space_ok d (Suc n) s'" "maps_one d v f (mem s1) (mem s')"
      "keeps_data d (Suc n) (mem s1) (mem s')" by blast
  have "maps_one d v f (mem s) (mem s')" using s'(3) s1(5) by (simp add: maps_one_def)
  moreover have "table_frame (mem s1) d g = table_frame (mem s) d g" if "g < n" for g
  proof -
    have "slot (mem s1) d j = Some g \<longleftrightarrow> slot (mem s) d j = Some g" if "j < 1024" for j
      using s1(3) that \<open>g < n\<close> None by auto
    then show ?thesis by (auto simp: table_frame_def)
  qed
  then have "keeps_data d n (mem s) (mem s1)" using s1(6) by (auto simp: keeps_data_def table_frame_def)
  then have "keeps_data d n (mem s) (mem s')" by (rule keeps_data_trans [OF _ s'(4)]) simp
  ultimately show ?thesis using same s'(1,2) by (intro exI [of _ s'] exI [of _ "Suc n"]) simp
qed

section \<open>Allocating a range\<close>

lemma mm_alloc_loop_maps:
  assumes "space_ok d n s" "n + 2 * m \<le> npages" "v + m \<le> 2 ^ 20" "\<forall>j < m. page_map (mem s) d (v + j) = None"
  shows "\<exists>s' n' fs. mm_alloc_loop m (page2kva d) (of_nat (4096 * v)) s = Inr s' \<and> space_ok d n' s' \<and> n \<le> n' \<and> n' \<le> n + 2 * m \<and>
    map (\<lambda>j. page_map (mem s') d (v + j)) [0..<m] = map Some fs \<and> distinct fs \<and> set fs \<subseteq> {n..<n'} \<and>
    (\<forall>f \<in> set fs. \<not> table_frame (mem s') d f) \<and>
    (\<forall>w < 2 ^ 20. w < v \<or> v + m \<le> w \<longrightarrow> page_map (mem s') d w = page_map (mem s) d w) \<and> keeps_data d n (mem s) (mem s')"
  using assms
proof (induction m arbitrary: n s v)
  case 0
  then show ?case by (auto simp: keeps_data_def)
next
  case (Suc m)
  have n: "n < npages" "Suc n < npages" "n < 2 ^ 20" using Suc.prems(2) by (simp_all add: npages_def)
  have v: "v < 2 ^ 20" "v + Suc m \<le> 2 ^ 20" using Suc.prems(3) by simp_all
  have "free_list s (n # [Suc n..<npages])" using Suc.prems(1) n by (simp add: space_ok_def upt_conv_Cons)
  then obtain s1 where s1: "page_alloc 0 s = (Some n, s1)" "free_list s1 [Suc n..<npages]" "mem s1 = mem s"
    using page_alloc_plain by blast
  have ok1: "space_ok d (Suc n) s1" using Suc.prems(1) s1(2,3) by (auto simp: space_ok_def)
  have "page_map (mem s1) d v = None" using Suc.prems(4) s1(3) by (metis add_0_right zero_less_Suc)
  from map_fresh [OF ok1 n(2) v(1) this n(3)] obtain s2 n2 where
    s2: "page_insert (page2kva d) (Some n) (of_nat (4096 * v)) PERM s1 = Inr (0, s2)" "Suc n \<le> n2" "n2 \<le> Suc (Suc n)" "space_ok d n2 s2"
      "maps_one d v n (mem s) (mem s2)" "keeps_data d (Suc n) (mem s) (mem s2)" unfolding s1(3) by blast
  have un: "\<forall>j < m. page_map (mem s2) d (Suc v + j) = None"
  proof (intro allI impI)
    fix j assume j: "j < m"
    have "page_map (mem s2) d (Suc v + j) = page_map (mem s) d (v + Suc j)" using s2(5) v(2) j by (simp add: maps_one_def)
    then show "page_map (mem s2) d (Suc v + j) = None" using Suc.prems(4) [rule_format, of "Suc j"] j by simp
  qed
  have "n2 + 2 * m \<le> npages" "Suc v + m \<le> 2 ^ 20" using s2(3) Suc.prems(2,3) by simp_all
  from Suc.IH [OF s2(4) this un] obtain s' n' fs where
    s': "mm_alloc_loop m (page2kva d) (of_nat (4096 * Suc v)) s2 = Inr s'" "space_ok d n' s'" "n2 \<le> n' \<and> n' \<le> n2 + 2 * m"
      "map (\<lambda>j. page_map (mem s') d (Suc v + j)) [0..<m] = map Some fs" "distinct fs" "set fs \<subseteq> {n2..<n'}" "\<forall>f \<in> set fs. \<not> table_frame (mem s') d f"
      "\<forall>w < 2 ^ 20. w < Suc v \<or> Suc v + m \<le> w \<longrightarrow> page_map (mem s') d w = page_map (mem s2) d w" "keeps_data d n2 (mem s2) (mem s')"
    by blast
  have "mm_alloc_loop (Suc m) (page2kva d) (of_nat (4096 * v)) s = Inr s'"
    using s1(1) s2(1) s'(1) by (simp add: PERM_def [symmetric] PGSIZE_def add.commute)
  moreover have "page_map (mem s') d v = Some n" using s'(8) v(1) s2(5) by (simp add: maps_one_def)
  then have "map (\<lambda>j. page_map (mem s') d (v + j)) [0..<Suc m] = map Some (n # fs)"
    using s'(4) by (simp add: upt_conv_Cons map_Suc_upt [symmetric] o_def del: upt_Suc)
  moreover have "distinct (n # fs)" "set (n # fs) \<subseteq> {n..<n'}" using s'(3,5,6) s2(2) by auto
  moreover have "\<not> table_frame (mem s') d n"
  proof -
    have "\<not> table_frame (mem s) d n" using Suc.prems(1) unfolding space_ok_def table_frame_def by (metis less_irrefl)
    then have "\<not> table_frame (mem s2) d n" using s2(6) by (auto simp: keeps_data_def)
    then show ?thesis using s'(9) s2(2) by (auto simp: keeps_data_def)
  qed
  then have "\<forall>f \<in> set (n # fs). \<not> table_frame (mem s') d f" using s'(7) by simp
  moreover have "\<forall>w < 2 ^ 20. w < v \<or> v + Suc m \<le> w \<longrightarrow> page_map (mem s') d w = page_map (mem s) d w"
    using s'(8) s2(5) by (auto simp: maps_one_def)
  moreover have "keeps_data d n (mem s) (mem s2)" using s2(6) by (simp add: keeps_data_def)
  then have "keeps_data d n (mem s) (mem s')" using s2(2) by (intro keeps_data_trans [OF _ s'(9)]) simp_all
  ultimately show ?case using s'(2,3) s2(2,3) by (intro exI [of _ s'] exI [of _ n'] exI [of _ "n # fs"]) auto
qed

lemma ROUNDDOWN_page: "ROUNDDOWN a (of_nat PGSIZE) = of_nat (4096 * (unat a div 4096))"
proof -
  have "unat (ROUNDDOWN a 4096) = unat a - unat a mod 4096"
    unfolding ROUNDDOWN_def by (subst unat_sub) (simp_all add: word_le_nat_alt unat_mod)
  also have "\<dots> = 4096 * (unat a div 4096)" by (simp add: minus_mod_eq_mult_div)
  finally have "of_nat (unat (ROUNDDOWN a 4096)) = (of_nat (4096 * (unat a div 4096)) :: u32)" by simp
  then show ?thesis by (simp add: PGSIZE_def)
qed

lemma mm_alloc_pages:
  assumes "unat va + unat len + 4096 \<le> 2 ^ 32"
  shows "mm_alloc dirp va len s =
    mm_alloc_loop ((unat va + unat len + 4095) div 4096 - unat va div 4096) dirp (of_nat (4096 * (unat va div 4096))) s"
proof -
  have va: "unat va < 2 ^ 32" by (rule unat_u32_less)
  have l: "unat (va + len) = unat va + unat len" using assms by (intro unat_add_lem [THEN iffD1]) simp
  have "unat (va + len + 4095) = unat (va + len) + unat (4095 :: u32)" using assms l by (intro unat_add_lem [THEN iffD1]) simp
  then have u4: "unat (va + len + 4095) = unat va + unat len + 4095" using l by simp
  have p: "va + len + of_nat PGSIZE - 1 = va + len + 4095" by (simp add: PGSIZE_def)
  have e: "ROUNDUP (va + len) (of_nat PGSIZE) = of_nat (4096 * ((unat va + unat len + 4095) div 4096))"
    unfolding ROUNDUP_def p ROUNDDOWN_page u4 ..
  have "4096 * ((unat va + unat len + 4095) div 4096) < 2 ^ 32" "4096 * (unat va div 4096) < 2 ^ 32" using assms va by linarith+
  then have u: "unat (of_nat (4096 * ((unat va + unat len + 4095) div 4096)) :: u32) = 4096 * ((unat va + unat len + 4095) div 4096)"
    "unat (of_nat (4096 * (unat va div 4096)) :: u32) = 4096 * (unat va div 4096)" by (simp_all only: unat_small)
  have "(4096 * x - 4096 * y) div PGSIZE = x - y" for x y :: nat by (simp add: PGSIZE_def diff_mult_distrib2 [symmetric])
  then show ?thesis unfolding mm_alloc_def Let_def e ROUNDDOWN_page u by simp
qed

lemma mm_alloc_effect:
  fixes va len :: u32
  assumes "space_ok d n s" "unat va + unat len + 4096 \<le> 2 ^ 32" "v = unat va div 4096" "m = (unat va + unat len + 4095) div 4096 - v"
    and "n + 2 * m \<le> npages" "\<forall>j < m. page_map (mem s) d (v + j) = None"
  shows "\<exists>s' n' fs. mm_alloc (page2kva d) va len s = Inr s' \<and> space_ok d n' s' \<and> n \<le> n' \<and> n' \<le> n + 2 * m \<and>
    map (\<lambda>j. page_map (mem s') d (v + j)) [0..<m] = map Some fs \<and> distinct fs \<and> set fs \<subseteq> {n..<n'} \<and>
    (\<forall>f \<in> set fs. \<not> table_frame (mem s') d f) \<and>
    (\<forall>w < 2 ^ 20. w < v \<or> v + m \<le> w \<longrightarrow> page_map (mem s') d w = page_map (mem s) d w) \<and> keeps_data d n (mem s) (mem s')"
proof -
  have "v + m \<le> 2 ^ 20"
  proof -
    have "(unat va + unat len + 4095) div 4096 < 2 ^ 20" using assms(2) by (intro less_mult_imp_div_less) simp
    moreover have "v \<le> (unat va + unat len + 4095) div 4096" unfolding assms(3) by (intro div_le_mono) simp
    ultimately show ?thesis using assms(4) by simp
  qed
  from mm_alloc_loop_maps [OF assms(1,5) this assms(6)] show ?thesis
    unfolding mm_alloc_pages [OF assms(2)] assms(3) [symmetric] assms(4) [symmetric] .
qed

text \<open>
  C17. \<open>mm_alloc\<close> maps a range: if no page of the range is mapped and there is memory for its pages and for a table each, it returns without a
  fault, and afterwards the processor finds every address of the range, each page in a frame of its own taken from the free memory; all other
  pages of the address space are mapped as before, and no other frame in use has changed.
\<close>

theorem mm_alloc_maps:
  fixes va len :: u32
  assumes "space_ok d n s" "unat va + unat len + 4096 \<le> 2 ^ 32" "v = unat va div 4096" "m = (unat va + unat len + 4095) div 4096 - v"
    and "n + 2 * m \<le> npages" "\<forall>j < m. page_map (mem s) d (v + j) = None"
  shows "\<exists>s' n' fs. mm_alloc (page2kva d) va len s = Inr s' \<and> space_ok d n' s' \<and> n' \<le> n + 2 * m \<and>
    map (\<lambda>j. page_map (mem s') d (v + j)) [0..<m] = map Some fs \<and> distinct fs \<and> set fs \<subseteq> {n..<n'} \<and>
    (\<forall>a. unat va \<le> unat a \<and> unat a < unat va + unat len \<longrightarrow> pt_lookup (mem s') (page2kva d) a \<noteq> None) \<and>
    (\<forall>w < 2 ^ 20. w < v \<or> v + m \<le> w \<longrightarrow> page_map (mem s') d w = page_map (mem s) d w) \<and> keeps_data d n (mem s) (mem s')"
proof -
  from mm_alloc_effect [OF assms] obtain s' n' fs where
    s': "mm_alloc (page2kva d) va len s = Inr s'" "space_ok d n' s'" "n' \<le> n + 2 * m"
      "map (\<lambda>j. page_map (mem s') d (v + j)) [0..<m] = map Some fs" "distinct fs" "set fs \<subseteq> {n..<n'}"
      "\<forall>w < 2 ^ 20. w < v \<or> v + m \<le> w \<longrightarrow> page_map (mem s') d w = page_map (mem s) d w" "keeps_data d n (mem s) (mem s')" by blast
  have "pt_lookup (mem s') (page2kva d) a \<noteq> None" if a: "unat va \<le> unat a" "unat a < unat va + unat len" for a
  proof -
    let ?j = "unat a div 4096 - v"
    have v: "v \<le> unat a div 4096" using a(1) by (simp add: assms(3) div_le_mono)
    have "unat a div 4096 < (unat va + unat len + 4095) div 4096" using a(2) by linarith
    then have j: "?j < m" using v assms(4) by simp
    then have "map (\<lambda>j. page_map (mem s') d (v + j)) [0..<m] ! ?j \<noteq> None" unfolding s'(4) using arg_cong [OF s'(4), of length] by simp
    then have "page_map (mem s') d (unat a div 4096) \<noteq> None" using j v by simp
    then show ?thesis unfolding page_map_mmu by simp
  qed
  then show ?thesis using s' by blast
qed

section \<open>The address space of a new process\<close>

text \<open>\<open>kernel_dir D n m\<close>: the tables of the directory at word \<open>D\<close> are distinct frames below \<open>n\<close>.\<close>

definition dir_slot :: "wmem \<Rightarrow> nat \<Rightarrow> nat \<Rightarrow> nat option" where
  "dir_slot m D k = (let e = m (waddr (D + k)) in if e AND PTE_P = 0 then None else Some (pa2page (PTE_ADDR e)))"

definition kernel_dir :: "nat \<Rightarrow> nat \<Rightarrow> wmem \<Rightarrow> bool" where
  "kernel_dir D n m \<longleftrightarrow> (\<forall>k < 1024. \<forall>t. dir_slot m D k = Some t \<longrightarrow> t < n) \<and>
     (\<forall>j < 1024. \<forall>k < 1024. \<forall>t. dir_slot m D j = Some t \<longrightarrow> dir_slot m D k = Some t \<longrightarrow> j = k)"

lemma pcb_create_space:
  assumes "free_list s [n..<npages]" "n < npages" "kern_pgdir s = waddr D" "D + 4096 \<le> 1024 * n" "kernel_dir D n (mem s)"
    and slot: "find_unused PCBPOOLMAX (PCBPool s) = i" "i < PCBPOOLMAX"
  shows "\<exists>s'. pcb_create s = Inr (Some i, s') \<and> pgdir (PCBPool s' i) = page2kva n \<and> space_ok n (Suc n) s' \<and>
    (\<forall>k < 1024. slot (mem s') n k = dir_slot (mem s) D k) \<and> (\<forall>k < 1024 * n. mem s' (waddr k) = mem s (waddr k))"
proof -
  have np: "n < 32768" using assms(2) by (simp add: npages_def)
  let ?s = "upd_pcb i (\<lambda>p. p\<lparr>used := 1\<rparr>) (upd_pcb i (\<lambda>p. p\<lparr>fcb := (\<lambda>j. if j < FCBMAX then - 1 else fcb p j)\<rparr>)
     (upd_pcb i (\<lambda>p. p\<lparr>tf := tfPool_addr s + of_nat (TF_SIZE * i)\<rparr>) s))"
  have fl: "free_list ?s (n # [Suc n..<npages])" using assms(1,2) by (simp add: free_list_def upd_pcb_def upt_conv_Cons)
  obtain s1 where s1: "page_alloc ALLOC_ZERO ?s = (Some n, s1)" "free_list s1 [Suc n..<npages]" using page_alloc_top [OF fl] by blast
  have top: "page_free_list ?s = Some n" using fl by (simp add: free_list_def)
  have m1: "mem s1 (waddr k) = mem s (waddr k)" if "k < 1024 * n" for k
    using page_alloc_zero_mem [OF top, of k] np that unfolding s1(1) by (simp add: upd_pcb_def)
  have kd: "kern_pgdir s1 = waddr D" using kern_pgdir_kept(3) [of ALLOC_ZERO ?s] assms(3) unfolding s1(1) by (simp add: upd_pcb_def)
  define s2 where "s2 = upd_pcb i (\<lambda>p. p\<lparr>timeslice := 0\<rparr>) (upd_pcb i (\<lambda>p. p\<lparr>pid := next_pid s1\<rparr>) (upd_pcb i (\<lambda>p. p\<lparr>pgdir := page2kva n\<rparr>) s1))"
  define s3 where "s3 = page_incref n (s2\<lparr>next_pid := next_pid s2 + 1\<rparr>)"
  define s4 where "s4 = memcpy (page2kva n) (kern_pgdir s3) PGSIZE s3"
  have c: "pcb_create s = Inr (Some i, s4)"
    using slot(2) s1(1) unfolding pcb_create_def slot(1) s4_def s3_def s2_def Let_def by (simp add: upd_pcb_def)
  have s3: "mem s3 = mem s1" "kern_pgdir s3 = waddr D" "pgdir (PCBPool s3 i) = page2kva n" "free_list s3 [Suc n..<npages]"
  proof -
    show "mem s3 = mem s1" "kern_pgdir s3 = waddr D" using kd by (simp_all add: s3_def s2_def upd_pcb_def)
    show "pgdir (PCBPool s3 i) = page2kva n" by (simp add: s3_def s2_def upd_pcb_def page_incref_def set_page_def)
    have "free_list (s2\<lparr>next_pid := next_pid s2 + 1\<rparr>) [Suc n..<npages]" using s1(2) by (simp add: s2_def free_list_def upd_pcb_def)
    then show "free_list s3 [Suc n..<npages]" by (simp add: s3_def)
  qed
  have m4: "mem s4 (waddr k) = (if 1024 * n \<le> k \<and> k < 1024 * n + PGSIZE then mem s1 (waddr (D + (k - 1024 * n))) else mem s1 (waddr k))"
    if "k < 2 ^ 28" for k
    using rep_movsl_at [of "1024 * n" PGSIZE D k "mem s1"] that np assms(4) by (simp add: s4_def memcpy_def s3 page2kva_waddr PGSIZE_def)
  have dir: "slot (mem s4) n k = dir_slot (mem s) D k" if "k < 1024" for k
    using m4 [of "1024 * n + k"] m1 [of "D + k"] that np assms(4) by (simp add: slot_def dir_slot_def PGSIZE_def)
  have "mem s4 (waddr k) = mem s (waddr k)" if "k < 1024 * n" for k using m4 [of k] m1 [OF that] that np by simp
  moreover have "free_list s4 [Suc n..<npages]" using s3(4) by (simp add: s4_def memcpy_def)
  then have "space_ok n (Suc n) s4" using dir assms(5) unfolding space_ok_def kernel_dir_def by (auto simp: less_Suc_eq)
  moreover have "pgdir (PCBPool s4 i) = page2kva n" using s3(3) by (simp add: s4_def memcpy_def)
  ultimately show ?thesis using c dir by blast
qed

text \<open>The directory that \<^verbatim>\<open>page_init\<close> builds, with the kernel's page tables in the frames from \<open>tk\<close> on.\<close>

lemma page_init_dir:
  assumes "boot_state D (1024 * tk) s" "\<forall>k < 1024. mem s (waddr (D + k)) = 0" "k < 1024"
  shows "dir_slot (mem (page_init s)) D k = (if k = 0 then Some 1024 else if 768 \<le> k \<and> k < 800 then Some (tk + (k - 768)) else None)"
proof -
  let ?m = "mem (page_init s)"
  have e: "\<forall>k. D + 768 \<le> k \<and> k < D + 800 \<longrightarrow> ?m (waddr k) = PADDR (waddr (1024 * tk + 1024 * (k - (D + 768)))) OR PTE_P OR PTE_W"
    "?m (waddr D) = page2pa 1024 OR (PTE_P OR PTE_W OR PTE_U)"
    "\<forall>k. D < k \<and> k < D + 1024 \<and> \<not> (D + 768 \<le> k \<and> k < D + 800) \<longrightarrow> ?m (waddr k) = mem s (waddr k)"
    using page_init_effect [OF assms(1)] by auto
  have sl: "dir_slot ?m D k = Some f"
    if "f < 2 ^ 20" "flags AND NOT 0xFFF = 0" "flags AND PTE_P \<noteq> 0" "?m (waddr (D + k)) = page2pa f OR flags" for f flags
    using slot_entry [OF that(1-3), of "\<lambda>a. ?m (waddr (D + k))" 0 k] that(4) by (simp add: slot_def dir_slot_def)
  have tk: "tk < 2 ^ 10" using assms(1) by (simp add: boot_state_def)
  consider "k = 0" | "768 \<le> k" "k < 800" | "k \<noteq> 0" "\<not> (768 \<le> k \<and> k < 800)" by auto
  then show ?thesis
  proof cases
    case 1
    then show ?thesis using sl [of 1024 "PTE_P OR PTE_W OR PTE_U"] e(2) by (simp add: pg_consts)
  next
    case 2
    have "PADDR (waddr (1024 * tk + 1024 * (k - 768))) = page2pa (tk + (k - 768))"
      using page2kva_PADDR [of "tk + (k - 768)"] by (simp add: page2kva_waddr algebra_simps)
    then show ?thesis using sl [of "tk + (k - 768)" "PTE_P OR PTE_W"] e(1) [rule_format, of "D + k"] 2 tk by (simp add: pg_consts or.assoc)
  next
    case 3
    then show ?thesis using e(3) [rule_format, of "D + k"] assms(2,3) by (simp add: dir_slot_def)
  qed
qed

lemma page_init_kernel_dir:
  assumes "boot_state D (1024 * tk) s" "\<forall>k < 1024. mem s (waddr (D + k)) = 0"
  shows "kernel_dir D 1025 (mem (page_init s))"
proof -
  have tk: "tk + 32 \<le> 1024" using assms(1) by (simp add: boot_state_def)
  show ?thesis unfolding kernel_dir_def using page_init_dir [OF assms] tk by (auto split: if_splits)
qed

text \<open>
  The first process after the start: its directory has the kernel's tables and nothing else, and any range between the first 4 MiB and the kernel
  can be allocated.
\<close>

lemma first_process_space:
  assumes "boot_state D (1024 * tk) s" "\<forall>k < 1024. mem s (waddr (D + k)) = 0" "D + 4096 \<le> 1024 * 1025" "used (PCBPool s 0) = 0"
  shows "\<exists>s'. pcb_create (page_init s) = Inr (Some 0, s') \<and> pgdir (PCBPool s' 0) = page2kva 1025 \<and> space_ok 1025 1026 s' \<and>
    (\<forall>v. 1024 \<le> v \<and> v < 786432 \<longrightarrow> page_map (mem s') 1025 v = None)"
proof -
  let ?s = "page_init s"
  have f: "free_list ?s [1025..<npages]" "kern_pgdir ?s = waddr D" using page_init_effect [OF assms(1)] by auto
  have "PCBPool ?s = PCBPool s" using page_init_frame [of s] by (cases "page_init s"; cases s) simp
  then have "find_unused PCBPOOLMAX (PCBPool ?s) = 0" using assms(4) by (simp add: PCBPOOLMAX_def numeral_eq_Suc)
  from pcb_create_space [OF f(1) _ f(2) _ page_init_kernel_dir [OF assms(1,2)] this] obtain s' where
    s': "pcb_create ?s = Inr (Some 0, s')" "pgdir (PCBPool s' 0) = page2kva 1025" "space_ok 1025 1026 s'"
      "\<forall>k < 1024. slot (mem s') 1025 k = dir_slot (mem ?s) D k"
    using assms(3) by (auto simp: npages_def PCBPOOLMAX_def)
  have "page_map (mem s') 1025 v = None" if "1024 \<le> v" "v < 786432" for v
  proof -
    have "v div 1024 < 768" "v div 1024 \<noteq> 0" using that by auto
    then show ?thesis using s'(4) page_init_dir [OF assms(1,2)] by (simp add: page_map_def)
  qed
  then show ?thesis using s' by blast
qed

theorem mm_alloc_maps_witness:
  "\<exists>s1 s2 n' fs. pcb_create (page_init (kern boot_sample)) = Inr (Some 0, s1) \<and>
     mm_alloc (pgdir (PCBPool s1 0)) (USTACKTOP - USTACKSIZE) USTACKSIZE s1 = Inr s2 \<and> space_ok 1025 n' s2 \<and>
     map (\<lambda>j. page_map (mem s2) 1025 (0xBEBF6 + j)) [0..<8] = map Some fs \<and> distinct fs"
proof -
  have z: "mem (kern boot_sample) a = 0" for a
    by (simp add: boot_sample_def trap_sample_def fs_sample_def fsst.defs procst.defs upd_pcb_def)
  have b: "boot_state 0 (1024 * 1) (kern boot_sample)" using boot_sample_fresh by (simp add: fresh_kernel_def)
  have "used (PCBPool (kern boot_sample) 0) = 0" by (simp add: boot_sample_def blank_pcb_def)
  then obtain s1 where s1: "pcb_create (page_init (kern boot_sample)) = Inr (Some 0, s1)" "pgdir (PCBPool s1 0) = page2kva 1025"
      "space_ok 1025 1026 s1" "\<forall>v. 1024 \<le> v \<and> v < 786432 \<longrightarrow> page_map (mem s1) 1025 v = None"
    using first_process_space [OF b] z by auto
  let ?va = "USTACKTOP - USTACKSIZE"
  have u: "unat ?va = 0xBEBF6000" "unat USTACKSIZE = 0x8000" by (simp_all add: USTACKTOP_def USTACKSIZE_def)
  have p: "unat ?va + unat USTACKSIZE + 4096 \<le> 2 ^ 32" "0xBEBF6 = unat ?va div 4096"
    "8 = (unat ?va + unat USTACKSIZE + 4095) div 4096 - 0xBEBF6" "1026 + 2 * 8 \<le> npages" unfolding u by (simp_all add: npages_def)
  have un: "\<forall>j < 8. page_map (mem s1) 1025 (0xBEBF6 + j) = None" using s1(4) by simp
  from mm_alloc_maps [OF s1(3) p un] obtain s2 n' fs where "mm_alloc (page2kva 1025) ?va USTACKSIZE s1 = Inr s2" "space_ok 1025 n' s2"
    "map (\<lambda>j. page_map (mem s2) 1025 (0xBEBF6 + j)) [0..<8] = map Some fs" "distinct fs" by blast
  then show ?thesis using s1(1,2) by (intro exI [of _ s1] exI [of _ s2] exI [of _ n'] exI [of _ fs]) simp
qed

end
