(* ===== verification/Stage.thy ===== *)
theory Stage
  imports Video Printk
begin

text \<open>
  The drawing library of the game, \<^verbatim>\<open>src/game/include/stage.h\<close>: shapes made of pixels that are set through the
  system calls of the screen, and a hash of what was drawn that saves flushing an unchanged frame.
  A circle needs integer square roots, which are looked up in a table of squares and remembered in an array of 600 words.
\<close>

section \<open>Tables\<close>

text \<open>The bitmaps are given row by row as strings of zeros and ones.\<close>

definition squares :: "nat list" where
  "squares =
     [0, 1, 4, 9, 16, 25, 36, 49, 64, 81, 100, 121, 144, 169, 196, 225] @
     [256, 289, 324, 361, 400, 441, 484, 529, 576, 625, 676, 729, 784, 841, 900, 961] @
     [1024, 1089, 1156, 1225, 1296, 1369, 1444, 1521, 1600, 1681, 1764, 1849, 1936, 2025, 2116, 2209] @
     [2304, 2401, 2500, 2601, 2704, 2809, 2916, 3025, 3136, 3249, 3364, 3481, 3600, 3721, 3844, 3969] @
     [4096, 4225, 4356, 4489, 4624, 4761, 4900, 5041, 5184, 5329, 5476, 5625, 5776, 5929, 6084, 6241] @
     [6400, 6561, 6724, 6889, 7056, 7225, 7396, 7569, 7744, 7921, 8100, 8281, 8464, 8649, 8836, 9025] @
     [9216, 9409, 9604, 9801, 10000, 10201, 10404, 10609, 10816, 11025, 11236, 11449, 11664, 11881, 12100, 12321] @
     [12544, 12769, 12996, 13225, 13456, 13689, 13924, 14161, 14400, 14641, 14884, 15129, 15376, 15625, 15876, 16129] @
     [16384, 16641, 16900, 17161, 17424, 17689, 17956, 18225, 18496, 18769, 19044, 19321, 19600, 19881, 20164, 20449] @
     [20736, 21025, 21316, 21609, 21904, 22201, 22500, 22801, 23104, 23409, 23716, 24025, 24336, 24649, 24964, 25281] @
     [25600, 25921, 26244, 26569, 26896, 27225, 27556, 27889, 28224, 28561, 28900, 29241, 29584, 29929, 30276, 30625] @
     [30976, 31329, 31684, 32041, 32400, 32761, 33124, 33489, 33856, 34225, 34596, 34969, 35344, 35721, 36100, 36481] @
     [36864, 37249, 37636, 38025, 38416, 38809, 39204, 39601, 40000, 40401, 40804, 41209, 41616, 42025, 42436, 42849] @
     [43264, 43681, 44100, 44521, 44944, 45369, 45796, 46225, 46656, 47089, 47524, 47961, 48400, 48841, 49284, 49729] @
     [50176, 50625, 51076, 51529, 51984, 52441, 52900, 53361, 53824, 54289, 54756, 55225, 55696, 56169, 56644, 57121] @
     [57600, 58081, 58564, 59049, 59536, 60025, 60516, 61009, 61504, 62001, 62500, 63001, 63504, 64009, 64516, 65025]"

definition bitmap_of :: "string \<Rightarrow> bool list" where
  "bitmap_of s = map (\<lambda>c. c = CHR ''1'') s"

definition text1 :: "bool list" where
  "text1 = bitmap_of (
     ''1111000000000000000000000000000000000000000000000000'' @
     ''1000100000000000000000000000000000000000000000000000'' @
     ''1000100101000110000011000001010000000000000000000000'' @
     ''1000100110001001000100100010101000000000000000000000'' @
     ''1000100100001010100100100010101000000000000000000000'' @
     ''1111000100000111000011010010101000000000000000000000'' @
     ''0000000000000000000000000000000000000000000000000000'' @
     ''0000000000001100000011000000000000000000000000000000'' @
     ''0000000000010010000100000000000000000000000000000000'' @
     ''0000000000010010001110000000000000000000000000000000'' @
     ''0000000000001100000100000000000000000000000000000000'' @
     ''0000000000000000000100000000000000000000000000000000'' @
     ''0000000000000000001100000000000000000000000000000000'' @
     ''0000000000000000000000000000000000000010001000000000'' @
     ''0000000000000000001000011110000111100010001000000000'' @
     ''0000000000000000001000010010000100100010001000000000'' @
     ''0000000000000000001000010010000100100011111000111110'' @
     ''0000000000000000001000010010000100100010001000000100'' @
     ''0000000000000000001000010010000100100010001000001000'' @
     ''0000000000000000001000011110000111100010001000111110'')"

definition num0 :: "bool list" where
  "num0 = bitmap_of (''11111'' @ ''10001'' @ ''10001'' @ ''10001'' @ ''10001'' @ ''10001'' @ ''11111'')"

definition num1 :: "bool list" where
  "num1 = bitmap_of (''00110'' @ ''00010'' @ ''00010'' @ ''00010'' @ ''00010'' @ ''00010'' @ ''01111'')"

definition num2 :: "bool list" where
  "num2 = bitmap_of (''11111'' @ ''00001'' @ ''00001'' @ ''11111'' @ ''10000'' @ ''10000'' @ ''11111'')"

definition num3 :: "bool list" where
  "num3 = bitmap_of (''11111'' @ ''00001'' @ ''00001'' @ ''11111'' @ ''00001'' @ ''00001'' @ ''11111'')"

definition num4 :: "bool list" where
  "num4 = bitmap_of (''10001'' @ ''10001'' @ ''10001'' @ ''11111'' @ ''00001'' @ ''00001'' @ ''00001'')"

definition num5 :: "bool list" where
  "num5 = bitmap_of (''11111'' @ ''10000'' @ ''10000'' @ ''11111'' @ ''00001'' @ ''00001'' @ ''11111'')"

definition num6 :: "bool list" where
  "num6 = bitmap_of (''11111'' @ ''10000'' @ ''10000'' @ ''11111'' @ ''10001'' @ ''10001'' @ ''11111'')"

definition num7 :: "bool list" where
  "num7 = bitmap_of (''11111'' @ ''00001'' @ ''00001'' @ ''00001'' @ ''00001'' @ ''00001'' @ ''00001'')"

definition num8 :: "bool list" where
  "num8 = bitmap_of (''11111'' @ ''10001'' @ ''10001'' @ ''11111'' @ ''10001'' @ ''10001'' @ ''11111'')"

definition num9 :: "bool list" where
  "num9 = bitmap_of (''11111'' @ ''10001'' @ ''10001'' @ ''11111'' @ ''00001'' @ ''00001'' @ ''11111'')"

definition nums :: "bool list list" where
  "nums = [num0, num1, num2, num3, num4, num5, num6, num7, num8, num9]"

section \<open>State\<close>

record stagest =
  screen :: video
  hash :: u32
  lhash :: u32
  memoriza :: "nat \<Rightarrow> u32"

definition NR_MEMO :: nat where "NR_MEMO = 600"

section \<open>Square roots\<close>

definition isqrt_step :: "nat \<Rightarrow> nat \<Rightarrow> nat \<Rightarrow> nat" where
  "isqrt_step x k p = (if squares ! (p + k) \<le> x then p + k else p)"

definition isqrt_search :: "nat \<Rightarrow> nat" where
  "isqrt_search x =
     isqrt_step x 1 (isqrt_step x 2 (isqrt_step x 4 (isqrt_step x 8 (isqrt_step x 16 (isqrt_step x 32 0)))))"

definition isqrt :: "u32 \<Rightarrow> 'a stagest_scheme \<Rightarrow> (u32 \<times> 'a stagest_scheme) res" where
  "isqrt x s =
     (if NR_MEMO \<le> unat x then Inl OutOfBounds
      else if memoriza s (unat x) > 0 then Inr (memoriza s (unat x), s)
      else (let p = of_nat (isqrt_search (unat x)) in
            Inr (p, s\<lparr>memoriza := (memoriza s)(unat x := p)\<rparr>)))"

section \<open>Drawing\<close>

definition clearStage :: "'a stagest_scheme \<Rightarrow> 'a stagest_scheme" where
  "clearStage s = s\<lparr>hash := 0, screen := initVCache (screen s)\<rparr>"

definition drawPoint :: "int \<Rightarrow> int \<Rightarrow> u8 \<Rightarrow> 'a stagest_scheme \<Rightarrow> 'a stagest_scheme" where
  "drawPoint x y color s = s\<lparr>screen := setPixelAt (of_int y) (of_int x) color (screen s)\<rparr>"

text \<open>\<open>col_loop n x j\<close> draws the points from \<open>(x, j)\<close> to \<open>(x, j + n - 1)\<close>.\<close>

primrec col_loop :: "nat \<Rightarrow> int \<Rightarrow> int \<Rightarrow> u8 \<Rightarrow> 'a stagest_scheme \<Rightarrow> 'a stagest_scheme" where
  "col_loop 0 x j color s = s"
| "col_loop (Suc n) x j color s = col_loop n x (j + 1) color (drawPoint x j color s)"

primrec rect_loop :: "nat \<Rightarrow> nat \<Rightarrow> int \<Rightarrow> int \<Rightarrow> u8 \<Rightarrow> 'a stagest_scheme \<Rightarrow> 'a stagest_scheme" where
  "rect_loop 0 h x y color s = s"
| "rect_loop (Suc n) h x y color s = rect_loop n h (x + 1) y color (col_loop h x y color s)"

definition drawRect :: "int \<Rightarrow> int \<Rightarrow> int \<Rightarrow> int \<Rightarrow> u8 \<Rightarrow> 'a stagest_scheme \<Rightarrow> 'a stagest_scheme" where
  "drawRect x y w h color s =
     (let s = s\<lparr>hash := hash s + of_int (29 * x + 57 * y + 13 * uint color)\<rparr>
      in rect_loop (nat w) (nat h) x y color s)"

primrec circ_loop :: "nat \<Rightarrow> int \<Rightarrow> int \<Rightarrow> int \<Rightarrow> int \<Rightarrow> u8 \<Rightarrow> 'a stagest_scheme \<Rightarrow> 'a stagest_scheme res" where
  "circ_loop 0 i x y r color s = Inr s"
| "circ_loop (Suc n) i x y r color s =
     bind_res (isqrt (of_int (r * r - i * i)) s) (\<lambda>(q, s).
     let delta = sint q + 1
     in circ_loop n (i + 1) x y r color (col_loop (nat (2 * delta + 1)) (x + i) (y - delta) color s))"

definition drawCirc :: "int \<Rightarrow> int \<Rightarrow> int \<Rightarrow> u8 \<Rightarrow> 'a stagest_scheme \<Rightarrow> 'a stagest_scheme res" where
  "drawCirc x y r color s =
     (let s = s\<lparr>hash := hash s + of_int (329 * x + 157 * y + 713 * r)\<rparr>
      in circ_loop (nat (2 * r + 1)) (- r) x y r color s)"

primrec text_row :: "nat \<Rightarrow> nat \<Rightarrow> nat \<Rightarrow> 'a stagest_scheme \<Rightarrow> 'a stagest_scheme" where
  "text_row 0 i j s = s"
| "text_row (Suc n) i j s =
     text_row n (Suc i) j
       (if text1 ! (j * 52 + i) then drawRect (50 + int i * 4) (20 + int j * 5) 4 5 14 s else s)"

primrec text_rows :: "nat \<Rightarrow> nat \<Rightarrow> 'a stagest_scheme \<Rightarrow> 'a stagest_scheme" where
  "text_rows 0 j s = s"
| "text_rows (Suc n) j s = text_rows n (Suc j) (text_row 52 0 j s)"

definition drawText1 :: "'a stagest_scheme \<Rightarrow> 'a stagest_scheme" where
  "drawText1 s = text_rows 20 0 s"

text \<open>The decimal digits of a positive number, lowest first, as \<^verbatim>\<open>temp\<close> holds them.\<close>

fun digits_of :: "nat \<Rightarrow> nat list" where
  "digits_of num = (if num = 0 then [] else (num mod 10) # digits_of (num div 10))"

declare digits_of.simps [simp del]

primrec digit_row :: "nat \<Rightarrow> nat \<Rightarrow> nat \<Rightarrow> bool list \<Rightarrow> int \<Rightarrow> int \<Rightarrow> int \<Rightarrow> u8 \<Rightarrow> 'a stagest_scheme \<Rightarrow> 'a stagest_scheme" where
  "digit_row 0 xx yy num x y sz color s = s"
| "digit_row (Suc n) xx yy num x y sz color s =
     digit_row n (Suc xx) yy num x y sz color
       (if num ! (yy * 5 + xx) then drawRect (x + int xx * sz) (y + int yy * sz) sz sz color s else s)"

primrec digit_rows :: "nat \<Rightarrow> nat \<Rightarrow> bool list \<Rightarrow> int \<Rightarrow> int \<Rightarrow> int \<Rightarrow> u8 \<Rightarrow> 'a stagest_scheme \<Rightarrow> 'a stagest_scheme" where
  "digit_rows 0 yy num x y sz color s = s"
| "digit_rows (Suc n) yy num x y sz color s =
     digit_rows n (Suc yy) num x y sz color (digit_row 5 0 yy num x y sz color s)"

fun draw_digits :: "nat list \<Rightarrow> nat \<Rightarrow> int \<Rightarrow> int \<Rightarrow> int \<Rightarrow> u8 \<Rightarrow> 'a stagest_scheme \<Rightarrow> 'a stagest_scheme" where
  "draw_digits [] i x y sz color s = s"
| "draw_digits (d # ds) i x y sz color s =
     draw_digits ds (Suc i) x y sz color
       (digit_rows 7 0 (nums ! d) (int i * (sz * sz + 10) + x) y sz color s)"

text \<open>\<^verbatim>\<open>temp\<close> has room for 11 digits.\<close>

definition drawNumber :: "u32 \<Rightarrow> int \<Rightarrow> int \<Rightarrow> int \<Rightarrow> u8 \<Rightarrow> 'a stagest_scheme \<Rightarrow> 'a stagest_scheme res" where
  "drawNumber num x y sz color s =
     (let temp = (if num = 0 then [0] else if sint num < 1 then [] else digits_of (unat num)) in
      if 11 < length temp then Inl OutOfBounds
      else Inr (draw_digits (rev temp) 0 x y sz color s))"

definition drawStage :: "'a stagest_scheme \<Rightarrow> 'a stagest_scheme" where
  "drawStage s =
     (if lhash s = hash s then s else s\<lparr>screen := flush_frame (screen s), lhash := hash s\<rparr>)"

section \<open>The square root is exact\<close>

text \<open>
  \<open>memo_ok s\<close>: what is remembered is right.  The screen, the hash and the rest of the state are not part of
  it, so every operation of the drawing library keeps it.
\<close>

definition memo_ok :: "'a stagest_scheme \<Rightarrow> bool" where
  "memo_ok s \<longleftrightarrow> (\<forall>k < NR_MEMO. memoriza s k = 0 \<or> memoriza s k = of_nat (isqrt_search k))"

text \<open>The entries of the table are the squares of their indices.\<close>

primrec squares_from :: "nat \<Rightarrow> nat list \<Rightarrow> bool" where
  "squares_from k [] = True"
| "squares_from k (x # xs) = (x = k * k \<and> squares_from (Suc k) xs)"

lemma squares_from_nth: "squares_from k xs \<Longrightarrow> i < length xs \<Longrightarrow> xs ! i = (k + i) * (k + i)"
  by (induction xs arbitrary: k i) (auto simp: nth_Cons split: nat.split)

lemma squares_from_append:
  "squares_from k xs \<Longrightarrow> length xs = 16 \<Longrightarrow> squares_from (k + 16) ys \<Longrightarrow> squares_from k (xs @ ys)"
proof -
  have "squares_from k (xs @ ys) = (squares_from k xs \<and> squares_from (k + length xs) ys)" by (induction xs arbitrary: k) auto
  then show "squares_from k xs \<Longrightarrow> length xs = 16 \<Longrightarrow> squares_from (k + 16) ys \<Longrightarrow> squares_from k (xs @ ys)" by simp
qed

lemma squares_nth: "i < 256 \<Longrightarrow> squares ! i = i * i"
proof -
  have "squares_from 0 squares" unfolding squares_def
    by ((rule squares_from_append, simp, simp, simp only: add_0 numeral_plus_numeral semiring_norm)+, simp)
  moreover have "length squares = 256" unfolding squares_def by simp
  ultimately show "i < 256 \<Longrightarrow> squares ! i = i * i" using squares_from_nth [of 0 squares i] by simp
qed

text \<open>One step of the binary search: the root lies in an interval of length \<open>2 * k\<close> and afterwards of length \<open>k\<close>.\<close>

lemma isqrt_step:
  assumes "p * p \<le> x" "x < (p + 2 * k) * (p + 2 * k)" "p + k < 256"
  shows "isqrt_step x k p * isqrt_step x k p \<le> x" "x < (isqrt_step x k p + k) * (isqrt_step x k p + k)"
    "isqrt_step x k p \<le> p + k"
  using assms by (auto simp: isqrt_step_def squares_nth algebra_simps)

lemma isqrt_search_root:
  assumes "x < 4096"
  shows "isqrt_search x * isqrt_search x \<le> x" "x < (isqrt_search x + 1) * (isqrt_search x + 1)" "isqrt_search x < 64"
proof -
  note s1 = isqrt_step [of 0 x 32]
  let ?a = "isqrt_step x 32 0"
  have a: "?a * ?a \<le> x" "x < (?a + 2 * 16) * (?a + 2 * 16)" "?a \<le> 32" using s1 assms by simp_all
  let ?b = "isqrt_step x 16 ?a"
  have b: "?b * ?b \<le> x" "x < (?b + 2 * 8) * (?b + 2 * 8)" "?b \<le> 48" using isqrt_step [OF a(1,2)] a(3) by simp_all
  let ?c = "isqrt_step x 8 ?b"
  have c: "?c * ?c \<le> x" "x < (?c + 2 * 4) * (?c + 2 * 4)" "?c \<le> 56" using isqrt_step [OF b(1,2)] b(3) by simp_all
  let ?d = "isqrt_step x 4 ?c"
  have d: "?d * ?d \<le> x" "x < (?d + 2 * 2) * (?d + 2 * 2)" "?d \<le> 60" using isqrt_step [OF c(1,2)] c(3) by simp_all
  let ?e = "isqrt_step x 2 ?d"
  have e: "?e * ?e \<le> x" "x < (?e + 2 * 1) * (?e + 2 * 1)" "?e \<le> 62" using isqrt_step [OF d(1,2)] d(3) by simp_all
  show "isqrt_search x * isqrt_search x \<le> x" "x < (isqrt_search x + 1) * (isqrt_search x + 1)" "isqrt_search x < 64"
    unfolding isqrt_search_def using isqrt_step [OF e(1,2)] e(3) by simp_all
qed

text \<open>
  C40. \<^verbatim>\<open>isqrt\<close> with its table and its memory is the integer square root: for every argument inside the memory it
  returns the largest number whose square is not above the argument, keeps the memory right, and
  touches nothing else; any other argument is outside the array.
\<close>

theorem isqrt_exact:
  assumes "memo_ok s"
  shows "if unat x < NR_MEMO
    then \<exists>q s'. isqrt x s = Inr (of_nat q, s') \<and> q * q \<le> unat x \<and> unat x < (q + 1) * (q + 1) \<and>
      memo_ok s' \<and> s'\<lparr>memoriza := memoriza s\<rparr> = s
    else isqrt x s = Inl OutOfBounds"
proof (cases "unat x < NR_MEMO")
  case True
  let ?q = "isqrt_search (unat x)"
  have lt: "unat x < 4096" using True by (simp add: NR_MEMO_def)
  have "\<exists>s'. isqrt x s = Inr (of_nat ?q, s') \<and> memo_ok s' \<and> s'\<lparr>memoriza := memoriza s\<rparr> = s"
    using assms True by (auto simp: isqrt_def memo_ok_def Let_def)
  with isqrt_search_root [OF lt] True show ?thesis by auto
qed (simp add: isqrt_def)

definition blank_stage :: stagest where
  "blank_stage = \<lparr>screen = blank_video, hash = 0, lhash = 0, memoriza = (\<lambda>_. 0)\<rparr>"

theorem isqrt_exact_witness:
  "\<exists>q s'. isqrt 17 blank_stage = Inr (of_nat q, s') \<and> q * q \<le> 17 \<and> 17 < (q + 1) * (q + 1)"
proof -
  have m: "memo_ok blank_stage" by (simp add: memo_ok_def blank_stage_def)
  show ?thesis using isqrt_exact [OF m, of 17] by (auto simp: NR_MEMO_def)
qed

section \<open>What drawing changes\<close>

text \<open>
  \<open>draws s s'\<close>: from \<open>s\<close> to \<open>s'\<close> only the screen, the hashes and the memory of square roots have changed, and
  the memory is still right.  Every drawing operation is of this kind, whatever the program keeps beside the stage.
\<close>

definition draws :: "'a stagest_scheme \<Rightarrow> 'a stagest_scheme \<Rightarrow> bool" where
  "draws s s' \<longleftrightarrow> (\<exists>v h l m. s' = s\<lparr>screen := v, hash := h, lhash := l, memoriza := m\<rparr>) \<and> (memo_ok s \<longrightarrow> memo_ok s')"

lemma draws_refl [simp]: "draws s s"
  unfolding draws_def
  by (intro conjI exI [of _ "screen s"] exI [of _ "hash s"] exI [of _ "lhash s"] exI [of _ "memoriza s"]) simp_all

lemma draws_trans [trans]: "draws s t \<Longrightarrow> draws t u \<Longrightarrow> draws s u"
  unfolding draws_def by force

lemma memo_ok_upd [simp]:
  "memo_ok (s\<lparr>screen := v\<rparr>) = memo_ok s" "memo_ok (s\<lparr>hash := h\<rparr>) = memo_ok s" "memo_ok (s\<lparr>lhash := h\<rparr>) = memo_ok s"
  by (simp_all add: memo_ok_def)

lemma draws_upd [simp]:
  "draws s (s\<lparr>screen := v\<rparr>)" "draws s (s\<lparr>hash := h\<rparr>)" "draws s (s\<lparr>hash := h, screen := v\<rparr>)" "draws s (s\<lparr>screen := v, lhash := h\<rparr>)"
proof -
  show "draws s (s\<lparr>screen := v\<rparr>)" unfolding draws_def
    by (intro conjI exI [of _ v] exI [of _ "hash s"] exI [of _ "lhash s"] exI [of _ "memoriza s"]) simp_all
  show "draws s (s\<lparr>hash := h\<rparr>)" unfolding draws_def
    by (intro conjI exI [of _ "screen s"] exI [of _ h] exI [of _ "lhash s"] exI [of _ "memoriza s"]) simp_all
  show "draws s (s\<lparr>hash := h, screen := v\<rparr>)" unfolding draws_def
    by (intro conjI exI [of _ v] exI [of _ h] exI [of _ "lhash s"] exI [of _ "memoriza s"]) simp_all
  show "draws s (s\<lparr>screen := v, lhash := h\<rparr>)" unfolding draws_def
    by (intro conjI exI [of _ v] exI [of _ "hash s"] exI [of _ h] exI [of _ "memoriza s"]) simp_all
qed

lemma draws_point [simp]: "draws s (drawPoint x y color s)"
  by (simp add: drawPoint_def)

lemma draws_col [simp]: "draws s (col_loop n x j color s)"
  by (induction n arbitrary: j s) (auto intro: draws_trans [OF draws_point])

lemma draws_rect_loop [simp]: "draws s (rect_loop n h x y color s)"
  by (induction n arbitrary: x s) (auto intro: draws_trans [OF draws_col])

lemma draws_rect [simp]: "draws s (drawRect x y w h color s)"
  unfolding drawRect_def Let_def by (rule draws_trans [OF draws_upd(2) draws_rect_loop])

lemma draws_text_row [simp]: "draws s (text_row n i j s)"
  by (induction n arbitrary: i s) (auto intro: draws_trans [OF draws_rect])

lemma draws_text [simp]: "draws s (drawText1 s)"
proof -
  have "draws s (text_rows n j s)" for n j s by (induction n arbitrary: j s) (auto intro: draws_trans [OF draws_text_row])
  then show ?thesis by (simp add: drawText1_def)
qed

lemma draws_clear [simp]: "draws s (clearStage s)"
  by (simp add: clearStage_def)

lemma draws_stage [simp]: "draws s (drawStage s)"
  by (simp add: drawStage_def)

lemma draws_digit_row [simp]: "draws s (digit_row n xx yy num x y sz color s)"
  by (induction n arbitrary: xx s) (auto intro: draws_trans [OF draws_rect])

lemma draws_digit_rows [simp]: "draws s (digit_rows n yy num x y sz color s)"
  by (induction n arbitrary: yy s) (auto intro: draws_trans [OF draws_digit_row])

lemma draws_digits [simp]: "draws s (draw_digits ds i x y sz color s)"
  by (induction ds i x y sz color s rule: draw_digits.induct) (auto intro: draws_trans [OF draws_digit_rows])

text \<open>A 32-bit number has at most ten decimal digits.\<close>

lemma digits_of_length: "n < 10 ^ k \<Longrightarrow> length (digits_of n) \<le> k"
proof (induction k arbitrary: n)
  case (Suc k)
  then have "n div 10 < 10 ^ k" by (simp add: less_mult_imp_div_less)
  with Suc.IH [of "n div 10"] show ?case by (subst digits_of.simps) simp
qed (simp add: digits_of.simps)

lemma drawNumber_draws: "\<exists>s'. drawNumber num x y sz color s = Inr s' \<and> draws s s'"
proof -
  have "unat num < 10 ^ 10" using unat_u32_less [of num] by simp
  then have "length (digits_of (unat num)) \<le> 10" by (rule digits_of_length)
  then show ?thesis by (simp add: drawNumber_def Let_def)
qed

text \<open>A circle of radius at most 24 stays inside the memory of square roots.\<close>

lemma isqrt_draws:
  assumes "unat x < NR_MEMO"
  shows "\<exists>q s'. isqrt x s = Inr (q, s') \<and> draws s s'"
proof -
  have d: "draws s (s\<lparr>memoriza := (memoriza s)(unat x := of_nat (isqrt_search (unat x)))\<rparr>)"
    unfolding draws_def
    by (intro conjI exI [of _ "screen s"] exI [of _ "hash s"] exI [of _ "lhash s"] exI [of _ "(memoriza s)(unat x := of_nat (isqrt_search (unat x)))"])
      (simp_all add: memo_ok_def)
  show ?thesis using assms d by (auto simp: isqrt_def Let_def)
qed

lemma circ_loop_draws:
  assumes "- r \<le> i" "i + int n \<le> r + 1" "0 \<le> r" "r \<le> 24"
  shows "\<exists>s'. circ_loop n i x y r color s = Inr s' \<and> draws s s'"
  using assms(1,2)
proof (induction n arbitrary: i s)
  case (Suc n)
  have "i * i \<le> r * r" using Suc.prems assms(3) by (intro abs_le_square_iff [THEN iffD1, unfolded power2_eq_square]) auto
  moreover have "r * r \<le> 24 * 24" using assms(3,4) by (intro mult_mono) auto
  moreover have "0 \<le> i * i" by simp
  ultimately have b: "0 \<le> r * r - i * i" "r * r - i * i < 600" by linarith+
  then have "uint (of_int (r * r - i * i) :: u32) = r * r - i * i"
    by (subst uint_word_of_int_eq, simp only: take_bit_eq_mod) (rule mod_pos_pos_trivial, auto)
  then have "unat (of_int (r * r - i * i) :: u32) < NR_MEMO" using b unfolding unat_eq_nat_uint by (simp add: NR_MEMO_def)
  from isqrt_draws [OF this] obtain q s1 where s1: "isqrt (of_int (r * r - i * i)) s = Inr (q, s1)" "draws s s1" by blast
  let ?s2 = "col_loop (nat (2 * (sint q + 1) + 1)) (x + i) (y - (sint q + 1)) color s1"
  obtain s' where "circ_loop n (i + 1) x y r color ?s2 = Inr s'" "draws ?s2 s'"
    using Suc.IH [of "i + 1" ?s2] Suc.prems by auto
  with s1 show ?case by (auto simp: Let_def intro: draws_trans [OF s1(2)] draws_trans [OF draws_col])
qed simp

lemma draws_more: "draws s s' \<Longrightarrow> stagest.more s' = stagest.more s"
  by (auto simp: draws_def)

lemma drawCirc_more:
  assumes "drawCirc x y r color s = Inr s'"
  shows "stagest.more s' = stagest.more s"
proof -
  have sq: "stagest.more s1 = stagest.more s" if "isqrt z s = Inr (q, s1)" for z q s1 and s :: "'a stagest_scheme"
    using that by (auto simp: isqrt_def Let_def split: if_splits)
  have "stagest.more s' = stagest.more s" if "circ_loop n i x y r color s = Inr s'" for n i and s :: "'a stagest_scheme"
    using that
  proof (induction n arbitrary: i s)
    case (Suc n)
    then obtain q s1 where s1: "isqrt (of_int (r * r - i * i)) s = Inr (q, s1)"
      "circ_loop n (i + 1) x y r color (col_loop (nat (2 * (sint q + 1) + 1)) (x + i) (y - (sint q + 1)) color s1) = Inr s'"
      by (auto simp: bind_res_eq_Inr Let_def)
    then show ?case using Suc.IH [OF s1(2)] sq [OF s1(1)] by (simp add: draws_more [OF draws_col])
  qed simp
  from this [OF assms [unfolded drawCirc_def Let_def]] show ?thesis by simp
qed

lemma drawCirc_draws:
  assumes "0 \<le> r" "r \<le> 24"
  shows "\<exists>s'. drawCirc x y r color s = Inr s' \<and> draws s s'"
proof -
  obtain s' where "circ_loop (nat (2 * r + 1)) (- r) x y r color (s\<lparr>hash := hash s + of_int (329 * x + 157 * y + 713 * r)\<rparr>) = Inr s'"
    "draws (s\<lparr>hash := hash s + of_int (329 * x + 157 * y + 713 * r)\<rparr>) s'"
    using circ_loop_draws [of r "- r" "nat (2 * r + 1)"] assms by fastforce
  then show ?thesis by (auto simp: drawCirc_def Let_def intro: draws_trans [OF draws_upd(2)])
qed

end
