(* ===== verification/Game.thy ===== *)
theory Game
  imports Stage
begin

text \<open>
  The game, \<^verbatim>\<open>src/game/src/game.c\<close> and its random number generator \<^verbatim>\<open>src/game/src/rnd.c\<close>: a program that draws
  through the system calls of the screen and reads the keyboard.  One call of \<open>dreamOf100HZ\<close> is one
  frame; what the kernel answers in it (which keys are down, the process id) is an argument.
\<close>

section \<open>Random numbers\<close>

record kiss =
  kiss_x :: u32
  kiss_y :: u32
  kiss_z :: u32
  kiss_c :: u32

definition kiss_init :: kiss where
  "kiss_init = \<lparr>kiss_x = 123456789, kiss_y = 362436000, kiss_z = 521288629, kiss_c = 7654321\<rparr>"

definition UKISS :: "kiss \<Rightarrow> u32 \<times> kiss" where
  "UKISS k =
     (let x = 69069 * kiss_x k + 12345;
          y = kiss_y k;
          y = y XOR push_bit 13 y;
          y = y XOR drop_bit 17 y;
          y = y XOR push_bit 5 y;
          t = (698769069 :: u64) * ucast (kiss_z k) + ucast (kiss_c k);
          c = ucast (drop_bit 32 t);
          z = ucast t
      in (x + y + z, \<lparr>kiss_x = x, kiss_y = y, kiss_z = z, kiss_c = c\<rparr>))"

section \<open>State\<close>

datatype GAME_STATUS = GAME_START | GAME_READY | GAME_ING | GAME_END
datatype MONSTER_STATUS = MONSTER_ALIVE | MONSTER_DEAD | MONSTER_READY | MONSTER_AWAIT | MONSTER_SLEEP

definition MONSTER_SIZE :: nat where "MONSTER_SIZE = 20"

record MONSTER =
  mon_size :: int
  mon_x :: int
  mon_y :: int
  mon_sx :: int
  mon_sy :: int
  mon_status :: MONSTER_STATUS
  mon_count :: int

text \<open>
  \<open>px\<close>, \<open>py\<close> and \<open>psize\<close> are the globals \<^verbatim>\<open>x\<close>, \<^verbatim>\<open>y\<close> and \<^verbatim>\<open>size\<close>; \<open>printed\<close> is what went to the console and \<open>slept\<close> the arguments of
  the \<^verbatim>\<open>sleep\<close> calls.
\<close>

record gamest = stagest +
  timestamp :: u32
  curtime :: u32
  score :: u32
  gameStatus :: GAME_STATUS
  px :: int
  py :: int
  psize :: int
  monsters :: "nat \<Rightarrow> MONSTER"
  rng :: kiss
  printed :: string
  slept :: "u32 list"

definition upd_mon :: "nat \<Rightarrow> (MONSTER \<Rightarrow> MONSTER) \<Rightarrow> gamest \<Rightarrow> gamest" where
  "upd_mon i f s = s\<lparr>monsters := (monsters s)(i := f (monsters s i))\<rparr>"

definition printf :: "string \<Rightarrow> vararg list \<Rightarrow> gamest \<Rightarrow> gamest res" where
  "printf ctl args s = bind_res (vfprintf ctl False args) (\<lambda>out. Inr (s\<lparr>printed := printed s @ out\<rparr>))"

definition KISS :: "gamest \<Rightarrow> u32 \<times> gamest" where
  "KISS s = (case UKISS (rng s) of (r, k) \<Rightarrow> (r + of_int (px s) + of_int (py s), s\<lparr>rng := k\<rparr>))"

text \<open>\<open>kiss_mod n\<close> is \<^verbatim>\<open>KISS()%n\<close>, \<open>kiss_dir\<close> is \<^verbatim>\<open>-1 + KISS()%3\<close>.\<close>

definition kiss_mod :: "int \<Rightarrow> gamest \<Rightarrow> (int \<times> gamest) res" where
  "kiss_mod n s =
     (if n = 0 then Inl DivByZero
      else case KISS s of (r, s) \<Rightarrow> Inr (uint (r mod of_int n), s))"

definition kiss_dir :: "gamest \<Rightarrow> (int \<times> gamest) res" where
  "kiss_dir s = bind_res (kiss_mod 3 s) (\<lambda>(r, s). Inr (r - 1, s))"

section \<open>Monsters\<close>

primrec hit_scan :: "nat \<Rightarrow> nat \<Rightarrow> gamest \<Rightarrow> bool \<times> gamest" where
  "hit_scan 0 i s = (False, s)"
| "hit_scan (Suc n) i s =
     (let m = monsters s i; dx = px s - mon_x m; dy = py s - mon_y m in
      if mon_status m = MONSTER_ALIVE \<and> dx \<le> mon_size m \<and> dy \<le> mon_size m \<and> dx \<ge> - mon_size m \<and> dy \<ge> - mon_size m
      then
        (if mon_size m \<le> psize s then
           (let s = upd_mon i (\<lambda>m. m\<lparr>mon_status := MONSTER_DEAD\<rparr>) s;
                s = (if psize s < 13 then s\<lparr>psize := psize s + 1\<rparr> else s)
            in (True, s\<lparr>score := score s + of_int (mon_size m)\<rparr>))
         else (False, s\<lparr>gameStatus := GAME_END\<rparr>))
      else hit_scan n (Suc i) s)"

definition hitMonster :: "gamest \<Rightarrow> bool \<times> gamest" where
  "hitMonster s = hit_scan MONSTER_SIZE 0 s"

definition turn_monster :: "nat \<Rightarrow> gamest \<Rightarrow> gamest res" where
  "turn_monster i s =
     bind_res (kiss_dir s) (\<lambda>(v, s).
     let s = upd_mon i (\<lambda>m. m\<lparr>mon_sx := v\<rparr>) s in
     bind_res (kiss_dir s) (\<lambda>(v, s). Inr (upd_mon i (\<lambda>m. m\<lparr>mon_sy := v\<rparr>) s)))"

definition move_monster :: "MONSTER \<Rightarrow> MONSTER" where
  "move_monster m =
     (let m = m\<lparr>mon_x := mon_x m + mon_sx m\<rparr>;
          m = m\<lparr>mon_y := mon_y m + mon_sy m\<rparr>;
          m = (if mon_x m < 10 then m\<lparr>mon_x := mon_x m + 1\<rparr> else m);
          m = (if mon_x m > int VWIDTH - 10 then m\<lparr>mon_x := mon_x m - 1\<rparr> else m);
          m = (if mon_y m < 10 then m\<lparr>mon_y := mon_y m + 1\<rparr> else m)
      in if mon_y m > int VHEIGHT - 10 then m\<lparr>mon_y := mon_y m - 1\<rparr> else m)"

primrec draw_loop :: "nat \<Rightarrow> nat \<Rightarrow> gamest \<Rightarrow> gamest res" where
  "draw_loop 0 i s = Inr s"
| "draw_loop (Suc n) i s =
     bind_res
       (if mon_status (monsters s i) = MONSTER_ALIVE then
          (let s = upd_mon i move_monster s;
               m = monsters s i;
               color = (if psize s \<ge> mon_size m then 15 else 5) in
           bind_res (drawCirc (mon_x m) (mon_y m) (mon_size m) color s) (\<lambda>s.
           bind_res (kiss_mod 60 s) (\<lambda>(r, s). if r = 0 then turn_monster i s else Inr s)))
        else Inr s)
       (draw_loop n (Suc i))"

definition drawMonster :: "gamest \<Rightarrow> gamest res" where
  "drawMonster s = draw_loop MONSTER_SIZE 0 s"

definition spawn_monster :: "nat \<Rightarrow> gamest \<Rightarrow> gamest res" where
  "spawn_monster i s =
     (let s = upd_mon i (\<lambda>m. m\<lparr>mon_status := MONSTER_ALIVE\<rparr>) s in
      bind_res (kiss_mod (psize s) s) (\<lambda>(r, s).
      let s = upd_mon i (\<lambda>m. m\<lparr>mon_size := 2 + 2 * r\<rparr>) s;
          s = upd_mon i (\<lambda>m. m\<lparr>mon_size := (if mon_size m > 14 then 14 else mon_size m)\<rparr>) s;
          s = upd_mon i (\<lambda>m. m\<lparr>mon_x := int VWIDTH div 2\<rparr>) s;
          s = upd_mon i (\<lambda>m. m\<lparr>mon_y := int VHEIGHT div 2\<rparr>) s
      in turn_monster i s))"

primrec create_loop :: "nat \<Rightarrow> nat \<Rightarrow> gamest \<Rightarrow> gamest res" where
  "create_loop 0 i s = Inr s"
| "create_loop (Suc n) i s =
     bind_res
       (if mon_status (monsters s i) = MONSTER_ALIVE then Inr s
        else
          bind_res (kiss_mod (250 * int MONSTER_SIZE) s) (\<lambda>(r, s).
          if r = 0 then spawn_monster i s else Inr s))
       (create_loop n (Suc i))"

definition createMonster :: "gamest \<Rightarrow> gamest res" where
  "createMonster s = create_loop MONSTER_SIZE 0 s"

text \<open>\<open>alive s\<close> counts the monsters that can still be hit; it bounds the loop \<^verbatim>\<open>while(hitMonster());\<close>.\<close>

definition alive :: "gamest \<Rightarrow> nat" where
  "alive s = length (filter (\<lambda>i. mon_status (monsters s i) = MONSTER_ALIVE) [0..<MONSTER_SIZE])"

lemma hit_scan_cases:
  assumes "hit_scan n i s = (r, s')"
  shows "(\<exists>j. i \<le> j \<and> j < i + n \<and> mon_status (monsters s j) = MONSTER_ALIVE \<and> r \<and>
       monsters s' = (monsters s)(j := (monsters s j)\<lparr>mon_status := MONSTER_DEAD\<rparr>)) \<or>
     (\<not> r \<and> monsters s' = monsters s)"
  using assms
proof (induction n arbitrary: i)
  case (Suc n)
  show ?case
  proof (cases "hit_scan (Suc n) i s = hit_scan n (Suc i) s")
    case True
    with Suc.IH [of "Suc i"] Suc.prems show ?thesis by fastforce
  next
    case False
    with Suc.prems show ?thesis
      by (auto simp: Let_def upd_mon_def split: if_splits intro!: exI [of _ i])
  qed
qed simp

lemma hitMonster_alive:
  assumes "hitMonster s = (True, s')"
  shows "alive s' < alive s"
proof -
  obtain j where j: "j < MONSTER_SIZE" "mon_status (monsters s j) = MONSTER_ALIVE"
    "monsters s' = (monsters s)(j := (monsters s j)\<lparr>mon_status := MONSTER_DEAD\<rparr>)"
    using hit_scan_cases [OF assms [unfolded hitMonster_def]] by auto
  let ?A = "{i. i < MONSTER_SIZE \<and> mon_status (monsters s i) = MONSTER_ALIVE}"
  have card: "alive t = card {i. i < MONSTER_SIZE \<and> mon_status (monsters t i) = MONSTER_ALIVE}" for t
  proof -
    have d: "distinct (filter (\<lambda>i. mon_status (monsters t i) = MONSTER_ALIVE) [0..<MONSTER_SIZE])" by simp
    have "set (filter (\<lambda>i. mon_status (monsters t i) = MONSTER_ALIVE) [0..<MONSTER_SIZE])
        = {i. i < MONSTER_SIZE \<and> mon_status (monsters t i) = MONSTER_ALIVE}" by auto
    with distinct_card [OF d] show ?thesis unfolding alive_def by simp
  qed
  have "{i. i < MONSTER_SIZE \<and> mon_status (monsters s' i) = MONSTER_ALIVE} = ?A - {j}"
    using j(3) by auto
  moreover have "j \<in> ?A" using j by simp
  ultimately show ?thesis unfolding card by (metis card_Diff1_less finite_Collect_conjI finite_Collect_less_nat)
qed

function hit_all :: "gamest \<Rightarrow> gamest" where
  "hit_all s = (case hitMonster s of (r, s') \<Rightarrow> if r then hit_all s' else s')"
  by pat_completeness auto
termination by (relation "measure alive") (auto dest: hitMonster_alive [OF sym])

declare hit_all.simps [simp del]

section \<open>Frames\<close>

definition place_monster :: "nat \<Rightarrow> int \<Rightarrow> gamest \<Rightarrow> gamest res" where
  "place_monster i mul s =
     (let s = upd_mon i (\<lambda>m. m\<lparr>mon_status := MONSTER_ALIVE\<rparr>) s in
      bind_res (kiss_mod (psize s) s) (\<lambda>(r, s).
      let s = upd_mon i (\<lambda>m. m\<lparr>mon_size := 1 + mul * r\<rparr>) s in
      bind_res (kiss_mod (int VWIDTH) s) (\<lambda>(r, s).
      let s = upd_mon i (\<lambda>m. m\<lparr>mon_x := r\<rparr>) s in
      bind_res (kiss_mod (int VHEIGHT) s) (\<lambda>(r, s).
      let s = upd_mon i (\<lambda>m. m\<lparr>mon_y := r\<rparr>) s in
      turn_monster i s))))"

primrec start_loop :: "nat \<Rightarrow> nat \<Rightarrow> gamest \<Rightarrow> gamest res" where
  "start_loop 0 i s = Inr s"
| "start_loop (Suc n) i s =
     (let s = upd_mon i (\<lambda>m. m\<lparr>mon_status := MONSTER_SLEEP\<rparr>) s;
          s = upd_mon i (\<lambda>m. m\<lparr>mon_count := 0\<rparr>) s in
      bind_res (kiss_mod (int MONSTER_SIZE) s) (\<lambda>(r, s).
      bind_res (if r < psize s + 3 then place_monster i 2 s else Inr s) (start_loop n (Suc i))))"

definition game_start :: "gamest \<Rightarrow> gamest res" where
  "game_start s =
     (let s = drawStage (drawText1 (clearStage s));
          s = s\<lparr>px := 30\<rparr>;
          s = s\<lparr>py := 30\<rparr>;
          s = s\<lparr>psize := 4\<rparr>;
          s = s\<lparr>score := 0\<rparr> in
      bind_res (place_monster 0 1 s) (\<lambda>s.
      bind_res (start_loop (MONSTER_SIZE - 1) 1 s) (\<lambda>s.
      bind_res (printf (''Press Q to start'' @ [CHR 0x0A]) [] s) (\<lambda>s.
      Inr (s\<lparr>gameStatus := GAME_READY\<rparr>)))))"

definition move_player :: "(char \<Rightarrow> bool) \<Rightarrow> gamest \<Rightarrow> gamest" where
  "move_player key s =
     (let s = (if key (CHR ''a'') then s\<lparr>px := px s - 1\<rparr> else s);
          s = (if key (CHR ''d'') then s\<lparr>px := px s + 1\<rparr> else s);
          s = (if key (CHR ''w'') then s\<lparr>py := py s - 1\<rparr> else s);
          s = (if key (CHR ''s'') then s\<lparr>py := py s + 1\<rparr> else s);
          s = (if px s < 0 then s\<lparr>px := px s + 1\<rparr> else s);
          s = (if px s > int VWIDTH then s\<lparr>px := px s - 1\<rparr> else s);
          s = (if py s < 0 then s\<lparr>py := py s + 1\<rparr> else s)
      in if py s > int VHEIGHT then s\<lparr>py := py s - 1\<rparr> else s)"

definition game_ing :: "(char \<Rightarrow> bool) \<Rightarrow> u32 \<Rightarrow> gamest \<Rightarrow> gamest res" where
  "game_ing key getpid s =
     (let s = clearStage (move_player key s) in
      bind_res (drawCirc (px s) (py s) (psize s) 3 s) (\<lambda>s.
      bind_res (drawMonster s) (\<lambda>s.
      bind_res (drawCirc (px s) (py s) (psize s) 3 s) (\<lambda>s.
      bind_res (drawNumber (score s) 10 180 1 7 s) (\<lambda>s.
      bind_res (drawNumber getpid 300 10 1 7 s) (\<lambda>s.
      bind_res (if key (CHR ''p'') then drawNumber getpid 100 100 5 7 s else Inr s) (\<lambda>s.
      let s = drawStage s in
      bind_res (createMonster s) (\<lambda>s.
      Inr (hit_all s)))))))))"

definition game_end :: "gamest \<Rightarrow> gamest res" where
  "game_end s =
     bind_res (printf (''You'' @ [CHR 0x27] @ ''re dead'' @ [CHR 0x0A]) [] s) (\<lambda>s.
     bind_res (printf (''Score: %d'' @ [CHR 0x0A]) [Num (score s)] s) (\<lambda>s.
     Inr ((drawStage (clearStage s))\<lparr>gameStatus := GAME_START\<rparr>)))"

definition dreamOf100HZ :: "(char \<Rightarrow> bool) \<Rightarrow> u32 \<Rightarrow> gamest \<Rightarrow> gamest res" where
  "dreamOf100HZ key getpid s =
     bind_res (if key (CHR ''l'')
               then bind_res (printf (''GAME#%d: Sleep 5s!'' @ [CHR 0x0A]) [Num getpid] s) (\<lambda>s. Inr (s\<lparr>slept := slept s @ [5]\<rparr>))
               else Inr s) (\<lambda>s.
     bind_res (if gameStatus s = GAME_START then game_start s else Inr s) (\<lambda>s.
     if gameStatus s = GAME_READY \<and> key (CHR ''q'')
     then bind_res (printf (''Press W, A, S, D to move'' @ [CHR 0x0A]) [] s) (\<lambda>s. Inr (s\<lparr>gameStatus := GAME_ING\<rparr>))
     else
       bind_res (if gameStatus s = GAME_ING then game_ing key getpid s else Inr s) (\<lambda>s.
       if gameStatus s = GAME_END then game_end s else Inr s)))"

text \<open>
  One round of the endless loop in \<^verbatim>\<open>game\<close>: \<open>now\<close> is the tick the kernel reports, \<open>keys n\<close> the keyboard in the
  \<open>n\<close>-th frame of the round.  The inner loop draws a frame for every second tick that has passed; its counter is a 32-bit integer that
  wraps around, and the loop may run forever.
\<close>

partial_function (option) game_frames :: "nat \<Rightarrow> (nat \<Rightarrow> char \<Rightarrow> bool) \<Rightarrow> u32 \<Rightarrow> gamest \<Rightarrow> gamest res option" where
  "game_frames n keys getpid s =
     (if sint (curtime s) < sint (timestamp s) then
        (case dreamOf100HZ (keys n) getpid s of
           Inl e \<Rightarrow> Some (Inl e)
         | Inr s \<Rightarrow> game_frames (Suc n) keys getpid (s\<lparr>curtime := curtime s + 2\<rparr>))
      else Some (Inr s))"

definition game_round :: "u32 \<Rightarrow> (nat \<Rightarrow> char \<Rightarrow> bool) \<Rightarrow> u32 \<Rightarrow> gamest \<Rightarrow> gamest res" where
  "game_round now keys getpid s =
     (let s = s\<lparr>timestamp := now\<rparr> in bind_res (loop_res (game_frames 0 keys getpid s)) id)"

section \<open>The invariant of the game\<close>

text \<open>
  \<open>mon_ok m\<close>: the monster, if alive, has a size between 1 and 14, is on the board and moves by at most one pixel in each direction, so that
  its members are far from the bounds of their type.  \<open>playing s\<close>: the player is on the board and
  has a size between 4 and 13, and all monsters are ok.  In the state \<open>GAME_START\<close> nothing is
  required, since the next frame sets everything up.
\<close>

definition mon_ok :: "MONSTER \<Rightarrow> bool" where
  "mon_ok m \<longleftrightarrow> (mon_status m = MONSTER_ALIVE \<longrightarrow> 1 \<le> mon_size m \<and> mon_size m \<le> 14 \<and>
     0 \<le> mon_x m \<and> mon_x m \<le> int VWIDTH \<and> 0 \<le> mon_y m \<and> mon_y m \<le> int VHEIGHT \<and>
     \<bar>mon_sx m\<bar> \<le> 1 \<and> \<bar>mon_sy m\<bar> \<le> 1)"

definition mons_ok :: "nat \<Rightarrow> gamest \<Rightarrow> bool" where
  "mons_ok n s \<longleftrightarrow> (\<forall>i < n. mon_ok (monsters s i))"

definition player_ok :: "gamest \<Rightarrow> bool" where
  "player_ok s \<longleftrightarrow> 4 \<le> psize s \<and> psize s \<le> 13 \<and>
     0 \<le> px s \<and> px s \<le> int VWIDTH \<and> 0 \<le> py s \<and> py s \<le> int VHEIGHT"

definition playing :: "gamest \<Rightarrow> bool" where
  "playing s \<longleftrightarrow> memo_ok s \<and> player_ok s \<and> mons_ok MONSTER_SIZE s"

definition game_ok :: "gamest \<Rightarrow> bool" where
  "game_ok s \<longleftrightarrow> memo_ok s \<and> (gameStatus s \<noteq> GAME_START \<longrightarrow> playing s)"

lemma drawsD:
  fixes s :: gamest
  assumes "draws s s'"
  shows "px s' = px s" "py s' = py s" "psize s' = psize s" "monsters s' = monsters s" "gameStatus s' = gameStatus s"
    "memo_ok s \<Longrightarrow> memo_ok s'"
  using assms by (auto simp: draws_def)

lemma draws_playing: "draws s s' \<Longrightarrow> playing s \<Longrightarrow> playing s'"
  by (simp add: playing_def player_ok_def mons_ok_def drawsD)

lemma kiss_mod_range:
  assumes "0 < n" "n < 2 ^ 32"
  shows "\<exists>r k. kiss_mod n s = Inr (r, s\<lparr>rng := k\<rparr>) \<and> 0 \<le> r \<and> r < n"
proof -
  obtain r k where u: "UKISS (rng s) = (r, k)" by (cases "UKISS (rng s)")
  have n: "uint (of_int n :: u32) = n"
    using assms by (subst uint_word_of_int_eq, simp only: take_bit_eq_mod) (rule mod_pos_pos_trivial, auto)
  have "uint ((r + of_int (px s) + of_int (py s)) mod of_int n) < n"
    unfolding uint_mod n using assms(1) by simp
  with u assms(1) show ?thesis by (auto simp: kiss_mod_def KISS_def)
qed

lemma playing_upd [simp]:
  "playing (s\<lparr>rng := k\<rparr>) = playing s" "playing (s\<lparr>printed := p\<rparr>) = playing s" "playing (s\<lparr>slept := l\<rparr>) = playing s"
  "playing (s\<lparr>gameStatus := g\<rparr>) = playing s" "playing (s\<lparr>curtime := c\<rparr>) = playing s" "playing (s\<lparr>timestamp := c\<rparr>) = playing s"
  "playing (s\<lparr>score := sc\<rparr>) = playing s"
  by (simp_all add: playing_def player_ok_def mons_ok_def memo_ok_def)

text \<open>\<open>keeps P r\<close>: the operation returned, and the state it left satisfies \<open>P\<close>.\<close>

definition keeps :: "('s \<Rightarrow> bool) \<Rightarrow> 's res \<Rightarrow> bool" where
  "keeps P r \<longleftrightarrow> (\<exists>s'. r = Inr s' \<and> P s')"

lemma keeps_Inr [simp]: "keeps P (Inr s) = P s"
  by (simp add: keeps_def)

lemma keeps_bind: "keeps P r \<Longrightarrow> (\<And>s. P s \<Longrightarrow> keeps Q (f s)) \<Longrightarrow> keeps Q (bind_res r f)"
  by (auto simp: keeps_def)

lemma keeps_kiss:
  assumes "0 < n" "n < 2 ^ 32" "\<And>r k. 0 \<le> r \<Longrightarrow> r < n \<Longrightarrow> keeps Q (f r (s\<lparr>rng := k\<rparr>))"
  shows "keeps Q (bind_res (kiss_mod n s) (\<lambda>(r, s). f r s))"
  using kiss_mod_range [OF assms(1,2), of s] assms(3) by auto

lemma keeps_dir:
  assumes "\<And>r k. \<bar>r\<bar> \<le> 1 \<Longrightarrow> keeps Q (f r (s\<lparr>rng := k\<rparr>))"
  shows "keeps Q (bind_res (kiss_dir s) (\<lambda>(r, s). f r s))"
proof -
  obtain r k where r: "kiss_mod 3 s = Inr (r, s\<lparr>rng := k\<rparr>)" "0 \<le> r" "r < 3" using kiss_mod_range [of 3 s] by auto
  then show ?thesis using assms [of "r - 1" k] by (simp add: kiss_dir_def)
qed

lemma keeps_turn:
  assumes "\<And>k l v w. \<bar>v\<bar> \<le> 1 \<Longrightarrow> \<bar>w\<bar> \<le> 1 \<Longrightarrow> P (upd_mon i (\<lambda>m. m\<lparr>mon_sy := w\<rparr>) ((upd_mon i (\<lambda>m. m\<lparr>mon_sx := v\<rparr>) (s\<lparr>rng := k\<rparr>))\<lparr>rng := l\<rparr>))"
  shows "keeps P (turn_monster i s)"
  unfolding turn_monster_def Let_def
  by (intro keeps_dir) (simp add: assms)

lemma mons_ok_upd [simp]:
  "mons_ok n (s\<lparr>rng := k\<rparr>) = mons_ok n s" "mons_ok n (s\<lparr>psize := z\<rparr>) = mons_ok n s"
  by (simp_all add: mons_ok_def)

lemma mons_ok_upd_mon: "mons_ok n s \<Longrightarrow> i < n \<longrightarrow> mon_ok (f (monsters s i)) \<Longrightarrow> mons_ok n (upd_mon i f s)"
  by (simp add: mons_ok_def upd_mon_def)

lemma upd_mon_simps [simp]:
  "px (upd_mon i f s) = px s" "py (upd_mon i f s) = py s" "psize (upd_mon i f s) = psize s"
  "gameStatus (upd_mon i f s) = gameStatus s" "memo_ok (upd_mon i f s) = memo_ok s"
  "monsters (upd_mon i f s) = (monsters s)(i := f (monsters s i))"
  by (simp_all add: upd_mon_def memo_ok_def)

lemma memo_ok_rng [simp]:
  "memo_ok (s\<lparr>rng := k\<rparr>) = memo_ok s" "memo_ok (s\<lparr>psize := z\<rparr>) = memo_ok s" "memo_ok (s\<lparr>px := z\<rparr>) = memo_ok s"
  "memo_ok (s\<lparr>py := z\<rparr>) = memo_ok s" "memo_ok (s\<lparr>score := w\<rparr>) = memo_ok s" "memo_ok (s\<lparr>gameStatus := g\<rparr>) = memo_ok s"
  "memo_ok (s\<lparr>printed := q\<rparr>) = memo_ok s" "memo_ok (s\<lparr>slept := l\<rparr>) = memo_ok s" "memo_ok (s\<lparr>curtime := c\<rparr>) = memo_ok s"
  "memo_ok (s\<lparr>timestamp := c\<rparr>) = memo_ok s"
  for s :: gamest
  by (simp_all add: memo_ok_def)

lemma mon_ok_count [simp]: "mon_ok (m\<lparr>mon_count := v\<rparr>) = mon_ok m"
  by (simp add: mon_ok_def)

lemma mon_ok_turned: "mon_ok m \<Longrightarrow> \<bar>v\<bar> \<le> 1 \<Longrightarrow> \<bar>w\<bar> \<le> 1 \<Longrightarrow> mon_ok (m\<lparr>mon_sx := v, mon_sy := w\<rparr>)"
  by (simp add: mon_ok_def)

text \<open>A step leads back to the board.\<close>

lemma mon_ok_moved: "mon_ok m \<Longrightarrow> mon_ok (move_monster m)"
  by (auto simp: mon_ok_def move_monster_def Let_def video_consts)

section \<open>Starting a game\<close>

text \<open>While a game is set up, the first \<open>n\<close> monsters are ready.\<close>

definition starting :: "nat \<Rightarrow> gamest \<Rightarrow> bool" where
  "starting n s \<longleftrightarrow> memo_ok s \<and> psize s = 4 \<and> px s = 30 \<and> py s = 30 \<and> mons_ok n s"

lemma starting_Suc: "starting (Suc n) s \<longleftrightarrow> starting n s \<and> mon_ok (monsters s n)"
  by (auto simp: starting_def mons_ok_def less_Suc_eq)

lemma starting_upd [simp]: "starting n (s\<lparr>rng := k\<rparr>) = starting n s"
  by (simp add: starting_def)

lemma starting_upd_mon: "starting n s \<Longrightarrow> i < n \<longrightarrow> mon_ok (f (monsters s i)) \<Longrightarrow> starting n (upd_mon i f s)"
  by (simp add: starting_def mons_ok_upd_mon)

lemma turn_starting: "starting n s \<Longrightarrow> keeps (starting n) (turn_monster i s)"
  by (rule keeps_turn) (auto simp: starting_def mons_ok_def mon_ok_turned)

lemma place_starting:
  assumes "starting n s" "mul = 1 \<or> mul = 2"
  shows "keeps (starting (Suc n)) (place_monster n mul s)"
proof -
  have s: "psize (upd_mon n (\<lambda>m. m\<lparr>mon_status := MONSTER_ALIVE\<rparr>) s) = 4" using assms(1) by (simp add: starting_def)
  show ?thesis
    unfolding place_monster_def Let_def s
    by (intro keeps_kiss keeps_turn) (use assms in \<open>auto simp: starting_def mons_ok_def mon_ok_def less_Suc_eq video_consts\<close>)
qed

lemma start_loop_starting:
  assumes "starting i s"
  shows "keeps (starting (i + n)) (start_loop n i s)"
  using assms
proof (induction n arbitrary: i s)
  case (Suc n)
  let ?s = "upd_mon i (\<lambda>m. m\<lparr>mon_count := 0\<rparr>) (upd_mon i (\<lambda>m. m\<lparr>mon_status := MONSTER_SLEEP\<rparr>) s)"
  have s1: "starting (Suc i) ?s" using Suc.prems by (auto simp: starting_def mons_ok_def mon_ok_def less_Suc_eq)
  have "keeps (starting (Suc i)) (if r < psize t + 3 then place_monster i 2 t else Inr t)" if "starting (Suc i) t" for r t
    using that place_starting [of i t 2] by (auto simp: starting_Suc)
  then have body: "keeps (starting (i + Suc n)) (bind_res (if r < psize t + 3 then place_monster i 2 t else Inr t) (start_loop n (Suc i)))"
    if "starting (Suc i) t" for r t
    using that Suc.IH [of "Suc i"] by (intro keeps_bind [where P = "starting (Suc i)"]) auto
  show ?case unfolding start_loop.simps Let_def
    by (intro keeps_kiss body) (use s1 in \<open>simp_all add: MONSTER_SIZE_def\<close>)
qed simp

text \<open>Every message of the game is printed completely.\<close>

lemma printf_keeps:
  assumes "\<exists>out. vfprintf ctl False args = Inr out" "\<And>out. P (s\<lparr>printed := printed s @ out\<rparr>)"
  shows "keeps P (printf ctl args s)"
  using assms by (auto simp: printf_def)

lemma message_defined:
  "\<exists>out. vfprintf (''Press Q to start'' @ [CHR 0x0A]) False [] = Inr out"
  "\<exists>out. vfprintf (''Press W, A, S, D to move'' @ [CHR 0x0A]) False [] = Inr out"
  "\<exists>out. vfprintf (''You'' @ [CHR 0x27] @ ''re dead'' @ [CHR 0x0A]) False [] = Inr out"
  "\<exists>out. vfprintf (''Score: %d'' @ [CHR 0x0A]) False [Num n] = Inr out"
  "\<exists>out. vfprintf (''GAME#%d: Sleep 5s!'' @ [CHR 0x0A]) False [Num n] = Inr out"
  using print_dec_spec [of n] by (auto simp: XGET_int_def)

lemma game_start_playing:
  assumes "memo_ok s"
  shows "keeps (\<lambda>s'. playing s' \<and> gameStatus s' = GAME_READY) (game_start s)"
proof -
  let ?t = "drawStage (drawText1 (clearStage s))"
  have "memo_ok ?t"
    using assms by (intro drawsD(6) [OF draws_stage] drawsD(6) [OF draws_text] drawsD(6) [OF draws_clear])
  then have t: "starting 0 (?t\<lparr>px := 30, py := 30, psize := 4, score := 0\<rparr>)"
    by (simp add: starting_def mons_ok_def)
  have play: "playing (u\<lparr>printed := q, gameStatus := g\<rparr>)" if "starting MONSTER_SIZE u" for u q g
    using that by (auto simp: starting_def playing_def player_ok_def mons_ok_def video_consts)
  have loop: "starting 1 u \<Longrightarrow> keeps (starting MONSTER_SIZE) (start_loop (MONSTER_SIZE - 1) 1 u)" for u
    using start_loop_starting [of 1 u "MONSTER_SIZE - 1"] by (simp add: MONSTER_SIZE_def)
  have place: "keeps (starting 1) (place_monster 0 1 (?t\<lparr>px := 30, py := 30, psize := 4, score := 0\<rparr>))"
    using place_starting [OF t, of 1] by simp
  have message: "keeps (\<lambda>s'. playing s' \<and> gameStatus s' = GAME_READY)
      (bind_res (printf (''Press Q to start'' @ [CHR 0x0A]) [] u) (\<lambda>s. Inr (s\<lparr>gameStatus := GAME_READY\<rparr>)))"
    if "starting MONSTER_SIZE u" for u
    using message_defined(1) play [OF that] by (auto simp: printf_def)
  show ?thesis
    unfolding game_start_def Let_def
    by (rule keeps_bind [OF place], rule keeps_bind [OF loop], assumption, rule message)
qed

section \<open>Playing\<close>

lemma playing_upd_mon: "playing s \<Longrightarrow> mon_ok (f (monsters s i)) \<or> MONSTER_SIZE \<le> i \<Longrightarrow> playing (upd_mon i f s)"
  by (auto simp: playing_def player_ok_def mons_ok_upd_mon)

lemma turn_playing: "playing s \<Longrightarrow> keeps playing (turn_monster i s)"
  by (rule keeps_turn) (auto simp: playing_def player_ok_def mons_ok_def mon_ok_turned)

lemma draw_loop_playing:
  assumes "playing s" "i + n \<le> MONSTER_SIZE"
  shows "keeps playing (draw_loop n i s)"
  using assms
proof (induction n arbitrary: i s)
  case (Suc n)
  let ?body = "\<lambda>s. bind_res (drawCirc (mon_x (monsters s i)) (mon_y (monsters s i)) (mon_size (monsters s i))
      (if psize s \<ge> mon_size (monsters s i) then 15 else 5) s) (\<lambda>s.
      bind_res (kiss_mod 60 s) (\<lambda>(r, s). if r = 0 then turn_monster i s else Inr s))"
  have m: "mon_ok (monsters s i)" using Suc.prems by (auto simp: playing_def mons_ok_def)
  let ?s = "upd_mon i move_monster s"
  have p: "playing ?s" using Suc.prems(1) m by (intro playing_upd_mon) (simp_all add: mon_ok_moved)
  have "keeps playing (?body ?s)" if "mon_status (monsters s i) = MONSTER_ALIVE"
  proof (rule keeps_bind [where P = playing])
    have "mon_ok (monsters ?s i)" using m by (simp add: mon_ok_moved)
    moreover have "mon_status (monsters ?s i) = MONSTER_ALIVE" using that by (simp add: move_monster_def Let_def)
    ultimately have "0 \<le> mon_size (monsters ?s i)" "mon_size (monsters ?s i) \<le> 24" by (simp_all add: mon_ok_def)
    from drawCirc_draws [OF this] p draws_playing
    show "keeps playing (drawCirc (mon_x (monsters ?s i)) (mon_y (monsters ?s i)) (mon_size (monsters ?s i))
      (if psize ?s \<ge> mon_size (monsters ?s i) then 15 else 5) ?s)" unfolding keeps_def by blast
  next
    fix t assume "playing t"
    then show "keeps playing (bind_res (kiss_mod 60 t) (\<lambda>(r, s). if r = 0 then turn_monster i s else Inr s))"
      by (intro keeps_kiss) (simp_all add: turn_playing)
  qed
  then show ?case
    unfolding draw_loop.simps Let_def using Suc.prems Suc.IH [of _ "Suc i"]
    by (intro keeps_bind [where P = playing]) (auto simp: Let_def)
qed simp

lemma spawn_playing:
  assumes "playing s"
  shows "keeps playing (spawn_monster i s)"
  unfolding spawn_monster_def Let_def
proof (intro keeps_kiss keeps_turn)
  show "0 < psize (upd_mon i (\<lambda>m. m\<lparr>mon_status := MONSTER_ALIVE\<rparr>) s)"
    "psize (upd_mon i (\<lambda>m. m\<lparr>mon_status := MONSTER_ALIVE\<rparr>) s) < 2 ^ 32"
    using assms by (simp_all add: playing_def player_ok_def)
qed (use assms in \<open>auto simp: playing_def player_ok_def mons_ok_def mon_ok_def video_consts\<close>)

lemma create_loop_playing: "playing s \<Longrightarrow> keeps playing (create_loop n i s)"
proof (induction n arbitrary: i s)
  case (Suc n)
  have "keeps playing (if mon_status (monsters s i) = MONSTER_ALIVE then Inr s
      else bind_res (kiss_mod (250 * int MONSTER_SIZE) s) (\<lambda>(r, s). if r = 0 then spawn_monster i s else Inr s))"
    using Suc.prems by (auto intro!: keeps_kiss spawn_playing simp: MONSTER_SIZE_def)
  then show ?case unfolding create_loop.simps by (rule keeps_bind) (rule Suc.IH)
qed simp

lemma hit_scan_playing:
  assumes "playing s" "hit_scan n i s = (r, s')"
  shows "playing s'" "gameStatus s' = gameStatus s \<or> gameStatus s' = GAME_END"
proof -
  have "playing s' \<and> (gameStatus s' = gameStatus s \<or> gameStatus s' = GAME_END)" using assms
  proof (induction n arbitrary: i)
    case (Suc n)
    then show ?case
      by (auto simp: Let_def playing_def player_ok_def mons_ok_def mon_ok_def split: if_splits)
  qed auto
  then show "playing s'" "gameStatus s' = gameStatus s \<or> gameStatus s' = GAME_END" by auto
qed

lemma hit_all_playing:
  assumes "playing s"
  shows "playing (hit_all s) \<and> (gameStatus (hit_all s) = gameStatus s \<or> gameStatus (hit_all s) = GAME_END)"
  using assms
proof (induction s rule: hit_all.induct)
  case (1 s)
  obtain r s' where h: "hitMonster s = (r, s')" by (cases "hitMonster s")
  note p = hit_scan_playing [OF "1.prems" h [unfolded hitMonster_def]]
  show ?case
    using 1(1) [OF h [symmetric]] p h by (subst (1 2 3) hit_all.simps) auto
qed

text \<open>\<open>touches s i\<close>: the test of \<open>hitMonster\<close> for monster \<open>i\<close>.\<close>

definition touches :: "gamest \<Rightarrow> nat \<Rightarrow> bool" where
  "touches s i \<longleftrightarrow> mon_status (monsters s i) = MONSTER_ALIVE \<and>
     \<bar>px s - mon_x (monsters s i)\<bar> \<le> mon_size (monsters s i) \<and> \<bar>py s - mon_y (monsters s i)\<bar> \<le> mon_size (monsters s i)"

lemma hit_scan_False:
  assumes "hit_scan n i s = (False, s')"
  shows "gameStatus s' = GAME_END \<or> s' = s \<and> (\<forall>j. i \<le> j \<and> j < i + n \<longrightarrow> \<not> touches s j)"
  using assms
proof (induction n arbitrary: i)
  case (Suc n)
  let ?m = "monsters s i"
  show ?case
  proof (cases "touches s i")
    case True
    with Suc.prems show ?thesis
      by (auto simp: touches_def Let_def abs_le_iff split: if_splits)
  next
    case False
    then have "hit_scan (Suc n) i s = hit_scan n (Suc i) s"
      by (auto simp: touches_def Let_def abs_le_iff)
    with Suc.prems Suc.IH [of "Suc i"] have "gameStatus s' = GAME_END \<or> s' = s \<and> (\<forall>j. Suc i \<le> j \<and> j < Suc i + n \<longrightarrow> \<not> touches s j)"
      by simp
    with False show ?thesis by (metis Suc_leI add_Suc_right add_Suc_shift le_neq_implies_less)
  qed
qed auto

text \<open>
  C23. The loop \<^verbatim>\<open>while(hitMonster());\<close> ends: after at most as many rounds as monsters are alive a call returns 0, and then
  the game is over or no living monster touches the player any more.
\<close>

theorem hit_loop_terminates:
  "\<exists>n \<le> alive s. (\<forall>k < n. fst (hitMonster (((snd \<circ> hitMonster) ^^ k) s))) \<and>
     \<not> fst (hitMonster (((snd \<circ> hitMonster) ^^ n) s)) \<and> hit_all s = ((snd \<circ> hitMonster) ^^ Suc n) s \<and>
     (gameStatus (hit_all s) = GAME_END \<or> (\<forall>i < MONSTER_SIZE. \<not> touches (hit_all s) i))"
proof (induction s rule: hit_all.induct)
  case (1 s)
  obtain r s' where h: "hitMonster s = (r, s')" by (cases "hitMonster s")
  show ?case
  proof (cases r)
    case False
    with h have a: "hit_all s = s'" by (subst hit_all.simps) simp
    have "gameStatus s' = GAME_END \<or> (\<forall>i < MONSTER_SIZE. \<not> touches s' i)"
      using hit_scan_False [of MONSTER_SIZE 0 s s'] h False by (auto simp: hitMonster_def)
    with a h False show ?thesis by (intro exI [of _ 0]) simp
  next
    case True
    with h have a: "hit_all s = hit_all s'" by (subst hit_all.simps) simp
    have less: "alive s' < alive s" using hitMonster_alive h True by simp
    obtain n where n: "n \<le> alive s'" "\<forall>k < n. fst (hitMonster (((snd \<circ> hitMonster) ^^ k) s'))"
      "\<not> fst (hitMonster (((snd \<circ> hitMonster) ^^ n) s'))" "hit_all s' = ((snd \<circ> hitMonster) ^^ Suc n) s'"
      "gameStatus (hit_all s') = GAME_END \<or> (\<forall>i < MONSTER_SIZE. \<not> touches (hit_all s') i)"
      using 1 [OF h [symmetric] True] by blast
    have sh: "((snd \<circ> hitMonster) ^^ Suc k) s = ((snd \<circ> hitMonster) ^^ k) s'" for k
      using h by (simp add: funpow_Suc_right del: funpow.simps)
    have "\<forall>k < Suc n. fst (hitMonster (((snd \<circ> hitMonster) ^^ k) s))"
    proof (intro allI impI)
      fix k assume "k < Suc n"
      then show "fst (hitMonster (((snd \<circ> hitMonster) ^^ k) s))"
        using n(2) h True sh by (cases k) (simp_all del: funpow.simps(2))
    qed
    moreover have "\<not> fst (hitMonster (((snd \<circ> hitMonster) ^^ Suc n) s))" unfolding sh by (rule n(3))
    moreover have "hit_all s = ((snd \<circ> hitMonster) ^^ Suc (Suc n)) s" unfolding sh a by (rule n(4))
    moreover have "Suc n \<le> alive s" using n(1) less by simp
    ultimately show ?thesis using n(5) unfolding a by blast
  qed
qed

lemma move_player_playing:
  assumes "playing s"
  shows "playing (move_player key s)" "gameStatus (move_player key s) = gameStatus s"
  using assms by (auto simp: move_player_def Let_def playing_def player_ok_def mons_ok_def)

lemma circle_playing:
  assumes "playing s"
  shows "keeps playing (drawCirc x y (psize s) color s)"
proof -
  have "0 \<le> psize s" "psize s \<le> 24" using assms by (simp_all add: playing_def player_ok_def)
  from drawCirc_draws [OF this] draws_playing [OF _ assms] show ?thesis unfolding keeps_def by blast
qed

lemma number_playing: "playing s \<Longrightarrow> keeps playing (drawNumber num x y sz color s)"
  using drawNumber_draws [of num x y sz color s] draws_playing unfolding keeps_def by blast

lemma game_ing_playing: "playing s \<Longrightarrow> keeps playing (game_ing key getpid s)"
  unfolding game_ing_def Let_def drawMonster_def createMonster_def
  by (intro keeps_bind [where P = playing] circle_playing number_playing draw_loop_playing create_loop_playing
      draws_playing [OF draws_clear] draws_playing [OF draws_stage] move_player_playing)
    (auto simp: hit_all_playing intro: number_playing draws_playing [OF draws_stage])

lemma game_end_ok: "playing s \<Longrightarrow> keeps game_ok (game_end s)"
  unfolding game_end_def
proof (rule keeps_bind [where P = playing])
  show "playing s \<Longrightarrow> keeps playing (printf (''You'' @ [CHR 0x27] @ ''re dead'' @ [CHR 0x0A]) [] s)"
    by (rule printf_keeps [OF message_defined(3)]) simp
  show "keeps game_ok (bind_res (printf (''Score: %d'' @ [CHR 0x0A]) [Num (score t)] t)
      (\<lambda>s. Inr ((drawStage (clearStage s))\<lparr>gameStatus := GAME_START\<rparr>)))" if "playing t" for t
  proof (rule keeps_bind [where P = playing])
    show "keeps playing (printf (''Score: %d'' @ [CHR 0x0A]) [Num (score t)] t)"
      by (rule printf_keeps [OF message_defined(4)]) (simp add: that)
    show "keeps game_ok (Inr ((drawStage (clearStage u))\<lparr>gameStatus := GAME_START\<rparr>))" if "playing u" for u
      using draws_playing [OF draws_stage draws_playing [OF draws_clear that]] by (simp add: game_ok_def playing_def)
  qed
qed

lemma frame_ok:
  assumes "game_ok s"
  shows "keeps game_ok (dreamOf100HZ key getpid s)"
proof -
  have ok: "playing u \<Longrightarrow> game_ok u" for u by (simp add: game_ok_def playing_def)
  have sleep: "keeps game_ok (if key (CHR ''l'')
      then bind_res (printf (''GAME#%d: Sleep 5s!'' @ [CHR 0x0A]) [Num getpid] s) (\<lambda>s. Inr (s\<lparr>slept := slept s @ [5]\<rparr>)) else Inr s)"
    using message_defined(5) [of getpid] assms by (auto simp: printf_def game_ok_def)
  have start: "keeps playing (if gameStatus u = GAME_START then game_start u else Inr u)" if "game_ok u" for u
    using that game_start_playing [of u] by (auto simp: game_ok_def keeps_def)
  have quit: "keeps game_ok (bind_res (printf (''Press W, A, S, D to move'' @ [CHR 0x0A]) [] u) (\<lambda>s. Inr (s\<lparr>gameStatus := GAME_ING\<rparr>)))"
    if "playing u" for u using message_defined(2) that by (auto simp: printf_def intro!: ok)
  have frame: "keeps game_ok (bind_res (if gameStatus u = GAME_ING then game_ing key getpid u else Inr u)
      (\<lambda>s. if gameStatus s = GAME_END then game_end s else Inr s))" if "playing u" for u
    using that by (intro keeps_bind [where P = playing]) (auto simp: game_ing_playing game_end_ok ok)
  show ?thesis unfolding dreamOf100HZ_def
    by (rule keeps_bind [OF sleep], rule keeps_bind [OF start], assumption, split if_split, intro conjI impI)
      (erule quit, erule frame)
qed

section \<open>The clock\<close>

text \<open>A frame leaves the counters of the main loop alone: \<open>on_time c r\<close> says so of the operation with result \<open>r\<close>.\<close>

definition clock :: "gamest \<Rightarrow> u32 \<times> u32" where
  "clock s = (curtime s, timestamp s)"

definition on_time :: "u32 \<times> u32 \<Rightarrow> gamest res \<Rightarrow> bool" where
  "on_time c r \<longleftrightarrow> (\<forall>s'. r = Inr s' \<longrightarrow> clock s' = c)"

lemma clock_simps [simp]:
  "clock (s\<lparr>rng := k\<rparr>) = clock s" "clock (s\<lparr>printed := q\<rparr>) = clock s" "clock (s\<lparr>slept := l\<rparr>) = clock s" "clock (s\<lparr>gameStatus := g\<rparr>) = clock s"
  "clock (s\<lparr>px := z\<rparr>) = clock s" "clock (s\<lparr>py := z\<rparr>) = clock s" "clock (s\<lparr>psize := z\<rparr>) = clock s" "clock (s\<lparr>score := w\<rparr>) = clock s"
  "clock (upd_mon i f s) = clock s"
  by (simp_all add: clock_def upd_mon_def)

lemma clock_draws: "draws s s' \<Longrightarrow> clock s' = clock s"
  by (auto simp: draws_def clock_def)

lemma clock_stage [simp]: "clock (drawStage s) = clock s" "clock (clearStage s) = clock s" "clock (drawText1 s) = clock s"
  by (rule clock_draws, simp)+

lemma on_time_Inr [simp]: "on_time c (Inr s) \<longleftrightarrow> clock s = c" "on_time c (Inl e)"
  by (simp_all add: on_time_def)

lemma on_time_bind:
  assumes "on_time c r" "\<And>s. clock s = c \<Longrightarrow> on_time c (f s)"
  shows "on_time c (bind_res r f)"
  using assms by (cases r) (simp_all add: on_time_def)

lemma on_time_kiss: "(\<And>r k. on_time c (f r (s\<lparr>rng := k\<rparr>))) \<Longrightarrow> on_time c (bind_res (kiss_mod n s) (\<lambda>(r, s). f r s))"
  by (simp add: kiss_mod_def KISS_def split: prod.split)

lemma on_time_if: "(b \<Longrightarrow> on_time c r) \<Longrightarrow> (\<not> b \<Longrightarrow> on_time c r') \<Longrightarrow> on_time c (if b then r else r')"
  by simp

lemma on_time_turn: "clock s = c \<Longrightarrow> on_time c (turn_monster i s)"
  by (simp add: turn_monster_def kiss_dir_def kiss_mod_def KISS_def Let_def split: prod.split)

lemma on_time_printf: "clock s = c \<Longrightarrow> on_time c (printf ctl args s)"
  by (cases "vfprintf ctl False args") (simp_all add: printf_def)

lemma on_time_place: "clock s = c \<Longrightarrow> on_time c (place_monster i mul s)"
  unfolding place_monster_def Let_def by (intro on_time_kiss on_time_turn) simp

lemma on_time_spawn: "clock s = c \<Longrightarrow> on_time c (spawn_monster i s)"
  unfolding spawn_monster_def Let_def by (intro on_time_kiss on_time_turn) simp

lemma on_time_start_loop: "clock s = c \<Longrightarrow> on_time c (start_loop n i s)"
proof (induction n arbitrary: i s)
  case (Suc n)
  show ?case unfolding start_loop.simps Let_def
    by (intro on_time_kiss on_time_bind on_time_if on_time_place Suc.IH) (simp_all add: Suc.prems)
qed simp

lemma on_time_create: "clock s = c \<Longrightarrow> on_time c (create_loop n i s)"
proof (induction n arbitrary: i s)
  case (Suc n)
  show ?case unfolding create_loop.simps
    by (intro on_time_bind on_time_if on_time_kiss on_time_spawn Suc.IH) (simp_all add: Suc.prems)
qed simp

lemma on_time_game_start: "clock s = c \<Longrightarrow> on_time c (game_start s)"
  unfolding game_start_def Let_def
  by (intro on_time_bind on_time_place on_time_start_loop on_time_printf) simp_all

lemma clock_hit_all: "clock (hit_all s) = clock s"
proof -
  have scan: "clock (snd (hit_scan n i s)) = clock s" for n i s by (induction n arbitrary: i) (simp_all add: Let_def)
  show ?thesis
  proof (induction s rule: hit_all.induct)
    case (1 s)
    show ?case using 1 scan [of MONSTER_SIZE 0 s] by (subst hit_all.simps) (auto simp: hitMonster_def split: prod.split)
  qed
qed

lemma clock_more: "stagest.more s' = stagest.more s \<Longrightarrow> clock s' = clock s"
  by (cases s; cases s') (simp add: clock_def)

lemma on_time_circle: "clock s = c \<Longrightarrow> on_time c (drawCirc x y r color s)"
  by (auto simp: on_time_def dest: drawCirc_more clock_more)

lemma on_time_number: "clock s = c \<Longrightarrow> on_time c (drawNumber num x y sz color s)"
proof -
  obtain s' where "drawNumber num x y sz color s = Inr s'" "draws s s'" using drawNumber_draws by blast
  then show "clock s = c \<Longrightarrow> on_time c (drawNumber num x y sz color s)" by (simp add: clock_draws)
qed

lemma on_time_draw: "clock s = c \<Longrightarrow> on_time c (draw_loop n i s)"
proof (induction n arbitrary: i s)
  case (Suc n)
  show ?case unfolding draw_loop.simps Let_def
    by (intro on_time_bind on_time_if on_time_kiss on_time_circle on_time_turn Suc.IH) (simp_all add: Suc.prems)
qed simp

lemma clock_move_player [simp]: "clock (move_player key s) = clock s"
  by (simp add: move_player_def Let_def)

lemma on_time_game_ing: "clock s = c \<Longrightarrow> on_time c (game_ing key getpid s)"
  unfolding game_ing_def Let_def drawMonster_def createMonster_def
  by (intro on_time_bind on_time_circle on_time_draw on_time_number on_time_if on_time_create) (simp_all add: clock_hit_all)

lemma on_time_game_end: "clock s = c \<Longrightarrow> on_time c (game_end s)"
  unfolding game_end_def by (intro on_time_bind on_time_printf) simp_all

lemma frame_on_time: "on_time (clock s) (dreamOf100HZ key getpid s)"
  unfolding dreamOf100HZ_def
  by (intro on_time_bind on_time_if on_time_printf on_time_game_start on_time_game_ing on_time_game_end) simp_all

lemma game_frame_effect:
  assumes "game_ok s"
  shows "\<exists>s'. dreamOf100HZ key getpid s = Inr s' \<and> game_ok s' \<and> curtime s' = curtime s \<and> timestamp s' = timestamp s"
  using frame_ok [OF assms, of key getpid] frame_on_time [of s key getpid] by (auto simp: keeps_def on_time_def clock_def)

lemma game_ok_times [simp]: "game_ok (s\<lparr>curtime := c\<rparr>) = game_ok s" "game_ok (s\<lparr>timestamp := c\<rparr>) = game_ok s"
  by (simp_all add: game_ok_def)

lemma curtime_step:
  assumes "sint (c :: u32) < sint (w :: u32)" "w \<noteq> 0x7FFFFFFF"
  shows "sint (c + 2) = sint c + 2"
proof -
  have r: "- (2 ^ 31) \<le> sint x" "sint x < 2 ^ 31" for x :: u32 using sint_ge [of x] sint_lt [of x] by simp_all
  have "sint w \<noteq> sint (0x7FFFFFFF :: u32)" using assms(2) by (metis signed_word_eqI)
  then have "sint c + 2 < 2 ^ 31" using assms(1) r(2) [of w] by simp
  then have "signed_take_bit 31 (sint c + 2) = sint c + 2" using r(1) [of c] by (intro signed_take_bit_int_eq_self) simp_all
  then show ?thesis by (simp add: sint_word_ariths)
qed

text \<open>
  C24. The game never faults: let the state have a right memory of square roots, and a game under way have the player and all living
  monsters on the board, with sensible sizes and steps of at most one pixel.  Whatever keys are pressed and whatever the random numbers are, a round of the
  main loop for any tick but the largest signed integer returns, with all its frames drawn, and ends in such a state again, with the
  counter at the tick or one after it.  No array is left, no division by zero happens, no coordinate or size leaves its small range, so the
  unbounded integers of the model are those of the machine.
\<close>

theorem game_round_safe:
  assumes "game_ok s" "now \<noteq> 0x7FFFFFFF"
  shows "\<exists>s'. game_round now keys getpid s = Inr s' \<and> game_ok s' \<and> timestamp s' = now \<and> sint now \<le> sint (curtime s') \<and>
    (sint (curtime s) \<le> sint now + 1 \<longrightarrow> sint (curtime s') \<le> sint now + 1)"
proof -
  have "\<exists>s'. game_frames n keys getpid t = Some (Inr s') \<and> game_ok s' \<and> timestamp s' = now \<and> sint now \<le> sint (curtime s') \<and>
      (sint (curtime t) \<le> sint now + 1 \<longrightarrow> sint (curtime s') \<le> sint now + 1)"
    if "game_ok t" "timestamp t = now" for n t
    using that
  proof (induction "nat (sint now - sint (curtime t))" arbitrary: n t rule: less_induct)
    case less
    show ?case
    proof (cases "sint (curtime t) < sint now")
      case True
      obtain u where u: "dreamOf100HZ (keys n) getpid t = Inr u" "game_ok u" "curtime u = curtime t" "timestamp u = now"
        using game_frame_effect [OF less.prems(1)] less.prems(2) by metis
      have c: "sint (curtime t + 2) = sint (curtime t) + 2" by (rule curtime_step [OF True assms(2)])
      have "nat (sint now - sint (curtime (u\<lparr>curtime := curtime u + 2\<rparr>))) < nat (sint now - sint (curtime t))" using True c u(3) by simp
      from less.hyps [OF this, of "Suc n"] u c show ?thesis using True less.prems(2) by (subst game_frames.simps) auto
    next
      case False
      then show ?thesis using less.prems by (subst game_frames.simps) simp
    qed
  qed
  from this [of "s\<lparr>timestamp := now\<rparr>" 0] assms(1) show ?thesis by (auto simp: game_round_def)
qed

text \<open>For the largest tick the counter, when it is even, runs past it: the round never ends.\<close>

lemma game_round_stuck:
  assumes "game_ok s" "even (curtime s)"
  shows "game_round 0x7FFFFFFF keys getpid s = Inl Diverge"
proof -
  have False if "game_frames n keys getpid t = Some r" "game_ok t" "timestamp t = 0x7FFFFFFF" "even (curtime t)" for n t r
    using that
  proof (induction rule: game_frames.raw_induct [rotated 1, consumes 1, case_names step])
    case (step f n keys getpid t r)
    have "curtime t \<noteq> 0x7FFFFFFF" using step.prems(3) by auto
    then have "sint (curtime t) \<noteq> sint (0x7FFFFFFF :: u32)" by (metis signed_word_eqI)
    then have "sint (curtime t) < sint (timestamp t)" using sint_lt [of "curtime t"] step.prems(2) by simp
    moreover obtain u where u: "dreamOf100HZ (keys n) getpid t = Inr u" "game_ok u" "curtime u = curtime t" "timestamp u = 0x7FFFFFFF"
      using game_frame_effect [OF step.prems(1)] step.prems(2) by metis
    ultimately have "f (Suc n) keys getpid (u\<lparr>curtime := curtime u + 2\<rparr>) = Some r" using step.hyps by simp
    from step.IH [OF this] show False using u step.prems(3) by simp
  qed
  then have "game_frames 0 keys getpid (s\<lparr>timestamp := 0x7FFFFFFF\<rparr>) = None" using assms by fastforce
  then show ?thesis by (simp add: game_round_def)
qed

definition game_init :: gamest where
  "game_init = stagest.extend blank_stage
     \<lparr>timestamp = 1, curtime = 0, score = 0, gameStatus = GAME_START, px = 0, py = 0, psize = 0,
      monsters = (\<lambda>_. \<lparr>mon_size = 0, mon_x = 0, mon_y = 0, mon_sx = 0, mon_sy = 0, mon_status = MONSTER_ALIVE, mon_count = 0\<rparr>),
      rng = kiss_init, printed = [], slept = []\<rparr>"

theorem game_round_safe_witness:
  "\<exists>s'. game_round 500 (\<lambda>n c. c = CHR ''q'' \<or> c = CHR ''d'') 3 game_init = Inr s' \<and> game_ok s'"
proof -
  have "game_ok game_init" by (simp add: game_ok_def game_init_def memo_ok_def blank_stage_def stagest.defs)
  from game_round_safe [OF this, of 500] show ?thesis by auto
qed

theorem hit_loop_terminates_witness:
  "\<exists>n. n \<le> alive game_init \<and> hit_all game_init = ((snd \<circ> hitMonster) ^^ Suc n) game_init"
  using hit_loop_terminates [of game_init] by blast

end
