(* ===== verification/Shell.thy ===== *)
theory Shell
  imports File_Ops File_Frame Printk
begin

text \<open>
  The shell, \<^verbatim>\<open>src/cshell/src/main.c\<close>, with the string functions of \<^verbatim>\<open>src/cshell/include/common.h\<close>.  The shell runs as the
  current process of the kernel; its file and output calls are the kernel's operations behind the system calls, its process calls
  are recorded in order.  Reading or writing outside of a buffer and using a null pointer are undefined behaviour, that is, faults.
\<close>

section \<open>State\<close>

definition WHITESPACE :: "u8 list" where "WHITESPACE = [0x09, 0x0D, 0x0A, 0x20]"
definition MAXARGS :: nat where "MAXARGS = 16"
definition BUFSIZE :: nat where "BUFSIZE = 1024"

datatype shell_call = Call_fork | Call_exec "u8 list" | Call_join u32

text \<open>\<open>cbuf\<close> and \<open>bbuf\<close> are the arrays \<^verbatim>\<open>c\<close> and \<^verbatim>\<open>b\<close>; a pointer in \<^verbatim>\<open>argv\<close> is an index into \<^verbatim>\<open>c\<close>, or null.\<close>

record shellst = fsst +
  cbuf :: "nat \<Rightarrow> u8"
  bbuf :: "nat \<Rightarrow> u8"
  argc :: nat
  argv :: "nat \<Rightarrow> nat option"
  calls :: "shell_call list"

section \<open>Strings\<close>

text \<open>\<^verbatim>\<open>strchr\<close> on a string literal, and \<^verbatim>\<open>strfind\<close> on a buffer from index \<open>i\<close> on.\<close>

fun strchr :: "u8 list \<Rightarrow> u8 \<Rightarrow> nat option" where
  "strchr [] ch = None"
| "strchr (x # xs) ch = (if x = ch then Some 0 else map_option Suc (strchr xs ch))"

function strfind :: "(nat \<Rightarrow> u8) \<Rightarrow> nat \<Rightarrow> u8 \<Rightarrow> nat res" where
  "strfind a i ch =
     (if BUFSIZE \<le> i then Inl OutOfBounds
      else if a i = 0 \<or> a i = ch then Inr i
      else strfind a (Suc i) ch)"
  by pat_completeness auto
termination by (relation "measure (\<lambda>(a, i, ch). BUFSIZE - i)") auto

declare strfind.simps [simp del]

text \<open>The string that starts at index \<open>i\<close> of a buffer, and the bytes a system call reads from there.\<close>

definition str_at :: "(nat \<Rightarrow> u8) \<Rightarrow> nat \<Rightarrow> u8 list res" where
  "str_at a i = cstring (map a [i..<BUFSIZE])"

section \<open>Splitting the line\<close>

definition is_space :: "u8 \<Rightarrow> bool" where
  "is_space ch \<longleftrightarrow> strchr WHITESPACE ch \<noteq> None"

function skip_space :: "nat \<Rightarrow> (nat \<Rightarrow> u8) \<Rightarrow> (nat \<times> (nat \<Rightarrow> u8)) res" where
  "skip_space i c =
     (if BUFSIZE \<le> i then Inl OutOfBounds
      else if c i \<noteq> 0 \<and> is_space (c i) then skip_space (Suc i) (c(i := 0))
      else Inr (i, c))"
  by pat_completeness auto
termination by (relation "measure (\<lambda>(i, c). BUFSIZE - i)") auto

function skip_word :: "nat \<Rightarrow> (nat \<Rightarrow> u8) \<Rightarrow> nat res" where
  "skip_word i c =
     (if BUFSIZE \<le> i then Inl OutOfBounds
      else if c i \<noteq> 0 \<and> \<not> is_space (c i) then skip_word (Suc i) c
      else Inr i)"
  by pat_completeness auto
termination by (relation "measure (\<lambda>(i, c). BUFSIZE - i)") auto

declare skip_space.simps [simp del] skip_word.simps [simp del]

lemma skip_space_props:
  "skip_space i c = Inr (j, c') \<Longrightarrow> i \<le> j \<and> j < BUFSIZE \<and> (c' j = 0 \<or> \<not> is_space (c' j))"
proof (induction i c rule: skip_space.induct)
  case (1 i c)
  then show ?case by (auto simp: skip_space.simps [of i c] fun_upd_def split: if_splits)
qed

lemma skip_word_ge: "skip_word i c = Inr j \<Longrightarrow> i \<le> j \<and> j < BUFSIZE"
proof (induction i c rule: skip_word.induct)
  case (1 i c)
  then show ?case by (auto simp: skip_word.simps [of i c] split: if_splits)
qed

lemma skip_word_gt: "skip_word i c = Inr j \<Longrightarrow> c i \<noteq> 0 \<Longrightarrow> \<not> is_space (c i) \<Longrightarrow> i < j \<and> j < BUFSIZE"
  by (subst (asm) skip_word.simps) (auto split: if_splits dest: skip_word_ge)

text \<open>
  The loop of \<^verbatim>\<open>parse_arg\<close>; the result is what the function returns.
\<close>

function parse_loop :: "nat \<Rightarrow> shellst \<Rightarrow> (bool \<times> shellst) res" where
  "parse_loop i s =
     bind_res (skip_space i (cbuf s)) (\<lambda>(i, c).
     let s = s\<lparr>cbuf := c\<rparr> in
     if c i = 0 then Inr (True, s\<lparr>argv := (argv s)(argc s := None)\<rparr>)
     else if argc s = MAXARGS - 1 then
       bind_res (printk (''Too many arguments (max %d)'' @ NL) [Num (of_nat MAXARGS)] s) (\<lambda>s. Inr (False, s))
     else
       (let s = s\<lparr>argv := (argv s)(argc s := Some i), argc := Suc (argc s)\<rparr> in
        bind_res (skip_word i (cbuf s)) (\<lambda>i. parse_loop i s)))"
  by pat_completeness auto
termination
proof (relation "measure (\<lambda>(i, s). BUFSIZE - i)", goal_cases)
  case (2 i s x j c s1 s2 k)
  then show ?case using skip_space_props [of i "cbuf s" j c] skip_word_gt [of j c k] by auto
qed simp

declare parse_loop.simps [simp del]

definition parse_arg :: "shellst \<Rightarrow> (bool \<times> shellst) res" where
  "parse_arg s = (let s = s\<lparr>argc := 0\<rparr>; s = s\<lparr>argv := (argv s)(argc s := None)\<rparr> in parse_loop 0 s)"

section \<open>Arguments\<close>

definition arg_ptr :: "nat \<Rightarrow> shellst \<Rightarrow> nat res" where
  "arg_ptr k s = (if k < MAXARGS then deref (argv s k) else Inl OutOfBounds)"

definition arg_str :: "nat \<Rightarrow> shellst \<Rightarrow> u8 list res" where
  "arg_str k s = bind_res (arg_ptr k s) (str_at (cbuf s))"

definition arg_is :: "nat \<Rightarrow> string \<Rightarrow> shellst \<Rightarrow> bool res" where
  "arg_is k lit s =
     bind_res (arg_ptr k s) (\<lambda>i. bind_res (strcmp_field (map (cbuf s) [i..<BUFSIZE]) (of_string lit)) (\<lambda>r. Inr (r = 0)))"

text \<open>\<open>exist_loop n i\<close> is the loop with \<open>n\<close> iterations left.\<close>

primrec exist_loop :: "nat \<Rightarrow> nat \<Rightarrow> string \<Rightarrow> shellst \<Rightarrow> nat res" where
  "exist_loop 0 i lit s = Inr 0"
| "exist_loop (Suc n) i lit s = bind_res (arg_is i lit s) (\<lambda>eq. if eq then Inr i else exist_loop n (Suc i) lit s)"

definition exist_arg :: "string \<Rightarrow> shellst \<Rightarrow> nat res" where
  "exist_arg lit s = exist_loop (argc s - 1) 1 lit s"

section \<open>Commands\<close>

definition ls :: "shellst \<Rightarrow> shellst res" where
  "ls s =
     bind_res (exist_arg ''-l'' s) (\<lambda>l.
     bind_res (exist_arg ''-a'' s) (\<lambda>a.
     bind_res (exist_arg ''-h'' s) (\<lambda>h.
     fs_ls_kr ((if l \<noteq> 0 then 0x01 else 0) OR (if a \<noteq> 0 then 0x02 else 0) OR (if h \<noteq> 0 then 0x04 else 0)) s)))"

text \<open>A write from index \<open>i\<close> of a buffer of the shell.\<close>

definition write_from :: "u32 \<Rightarrow> (nat \<Rightarrow> u8) \<Rightarrow> nat \<Rightarrow> u32 \<Rightarrow> shellst \<Rightarrow> (u32 \<times> shellst) res" where
  "write_from fd a i len s =
     (if fd \<noteq> - 1 \<and> BUFSIZE < i + unat len then Inl OutOfBounds else fs_write_port fd (\<lambda>k. a (i + k)) len s)"

primrec echo_loop :: "nat \<Rightarrow> nat \<Rightarrow> shellst \<Rightarrow> shellst res" where
  "echo_loop 0 i s = Inr s"
| "echo_loop (Suc n) i s =
     bind_res (arg_str i s) (\<lambda>str.
     bind_res (printk ''%s'' [Str (to_string str)] s) (\<lambda>s.
     bind_res (if i \<noteq> argc s - 1 then printk '' '' [] s else Inr s) (\<lambda>s.
     echo_loop n (Suc i) s)))"

definition echo :: "shellst \<Rightarrow> shellst res" where
  "echo s =
     bind_res (exist_arg ''>'' s) (\<lambda>red.
     bind_res (exist_arg ''>>'' s) (\<lambda>app.
     if red \<noteq> 0 then
       bind_res (strfind (bbuf s) 5 0x3E) (\<lambda>p.
       let len = of_nat (p - 5) - 1 in
       bind_res (arg_str (red + 1) s) (\<lambda>filename.
       bind_res (fs_open_port filename 2 s) (\<lambda>(fd, s).
       bind_res (write_from fd (bbuf s) 5 len s) (\<lambda>(_, s).
       bind_res (fs_close_port fd s) (\<lambda>(_, s). Inr s)))))
     else if app \<noteq> 0 then
       bind_res (strfind (bbuf s) 5 0x3E) (\<lambda>p.
       let len = of_nat (p - 5) - 1 in
       bind_res (arg_str (app + 1) s) (\<lambda>filename.
       bind_res (fs_open_port filename 1 s) (\<lambda>(fd, s).
       bind_res (fs_lseek_port fd 0 2 s) (\<lambda>(_, s).
       bind_res (write_from fd (bbuf s) 5 len s) (\<lambda>(_, s).
       bind_res (fs_close_port fd s) (\<lambda>(_, s). Inr s))))))
     else bind_res (echo_loop (argc s - 1) 1 s) (printk NL [])))"

text \<open>
  The loops of \<^verbatim>\<open>cat\<close>; \<open>buf\<close> is the local array, which a read changes only as far as it has bytes.
\<close>

definition fill_buf :: "u8 list \<Rightarrow> (nat \<Rightarrow> u8) \<Rightarrow> nat \<Rightarrow> u8" where
  "fill_buf bytes buf k = (if k < length bytes then bytes ! k else buf k)"

definition read_into :: "u32 \<Rightarrow> (nat \<Rightarrow> u8) \<Rightarrow> shellst \<Rightarrow> (u32 \<times> (nat \<Rightarrow> u8) \<times> shellst) res" where
  "read_into fd buf s =
     bind_res (fs_read_port fd 1024 s) (\<lambda>(l, bytes, s).
     if BUFSIZE < length bytes then Inl OutOfBounds else Inr (l, fill_buf bytes buf, s))"

partial_function (option) cat_copy :: "u32 \<Rightarrow> u32 \<Rightarrow> (nat \<Rightarrow> u8) \<Rightarrow> shellst \<Rightarrow> shellst res option" where
  "cat_copy fd dst buf s =
     (case read_into fd buf s of
        Inl e \<Rightarrow> Some (Inl e)
      | Inr (l, buf, s) \<Rightarrow>
          if l = - 1 then Some (Inr s)
          else (case write_from dst buf 0 l s of
                  Inl e \<Rightarrow> Some (Inl e)
                | Inr (_, s) \<Rightarrow> cat_copy fd dst buf s))"

partial_function (option) cat_print :: "u32 \<Rightarrow> (nat \<Rightarrow> u8) \<Rightarrow> shellst \<Rightarrow> shellst res option" where
  "cat_print fd buf s =
     (case read_into fd buf s of
        Inl e \<Rightarrow> Some (Inl e)
      | Inr (l, buf, s) \<Rightarrow>
          if l = - 1 then Some (Inr s)
          else (case bind_res (str_at buf 0) (\<lambda>str. printk (''%s'' @ NL) [Str (to_string str)] s) of
                  Inl e \<Rightarrow> Some (Inl e)
                | Inr s \<Rightarrow> cat_print fd buf s))"

definition cat :: "shellst \<Rightarrow> shellst res" where
  "cat s =
     bind_res (arg_str 1 s) (\<lambda>filename.
     bind_res (fs_open_port filename 0 s) (\<lambda>(fd, s).
     bind_res (if fd = - 1 then printk (''%s doesn'' @ [CHR 0x27] @ ''t exist'' @ NL) [Str (to_string filename)] s else Inr s) (\<lambda>s.
     bind_res (exist_arg ''>'' s) (\<lambda>red.
     bind_res (exist_arg ''>>'' s) (\<lambda>app.
     if red \<noteq> 0 then
       bind_res (arg_str (red + 1) s) (\<lambda>ofilename.
       bind_res (fs_open_port ofilename 2 s) (\<lambda>(dst, s).
       bind_res (bind_res (loop_res (cat_copy fd dst (\<lambda>_. 0) s)) id) (\<lambda>s.
       bind_res (fs_close_port dst s) (\<lambda>(_, s).
       bind_res (fs_close_port fd s) (\<lambda>(_, s). Inr s)))))
     else if app \<noteq> 0 then
       bind_res (arg_str (app + 1) s) (\<lambda>ofilename.
       bind_res (fs_open_port ofilename 1 s) (\<lambda>(dst, s).
       bind_res (fs_lseek_port dst 0 2 s) (\<lambda>(_, s).
       bind_res (bind_res (loop_res (cat_copy fd dst (\<lambda>_. 0) s)) id) (\<lambda>s.
       bind_res (fs_close_port dst s) (\<lambda>(_, s).
       bind_res (fs_close_port fd s) (\<lambda>(_, s). Inr s))))))
     else
       bind_res (bind_res (loop_res (cat_print fd (\<lambda>_. 0) s)) id) (\<lambda>s.
       bind_res (fs_close_port fd s) (\<lambda>(_, s). Inr s)))))))"

text \<open>\<open>p\<close> is what \<^verbatim>\<open>fork\<close> returns; a successful \<^verbatim>\<open>exec\<close> does not return to the shell.\<close>

definition do_shell :: "u32 \<Rightarrow> bool \<Rightarrow> shellst \<Rightarrow> shellst res" where
  "do_shell p execs s =
     bind_res (arg_is 0 ''ls'' s) (\<lambda>is_ls.
     if is_ls then ls s
     else
       bind_res (arg_is 0 ''echo'' s) (\<lambda>is_echo.
       if is_echo then echo s
       else
         bind_res (arg_is 0 ''cat'' s) (\<lambda>is_cat.
         if is_cat then cat s
         else
           bind_res (arg_str 0 s) (\<lambda>cmd.
           bind_res (fs_open_port cmd 0 s) (\<lambda>(fd, s).
           if fd = - 1 then printk (''%s is not an command '' @ NL) [Str (to_string cmd)] s
           else
             (let s = s\<lparr>calls := calls s @ [Call_fork]\<rparr>;
                  s = (if p = 0 then s\<lparr>calls := calls s @ [Call_exec cmd]\<rparr> else s)
              in if p = 0 \<and> execs then Inr s else Inr (s\<lparr>calls := calls s @ [Call_join p]\<rparr>)))))))"

text \<open>One turn of the loop in \<^verbatim>\<open>main\<close>: \<open>line\<close> is what \<^verbatim>\<open>creadline\<close> delivers.\<close>

definition shell_turn :: "u8 list \<Rightarrow> u32 \<Rightarrow> bool \<Rightarrow> shellst \<Rightarrow> shellst res" where
  "shell_turn line p execs s =
     (if BUFSIZE \<le> length line then Inl OutOfBounds
      else
        (let s = s\<lparr>cbuf := fill_buf (line @ [0]) (cbuf s)\<rparr> in
         bind_res (str_at (cbuf s) 0) (\<lambda>str.
         let s = s\<lparr>bbuf := fill_buf (str @ [0]) (bbuf s)\<rparr> in
         bind_res (parse_arg s) (\<lambda>(_, s). do_shell p execs s))))"

section \<open>The words of a line\<close>

text \<open>The specification of \<^verbatim>\<open>parse_arg\<close>.\<close>

function line_words :: "u8 list \<Rightarrow> u8 list list" where
  "line_words xs =
     (let ys = dropWhile is_space xs in
      if ys = [] then []
      else takeWhile (\<lambda>x. \<not> is_space x) ys # line_words (dropWhile (\<lambda>x. \<not> is_space x) ys))"
  by pat_completeness auto
termination
proof (relation "measure length", goal_cases)
  case (2 xs ys)
  then obtain y zs where ys: "ys = y # zs" "\<not> is_space y" by (metis hd_dropWhile list.collapse)
  have "length (dropWhile (\<lambda>x. \<not> is_space x) zs) \<le> length zs" "length ys \<le> length xs"
    using 2 by (simp_all add: length_dropWhile_le)
  then show ?case using ys by simp
qed simp

declare line_words.simps [simp del]

text \<open>\<open>holds c i xs\<close>: the string at index \<open>i\<close> of the buffer is \<open>xs\<close>.\<close>

definition holds :: "(nat \<Rightarrow> u8) \<Rightarrow> nat \<Rightarrow> u8 list \<Rightarrow> bool" where
  "holds c i xs \<longleftrightarrow> i + length xs < BUFSIZE \<and> 0 \<notin> set xs \<and> (\<forall>k < length xs. c (i + k) = xs ! k) \<and> c (i + length xs) = 0"

lemma holds_Nil [simp]: "holds c i [] \<longleftrightarrow> i < BUFSIZE \<and> c i = 0"
  by (simp add: holds_def)

lemma holds_Cons: "holds c i (x # xs) \<longleftrightarrow> i < BUFSIZE \<and> x \<noteq> 0 \<and> c i = x \<and> holds c (Suc i) xs"
  by (auto simp: holds_def nth_Cons' less_Suc_eq_0_disj)

lemma holds_upd: "j < i \<Longrightarrow> holds (c(j := v)) i xs = holds c i xs"
  by (auto simp: holds_def)

lemma holds_str_at: "holds c i xs \<Longrightarrow> str_at c i = Inr xs"
  unfolding str_at_def
  by (induction xs arbitrary: i) (auto simp: holds_Cons upt_conv_Cons)

lemma holds_strcmp:
  assumes "holds c i xs" "0 \<notin> set v"
  shows "\<exists>r. strcmp_field (map c [i..<BUFSIZE]) v = Inr r \<and> (r = 0 \<longleftrightarrow> xs = v)"
  using assms
proof (induction xs arbitrary: i v)
  case Nil
  then show ?case by (cases v) (auto simp: upt_conv_Cons uint_0_iff)
next
  case (Cons x xs)
  then have u: "[i..<BUFSIZE] = i # [Suc i..<BUFSIZE]" "c i = x" "x \<noteq> 0" "holds c (Suc i) xs"
    by (auto simp: holds_Cons upt_conv_Cons)
  show ?case
  proof (cases v)
    case (Cons y ys)
    then show ?thesis using u Cons.IH [OF u(4), of ys] Cons.prems(2) by (cases "x = y") (auto simp: word_uint_eq_iff)
  qed (use u in \<open>auto simp: uint_0_iff\<close>)
qed

lemma skip_space_holds:
  assumes "holds c i xs"
  shows "\<exists>c'. skip_space i c = Inr (i + length (takeWhile is_space xs), c') \<and>
    holds c' (i + length (takeWhile is_space xs)) (dropWhile is_space xs) \<and> (\<forall>k < i. c' k = c k) \<and>
    (c i = 0 \<or> is_space (c i) \<longrightarrow> c' i = 0)"
  using assms
proof (induction xs arbitrary: i c)
  case (Cons x xs)
  then have h: "i < BUFSIZE" "c i = x" "x \<noteq> 0" "holds (c(i := 0)) (Suc i) xs" by (auto simp: holds_Cons holds_upd)
  show ?case
  proof (cases "is_space x")
    case True
    obtain c' where c': "skip_space (Suc i) (c(i := 0)) = Inr (Suc i + length (takeWhile is_space xs), c')"
        "holds c' (Suc i + length (takeWhile is_space xs)) (dropWhile is_space xs)" "\<forall>k < Suc i. c' k = (c(i := 0)) k"
      using Cons.IH [OF h(4)] by blast
    have "skip_space i c = skip_space (Suc i) (c(i := 0))" using h True by (subst skip_space.simps) simp
    then show ?thesis using c' True by (intro exI [of _ c']) auto
  next
    case False
    then show ?thesis using h Cons.prems by (subst skip_space.simps) auto
  qed
qed (subst skip_space.simps, auto)

lemma skip_word_holds:
  assumes "holds c i xs"
  shows "skip_word i c = Inr (i + length (takeWhile (\<lambda>x. \<not> is_space x) xs)) \<and>
    holds c (i + length (takeWhile (\<lambda>x. \<not> is_space x) xs)) (dropWhile (\<lambda>x. \<not> is_space x) xs)"
  using assms
proof (induction xs arbitrary: i)
  case (Cons x xs)
  then have h: "i < BUFSIZE" "c i = x" "x \<noteq> 0" "holds c (Suc i) xs" by (auto simp: holds_Cons)
  show ?case
  proof (cases "is_space x")
    case True
    then show ?thesis using h Cons.prems by (subst skip_word.simps) simp
  next
    case False
    then have "skip_word i c = skip_word (Suc i) c" using h by (subst skip_word.simps) simp
    then show ?thesis using Cons.IH [OF h(4)] False by simp
  qed
qed (subst skip_word.simps, auto)

section \<open>The parser splits the line\<close>

lemma too_many:
  "printk (''Too many arguments (max %d)'' @ NL) [Num (of_nat MAXARGS)] s = Inr (printk_str (''Too many arguments (max 16)'' @ NL) s)"
proof -
  have "vfprintf (''Too many arguments (max %d)'' @ NL) False [Num (of_nat MAXARGS)] = Inr (''Too many arguments (max 16)'' @ NL)"
    by code_simp
  then show ?thesis by (simp add: printk_def)
qed

text \<open>\<open>shell_frame s\<close> is the state but for the variables of the parser and the output.\<close>

definition shell_frame :: "shellst \<Rightarrow> shellst" where
  "shell_frame s = s\<lparr>cbuf := (\<lambda>_. 0), argc := 0, argv := (\<lambda>_. None), serial := []\<rparr>"

text \<open>
  \<open>parsed i ws s s'\<close>: the parser, started at index \<open>i\<close> in \<open>s\<close>, has appended the words \<open>ws\<close> to the arguments as far as there
  is room, and changed nothing before \<open>i\<close>.
\<close>

definition parsed :: "nat \<Rightarrow> u8 list list \<Rightarrow> shellst \<Rightarrow> shellst \<Rightarrow> bool" where
  "parsed i ws s s' \<longleftrightarrow>
     argc s' = min (MAXARGS - 1) (argc s + length ws) \<and> (\<forall>k < argc s. argv s' k = argv s k) \<and>
     (\<forall>k. argc s \<le> k \<and> k < argc s' \<longrightarrow> (\<exists>p. argv s' k = Some p \<and> holds (cbuf s') p (ws ! (k - argc s)))) \<and>
     (\<forall>k < i. cbuf s' k = cbuf s k) \<and> (cbuf s i = 0 \<or> is_space (cbuf s i) \<longrightarrow> cbuf s' i = 0) \<and>
     (argc s + length ws < MAXARGS \<longrightarrow> argv s' (argc s') = None \<and> serial s' = serial s) \<and> shell_frame s' = shell_frame s"

lemma parsed_Cons:
  assumes "parsed j ws (s\<lparr>cbuf := c, argv := (argv s)(argc s := Some p), argc := Suc (argc s)\<rparr>) s'"
    and "argc s < MAXARGS - 1" "holds c p (w @ rest)" "j = p + length w" "i \<le> p" "w \<noteq> []"
    and "rest = [] \<or> is_space (hd rest)" "\<forall>k < i. c k = cbuf s k" "cbuf s i = 0 \<or> is_space (cbuf s i) \<longrightarrow> c i = 0"
  shows "parsed i (w # ws) s s'"
proof -
  let ?s = "s\<lparr>cbuf := c, argv := (argv s)(argc s := Some p), argc := Suc (argc s)\<rparr>"
  have low: "cbuf s' k = c k" if "k < j" for k using assms(1) that by (simp add: parsed_def)
  have ij: "i < j" using assms(4-6) by (cases w) auto
  have "c j = 0 \<or> is_space (c j)" using assms(3,4,7) by (cases rest) (auto simp: holds_def nth_append)
  then have end0: "cbuf s' j = 0" using assms(1) by (simp add: parsed_def)
  have w: "holds (cbuf s') p w" using assms(3,4) low end0 by (auto simp: holds_def nth_append)
  have n: "argc s' = min (MAXARGS - 1) (Suc (argc s) + length ws)" using assms(1) by (simp add: parsed_def)
  have arg: "\<exists>q. argv s' k = Some q \<and> holds (cbuf s') q ((w # ws) ! (k - argc s))" if k: "argc s \<le> k" "k < argc s'" for k
  proof (cases "k = argc s")
    case True
    then have "argv s' k = Some p" using assms(1) by (simp add: parsed_def)
    then show ?thesis using w True by auto
  next
    case False
    then have "Suc (argc s) \<le> k" using k(1) by simp
    then obtain q where "argv s' k = Some q" "holds (cbuf s') q (ws ! (k - Suc (argc s)))"
      using assms(1) k(2) by (auto simp: parsed_def)
    moreover have "k - argc s = Suc (k - Suc (argc s))" using \<open>Suc (argc s) \<le> k\<close> by simp
    ultimately show ?thesis by simp
  qed
  have "\<forall>k < argc s. argv s' k = argv s k" using assms(1) by (auto simp: parsed_def)
  moreover have "argc s + length (w # ws) < MAXARGS \<longrightarrow> argv s' (argc s') = None \<and> serial s' = serial s" "shell_frame s' = shell_frame s"
    using assms(1) by (auto simp: parsed_def shell_frame_def)
  moreover have "\<forall>k < i. cbuf s' k = cbuf s k" "cbuf s i = 0 \<or> is_space (cbuf s i) \<longrightarrow> cbuf s' i = 0"
    using low ij assms(8,9) by auto
  ultimately show ?thesis using n arg unfolding parsed_def by simp
qed

lemma parse_loop_words:
  assumes "holds (cbuf s) i xs" "argc s < MAXARGS"
  shows "\<exists>s'. parse_loop i s = Inr (argc s + length (line_words xs) < MAXARGS, s') \<and> parsed i (line_words xs) s s'"
  using assms
proof (induction xs arbitrary: s i rule: line_words.induct)
  case (1 xs)
  let ?n = "length (takeWhile is_space xs)" and ?ys = "dropWhile is_space xs"
  obtain c where c: "skip_space i (cbuf s) = Inr (i + ?n, c)" "holds c (i + ?n) ?ys" "\<forall>k < i. c k = cbuf s k"
      "cbuf s i = 0 \<or> is_space (cbuf s i) \<longrightarrow> c i = 0" using skip_space_holds [OF 1(2)] by blast
  show ?case
  proof (cases "?ys = []")
    case True
    let ?s = "s\<lparr>cbuf := c, argv := (argv s)(argc s := None)\<rparr>"
    have n: "line_words xs = []" using True by (subst line_words.simps) simp
    have "c (i + ?n) = 0" using c(2) True by simp
    then have "parse_loop i s = Inr (True, ?s)" using c(1) by (subst parse_loop.simps) (simp add: Let_def)
    moreover have "parsed i [] s ?s" using c(3,4) 1(3) by (simp add: parsed_def shell_frame_def)
    ultimately show ?thesis using n 1(3) by auto
  next
    case ne: False
    let ?w = "takeWhile (\<lambda>x. \<not> is_space x) ?ys" and ?r = "dropWhile (\<lambda>x. \<not> is_space x) ?ys"
    have ws: "line_words xs = ?w # line_words ?r" using ne by (subst line_words.simps) (simp add: Let_def)
    obtain y zs where ys: "?ys = y # zs" "\<not> is_space y" using ne by (metis hd_dropWhile list.collapse)
    then have y: "c (i + ?n) = y" "y \<noteq> 0" using c(2) by (auto simp: holds_Cons)
    show ?thesis
    proof (cases "argc s = MAXARGS - 1")
      case True
      let ?s = "printk_str (''Too many arguments (max 16)'' @ NL) (s\<lparr>cbuf := c\<rparr>)"
      have "parse_loop i s = Inr (False, ?s)"
        using c(1) y True by (subst parse_loop.simps) (simp add: Let_def too_many del: append.simps)
      moreover have "parsed i (line_words xs) s ?s"
        using c(3,4) True by (auto simp: parsed_def ws shell_frame_def printk_str_def MAXARGS_def)
      ultimately show ?thesis using True ws by (auto simp: MAXARGS_def)
    next
      case False
      let ?s = "s\<lparr>cbuf := c, argv := (argv s)(argc s := Some (i + ?n)), argc := Suc (argc s)\<rparr>"
      have sw: "skip_word (i + ?n) c = Inr (i + ?n + length ?w)" "holds c (i + ?n + length ?w) ?r"
        using skip_word_holds [OF c(2)] by simp_all
      have "parse_loop i s = parse_loop (i + ?n + length ?w) ?s"
        using c(1) y False sw(1) by (subst parse_loop.simps) (simp add: Let_def)
      moreover obtain s' where s': "parse_loop (i + ?n + length ?w) ?s = Inr (argc ?s + length (line_words ?r) < MAXARGS, s')"
          "parsed (i + ?n + length ?w) (line_words ?r) ?s s'"
        using 1(1) [OF refl ne, of ?s "i + ?n + length ?w"] sw(2) False 1(3) by (auto simp: MAXARGS_def)
      moreover have "parsed i (?w # line_words ?r) s s'"
      proof (rule parsed_Cons [OF s'(2)])
        show "holds c (i + ?n) (?w @ ?r)" using c(2) by simp
        show "?w \<noteq> []" using ys by simp
        show "?r = [] \<or> is_space (hd ?r)" using hd_dropWhile [of "\<lambda>x. \<not> is_space x" ?ys] by fastforce
      qed (use c(3,4) False 1(3) in simp_all)
      ultimately show ?thesis by (simp add: ws)
    qed
  qed
qed

lemma parse_arg_words:
  assumes "cbuf s = fill_buf (line @ [0]) c" "0 \<notin> set line" "length line < BUFSIZE"
  shows "\<exists>s'. parse_arg s = Inr (length (line_words line) < MAXARGS, s') \<and> parsed 0 (line_words line) (s\<lparr>argc := 0\<rparr>) s'"
proof -
  let ?s = "s\<lparr>argc := 0, argv := (argv s)(0 := None)\<rparr>"
  have "holds (cbuf ?s) 0 line" using assms by (simp add: holds_def fill_buf_def nth_append)
  then obtain s' where s': "parse_loop 0 ?s = Inr (length (line_words line) < MAXARGS, s')" "parsed 0 (line_words line) ?s s'"
    using parse_loop_words [of ?s 0 line] by (auto simp: MAXARGS_def)
  have "parsed 0 (line_words line) ?s s' = parsed 0 (line_words line) (s\<lparr>argc := 0\<rparr>) s'" by (simp add: parsed_def shell_frame_def)
  then show ?thesis using s' by (simp add: parse_arg_def Let_def)
qed

lemma parsed_args:
  assumes "parsed i ws s s'" "argc s = 0" "k < argc s'"
  shows "\<exists>p. arg_ptr k s' = Inr p \<and> holds (cbuf s') p (ws ! k)"
proof -
  obtain p where "argv s' k = Some p" "holds (cbuf s') p (ws ! k)" using assms by (auto simp: parsed_def)
  moreover have "k < MAXARGS" using assms(1,3) by (simp add: parsed_def MAXARGS_def)
  ultimately show ?thesis by (simp add: arg_ptr_def)
qed

lemma parsed_arg_str: "parsed i ws s s' \<Longrightarrow> argc s = 0 \<Longrightarrow> k < argc s' \<Longrightarrow> arg_str k s' = Inr (ws ! k)"
  using parsed_args [of i ws s s' k] by (auto simp: arg_str_def holds_str_at)

lemma parsed_arg_is:
  assumes "parsed i ws s s'" "argc s = 0" "k < argc s'" "0 \<notin> set (of_string lit)"
  shows "arg_is k lit s' = Inr (ws ! k = of_string lit)"
proof -
  obtain p where p: "arg_ptr k s' = Inr p" "holds (cbuf s') p (ws ! k)" using parsed_args [OF assms(1-3)] by blast
  then show ?thesis using holds_strcmp [OF p(2) assms(4)] by (auto simp: arg_is_def)
qed

text \<open>
  C25. The shell splits the command line at white space: for a line without NUL that fits the buffer, \<^verbatim>\<open>parse_arg\<close> returns without a fault,
  with the words of the line in order as the arguments, at most 15, each of them a terminated string, and a null pointer behind the last one.
  It reports failure exactly when there are more than 15 words.
\<close>

theorem parse_arg_splits:
  assumes "cbuf s = fill_buf (line @ [0]) c" "0 \<notin> set line" "length line < BUFSIZE"
  shows "\<exists>s'. parse_arg s = Inr (length (line_words line) < MAXARGS, s') \<and> argc s' = min (MAXARGS - 1) (length (line_words line)) \<and>
    (\<forall>k < argc s'. arg_str k s' = Inr (line_words line ! k)) \<and>
    (length (line_words line) < MAXARGS \<longrightarrow> argv s' (argc s') = None)"
proof -
  obtain s' where s': "parse_arg s = Inr (length (line_words line) < MAXARGS, s')" "parsed 0 (line_words line) (s\<lparr>argc := 0\<rparr>) s'"
    using parse_arg_words [OF assms] by blast
  then show ?thesis using parsed_arg_str [OF s'(2)] by (auto simp: parsed_def)
qed

section \<open>echo\<close>

lemma exist_loop_none:
  assumes "parsed i ws s s'" "argc s = 0" "j + n = argc s'" "0 \<notin> set (of_string lit)"
    and "\<forall>k. j \<le> k \<and> k < argc s' \<longrightarrow> ws ! k \<noteq> of_string lit"
  shows "exist_loop n j lit s' = Inr 0"
  using assms(3,5)
proof (induction n arbitrary: j)
  case (Suc n)
  then have j: "j < argc s'" "Suc j + n = argc s'" by simp_all
  have "arg_is j lit s' = Inr False"
    using parsed_arg_is [OF assms(1,2) j(1) assms(4)] Suc.prems(2) j(1) by auto
  then show ?case using Suc.IH [OF j(2)] Suc.prems(2) by simp
qed simp

lemma exist_arg_none:
  assumes "parsed i ws s s'" "argc s = 0" "0 < argc s'" "0 \<notin> set (of_string lit)"
    and "\<forall>k. 1 \<le> k \<and> k < argc s' \<longrightarrow> ws ! k \<noteq> of_string lit"
  shows "exist_arg lit s' = Inr 0"
  unfolding exist_arg_def using assms by (intro exist_loop_none) simp_all

lemma args_printk [simp]:
  "arg_str k (printk_str out s) = arg_str k s" "argc (printk_str out s) = argc s"
  by (simp_all add: arg_str_def arg_ptr_def printk_str_def)

lemma printk_str_append: "printk_str a (printk_str b s) = printk_str (b @ a) s"
  by (simp add: printk_str_def)

text \<open>The words with one blank between any two of them.\<close>

fun unwords :: "string list \<Rightarrow> string" where
  "unwords [] = []"
| "unwords [x] = x"
| "unwords (x # y # xs) = x @ '' '' @ unwords (y # xs)"

lemma printk_word: "printk ''%s'' [Str x] s = Inr (printk_str x s)" "printk '' '' [] s = Inr (printk_str '' '' s)"
  by (simp_all add: printk_def XGET_str_def)

lemma echo_loop_prints:
  assumes "i + length ws = argc s" "\<forall>k < length ws. arg_str (i + k) s = Inr (ws ! k)"
  shows "echo_loop (length ws) i s = Inr (printk_str (unwords (map to_string ws)) s)"
  using assms
proof (induction ws arbitrary: i s)
  case Nil
  then show ?case by (simp add: printk_str_def)
next
  case (Cons w ws)
  have w: "arg_str i s = Inr w" using Cons.prems(2) by (metis length_greater_0_conv list.distinct(1) add_0_right nth_Cons_0)
  have tl: "\<forall>k < length ws. arg_str (Suc i + k) s = Inr (ws ! k)"
    using Cons.prems(2) by (metis Suc_less_eq add_Suc add_Suc_right length_Cons nth_Cons_Suc)
  show ?case
  proof (cases ws)
    case Nil
    then show ?thesis using w Cons.prems(1) by (simp add: printk_word)
  next
    case (Cons v vs)
    then have "i \<noteq> argc s - 1" using Cons.prems(1) by simp
    then have "echo_loop (length (w # ws)) i s = echo_loop (length ws) (Suc i) (printk_str (to_string w @ '' '') s)"
      using w by (simp add: printk_word printk_str_append)
    also have "\<dots> = Inr (printk_str (unwords (map to_string ws)) (printk_str (to_string w @ '' '') s))"
      using tl Cons.prems(1) by (intro Cons.IH) simp_all
    finally show ?thesis using Cons by (simp add: printk_str_append)
  qed
qed

text \<open>The literals of the shell.\<close>

lemma literals:
  "0 \<notin> set (of_string ''ls'')" "0 \<notin> set (of_string ''echo'')" "0 \<notin> set (of_string ''cat'')"
  "0 \<notin> set (of_string ''>'')" "0 \<notin> set (of_string ''>>'')"
  "of_string ''echo'' \<noteq> of_string ''ls''" "of_string ''cat'' \<noteq> of_string ''ls''" "of_string ''cat'' \<noteq> of_string ''echo''"
  by code_simp+

lemma shell_turn_parses:
  assumes "0 \<notin> set line" "length line < BUFSIZE" "length (line_words line) < MAXARGS"
  shows "\<exists>s0 s1. shell_turn line p execs s = do_shell p execs s1 \<and> argc s0 = 0 \<and> parsed 0 (line_words line) s0 s1 \<and>
    serial s1 = serial s \<and> argc s1 = length (line_words line) \<and> fs s1 = fs s \<and> disk s1 = disk s \<and> current s1 = current s \<and>
    PCBPool s1 = PCBPool s"
proof -
  let ?s = "s\<lparr>cbuf := fill_buf (line @ [0]) (cbuf s)\<rparr>"
  let ?t = "?s\<lparr>bbuf := fill_buf (line @ [0]) (bbuf s)\<rparr>"
  have "holds (cbuf ?s) 0 line" using assms by (simp add: holds_def fill_buf_def nth_append)
  then have str: "str_at (cbuf ?s) 0 = Inr line" by (rule holds_str_at)
  obtain s1 where s1: "parse_arg ?t = Inr (length (line_words line) < MAXARGS, s1)" "parsed 0 (line_words line) (?t\<lparr>argc := 0\<rparr>) s1"
    using parse_arg_words [of ?t line "cbuf s"] assms by auto
  have "shell_frame s1 = shell_frame (?t\<lparr>argc := 0\<rparr>)" using s1(2) by (simp add: parsed_def)
  then have f: "fs s1 = fs s" "disk s1 = disk s" "current s1 = current s" "PCBPool s1 = PCBPool s"
    by (cases s1; cases s; simp add: shell_frame_def)+
  have "shell_turn line p execs s = do_shell p execs s1" using str s1(1) assms(2) by (simp add: shell_turn_def Let_def)
  moreover have "serial s1 = serial s" "argc s1 = length (line_words line)" using s1(2) assms(3) by (auto simp: parsed_def)
  ultimately show ?thesis using s1(2) f by (intro exI [of _ "?t\<lparr>argc := 0\<rparr>"] exI [of _ s1]) simp
qed

text \<open>
  C26. \<^verbatim>\<open>echo\<close>: a line whose first word is \<^verbatim>\<open>echo\<close>, with at most 14 further words, none of which is a redirection, makes the shell print
  these words with single blanks between them and a newline, whatever the white space in the line; it ends without a fault.
\<close>

theorem echo_prints_words:
  assumes "0 \<notin> set line" "length line < BUFSIZE" "line_words line = of_string ''echo'' # ws" "length ws < MAXARGS - 1"
    and "of_string ''>'' \<notin> set ws" "of_string ''>>'' \<notin> set ws"
  shows "\<exists>s'. shell_turn line p execs s = Inr s' \<and> serial s' = serial s @ unwords (map to_string ws) @ NL"
proof -
  have len: "length (line_words line) < MAXARGS" using assms(3,4) by (simp add: MAXARGS_def)
  obtain s0 s1 where s1: "shell_turn line p execs s = do_shell p execs s1" "argc s0 = 0" "parsed 0 (line_words line) s0 s1"
    "serial s1 = serial s" "argc s1 = Suc (length ws)"
    using shell_turn_parses [OF assms(1,2) len, of p execs s] assms(3) by auto
  note a = parsed_arg_is [OF s1(3,2), of 0] and q = parsed_arg_str [OF s1(3,2)]
  have "do_shell p execs s1 = echo s1" using a [of "''ls''"] a [of "''echo''"] s1(5) literals assms(3) by (simp add: do_shell_def)
  moreover have "exist_arg lit s1 = Inr 0" if "0 \<notin> set (of_string lit)" "of_string lit \<notin> set ws" for lit
  proof (rule exist_arg_none [OF s1(3,2) _ that(1)])
    show "\<forall>k. 1 \<le> k \<and> k < argc s1 \<longrightarrow> line_words line ! k \<noteq> of_string lit"
      unfolding assms(3) s1(5) using that(2) by (auto simp: nth_Cons' in_set_conv_nth)
  qed (simp add: s1(5))
  then have "exist_arg ''>'' s1 = Inr 0" "exist_arg ''>>'' s1 = Inr 0" using literals assms(5,6) by simp_all
  moreover have "echo_loop (argc s1 - 1) 1 s1 = Inr (printk_str (unwords (map to_string ws)) s1)"
    using echo_loop_prints [of 1 ws s1] s1(5) q assms(3) by simp
  moreover have "printk NL [] t = Inr (printk_str NL t)" for t :: shellst by (simp add: printk_def NL_def)
  ultimately show ?thesis using s1(1,4) by (simp add: echo_def printk_str_def)
qed

definition shell_sample :: shellst where
  "shell_sample = fsst.extend (fs_sample zero_disk) \<lparr>cbuf = (\<lambda>_. 0), bbuf = (\<lambda>_. 0), argc = 0, argv = (\<lambda>_. None), calls = []\<rparr>"

theorem echo_prints_words_witness:
  "\<exists>s'. shell_turn (of_string ''  echo  hello   world '') 0 True shell_sample = Inr s' \<and>
     serial s' = serial shell_sample @ ''hello world'' @ NL"
proof -
  let ?l = "of_string ''  echo  hello   world ''" and ?w = "[of_string ''hello'', of_string ''world'']"
  have w: "0 \<notin> set ?l" "length ?l < BUFSIZE" "line_words ?l = of_string ''echo'' # ?w" "length ?w < MAXARGS - 1"
    "of_string ''>'' \<notin> set ?w" "of_string ''>>'' \<notin> set ?w" "unwords (map to_string ?w) = ''hello world''"
    by code_simp+
  show ?thesis using echo_prints_words [OF w(1-6), of 0 True shell_sample] unfolding w(7) .
qed

theorem parse_arg_splits_witness:
  "\<exists>s'. parse_arg (shell_sample\<lparr>cbuf := fill_buf (of_string '' cat  a '' @ [0]) (\<lambda>_. 1)\<rparr>) = Inr (True, s') \<and> argc s' = 2 \<and>
     arg_str 1 s' = Inr (of_string ''a'')"
proof -
  let ?l = "of_string '' cat  a ''"
  have "0 \<notin> set ?l" "length ?l < BUFSIZE" "line_words ?l = [of_string ''cat'', of_string ''a'']" by code_simp+
  with parse_arg_splits [of "shell_sample\<lparr>cbuf := fill_buf (?l @ [0]) (\<lambda>_. 1)\<rparr>" ?l "\<lambda>_. 1"] show ?thesis
    by (auto simp: MAXARGS_def)
qed

section \<open>cat\<close>

text \<open>What an open leaves: a descriptor of the process for a stream at offset 0.\<close>

lemma shell_files_frame:
  assumes "fs_erase s' = fs_erase (s :: shellst)"
  shows "cbuf s' = cbuf s" "argc s' = argc s" "argv s' = argv s" "serial s' = serial s" "current s' = current s" "PCBPool s' = PCBPool s"
  using assms by (cases s; cases s'; simp add: fs_erase_def)+

lemma fs_open_port_stream:
  assumes "fs_open_port name 0 (s :: shellst) = Inr (fd, s')" "fd \<noteq> - 1"
  shows "\<exists>k i. get_fcb fd s' = Inr k \<and> stream k = Inr i \<and> st_offset (fs s' i) = 0 \<and>
    cbuf s' = cbuf s \<and> argc s' = argc s \<and> argv s' = argv s \<and> serial s' = serial s"
proof -
  obtain k s1 where k: "fs_open_md name 0 s = Inr (k, s1)" "k \<noteq> - 1"
    using assms by (auto simp: fs_open_port_def bind_res_eq_Inr split: if_splits)
  then have o: "fs_open_kr name s = Inr (k, s1)" by (auto simp: fs_open_md_def bind_res_eq_Inr)
  obtain c j where c: "current s1 = Some c" "j < FCBMAX" "fd = of_nat j" "s' = upd_pcb c (\<lambda>p. p\<lparr>fcb := (fcb p)(j := k)\<rparr>) s1"
    using assms(1) k by (cases "current s1") (auto simp: fs_open_port_def bind_res_eq_Inr Let_def set_fcb_def split: if_splits)
  obtain i where i: "stream k = Inr i" "st_offset (fs s1 i) = 0" using fs_open_kr_stream [OF o k(2)] by blast
  have "unat fd = j" using c(2,3) unat_small [of j] by (simp add: FCBMAX_def)
  then have "get_fcb fd s' = Inr k" using c by (simp add: get_fcb_def upd_pcb_def)
  then show ?thesis using i c(4) shell_files_frame [OF fs_open_frame [OF o]] by (auto simp: upd_pcb_def)
qed

text \<open>The first turn of the printing loop, and the last.\<close>

lemma read_into_file:
  assumes "fd \<noteq> - 1" "get_fcb fd s = Inr k" "stream k = Inr i" "st_offset (fs s i) = of_nat off" "st_file_size (fs s i) = of_nat sz"
    and "off \<le> sz" "sz < 65536"
  shows "if off = sz then read_into fd buf s = Inr (- 1, buf, s)
    else \<exists>b. read_into fd buf s = Inr (of_nat (min 1024 (sz - off)),
      fill_buf (map (file_byte s (st_inode_offset (fs s i))) [off..<min (off + 1024) sz]) buf,
      advance i (of_nat (min 1024 (sz - off))) ((loaded i s)\<lparr>buffer := b\<rparr>))"
proof -
  have p: "fs_read_port fd 1024 s = fs_read_kr k (of_nat 1024) s" using assms(1,2) by (simp add: fs_read_port_def fs_read_md_def)
  show ?thesis
  proof (cases "off = sz")
    case True
    then have "fs_read_kr k (of_nat 1024) s = Inr (- 1, [], s)" using fs_read_steps [OF assms(3-7), of 1024] by simp
    moreover have "fill_buf [] buf = buf" by (auto simp: fill_buf_def)
    ultimately show ?thesis using True by (simp add: read_into_def p)
  next
    case False
    then obtain b where b: "fs_read_kr k (of_nat 1024) s = Inr (of_nat (min 1024 (sz - off)),
        map (file_byte s (st_inode_offset (fs s i))) [off..<min (off + 1024) sz],
        advance i (of_nat (min 1024 (sz - off))) ((loaded i s)\<lparr>buffer := b\<rparr>))"
      using fs_read_steps [OF assms(3-7), of 1024] by auto
    have len: "length [off..<min (off + 1024) sz] \<le> BUFSIZE" by (simp add: BUFSIZE_def)
    have "read_into fd buf s = Inr (of_nat (min 1024 (sz - off)),
        fill_buf (map (file_byte s (st_inode_offset (fs s i))) [off..<min (off + 1024) sz]) buf,
        advance i (of_nat (min 1024 (sz - off))) ((loaded i s)\<lparr>buffer := b\<rparr>))"
      unfolding read_into_def p b using len by simp
    then show ?thesis using False by auto
  qed
qed

lemma get_fcb_cong:
  "PCBPool s' = PCBPool s \<Longrightarrow> current s' = current s \<Longrightarrow> get_fcb fd s' = get_fcb fd s"
  by (cases "current s") (simp_all add: get_fcb_def)

lemma fs_close_port_ok:
  assumes "fd \<noteq> - 1" "get_fcb fd s = Inr k" "stream k = Inr i"
  shows "\<exists>r t. fs_close_port fd s = Inr (r, t) \<and> serial t = serial s \<and> disk t = disk s"
proof -
  obtain c where c: "current s = Some c" "unat fd < FCBMAX"
    using assms(2) by (cases "current s") (auto simp: get_fcb_def split: if_splits)
  obtain r t where t: "fs_close_kr k s = Inr (r, t)" "t = s \<or> t = upd_stream i (\<lambda>f. f\<lparr>st_used := 0\<rparr>) s"
    using assms(3) by (cases "st_used (fs s i) = 0") (auto simp: fs_close_kr_def)
  have eq: "fs_close_port fd s = bind_res (set_fcb (unat fd) (- 1) t) (\<lambda>s. Inr (r, s))"
    using assms(1,2) t(1) by (simp add: fs_close_port_def fs_close_md_def)
  have "current t = current s" "serial t = serial s" "disk t = disk s" using t(2) by (auto simp: upd_stream_def)
  then show ?thesis using eq c by (auto simp: set_fcb_def upd_pcb_def)
qed

lemma printk_line: "printk (''%s'' @ NL) [Str x] s = Inr (printk_str (x @ NL) s)"
  by (simp add: printk_def XGET_str_def NL_def)

lemma str_at_filled:
  assumes "0 \<notin> set bytes"
  shows "str_at (fill_buf bytes (\<lambda>_. 0)) 0 = (if length bytes < BUFSIZE then Inr bytes else Inl OutOfBounds)"
proof (cases "length bytes < BUFSIZE")
  case True
  then show ?thesis using assms holds_str_at [of _ 0 bytes] by (simp add: holds_def fill_buf_def)
next
  case False
  have "cstring xs = Inl OutOfBounds" if "0 \<notin> set xs" for xs using that by (induction xs) auto
  moreover have "0 \<notin> set (map (fill_buf bytes (\<lambda>_. 0)) [0..<BUFSIZE])"
    using False assms by (auto simp: fill_buf_def in_set_conv_nth)
  ultimately show ?thesis using False by (simp add: str_at_def)
qed

lemma cat_print_file:
  assumes fd: "fd \<noteq> - 1" "get_fcb fd s = Inr k" "stream k = Inr i" "st_offset (fs s i) = 0" "st_file_size (fs s i) = of_nat sz" "sz < 65536"
    and bytes: "bytes = map (file_byte s (st_inode_offset (fs s i))) [0..<sz]" "0 \<notin> set bytes"
  shows "if sz < 1024
    then \<exists>s'. cat_print fd (\<lambda>_. 0) s = Some (Inr s') \<and> serial s' = serial s @ (if sz = 0 then [] else to_string bytes @ NL) \<and>
      disk s' = disk s \<and> get_fcb fd s' = Inr k
    else cat_print fd (\<lambda>_. 0) s = Some (Inl OutOfBounds)"
proof (cases "sz = 0")
  case True
  then have "read_into fd (\<lambda>_. 0) s = Inr (- 1, \<lambda>_. 0, s)" using read_into_file [of fd s k i 0 sz "\<lambda>_. 0"] fd by simp
  then show ?thesis using True fd(2) by (subst cat_print.simps) simp
next
  case False
  define out where "out = map (file_byte s (st_inode_offset (fs s i))) [0..<min 1024 sz]"
  obtain b where b: "read_into fd (\<lambda>_. 0) s = Inr (of_nat (min 1024 sz), fill_buf out (\<lambda>_. 0),
      advance i (of_nat (min 1024 sz)) ((loaded i s)\<lparr>buffer := b\<rparr>))"
    using read_into_file [of fd s k i 0 sz "\<lambda>_. 0"] fd False by (auto simp: out_def simp del: of_nat_min)
  have n: "(of_nat (min 1024 sz) :: u32) \<noteq> - 1"
    using unat_small [of "min 1024 sz"] by (auto simp: word_unat_eq_iff unsigned_minus_1_eq_mask mask_eq_exp_minus_1 simp del: of_nat_min)
  have out: "0 \<notin> set out" using bytes by (auto simp: out_def)
  let ?s = "advance i (of_nat (min 1024 sz)) ((loaded i s)\<lparr>buffer := b\<rparr>)"
  show ?thesis
  proof (cases "sz < 1024")
    case True
    then have o: "out = bytes" "length out < BUFSIZE" by (simp_all add: out_def bytes(1) BUFSIZE_def min_def)
    let ?t = "printk_str (to_string bytes @ NL) ?s"
    have st: "st_offset (fs ?t i) = of_nat sz" "st_file_size (fs ?t i) = of_nat sz" "PCBPool ?t = PCBPool s" "current ?t = current s"
      "disk ?t = disk s" "serial ?t = serial s @ to_string bytes @ NL"
      using True fd(4,5) by (simp_all add: printk_str_def advance_def upd_stream_def loaded_def readINode_def min_def)
    have g: "get_fcb fd ?t = Inr k" using fd(2) get_fcb_cong [OF st(3,4)] by simp
    have "cat_print fd (\<lambda>_. 0) s = cat_print fd (fill_buf out (\<lambda>_. 0)) ?t"
      using b n str_at_filled [OF out] o by (subst cat_print.simps) (simp add: printk_line del: of_nat_min append.simps)
    also have "\<dots> = Some (Inr ?t)"
      using read_into_file [OF fd(1) g fd(3) st(1,2) _ fd(6)] by (subst cat_print.simps) simp
    finally show ?thesis using True False st(5,6) g by auto
  next
    case big: False
    then have "\<not> length out < BUFSIZE" by (simp add: out_def BUFSIZE_def)
    then show ?thesis using big b n str_at_filled [OF out] by (subst cat_print.simps) (simp del: of_nat_min)
  qed
qed

text \<open>
  C27. \<^verbatim>\<open>cat\<close> of one file that can be opened and has no NUL bytes: if the file is shorter than the buffer, its contents and a newline are
  printed (nothing for an empty file), the loop ends and the file is closed; a file of 1024 bytes or more makes \<^verbatim>\<open>printf\<close> run over the
  end of the buffer, which the read has fill_buf without leaving room for a terminator.
\<close>

theorem cat_prints_file:
  assumes arg: "argc s = 2" "argv s 1 = Some q" "holds (cbuf s) q name" "name \<noteq> of_string ''>''" "name \<noteq> of_string ''>>''"
    and opened: "fs_open_port name 0 s = Inr (fd, s1)" "fd \<noteq> - 1" "get_fcb fd s1 = Inr k" "stream k = Inr i"
    and data: "st_file_size (fs s1 i) = of_nat sz" "sz < 65536"
      "bytes = map (file_byte s1 (st_inode_offset (fs s1 i))) [0..<sz]" "0 \<notin> set bytes"
  shows "if sz < 1024
    then \<exists>s'. cat s = Inr s' \<and> serial s' = serial s @ (if sz = 0 then [] else to_string bytes @ NL) \<and> disk s' = disk s1
    else cat s = Inl OutOfBounds"
proof -
  have o: "st_offset (fs s1 i) = 0" "cbuf s1 = cbuf s" "argc s1 = argc s" "argv s1 = argv s" "serial s1 = serial s"
    using fs_open_port_stream [OF opened(1,2)] opened(3,4) by auto
  have ptr: "arg_ptr 1 s = Inr q" "arg_ptr 1 s1 = Inr q" using arg(2) o(4) by (simp_all add: arg_ptr_def MAXARGS_def)
  have str: "arg_str 1 s = Inr name" using ptr(1) holds_str_at [OF arg(3)] by (simp add: arg_str_def)
  have ex: "exist_arg lit s1 = Inr 0" if "0 \<notin> set (of_string lit)" "name \<noteq> of_string lit" for lit
  proof -
    have "arg_is 1 lit s1 = Inr False" using holds_strcmp [OF arg(3) that(1)] that(2) ptr(2) o(2) by (auto simp: arg_is_def)
    then show ?thesis using arg(1) o(3) by (simp add: exist_arg_def numeral_2_eq_2)
  qed
  have c: "cat s = bind_res (bind_res (loop_res (cat_print fd (\<lambda>_. 0) s1)) id) (\<lambda>s. bind_res (fs_close_port fd s) (\<lambda>(_, s). Inr s))"
    using str opened(1,2) ex literals(4,5) arg(4,5) by (simp add: cat_def)
  show ?thesis
  proof (cases "sz < 1024")
    case True
    then obtain s2 where s2: "cat_print fd (\<lambda>_. 0) s1 = Some (Inr s2)" "disk s2 = disk s1" "get_fcb fd s2 = Inr k"
        "serial s2 = serial s1 @ (if sz = 0 then [] else to_string bytes @ NL)"
      using cat_print_file [OF opened(2-4) o(1) data] by auto
    obtain r t where "fs_close_port fd s2 = Inr (r, t)" "serial t = serial s2" "disk t = disk s2"
      using fs_close_port_ok [OF opened(2) s2(3) opened(4)] by blast
    then show ?thesis using True s2 o(5) by (simp add: c)
  next
    case False
    then have "cat_print fd (\<lambda>_. 0) s1 = Some (Inl OutOfBounds)" using cat_print_file [OF opened(2-4) o(1) data] by simp
    then show ?thesis using False by (simp add: c)
  qed
qed

text \<open>A disk with one file: \<^verbatim>\<open>a\<close>, of three bytes, in inode 0 and data block 0.\<close>

definition shell_disk :: "nat \<Rightarrow> sector" where
  "shell_disk n k =
     (if n = 257 then (if k = 0 then 0x61 else if k = 24 then 3 else 0)
      else if n = 769 then (if k < 3 then 0x78 + of_nat k else 0)
      else 0)"

definition cat_sample :: shellst where
  "cat_sample = shell_sample\<lparr>disk := shell_disk, cbuf := fill_buf (of_string ''cat'' @ [0, 0x61]) (\<lambda>_. 0), argc := 2,
     argv := (\<lambda>_. None)(0 := Some 0, 1 := Some 4), PCBPool := (\<lambda>_. blank_pcb)\<rparr>"

lemma cat_sample_simps [simp]:
  "disk cat_sample = shell_disk" "argc cat_sample = 2" "argv cat_sample 1 = Some 4" "argv cat_sample (Suc 0) = Some 4" "current cat_sample = Some 1"
  "PCBPool cat_sample = (\<lambda>_. blank_pcb)" "cbuf cat_sample = fill_buf (of_string ''cat'' @ [0, 0x61]) (\<lambda>_. 0)"
  "st_used (fs cat_sample 0) = 0" "st_filename (fs cat_sample 0) = replicate 24 0"
  by (simp_all add: cat_sample_def shell_sample_def fs_sample_def sample_def fsst.defs procst.defs)

lemma cat_sample_opens:
  "\<exists>s1. fs_open_port [0x61] 0 cat_sample = Inr (0, s1) \<and> get_fcb 0 s1 = Inr 0 \<and> st_file_size (fs s1 0) = 3 \<and>
     st_inode_offset (fs s1 0) = 0 \<and> disk s1 = shell_disk"
proof -
  let ?e = "dec_dir (shell_disk 257) 0"
  have "strcmp_field (filename ?e) [0x61] = Inr 0" "cstring (filename ?e) = Inr [0x61]" "file_size ?e = 3" "inode_offset ?e = 0"
    by code_simp+
  then obtain s1 where s1: "fs_open_kr [0x61] cat_sample = Inr (0, s1)" "st_file_size (fs s1 0) = 3" "st_inode_offset (fs s1 0) = 0" "disk s1 = shell_disk"
    using open_first_entry [of ?e cat_sample "[0x61]"] by auto
  have "0 < FCBMAX" by (simp add: FCBMAX_def)
  then obtain n where n: "FCBMAX = Suc n" by (meson gr0_implies_Suc)
  show ?thesis using s1 shell_files_frame [OF fs_open_frame [OF s1(1)]]
    by (simp add: fs_open_port_def fs_open_md_def set_fcb_def get_fcb_def n blank_pcb_def upd_pcb_def Let_def)
qed

theorem cat_prints_file_witness: "\<exists>s'. cat cat_sample = Inr s' \<and> serial s' = serial cat_sample @ ''xyz'' @ NL"
proof -
  obtain s1 where o: "fs_open_port [0x61] 0 cat_sample = Inr (0, s1)" "get_fcb 0 s1 = Inr 0" "st_file_size (fs s1 0) = 3"
    "st_inode_offset (fs s1 0) = 0" "disk s1 = shell_disk" using cat_sample_opens by auto
  have "dec_inode (shell_disk 513) 0 = 0" by (simp add: dec_inode_def get_le32_def shell_disk_def)
  then have c: "ide_sector (LOC_INODE 0) = 513" "ide_sector (LOC_DATA (dec_inode (shell_disk 513) 0)) = 769"
    by (simp_all add: LOC_INODE_def LOC_DATA_def fs_consts ide_sector_eq)
  have m: "map (\<lambda>k. shell_disk 769 k) [0..<3] = [0x78, 0x79, 0x7A]" by (simp add: shell_disk_def upt_rec)
  have "file_byte s1 0 k = shell_disk 769 k" if "k < 3" for k using that by (simp add: file_byte_def o(5) c)
  then have b: "map (file_byte s1 0) [0..<3] = [0x78, 0x79, 0x7A]" unfolding m [symmetric] by simp
  have a: "[0x61] \<noteq> of_string ''>''" "[0x61] \<noteq> of_string ''>>''" "to_string [0x78, 0x79, 0x7A] = ''xyz''" "stream 0 = Inr 0"
    "0 \<notin> set [0x78, 0x79, 0x7A :: u8]" by code_simp+
  have "holds (fill_buf (of_string ''cat'' @ [0, 0x61]) (\<lambda>_. 0)) 4 [0x61]" by (simp add: holds_def fill_buf_def of_string_def BUFSIZE_def)
  then show ?thesis
    using cat_prints_file [OF _ _ _ a(1,2) o(1) _ o(2) a(4), of 4 3 "[0x78, 0x79, 0x7A]"] o a(3,5) b by auto
qed

end
