(* ===== verification/Fork.thy ===== *)
theory Fork
  imports Loader_Frame
begin

text \<open>
  What \<^verbatim>\<open>fork_current\<close> (\<^verbatim>\<open>src/kernel/src/process.c\<close>) leaves alone and what parent and child share.
\<close>

section \<open>What fork leaves alone\<close>

lemma copy_pgtable_frame: "copy_pgtable_loop n d c s = Inr s' \<Longrightarrow> pagingst.more s' = pagingst.more s"
proof (induction n arbitrary: s)
  case (Suc n)
  then obtain s1 where "copy_pgtable_loop n d c s1 = Inr s'" "pagingst.more s1 = pagingst.more s"
    by (auto simp: bind_res_eq_Inr Let_def dest: page_alloc_frame split: prod.splits if_splits)
  then show ?case using Suc.IH by metis
qed simp

lemma copy_pgdir_frame: "copy_pgdir d c s = Inr s' \<Longrightarrow> pagingst.more s' = pagingst.more s"
proof -
  have "pagingst.more s' = pagingst.more s" if "copy_pgdir_loop n d c s = Inr s'" for n
    using that
  proof (induction n arbitrary: s)
    case (Suc n)
    then obtain s1 where "copy_pgdir_loop n d c s1 = Inr s'" "pagingst.more s1 = pagingst.more s"
      by (auto simp: bind_res_eq_Inr Let_def simp del: copy_pgtable_loop.simps dest!: copy_pgtable_frame dest: page_alloc_frame split: prod.splits if_splits)
    then show ?case using Suc.IH by metis
  qed simp
  then show "copy_pgdir d c s = Inr s' \<Longrightarrow> pagingst.more s' = pagingst.more s" by (simp add: copy_pgdir_def)
qed

lemma find_unused_free:
  assumes "find_unused k pool = i" "k \<le> PCBPOOLMAX" "i < PCBPOOLMAX"
  shows "used (pool i) = 0"
  using assms by (induction k) (auto simp: Let_def split: if_splits)

lemma pcb_create_frame:
  assumes "pcb_create s = Inr (Some i, s')"
  shows "i < PCBPOOLMAX" "used (PCBPool s i) = 0" "\<forall>q. q \<noteq> i \<longrightarrow> PCBPool s' q = PCBPool s q" "current s' = current s"
    "ready_list s' = ready_list s" "procst.more s' = procst.more s"
    "pcb_addr s' q = pcb_addr s q"
proof -
  have i: "i = find_unused PCBPOOLMAX (PCBPool s)" "i < PCBPOOLMAX"
    using assms by (auto simp: pcb_create_def Let_def split: if_splits prod.splits option.splits)
  then show "i < PCBPOOLMAX" "used (PCBPool s i) = 0" using find_unused_free [of PCBPOOLMAX "PCBPool s"] by simp_all
  let ?s = "upd_pcb i (\<lambda>p. p\<lparr>used := 1\<rparr>) (upd_pcb i (\<lambda>p. p\<lparr>fcb := (\<lambda>j. if j < FCBMAX then - 1 else fcb p j)\<rparr>)
     (upd_pcb i (\<lambda>p. p\<lparr>tf := tfPool_addr s + of_nat (TF_SIZE * i)\<rparr>) s))"
  obtain pp s1 where s1: "page_alloc ALLOC_ZERO ?s = (Some pp, s1)"
    using assms i by (auto simp: pcb_create_def Let_def split: prod.splits option.splits)
  define s2 where "s2 = page_incref pp (s1\<lparr>PCBPool := PCBPool (upd_pcb i (\<lambda>p. p\<lparr>pgdir := page2kva pp, pid := next_pid s1, timeslice := 0\<rparr>) s1),
    next_pid := next_pid s1 + 1\<rparr>)"
  have s': "s' = memcpy (page2kva pp) (kern_pgdir s2) PGSIZE s2"
    using assms i(2) s1 unfolding pcb_create_def i(1) [symmetric] Let_def s2_def by (auto simp: upd_pcb_def page_incref_def set_page_def)
  have "pagingst.more s' = pagingst.more (s1\<lparr>PCBPool := PCBPool (upd_pcb i (\<lambda>p. p\<lparr>pgdir := page2kva pp, pid := next_pid s1, timeslice := 0\<rparr>) s1),
    next_pid := next_pid s1 + 1\<rparr>)" by (simp add: s' s2_def)
  note m = more_procs [OF this] and m1 = more_procs [OF page_alloc_frame [OF s1]]
  show "\<forall>q. q \<noteq> i \<longrightarrow> PCBPool s' q = PCBPool s q" "current s' = current s" "ready_list s' = ready_list s" "procst.more s' = procst.more s" "pcb_addr s' q = pcb_addr s q"
    using m(1-4,7) m1(1-4,7) by (simp_all add: upd_pcb_def pcb_addr_def)
qed

text \<open>\<open>beside q s s'\<close>: the process code's variables agree, but for the descriptor of process \<open>q\<close>.\<close>

definition beside :: "nat \<Rightarrow> 'a procst_scheme \<Rightarrow> 'a procst_scheme \<Rightarrow> bool" where
  "beside q s s' \<longleftrightarrow> (\<forall>p. p \<noteq> q \<longrightarrow> PCBPool s' p = PCBPool s p) \<and> current s' = current s \<and> ready_list s' = ready_list s \<and>
     procst.more s' = procst.more s"

lemma beside_paging: "pagingst.more s' = pagingst.more s1 \<Longrightarrow> beside q s s1 \<Longrightarrow> beside q s s'"
  using more_procs [of s' s1] by (simp add: beside_def)

lemma beside_steps [intro]:
  "beside q s s" "beside q s s1 \<Longrightarrow> beside q s (upd_pcb q f s1)" "beside q s s1 \<Longrightarrow> beside q s (memcpy a b n s1)"
  "beside q s s1 \<Longrightarrow> beside q s (store a v s1)" "beside q s s1 \<Longrightarrow> beside q s (s1\<lparr>mem := m\<rparr>)"
  "beside q s s1 \<Longrightarrow> copy_pgdir d c s1 = Inr s2 \<Longrightarrow> beside q s s2"
  by (simp add: beside_def) (simp add: beside_def upd_pcb_def, (erule beside_paging [rotated], simp add: copy_pgdir_frame)+)

lemma copy_pcb_files:
  assumes "copy_pcb son p s = Inr s'" "son \<noteq> p"
  shows "beside son s s'" "\<forall>j < FCBMAX. fcb (PCBPool s' son) j = fcb (PCBPool s p) j"
proof -
  define sA where "sA = memcpy (pcb_addr s son) (pcb_addr s p) FORKKSTACKSIZE s"
  define sB where "sB = upd_pcb son (\<lambda>x. x\<lparr>timeslice := timeslice (PCBPool sA p)\<rparr>) sA"
  define off where "off = kstack_addr sB son - kstack_addr sB p"
  define sC where "sC = upd_pcb son (\<lambda>x. x\<lparr>tf := tf (PCBPool sB p) + off\<rparr>) sB"
  define sD where "sD = upd_pcb son (\<lambda>x. x\<lparr>tt := tt (PCBPool sC p)\<rparr>) sC"
  let ?ebp = "tf (PCBPool sD son) + TF_EBP"
  let ?sE = "store ?ebp (mem sD ?ebp + off) sD"
  have D: "beside son s sD" unfolding sD_def sC_def sB_def sA_def by (intro beside_steps(1-5))
  obtain s1 where s1: "(if tt (PCBPool sD son) = KERNEL
      then bind_res (loop_res (relocate_loop off (mem ?sE ?ebp) (mem ?sE)))
        (\<lambda>m. Inr (upd_pcb son (\<lambda>x. x\<lparr>ts := ts (PCBPool ?sE p)\<rparr>) (?sE\<lparr>mem := m\<rparr>)))
      else if tt (PCBPool sD son) \<noteq> THREAD then copy_pgdir (pgdir (PCBPool sD son)) (pgdir (PCBPool sD p)) sD else Inr sD) = Inr s1"
    and s': "s' = upd_pcb son (\<lambda>x. x\<lparr>fcb := (\<lambda>j. if j < FCBMAX then fcb (PCBPool s1 p) j else fcb x j)\<rparr>) s1"
    using assms(1) unfolding copy_pcb_def Let_def bind_res_eq_Inr sA_def [symmetric] sB_def [symmetric] off_def [symmetric] sC_def [symmetric]
      sD_def [symmetric] by auto
  have s1: "beside son s s1"
    using s1 D beside_steps(6) [OF D] by (auto simp: bind_res_eq_Inr split: if_splits)
  then show "beside son s s'" unfolding s' by blast
  show "\<forall>j < FCBMAX. fcb (PCBPool s' son) j = fcb (PCBPool s p) j" using s1 s' assms(2) by (simp add: beside_def upd_pcb_def)
qed

lemma fork_shares_files:
  assumes "fork_current s = Inr s'" "current s = Some p" "used (PCBPool s p) \<noteq> 0"
  shows "\<exists>son. son \<noteq> p \<and> (\<forall>q. q \<noteq> son \<longrightarrow> PCBPool s' q = PCBPool s q) \<and> (\<forall>j < FCBMAX. fcb (PCBPool s' son) j = fcb (PCBPool s p) j) \<and>
    current s' = Some p \<and> ready_list s' = Some son \<and> procst.more s' = procst.more s"
proof -
  obtain son s1 where s1: "pcb_create s = Inr (Some son, s1)"
    using assms(1) by (auto simp: fork_current_def bind_res_eq_Inr deref_def split: option.splits)
  note c = pcb_create_frame [OF s1]
  have ne: "son \<noteq> p" using c(2) assms(3) by auto
  define s2 where "s2 = upd_pcb son (\<lambda>x. x\<lparr>ppid := pid (PCBPool s1 p)\<rparr>) s1"
  obtain s3 where s3: "copy_pcb son p s2 = Inr s3"
    and push: "(\<exists>r. ll_push Ready_list (Some son) (store (tf (PCBPool s3 son) + TF_EAX) 0 (store (tf (PCBPool s3 p) + TF_EAX) (pid (PCBPool s3 son)) s3)) = Inr (r, s'))"
    using assms(1,2) s1 c(4) by (auto simp: fork_current_def bind_res_eq_Inr Let_def s2_def store_def)
  note cp = copy_pcb_files [OF s3 ne]
  obtain r where "ll_push Ready_list (Some son) (store (tf (PCBPool s3 son) + TF_EAX) 0 (store (tf (PCBPool s3 p) + TF_EAX) (pid (PCBPool s3 son)) s3)) = Inr (r, s')"
    using push by blast
  then have "ready_list s' = Some son" "current s' = current s3" "procst.more s' = procst.more s3"
    "PCBPool s' = PCBPool s3 \<or> PCBPool s' = (PCBPool s3)(son := (PCBPool s3 son)\<lparr>nxt := ready_list s3\<rparr>)"
    by (auto simp: ll_push_def Let_def store_def upd_pcb_def split: option.splits)
  then show ?thesis using cp c ne assms(2) by (intro exI [of _ son]) (auto simp: s2_def upd_pcb_def beside_def)
qed

end
