(* ===== verification/App.thy ===== *)
theory App
  imports Shell Fork
begin

text \<open>
  The test application, \<^verbatim>\<open>src/app/src/main.c\<close>: it opens a file, reads and prints it, seeks back, forks, and then parent and child
  write to the file and exit.  Its file and output calls are the kernel's operations behind the system calls, and so is its fork; the
  locals of a process are members of the state.
\<close>

section \<open>The program\<close>

definition APPBUF :: nat where "APPBUF = 300"

text \<open>
  \<open>abuf\<close>, \<open>abuf2\<close> and \<open>afd\<close> are the locals \<^verbatim>\<open>buf\<close>, \<^verbatim>\<open>buf2\<close> and \<^verbatim>\<open>fd\<close>; \<open>exits\<close> lists the processes that have called \<^verbatim>\<open>exit\<close>.
\<close>

record appst = fsst +
  abuf :: "nat \<Rightarrow> u8"
  abuf2 :: "nat \<Rightarrow> u8"
  afd :: u32
  exits :: "nat list"

definition app_str :: "(nat \<Rightarrow> u8) \<Rightarrow> u8 list res" where
  "app_str a = cstring (map a [0..<APPBUF])"

text \<open>\<^verbatim>\<open>while(i<(1<<29))i++;\<close>\<close>

function spin :: "u32 \<Rightarrow> u32" where
  "spin i = (if sint i < 2 ^ 29 then spin (i + 1) else i)"
  by pat_completeness auto
termination by (relation "measure (\<lambda>i. nat (2 ^ 29 - sint i))") (auto simp: sint_inc)

declare spin.simps [simp del]

text \<open>\<^verbatim>\<open>main\<close> up to the fork, and from there on.\<close>

definition app_begin :: "appst \<Rightarrow> appst res" where
  "app_begin s =
     bind_res (fs_open_port (of_string ''singer.txt'') 1 s) (\<lambda>(fd, s).
     let s = s\<lparr>afd := fd\<rparr> in
     bind_res (fs_read_port (afd s) 300 s) (\<lambda>(_, bytes, s).
     if APPBUF < length bytes then Inl OutOfBounds
     else
       (let s = s\<lparr>abuf := fill_buf bytes (abuf s)\<rparr> in
        bind_res (app_str (abuf s)) (\<lambda>str.
        bind_res (printk (''APP#READ singer.txt: %s'' @ NL) [Str (to_string str)] s) (\<lambda>s.
        bind_res (fs_lseek_port (afd s) 0 0 s) (\<lambda>(_, s). Inr s))))))"

definition app_end :: "appst \<Rightarrow> appst res" where
  "app_end s =
     (let s = s\<lparr>abuf2 := fill_buf (of_string ''Hello from the other side!'' @ [0]) (abuf2 s)\<rparr> in
      bind_res (fs_write_port (afd s) (abuf2 s) 26 s) (\<lambda>(_, s).
      bind_res (app_str (abuf2 s)) (\<lambda>str.
      bind_res (printk (''APP#WRITE singer.txt: %s'' @ NL) [Str (to_string str)] s) (\<lambda>s.
      let i = spin 0 in
      bind_res (deref (current s)) (\<lambda>c. Inr (s\<lparr>exits := exits s @ [c]\<rparr>))))))"

definition app_main :: "appst \<Rightarrow> appst res" where
  "app_main s = bind_res (app_begin s) (\<lambda>s. bind_res (fork_current s) app_end)"

section \<open>The delay loop\<close>

lemma spin_ends: "sint i \<le> 2 ^ 29 \<Longrightarrow> spin i = 0x20000000"
proof (induction i rule: spin.induct)
  case (1 i)
  show ?case
  proof (cases "sint i < 2 ^ 29")
    case True
    then show ?thesis using 1 sint_inc [of i] by (subst spin.simps) simp
  next
    case False
    with 1(2) have "sint i = sint (0x20000000 :: u32)" by simp
    then have "i = 0x20000000" by (simp only: signed_word_eqI)
    then show ?thesis by (subst spin.simps) simp
  qed
qed

section \<open>Reading\<close>

lemma app_str_filled:
  assumes "0 \<notin> set bytes" "length bytes < APPBUF" "a (length bytes) = 0"
  shows "app_str (fill_buf bytes a) = Inr bytes"
proof -
  have "cstring (xs @ 0 # ys) = Inr xs" if "0 \<notin> set xs" for xs ys using that by (induction xs) auto
  moreover have "map (fill_buf bytes a) [0..<APPBUF] = bytes @ 0 # map (fill_buf bytes a) [Suc (length bytes)..<APPBUF]"
  proof -
    have "[0..<APPBUF] = [0..<length bytes] @ length bytes # [Suc (length bytes)..<APPBUF]"
      using assms(2) upt_add_eq_append [of 0 "length bytes" "APPBUF - length bytes"] by (simp add: upt_conv_Cons)
    moreover have "map (fill_buf bytes a) [0..<length bytes] = bytes" by (rule nth_equalityI) (simp_all add: fill_buf_def)
    ultimately show ?thesis using assms(3) by (simp add: fill_buf_def)
  qed
  ultimately show ?thesis using assms(1) by (simp add: app_str_def)
qed

lemma printk_tagged:
  "printk (''APP#READ singer.txt: %s'' @ NL) [Str x] s = Inr (printk_str (''APP#READ singer.txt: '' @ x @ NL) s)"
  "printk (''APP#WRITE singer.txt: %s'' @ NL) [Str x] s = Inr (printk_str (''APP#WRITE singer.txt: '' @ x @ NL) s)"
  by (simp_all add: printk_def XGET_str_def NL_def)

lemma app_files_frame:
  assumes "fs_erase s' = fs_erase (s :: appst)"
  shows "abuf s' = abuf s" "abuf2 s' = abuf2 s" "afd s' = afd s" "exits s' = exits s" "serial s' = serial s" "current s' = current s"
    "PCBPool s' = PCBPool s" "mem s' = mem s" "page_free_list s' = page_free_list s"
  using assms by (cases s; cases s'; simp add: fs_erase_def)+

lemma app_begin_reads:
  assumes opened: "fs_open_port (of_string ''singer.txt'') 1 s = Inr (fd, s0)" "fd \<noteq> - 1" "get_fcb fd s0 = Inr k" "stream k = Inr i"
    and data: "st_offset (fs s0 i) = 0" "st_file_size (fs s0 i) = of_nat sz" "0 < sz" "sz < APPBUF"
      "bytes = map (file_byte s0 (st_inode_offset (fs s0 i))) [0..<sz]" "0 \<notin> set bytes" "abuf s0 sz = 0"
  shows "\<exists>s1. app_begin s = Inr s1 \<and> serial s1 = serial s0 @ ''APP#READ singer.txt: '' @ to_string bytes @ NL \<and> afd s1 = fd \<and>
    fs s1 = fs s0 \<and> disk s1 = disk s0 \<and> PCBPool s1 = PCBPool s0 \<and> current s1 = current s0 \<and> exits s1 = exits s0 \<and>
    mem s1 = mem s0 \<and> page_free_list s1 = page_free_list s0"
proof -
  let ?s = "s0\<lparr>afd := fd\<rparr>"
  have g: "get_fcb fd ?s = Inr k" using opened(3) get_fcb_cong [of ?s s0 fd] by simp
  have sz: "sz < 300" using data(4) by (simp add: APPBUF_def)
  have "file_byte ?s ino = file_byte s0 ino" for ino by (simp add: file_byte_def fun_eq_iff)
  then obtain b where b: "fs_read_kr k 300 ?s = Inr (of_nat sz, bytes, advance i (of_nat sz) ((loaded i ?s)\<lparr>buffer := b\<rparr>))"
    using fs_read_steps [OF opened(4), of ?s 0 sz 300] data(1-3,5) sz by (auto simp: min_def)
  let ?r = "advance i (of_nat sz) ((loaded i ?s)\<lparr>buffer := b\<rparr>)"
  have fr: "fs_erase ?r = fs_erase ?s" using fs_read_frame [OF b] by simp
  note f = app_files_frame [OF fr]
  let ?t = "?r\<lparr>abuf := fill_buf bytes (abuf ?r)\<rparr>"
  have len: "length bytes = sz" using data(5) by simp
  have str: "app_str (abuf ?t) = Inr bytes" using app_str_filled [OF data(6)] data(4,7) len f(1) by simp
  define u where "u = printk_str (''APP#READ singer.txt: '' @ to_string bytes @ NL) ?t"
  have gu: "get_fcb fd u = Inr k" using g get_fcb_cong [of u ?s fd] f(6,7) by (simp add: u_def printk_str_def)
  have au: "afd u = fd" "afd ?t = fd" using f(3) by (simp_all add: u_def printk_str_def)
  have "app_begin s = bind_res (fs_lseek_port fd 0 0 u) (\<lambda>(_, s). Inr s)"
    using opened(1,2) g b str len sz au(1)
    by (simp add: app_begin_def fs_read_port_def fs_read_md_def Let_def printk_tagged u_def APPBUF_def del: append.simps append_assoc)
  also have "\<dots> = Inr (upd_stream i (\<lambda>f. f\<lparr>st_offset := 0\<rparr>) u)"
    using opened(2,4) gu by (simp add: fs_lseek_port_def fs_lseek_md_def fs_lseek_kr_def Let_def)
  finally have "app_begin s = Inr (upd_stream i (\<lambda>f. f\<lparr>st_offset := 0\<rparr>) u)" .
  moreover have "(fs s0 i)\<lparr>st_offset := 0\<rparr> = fs s0 i" using data(1) by (cases "fs s0 i") simp
  then have "(fs s0)(i := (fs s0 i)\<lparr>st_offset := 0\<rparr>) = fs s0" by simp
  ultimately show ?thesis using f by (simp add: u_def printk_str_def upd_stream_def)
qed

section \<open>Writing\<close>

text \<open>The contents of a file are on the disk.\<close>

lemma same_disk:
  assumes "disk s' = disk s"
  shows "file_byte s' ino = file_byte s ino" "inode_blocks s' ino = inode_blocks s ino" "file_ok s' ino nb = file_ok s ino nb"
  by (rule ext, simp add: file_byte_def assms) (simp_all add: inode_blocks_def file_ok_def assms)

definition app_text :: "u8 list" where "app_text = of_string ''Hello from the other side!''"

lemma app_text: "length app_text = 26" "0 \<notin> set app_text"
  unfolding app_text_def by code_simp+

lemma app_end_writes:
  assumes fd: "afd s \<noteq> - 1" "unat (afd s) < FCBMAX" "current s = Some q" "stream (fcb (PCBPool s q) (unat (afd s))) = Inr i"
    and data: "st_offset (fs s i) = of_nat off" "st_file_size (fs s i) = of_nat sz" "off + 26 \<le> sz" "sz < 65536" "sz \<le> 512 * nb"
      "file_ok s (st_inode_offset (fs s i)) nb" "unat (st_dir_offset (fs s i)) < SC_DIR"
  shows "\<exists>s'. app_end s = Inr s' \<and>
     (\<forall>k < 512 * nb. file_byte s' (st_inode_offset (fs s i)) k =
        (if off \<le> k \<and> k < off + 26 then app_text ! (k - off) else file_byte s (st_inode_offset (fs s i)) k)) \<and>
     fs s' = (fs s)(i := (fs s i)\<lparr>st_offset := of_nat (off + 26)\<rparr>) \<and> file_ok s' (st_inode_offset (fs s i)) nb \<and>
     afd s' = afd s \<and> PCBPool s' = PCBPool s \<and> exits s' = exits s @ [q] \<and>
     serial s' = serial s @ ''APP#WRITE singer.txt: Hello from the other side!'' @ NL"
proof -
  let ?t = "s\<lparr>abuf2 := fill_buf (app_text @ [0]) (abuf2 s)\<rparr>" and ?k = "fcb (PCBPool s q) (unat (afd s))"
  have b: "file_byte ?t ino = file_byte s ino" "inode_blocks ?t ino = inode_blocks s ino" for ino
    using same_disk [of ?t s] by simp_all
  have ok: "file_ok ?t (st_inode_offset (fs ?t i)) nb" using data(6) by (simp add: file_ok_def b)
  obtain u where u: "fs_write_kr ?k (abuf2 ?t) 26 ?t = Inr (26, u)"
      "\<forall>k < 512 * nb. file_byte u (st_inode_offset (fs s i)) k =
        (if off \<le> k \<and> k < off + 26 then abuf2 ?t (k - off) else file_byte s (st_inode_offset (fs s i)) k)"
      "fs u = (fs s)(i := (fs s i)\<lparr>st_offset := of_nat (off + 26)\<rparr>)"
      "inode_blocks u (st_inode_offset (fs s i)) = inode_blocks s (st_inode_offset (fs s i))"
    using fs_write_effect [OF fd(4), of ?t off sz 26 nb "abuf2 ?t"] data(1-5,7) ok b by auto
  note f = app_files_frame [OF fs_write_frame [OF u(1)]]
  have str: "app_str (abuf2 u) = Inr app_text"
  proof -
    have "fill_buf (app_text @ [0]) a = fill_buf app_text (fill_buf (app_text @ [0]) a)" for a
      by (auto simp: fill_buf_def nth_append)
    then show ?thesis using app_str_filled [OF app_text(2), of "fill_buf (app_text @ [0]) (abuf2 s)"] app_text(1) f(2)
      by (simp add: APPBUF_def fill_buf_def nth_append)
  qed
  have "get_fcb (afd s) ?t = Inr ?k" using fd(2,3) by (simp add: get_fcb_def)
  then have w: "fs_write_port (afd ?t) (abuf2 ?t) 26 ?t = Inr (26, u)" using u(1) fd(1) by (simp add: fs_write_port_def fs_write_md_def)
  define x where "x = printk_str (''APP#WRITE singer.txt: '' @ to_string app_text @ NL) u"
  have "to_string app_text = ''Hello from the other side!''" unfolding app_text_def by code_simp
  then have sx: "serial x = serial s @ ''APP#WRITE singer.txt: Hello from the other side!'' @ NL" using f(5) by (simp add: x_def printk_str_def)
  have "current x = Some q" using f(6) fd(3) by (simp add: x_def printk_str_def)
  moreover have "app_end s = bind_res (deref (current x)) (\<lambda>c. Inr (x\<lparr>exits := exits x @ [c]\<rparr>))"
    unfolding app_end_def Let_def app_text_def [symmetric] w bind_res_simps prod.case str printk_tagged x_def ..
  ultimately have "app_end s = Inr (x\<lparr>exits := exits x @ [q]\<rparr>)" by simp
  moreover have "abuf2 ?t j = app_text ! j" if "j < 26" for j using that app_text(1) by (simp add: fill_buf_def nth_append)
  moreover have "file_ok u (st_inode_offset (fs s i)) nb" using data(6) u(4) by (simp add: file_ok_def)
  moreover have "disk (x\<lparr>exits := exits x @ [q]\<rparr>) = disk u" by (simp add: x_def printk_str_def)
  note same_disk [OF this]
  moreover have "fs x = fs u" "afd x = afd s" "PCBPool x = PCBPool s" "exits x = exits s" using f by (simp_all add: x_def printk_str_def)
  ultimately show ?thesis using u(2,3) sx by (intro exI [of _ "x\<lparr>exits := exits x @ [q]\<rparr>"]) auto
qed

section \<open>Parent and child\<close>

text \<open>
  C28. The test application on a file of 52 to 299 bytes without NULs, in a buffer that happens to hold a NUL behind them: it prints the
  file; after a successful \<^verbatim>\<open>fork\<close> the descriptor of parent and child is one stream with one offset, so that, whichever of them runs
  first, the two messages end up one after the other at the beginning of the file, the rest of which is kept, and both processes exit.
\<close>

theorem app_writes_twice:
  assumes opened: "fs_open_port (of_string ''singer.txt'') 1 s = Inr (fd, s0)" "fd \<noteq> - 1" "get_fcb fd s0 = Inr k" "stream k = Inr i"
    and data: "st_offset (fs s0 i) = 0" "st_file_size (fs s0 i) = of_nat sz" "52 \<le> sz" "sz < APPBUF" "ino = st_inode_offset (fs s0 i)"
      "bytes = map (file_byte s0 ino) [0..<sz]" "0 \<notin> set bytes" "abuf s0 sz = 0"
      "file_ok s0 ino 1" "unat (st_dir_offset (fs s0 i)) < SC_DIR"
    and proc: "current s0 = Some p" "used (PCBPool s0 p) \<noteq> 0"
  shows "\<exists>s1. app_begin s = Inr s1 \<and> serial s1 = serial s0 @ ''APP#READ singer.txt: '' @ to_string bytes @ NL \<and>
    (\<forall>s2. fork_current s1 = Inr s2 \<longrightarrow> (\<exists>son. son \<noteq> p \<and> app_main s = app_end s2 \<and> current s2 = Some p \<and> ready_list s2 = Some son \<and>
      (\<forall>a b. {a, b} = {p, son} \<longrightarrow> (\<exists>s3 s4. app_end (s2\<lparr>current := Some a\<rparr>) = Inr s3 \<and> app_end (s3\<lparr>current := Some b\<rparr>) = Inr s4 \<and>
        exits s4 = exits s0 @ [a, b] \<and>
        (\<forall>k < 512. file_byte s4 ino k = (if k < 52 then app_text ! (k mod 26) else file_byte s0 ino k))))))"
proof -
  obtain s1 where s1: "app_begin s = Inr s1" "serial s1 = serial s0 @ ''APP#READ singer.txt: '' @ to_string bytes @ NL" "afd s1 = fd"
      "fs s1 = fs s0" "disk s1 = disk s0" "PCBPool s1 = PCBPool s0" "current s1 = current s0" "exits s1 = exits s0"
    using app_begin_reads [OF opened data(1,2) _ data(4) _ data(7,8)] data(3,5,6) by auto
  have sz: "sz < 512" "sz < 65536" using data(4) by (simp_all add: APPBUF_def)
  have fcb: "unat fd < FCBMAX" "fcb (PCBPool s0 p) (unat fd) = k" using opened(3) proc(1) by (auto simp: get_fcb_def split: if_splits)
  have two: "\<exists>s3 s4. app_end (s2\<lparr>current := Some a\<rparr>) = Inr s3 \<and> app_end (s3\<lparr>current := Some b\<rparr>) = Inr s4 \<and> exits s4 = exits s0 @ [a, b] \<and>
        (\<forall>k < 512. file_byte s4 ino k = (if k < 52 then app_text ! (k mod 26) else file_byte s0 ino k))"
    if f: "\<forall>q \<in> {a, b}. fcb (PCBPool s2 q) (unat fd) = k" "procst.more s2 = procst.more s1" for s2 a b
  proof -
    have m: "fs s2 = fs s0" "disk s2 = disk s0" "afd s2 = fd" "exits s2 = exits s0"
      using f(2) s1(3-5,8) by (cases s1; cases s2; simp)+
    let ?a = "s2\<lparr>current := Some a\<rparr>"
    have ok: "file_ok ?a ino 1" "file_byte ?a ino = file_byte s0 ino"
      using data(9) m same_disk [of ?a s0] by simp_all
    obtain s3 where s3: "app_end ?a = Inr s3"
        "\<forall>k < 512. file_byte s3 ino k = (if k < 26 then app_text ! k else file_byte s0 ino k)"
        "fs s3 = (fs s0)(i := (fs s0 i)\<lparr>st_offset := 26\<rparr>)" "file_ok s3 ino 1" "afd s3 = fd" "PCBPool s3 = PCBPool s2" "exits s3 = exits s0 @ [a]"
      using app_end_writes [of ?a a i 0 sz 1] f(1) m opened(2,4) fcb data sz ok by auto
    let ?b = "s3\<lparr>current := Some b\<rparr>"
    have ok3: "file_ok ?b ino 1" "file_byte ?b ino = file_byte s3 ino"
      using s3(4) same_disk [of ?b s3] by simp_all
    obtain s4 where s4: "app_end ?b = Inr s4"
        "\<forall>k < 512. file_byte s4 ino k = (if 26 \<le> k \<and> k < 52 then app_text ! (k - 26) else file_byte s3 ino k)" "exits s4 = exits s3 @ [b]"
      using app_end_writes [of ?b b i 26 sz 1] f(1) s3 opened(2,4) fcb data sz ok3 by auto
    have "file_byte s4 ino k = (if k < 52 then app_text ! (k mod 26) else file_byte s0 ino k)" if k: "k < 512" for k
    proof -
      have "26 \<le> k \<Longrightarrow> k < 52 \<Longrightarrow> k mod 26 = k - 26" by (simp add: mod_if)
      then show ?thesis using s3(2) s4(2) k by auto
    qed
    then show ?thesis using s3(1,7) s4(1,3) by auto
  qed
  show ?thesis
  proof (intro exI [of _ s1] conjI allI impI s1(1,2))
    fix s2 assume fork: "fork_current s1 = Inr s2"
    then have main: "app_main s = app_end s2" using s1(1) by (simp add: app_main_def)
    from fork obtain son where son: "son \<noteq> p" "\<forall>q. q \<noteq> son \<longrightarrow> PCBPool s2 q = PCBPool s0 q" "\<forall>j < FCBMAX. fcb (PCBPool s2 son) j = fcb (PCBPool s0 p) j"
        "current s2 = Some p" "ready_list s2 = Some son" "procst.more s2 = procst.more s1"
      using fork_shares_files [of s1 s2 p] s1(6,7) proc by auto
    then have f: "\<forall>q \<in> {p, son}. fcb (PCBPool s2 q) (unat fd) = k" using fcb by auto
    have g: "\<forall>q \<in> {a, b}. fcb (PCBPool s2 q) (unat fd) = k" if "{a, b} = {p, son}" for a b unfolding that by (rule f)
    show "\<exists>son. son \<noteq> p \<and> app_main s = app_end s2 \<and> current s2 = Some p \<and> ready_list s2 = Some son \<and>
      (\<forall>a b. {a, b} = {p, son} \<longrightarrow> (\<exists>s3 s4. app_end (s2\<lparr>current := Some a\<rparr>) = Inr s3 \<and> app_end (s3\<lparr>current := Some b\<rparr>) = Inr s4 \<and>
        exits s4 = exits s0 @ [a, b] \<and>
        (\<forall>k < 512. file_byte s4 ino k = (if k < 52 then app_text ! (k mod 26) else file_byte s0 ino k))))"
    proof (intro exI [of _ son] conjI allI impI son(1,4,5) main)
      fix a b assume "{a, b} = {p, son}"
      from two [OF g [OF this] son(6)] show "\<exists>s3 s4. app_end (s2\<lparr>current := Some a\<rparr>) = Inr s3 \<and> app_end (s3\<lparr>current := Some b\<rparr>) = Inr s4 \<and>
        exits s4 = exits s0 @ [a, b] \<and>
        (\<forall>k < 512. file_byte s4 ino k = (if k < 52 then app_text ! (k mod 26) else file_byte s0 ino k))" .
    qed
  qed
qed

text \<open>A state in which the fork succeeds: the memory is zero, so that there are no pages to copy.\<close>

lemma rep_zero: "rep_stosl n d 0 (\<lambda>_. 0) = (\<lambda>_. 0)" "rep_movsl n d c (\<lambda>_. 0) = (\<lambda>_. 0)"
proof -
  have z: "(\<lambda>_. 0 :: u32)(a := 0) = (\<lambda>_. 0)" for a :: u32 by auto
  show "rep_stosl n d 0 (\<lambda>_. 0) = (\<lambda>_. 0)" by (induction n arbitrary: d) (simp_all add: z)
  show "rep_movsl n d c (\<lambda>_. 0) = (\<lambda>_. 0)" by (induction n arbitrary: d c) (simp_all add: z)
qed

lemma copy_pgdir_empty: "mem s = (\<lambda>_. 0) \<Longrightarrow> copy_pgdir d c s = Inr s"
proof -
  assume z: "mem s = (\<lambda>_. 0)"
  have "copy_pgdir_loop n d c s = Inr s" for n by (induction n) (simp_all add: z)
  then show ?thesis by (simp add: copy_pgdir_def)
qed

lemma fork_empty:
  assumes "mem s = (\<lambda>_. 0)" "page_free_list s = Some f" "current s = Some p" "p \<noteq> 0" "used (PCBPool s 0) = 0" "tt (PCBPool s p) = USER"
  shows "\<exists>s'. fork_current s = Inr s'"
proof -
  have "find_unused PCBPOOLMAX (PCBPool s) = 0" using assms(5) by (simp add: PCBPOOLMAX_def numeral_eq_Suc)
  moreover have "(0 :: nat) < PCBPOOLMAX" by (simp add: PCBPOOLMAX_def)
  ultimately obtain s1 where s1: "pcb_create s = Inr (Some 0, s1)" "mem s1 = (\<lambda>_. 0)"
    using assms(1,2) by (simp add: pcb_create_def Let_def page_alloc_def upd_pcb_def set_page_def memset_def memcpy_def page_incref_def rep_zero)
  have c: "current s1 = Some p" "PCBPool s1 p = PCBPool s p" using pcb_create_frame [OF s1(1)] assms(3,4) by auto
  have "\<exists>s3. copy_pcb 0 p (upd_pcb 0 (\<lambda>x. x\<lparr>ppid := pid (PCBPool s1 p)\<rparr>) s1) = Inr s3"
    using c assms(4,6) by (simp add: copy_pcb_def Let_def upd_pcb_def memcpy_def s1(2) rep_zero copy_pgdir_empty)
  then obtain s3 where "copy_pcb 0 p (upd_pcb 0 (\<lambda>x. x\<lparr>ppid := pid (PCBPool s1 p)\<rparr>) s1) = Inr s3" by blast
  moreover have "\<exists>r s'. ll_push Ready_list (Some 0) x = Inr (r, s')" for x :: "'a procst_scheme"
    by (cases "ready_list x") (simp_all add: ll_push_def)
  ultimately show ?thesis using s1(1) c(1) by (auto simp: fork_current_def Let_def bind_res_def split: sum.splits) (metis sum.distinct(1))
qed

definition singer_disk :: "nat \<Rightarrow> sector" where
  "singer_disk n k =
     (if n = 257 then (if k < 10 then of_string ''singer.txt'' ! k else if k = 24 then 60 else 0)
      else if n = 769 then (if k < 60 then 0x61 else 0)
      else 0)"

definition app_sample :: appst where
  "app_sample = (fsst.extend (fs_sample singer_disk) \<lparr>abuf = (\<lambda>_. 0), abuf2 = (\<lambda>_. 0), afd = 0, exits = []\<rparr>)
     \<lparr>PCBPool := (\<lambda>_. blank_pcb)(1 := blank_pcb\<lparr>used := 1\<rparr>), page_free_list := Some 1024\<rparr>"

lemma app_sample_simps [simp]:
  "disk app_sample = singer_disk" "current app_sample = Some 1" "PCBPool app_sample = (\<lambda>_. blank_pcb)(1 := blank_pcb\<lparr>used := 1\<rparr>)"
  "st_used (fs app_sample 0) = 0" "st_filename (fs app_sample 0) = replicate 24 0" "mem app_sample = (\<lambda>_. 0)"
  "page_free_list app_sample = Some 1024" "abuf app_sample = (\<lambda>_. 0)" "exits app_sample = []"
  by (simp_all add: app_sample_def fs_sample_def sample_def fsst.defs procst.defs)

lemma app_sample_opens:
  "\<exists>s1. fs_open_port (of_string ''singer.txt'') 1 app_sample = Inr (0, s1) \<and> get_fcb 0 s1 = Inr 0 \<and> st_offset (fs s1 0) = 0 \<and> st_file_size (fs s1 0) = 60 \<and>
     st_inode_offset (fs s1 0) = 0 \<and> st_dir_offset (fs s1 0) = 0 \<and> disk s1 = singer_disk \<and> abuf s1 = (\<lambda>_. 0) \<and> current s1 = Some 1 \<and>
     used (PCBPool s1 1) = 1 \<and> used (PCBPool s1 0) = 0 \<and> tt (PCBPool s1 1) = USER \<and> mem s1 = (\<lambda>_. 0) \<and> page_free_list s1 = Some 1024 \<and> exits s1 = []"
proof -
  let ?e = "dec_dir (singer_disk 257) 0" and ?n = "of_string ''singer.txt''"
  have "strcmp_field (filename ?e) ?n = Inr 0" "cstring (filename ?e) = Inr ?n" "file_size ?e = 60" "inode_offset ?e = 0" "length ?n < 24"
    by code_simp+
  then obtain s1 where s1: "fs_open_kr ?n app_sample = Inr (0, s1)" "st_offset (fs s1 0) = 0" "st_file_size (fs s1 0) = 60"
      "st_inode_offset (fs s1 0) = 0" "st_dir_offset (fs s1 0) = 0" "disk s1 = singer_disk"
    using open_first_entry [of ?e app_sample ?n] by auto
  have "0 < FCBMAX" by (simp add: FCBMAX_def)
  then obtain n where n: "FCBMAX = Suc n" by (meson gr0_implies_Suc)
  note f = app_files_frame [OF fs_open_frame [OF s1(1)]]
  show ?thesis using s1 f
    by (simp add: fs_open_port_def fs_open_md_def set_fcb_def get_fcb_def n blank_pcb_def upd_pcb_def Let_def)
qed

theorem app_writes_twice_witness:
  "\<exists>s1 s2 son s3 s4. app_begin app_sample = Inr s1 \<and> fork_current s1 = Inr s2 \<and> app_end (s2\<lparr>current := Some son\<rparr>) = Inr s3 \<and>
     app_end (s3\<lparr>current := Some 1\<rparr>) = Inr s4 \<and> exits s4 = [son, 1] \<and> file_byte s4 0 30 = 0x6F \<and> file_byte s4 0 52 = 0x61"
proof -
  obtain s0 where o: "fs_open_port (of_string ''singer.txt'') 1 app_sample = Inr (0, s0)" "get_fcb 0 s0 = Inr 0"
      "st_offset (fs s0 0) = 0" "st_file_size (fs s0 0) = of_nat 60" "st_inode_offset (fs s0 0) = 0" "st_dir_offset (fs s0 0) = 0"
      "disk s0 = singer_disk" "abuf s0 60 = 0" "current s0 = Some 1"
      "used (PCBPool s0 1) \<noteq> 0" "used (PCBPool s0 0) = 0" "tt (PCBPool s0 1) = USER" "mem s0 = (\<lambda>_. 0)" "page_free_list s0 = Some 1024" "exits s0 = []"
    using app_sample_opens by auto
  have "dec_inode (singer_disk 513) 0 = 0" by (simp add: dec_inode_def get_le32_def singer_disk_def)
  then have c: "ide_sector (LOC_INODE 0) = 513" "ide_sector (LOC_DATA (dec_inode (singer_disk 513) 0)) = 769" "dec_inode (singer_disk 513) 0 = 0"
    by (simp_all add: LOC_INODE_def LOC_DATA_def fs_consts ide_sector_eq)
  have byte: "file_byte s0 0 k = singer_disk 769 k" if "k < 512" for k using that by (simp add: file_byte_def o(7) c(1,2))
  let ?b = "map (file_byte s0 0) [0..<60]"
  have nz: "0 \<notin> set ?b" using byte by (auto simp: singer_disk_def)
  have ok: "file_ok s0 0 1" by (simp add: file_ok_def inode_blocks_def o(7) c fs_consts inj_on_def)
  have st: "(0 :: u32) \<noteq> - 1" "stream 0 = Inr 0" "(52 :: nat) \<le> 60" "60 < APPBUF" "unat (st_dir_offset (fs s0 0)) < SC_DIR"
    by (simp_all add: stream_0 APPBUF_def o(6) SC_DIR_def)
  obtain s1 where s1: "app_begin app_sample = Inr s1" "PCBPool s1 = PCBPool s0" "current s1 = current s0" "mem s1 = mem s0" "page_free_list s1 = page_free_list s0"
    using app_begin_reads [OF o(1) st(1) o(2) st(2) o(3,4) _ st(4) _ nz o(8)] o(5) by auto
  obtain s2 where s2: "fork_current s1 = Inr s2" using fork_empty [of s1 1024 1] s1 o(9-14) by auto
  obtain son where son: "\<forall>a b. {a, b} = {1, son} \<longrightarrow> (\<exists>s3 s4. app_end (s2\<lparr>current := Some a\<rparr>) = Inr s3 \<and>
        app_end (s3\<lparr>current := Some b\<rparr>) = Inr s4 \<and> exits s4 = exits s0 @ [a, b] \<and>
        (\<forall>k < 512. file_byte s4 0 k = (if k < 52 then app_text ! (k mod 26) else file_byte s0 0 k)))"
  proof -
    note w = app_writes_twice [OF o(1) st(1) o(2) st(2) o(3,4) st(3,4) o(5) [symmetric] refl nz o(8) ok st(5) o(9,10)]
    from w show ?thesis by (elim exE conjE) (use s1(1) s2 that in simp, blast)
  qed
  have "{son, 1} = {1, son}" by auto
  with son [THEN spec, THEN spec, THEN mp] obtain s3 s4 where s4: "app_end (s2\<lparr>current := Some son\<rparr>) = Inr s3" "app_end (s3\<lparr>current := Some 1\<rparr>) = Inr s4"
      "exits s4 = exits s0 @ [son, 1]" "\<forall>k < 512. file_byte s4 0 k = (if k < 52 then app_text ! (k mod 26) else file_byte s0 0 k)" by metis
  have "app_text ! 4 = 0x6F" by (simp add: app_text_def of_string_def)
  then have "file_byte s4 0 30 = 0x6F" "file_byte s4 0 52 = 0x61" using s4(4) byte [of 52] by (simp_all add: singer_disk_def)
  then show ?thesis using s1(1) s2 s4(1-3) o(15) by (intro exI [of _ s1] exI [of _ s2] exI [of _ son] exI [of _ s3] exI [of _ s4]) simp
qed

end
