(* ===== verification/Image.thy ===== *)
theory Image
  imports Address_Space File_Ops
begin

text \<open>
  The bytes of a process: what reading, writing, clearing and allocating through the page tables do to the memory that a process sees, for address
  spaces whose pages are in frames of their own.
\<close>

section \<open>The bytes of an address space\<close>

text \<open>\<open>vbyte m d a\<close>: the byte at address \<open>a\<close> of the address space with directory \<open>d\<close>.\<close>

definition vbyte :: "wmem \<Rightarrow> nat \<Rightarrow> nat \<Rightarrow> u8 option" where
  "vbyte m d a = map_option (\<lambda>f. byte_of (a mod 4) (m (waddr (1024 * f + a mod 4096 div 4)))) (page_map m d (a div 4096))"

lemma page2pa_nat: "page2pa f = of_nat (4096 * f)"
  by (simp add: page2pa_def push_bit_eq_mult mult.commute)

lemma PTE_ADDR_page2pa: "PTE_ADDR (page2pa d) = page2pa d"
  using PTE_ADDR_or [OF take_bit_page2pa, of 0 d] by simp

lemma frame_bound: "pa2page e < 2 ^ 20"
proof -
  have "unat e < 2 ^ 32" by (rule unat_u32_less)
  then show ?thesis by (simp add: pa2page_def PGNUM_def unat_drop_bit) 
qed

text \<open>Word and byte of a physical address.\<close>

lemma phys_word:
  assumes "f < 2 ^ 20"
  shows "KADDR ((page2pa f OR PGOFF va) AND NOT 3) = waddr (1024 * f + unat va mod 4096 div 4)"
    "unat ((page2pa f OR PGOFF va) AND 3) = unat va mod 4"
proof -
  have FFF: "(0xFFF :: u32) = mask 12" "(3 :: u32) = mask 2" by (simp_all add: mask_eq_exp_minus_1)
  have off: "unat (PGOFF va) = unat va mod 4096"
    unfolding PGOFF_def FFF by (simp add: take_bit_eq_mask [symmetric] unsigned_take_bit_eq take_bit_eq_mod unat_mod)
  have "page2pa f AND PGOFF va = 0"
    by (rule bit_word_eqI) (auto simp: page2pa_def PGOFF_def FFF bit_simps)
  then have or: "page2pa f OR PGOFF va = page2pa f + PGOFF va" by (simp add: disjunctive_add_eq_or)
  have u: "unat (page2pa f + PGOFF va) = 4096 * f + unat va mod 4096"
  proof -
    have "unat (page2pa f) = 4096 * f" unfolding page2pa_nat using assms by (intro unat_small) simp
    moreover have "4096 * f + unat va mod 4096 < 2 ^ 32" using assms mod_less_divisor [of 4096 "unat va"] by simp
    then have "unat (page2pa f + PGOFF va) = unat (page2pa f) + unat (PGOFF va)"
      using calculation off by (intro unat_add_lem [THEN iffD1]) simp
    ultimately show ?thesis using off by simp
  qed
  have "unat ((page2pa f OR PGOFF va) AND 3) = (4096 * f + unat va mod 4096) mod 4"
    unfolding or FFF take_bit_eq_mask [symmetric] unsigned_take_bit_eq u by (simp add: take_bit_eq_mod)
  also have "\<dots> = unat va mod 4" by (simp add: mod_mod_cancel mod_add_left_eq [symmetric] mult.assoc mod_mult_self2)
  finally show "unat ((page2pa f OR PGOFF va) AND 3) = unat va mod 4" .
  let ?x = "page2pa f + PGOFF va"
  have "?x AND NOT 3 = push_bit 2 (drop_bit 2 ?x)" unfolding FFF
  proof (rule bit_word_eqI)
    fix j assume "j < LENGTH(32)"
    have "2 \<le> j \<Longrightarrow> Suc (Suc (j - 2)) = j" by simp
    then show "bit (?x AND NOT (mask 2)) j = bit (push_bit 2 (drop_bit 2 ?x)) j" using \<open>j < LENGTH(32)\<close> by (auto simp: bit_simps not_less)
  qed
  also have "\<dots> = 4 * of_nat (unat (drop_bit 2 ?x))" by (simp add: push_bit_eq_mult)
  also have "unat (drop_bit 2 ?x) = 1024 * f + unat va mod 4096 div 4" by (simp add: unat_drop_bit u)
  finally show "KADDR ((page2pa f OR PGOFF va) AND NOT 3) = waddr (1024 * f + unat va mod 4096 div 4)"
    unfolding or KADDR_def waddr_def by simp
qed

text \<open>The processor sees exactly these bytes.\<close>

lemma translate_page:
  assumes "cr3 s = page2pa d" "page_map (mem s) d (unat va div 4096) = Some f"
  shows "f < 2 ^ 20" "mmu_translate (mem s) (cr3 s) va = Some (page2pa f OR PGOFF va)"
proof -
  obtain e where e: "pt_lookup (mem s) (page2kva d) va = Some e" "f = pa2page (PTE_ADDR e)"
    using assms(2) unfolding page_map_mmu by auto
  then show "f < 2 ^ 20" using frame_bound by simp
  show "mmu_translate (mem s) (cr3 s) va = Some (page2pa f OR PGOFF va)"
    using e pa2page_frame [of e] by (simp add: mmu_translate_def assms(1) PTE_ADDR_page2pa page2kva_def)
qed

lemma vread8_vbyte:
  assumes "cr3 s = page2pa d"
  shows "vread8 va s = (case vbyte (mem s) d (unat va) of None \<Rightarrow> Inl PageFault | Some b \<Rightarrow> Inr b)"
proof (cases "page_map (mem s) d (unat va div 4096)")
  case None
  then have "mmu_translate (mem s) (cr3 s) va = None"
    unfolding page_map_mmu by (simp add: mmu_translate_def assms PTE_ADDR_page2pa page2kva_def)
  then show ?thesis using None by (simp add: vread8_def vbyte_def)
next
  case (Some f)
  note t = translate_page [OF assms Some]
  show ?thesis using t(2) Some phys_word [OF t(1), of va] by (simp add: vread8_def vbyte_def)
qed

text \<open>
  \<open>image_ok d n V F s\<close>: the address space with directory \<open>d\<close> is in use, the pages \<open>V\<close> of it are in frames of their own, which are neither tables nor
  among the frames \<open>F\<close> that are set aside, and the frames from \<open>n\<close> on are free.
\<close>

definition image_ok :: "nat \<Rightarrow> nat \<Rightarrow> nat set \<Rightarrow> nat set \<Rightarrow> 'a pagingst_scheme \<Rightarrow> bool" where
  "image_ok d n V F s \<longleftrightarrow> space_ok d n s \<and> n \<le> npages \<and> cr3 s = page2pa d \<and> V \<subseteq> {..<2 ^ 20} \<and>
     (\<forall>v \<in> V. \<exists>f < n. page_map (mem s) d v = Some f \<and> \<not> table_frame (mem s) d f \<and> f \<notin> F) \<and> inj_on (page_map (mem s) d) V \<and>
     (\<forall>f \<in> F. f < n \<and> \<not> table_frame (mem s) d f)"

text \<open>A change of one word in a frame that is not a table.\<close>

lemma plain_word:
  assumes ok: "space_ok d n s" and n: "n \<le> npages" and f: "f < n" "\<not> table_frame (mem s) d f" and k: "k < 1024"
  shows "space_ok d n (store (waddr (1024 * f + k)) x s)"
    "\<forall>w < 2 ^ 20. page_map (mem (store (waddr (1024 * f + k)) x s)) d w = page_map (mem s) d w"
    "table_frame (mem (store (waddr (1024 * f + k)) x s)) d = table_frame (mem s) d"
proof -
  let ?a = "1024 * f + k" and ?m = "(mem s)(waddr (1024 * f + k) := x)"
  have np: "n \<le> 32768" using n by (simp add: npages_def)
  have a: "?a < 2 ^ 28" using f(1) np k by simp
  have d: "d < n" using ok by (simp add: space_ok_def)
  have same: "slot ?m g j = slot (mem s) g j" if "g < n" "g \<noteq> f" "j < 1024" for g j
    using that np word_split [OF k that(3), of f g] by (intro slot_upd [OF _ _ a]) auto
  have dir: "slot ?m d j = slot (mem s) d j" if "j < 1024" for j using same [OF d _ that] f(2) by (auto simp: table_frame_def)
  show "space_ok d n (store (waddr ?a) x s)" using ok dir by (simp add: space_ok_def)
  show "table_frame (mem (store (waddr ?a) x s)) d = table_frame (mem s) d" using dir by (auto simp: table_frame_def fun_eq_iff)
  show "\<forall>w < 2 ^ 20. page_map (mem (store (waddr ?a) x s)) d w = page_map (mem s) d w"
  proof (intro allI impI)
    fix w :: nat assume "w < 2 ^ 20"
    then have wd: "w div 1024 < 1024" by simp
    show "page_map (mem (store (waddr ?a) x s)) d w = page_map (mem s) d w"
    proof (cases "slot (mem s) d (w div 1024)")
      case (Some t)
      then have "t < n" "t \<noteq> f" using ok wd f(2) by (auto simp: space_ok_def table_frame_def)
      then show ?thesis using dir [OF wd] Some same [of t "w mod 1024"] by (simp add: page_map_def)
    qed (use dir [OF wd] in \<open>simp add: page_map_def\<close>)
  qed
qed

lemma image_store:
  assumes ok: "image_ok d n V F s" and f: "f < n" "\<not> table_frame (mem s) d f" and k: "k < 1024"
  shows "image_ok d n V F (store (waddr (1024 * f + k)) x s)"
proof -
  have s: "space_ok d n s" "n \<le> npages" "V \<subseteq> {..<2 ^ 20}" using ok by (simp_all add: image_ok_def)
  note p = plain_word [OF s(1,2) f k, of x]
  have "page_map (mem (store (waddr (1024 * f + k)) x s)) d v = page_map (mem s) d v" if "v \<in> V" for v using p(2) s(3) that by blast
  moreover from this have "inj_on (page_map (mem (store (waddr (1024 * f + k)) x s)) d) V = inj_on (page_map (mem s) d) V"
    by (simp cong: inj_on_cong)
  ultimately show ?thesis using ok p(1,3) by (simp add: image_ok_def store_def)
qed

lemma vbyte_store:
  assumes ok: "image_ok d n V F s" and f: "f < n" "\<not> table_frame (mem s) d f" and k: "k < 1024" and a: "a div 4096 \<in> V"
  shows "vbyte (mem (store (waddr (1024 * f + k)) x s)) d a =
    (if page_map (mem s) d (a div 4096) = Some f \<and> a mod 4096 div 4 = k then Some (byte_of (a mod 4) x) else vbyte (mem s) d a)"
proof -
  have s: "space_ok d n s" "n \<le> npages" "V \<subseteq> {..<2 ^ 20}" using ok by (simp_all add: image_ok_def)
  obtain g where g: "g < n" "page_map (mem s) d (a div 4096) = Some g" using ok a by (auto simp: image_ok_def)
  have "page_map (mem (store (waddr (1024 * f + k)) x s)) d (a div 4096) = Some g" using plain_word(2) [OF s(1,2) f k, of x] s(3) a g(2) by auto
  moreover have j: "a mod 4096 div 4 < 1024" by (simp add: less_mult_imp_div_less)
  moreover have "waddr (1024 * g + a mod 4096 div 4) = waddr (1024 * f + k) \<longleftrightarrow> g = f \<and> a mod 4096 div 4 = k"
    using word_split [OF j k, of g f] g(1) f(1) s(2) j k by (subst waddr_eq_iff) (simp_all add: npages_def)
  ultimately show ?thesis using g(2) by (auto simp: vbyte_def store_def)
qed

section \<open>Writing\<close>

text \<open>\<open>image_wrote d V s s' lo bs\<close>: of the bytes of the pages \<open>V\<close>, those from \<open>lo\<close> on have become \<open>bs\<close>; nothing is mapped differently.\<close>

definition image_wrote :: "nat \<Rightarrow> nat set \<Rightarrow> 'a pagingst_scheme \<Rightarrow> 'a pagingst_scheme \<Rightarrow> nat \<Rightarrow> u8 list \<Rightarrow> bool" where
  "image_wrote d V s s' lo bs \<longleftrightarrow> (\<forall>w < 2 ^ 20. page_map (mem s') d w = page_map (mem s) d w) \<and>
     (\<forall>a. a div 4096 \<in> V \<longrightarrow> vbyte (mem s') d a = (if lo \<le> a \<and> a < lo + length bs then Some (bs ! (a - lo)) else vbyte (mem s) d a)) \<and>
     kern_pgdir s' = kern_pgdir s \<and> pagingst.more s' = pagingst.more s"

lemma image_wrote_Nil [simp]: "image_wrote d V s s lo []"
  by (auto simp: image_wrote_def)

lemma image_wrote_append:
  assumes "image_wrote d V s s1 lo bs" "image_wrote d V s1 s2 (lo + length bs) cs"
  shows "image_wrote d V s s2 lo (bs @ cs)"
  using assms by (auto simp: image_wrote_def nth_append)

lemma unat_plus_small: "unat va + j < 2 ^ 32 \<Longrightarrow> unat (va + of_nat j) = unat (va :: u32) + j"
proof -
  assume a: "unat va + j < 2 ^ 32"
  then have "unat (of_nat j :: u32) = j" by (intro unat_small) simp
  then show ?thesis using a unat_add_lem [of va "of_nat j"] by simp
qed

lemma vwrite8_image:
  assumes ok: "image_ok d n V F s" and va: "unat va div 4096 \<in> V"
  shows "\<exists>s'. vwrite8 va b s = Inr s' \<and> image_ok d n V F s' \<and> image_wrote d V s s' (unat va) [b]"
proof -
  obtain f where f: "f < n" "page_map (mem s) d (unat va div 4096) = Some f" "\<not> table_frame (mem s) d f"
    using ok va by (auto simp: image_ok_def)
  have cr: "cr3 s = page2pa d" and sp: "space_ok d n s" "n \<le> npages" using ok by (simp_all add: image_ok_def)
  note t = translate_page [OF cr f(2)]
  let ?k = "unat va mod 4096 div 4"
  let ?x = "put_byte (unat va mod 4) b (mem s (waddr (1024 * f + ?k)))" and ?s = "\<lambda>x. store (waddr (1024 * f + ?k)) x s"
  have k: "?k < 1024" by (simp add: less_mult_imp_div_less)
  have w: "vwrite8 va b s = Inr (?s ?x)" using t(2) phys_word [OF t(1), of va] by (simp add: vwrite8_def Let_def)
  have "vbyte (mem (?s ?x)) d a = (if a = unat va then Some b else vbyte (mem s) d a)" if a: "a div 4096 \<in> V" for a
  proof (cases "page_map (mem s) d (a div 4096) = Some f \<and> a mod 4096 div 4 = ?k")
    case True
    then have p: "a div 4096 = unat va div 4096" using ok a va f(2) by (auto simp: image_ok_def inj_on_def)
    have m4: "a mod 4096 mod 4 = a mod 4" "unat va mod 4096 mod 4 = unat va mod 4" by (simp_all add: mod_mod_cancel)
    have "a = unat va" if "a mod 4 = unat va mod 4"
    proof -
      have "a mod 4096 = unat va mod 4096" using True that m4 by (metis div_mult_mod_eq)
      then show ?thesis using p by (metis div_mult_mod_eq)
    qed
    moreover have "vbyte (mem s) d a = Some (byte_of (a mod 4) (mem s (waddr (1024 * f + ?k))))" using True by (simp add: vbyte_def)
    moreover have "byte_of (a mod 4) ?x = (if a mod 4 = unat va mod 4 then b else byte_of (a mod 4) (mem s (waddr (1024 * f + ?k))))"
      by (simp add: byte_put_same byte_put_other)
    ultimately show ?thesis unfolding vbyte_store [OF ok f(1,3) k a] using True by auto
  next
    case False
    then have "a \<noteq> unat va" using f(2) by auto
    then show ?thesis unfolding vbyte_store [OF ok f(1,3) k a] using False by auto
  qed
  then have "image_wrote d V s (?s ?x) (unat va) [b]" using plain_word(2) [OF sp f(1,3) k] by (auto simp: image_wrote_def)
  then show ?thesis using w image_store [OF ok f(1,3) k] by blast
qed

lemma vwrite_bytes_image:
  assumes "image_ok d n V F s" "\<forall>k < length bs. (unat va + k) div 4096 \<in> V" "unat va + length bs < 2 ^ 32"
  shows "\<exists>s'. vwrite_bytes bs va s = Inr s' \<and> image_ok d n V F s' \<and> image_wrote d V s s' (unat va) bs"
  using assms
proof (induction bs arbitrary: va s)
  case (Cons b bs)
  have "unat va div 4096 \<in> V" using Cons.prems(2) by (metis add_0_right length_greater_0_conv list.distinct(1))
  from vwrite8_image [OF Cons.prems(1) this] obtain s1 where
    s1: "vwrite8 va b s = Inr s1" "image_ok d n V F s1" "image_wrote d V s s1 (unat va) [b]" by blast
  have u: "unat (va + 1) = unat va + 1" using unat_plus_small [of va 1] Cons.prems(3) by simp
  have "(unat (va + 1) + k) div 4096 \<in> V" if "k < length bs" for k
  proof -
    have "(unat va + Suc k) div 4096 \<in> V" using Cons.prems(2) [rule_format, of "Suc k"] that by simp
    then show ?thesis using u by simp
  qed
  then obtain s2 where s2: "vwrite_bytes bs (va + 1) s1 = Inr s2" "image_ok d n V F s2" "image_wrote d V s1 s2 (unat va + 1) bs"
    using Cons.IH [OF s1(2), of "va + 1"] Cons.prems(3) u by auto
  have "image_wrote d V s s2 (unat va) ([b] @ bs)" using s1(3) s2(3) by (intro image_wrote_append) simp_all
  then show ?case using s1(1) s2(1,2) by simp
qed simp

section \<open>Reading\<close>

lemma vread8_some: "cr3 s = page2pa d \<Longrightarrow> vbyte (mem s) d (unat va) = Some b \<Longrightarrow> vread8 va s = Inr b"
  by (simp add: vread8_vbyte)

lemma or_bytes:
  fixes b0 b1 b2 b3 :: u8
  assumes "j < 4"
  shows "le32_byte (ucast b0 OR push_bit 8 (ucast b1) OR push_bit 16 (ucast b2) OR push_bit 24 (ucast b3)) j = [b0, b1, b2, b3] ! j"
proof (rule bit_word_eqI)
  fix i assume i: "i < LENGTH(8)"
  have z: "\<not> bit (b :: u8) (k + i)" if "8 \<le> k" for b k using bit_imp_le_length [of b "k + i"] that by auto
  have j: "j = 0 \<or> j = 1 \<or> j = 2 \<or> j = 3" using assms by auto
  have w: "bit (ucast b0 OR push_bit 8 (ucast b1) OR push_bit 16 (ucast b2) OR push_bit 24 (ucast b3) :: u32) (8 * j + i) = bit ([b0, b1, b2, b3] ! j) i"
    using j
  proof (elim disjE)
    assume "j = 0" then show ?thesis using i by (simp add: bit_or_iff bit_push_bit_iff bit_unsigned_iff)
  next
    assume "j = 1" then show ?thesis using i z [of 8 b0] by (simp add: bit_or_iff bit_push_bit_iff bit_unsigned_iff)
  next
    assume "j = 2" then show ?thesis using i z [of 16 b0] z [of 8 b1] by (simp add: bit_or_iff bit_push_bit_iff bit_unsigned_iff)
  next
    assume "j = 3" then show ?thesis using i z [of 24 b0] z [of 16 b1] z [of 8 b2] by (simp add: bit_or_iff bit_push_bit_iff bit_unsigned_iff numeral_3_eq_3)
  qed
  then show "bit (le32_byte (ucast b0 OR push_bit 8 (ucast b1) OR push_bit 16 (ucast b2) OR push_bit 24 (ucast b3)) j) i
      = bit ([b0, b1, b2, b3] ! j) i"
    unfolding le32_byte_def using i by (simp only: bit_unsigned_iff bit_drop_bit_eq o_def) simp
qed

text \<open>The processor is little-endian, as the formats on the disk are.\<close>

lemma vread32_image:
  assumes cr: "cr3 s = page2pa d" and b: "\<forall>j < 4. vbyte (mem s) d (unat va + j) = Some (g (unat va + j))" and va: "unat va + 4 \<le> 2 ^ 32"
  shows "vread32 va s = Inr (get_le32 g (unat va))"
proof -
  have r: "vread8 (va + of_nat j) s = Inr (g (unat va + j))" if "j < 4" for j
    using b unat_plus_small [of va j] that va by (intro vread8_some [OF cr]) simp
  let ?w = "ucast (g (unat va)) OR push_bit 8 (ucast (g (unat va + 1))) OR push_bit 16 (ucast (g (unat va + 2))) OR push_bit 24 (ucast (g (unat va + 3)))"
  have "vread32 va s = Inr ?w" using r [of 0] r [of 1] r [of 2] r [of 3] by (simp add: vread32_def)
  moreover have "g (unat va + j) = le32_byte ?w j" if "j < 4" for j
  proof -
    have "j = 0 \<or> j = 1 \<or> j = 2 \<or> j = 3" using that by auto
    then show ?thesis unfolding or_bytes [OF that] by auto
  qed
  then have "get_le32 g (unat va) = ?w" by (intro get_le32_bytes)
  ultimately show ?thesis by simp
qed

definition get_le16 :: "(nat \<Rightarrow> u8) \<Rightarrow> nat \<Rightarrow> u32" where
  "get_le16 g k = ucast (g k) OR push_bit 8 (ucast (g (k + 1)))"

lemma vread16_image:
  assumes cr: "cr3 s = page2pa d" and b: "\<forall>j < 2. vbyte (mem s) d (unat va + j) = Some (g (unat va + j))" and va: "unat va + 2 \<le> 2 ^ 32"
  shows "vread16 va s = Inr (get_le16 g (unat va))"
proof -
  have "vread8 (va + of_nat j) s = Inr (g (unat va + j))" if "j < 2" for j
    using b unat_plus_small [of va j] that va by (intro vread8_some [OF cr]) simp
  from this [of 0] this [of 1] show ?thesis by (simp add: vread16_def get_le16_def)
qed

lemma vstring_image:
  assumes cr: "cr3 s = page2pa d" and b: "\<forall>k < length name. vbyte (mem s) d (unat va + k) = Some (name ! k)"
    "vbyte (mem s) d (unat va + length name) = Some 0" "0 \<notin> set name" "unat va + length name < 2 ^ 32"
  shows "vstring va s = Inr name"
proof -
  have "vstring_loop va s acc = Some (Inr (acc @ name))" for acc
    using b
  proof (induction name arbitrary: va acc)
    case Nil
    then show ?case using vread8_some [OF cr, of va 0] by (subst vstring_loop.simps) simp
  next
    case (Cons x xs)
    have u: "unat (va + 1) = unat va + 1" using unat_plus_small [of va 1] Cons.prems(4) by simp
    have "vbyte (mem s) d (unat va) = Some x" using Cons.prems(1) by (metis add_0_right length_greater_0_conv list.distinct(1) nth_Cons_0)
    then have "vstring_loop va s acc = vstring_loop (va + 1) s (acc @ [x])"
      using vread8_some [OF cr] Cons.prems(3) by (subst vstring_loop.simps) auto
    also have "\<dots> = Some (Inr ((acc @ [x]) @ xs))"
    proof (rule Cons.IH)
      show "\<forall>k < length xs. vbyte (mem s) d (unat (va + 1) + k) = Some (xs ! k)"
        using Cons.prems(1) u by (metis Suc_less_eq add.assoc length_Cons nth_Cons_Suc plus_1_eq_Suc)
    qed (use Cons.prems u in simp_all)
    finally show ?case by simp
  qed
  then show ?thesis by (simp add: vstring_def)
qed

section \<open>Clearing\<close>

text \<open>\<open>header d g len s\<close>: the header of the program, at address 0, consists of the first \<open>len\<close> bytes of \<open>g\<close>.\<close>

definition header :: "nat \<Rightarrow> (nat \<Rightarrow> u8) \<Rightarrow> nat \<Rightarrow> 'a pagingst_scheme \<Rightarrow> bool" where
  "header d g len s \<longleftrightarrow> cr3 s = page2pa d \<and> len \<le> 4096 \<and> (\<forall>a < len. vbyte (mem s) d a = Some (g a))"

lemma header_read:
  assumes "header d g len s"
  shows "unat va + 4 \<le> len \<Longrightarrow> vread32 va s = Inr (get_le32 g (unat va))" "unat va + 2 \<le> len \<Longrightarrow> vread16 va s = Inr (get_le16 g (unat va))"
  using assms vread32_image [of s d va g] vread16_image [of s d va g] by (simp_all add: header_def)

lemma header_wrote:
  assumes "header d g len s" "image_wrote d V s s' lo bs" "0 \<in> V" "4096 \<le> lo" "image_ok d n V F s'"
  shows "header d g len s'"
  using assms by (auto simp: header_def image_wrote_def image_ok_def)

lemma zero_loop_image:
  assumes "image_ok d n V F s" "header d g len s" "0 \<in> V" "unat (ph + PH_memsz) + 4 \<le> len"
    and "get_le32 g (unat (ph + PH_memsz)) = memsz" "unat pa + unat memsz < 2 ^ 32" "4096 \<le> unat i" "unat i + k = unat pa + unat memsz"
    and "\<forall>j < k. (unat i + j) div 4096 \<in> V"
  shows "\<exists>s'. zero_loop i pa ph s = Some (Inr s') \<and> image_ok d n V F s' \<and> image_wrote d V s s' (unat i) (replicate k 0)"
  using assms
proof (induction k arbitrary: i s)
  case 0
  have sum: "unat (pa + memsz) = unat pa + unat memsz" using unat_plus_small [of pa "unat memsz"] 0 by simp
  then have "\<not> i < pa + memsz" using 0 by (simp add: word_less_nat_alt)
  then have "zero_loop i pa ph s = Some (Inr s)" using header_read(1) [OF 0(2,4)] 0(5) by (subst zero_loop.simps) simp
  then show ?case using 0 by simp
next
  case (Suc k)
  have sum: "unat (pa + memsz) = unat pa + unat memsz" using unat_plus_small [of pa "unat memsz"] Suc.prems(6) by simp
  then have lt: "i < pa + memsz" using Suc.prems(8) by (simp add: word_less_nat_alt)
  have "unat i div 4096 \<in> V" using Suc.prems(9) by (metis add_0_right zero_less_Suc)
  from vwrite8_image [OF Suc.prems(1) this] obtain s1 where
    s1: "vwrite8 i 0 s = Inr s1" "image_ok d n V F s1" "image_wrote d V s s1 (unat i) [0]" by blast
  have u: "unat (i + 1) = unat i + 1" using unat_plus_small [of i 1] Suc.prems(6,8) by simp
  have h: "header d g len s1" by (rule header_wrote [OF Suc.prems(2) s1(3) Suc.prems(3,7) s1(2)])
  have "\<forall>j < k. (unat (i + 1) + j) div 4096 \<in> V" using Suc.prems(9) u by (metis Suc_less_eq add.assoc plus_1_eq_Suc)
  then obtain s2 where s2: "zero_loop (i + 1) pa ph s1 = Some (Inr s2)" "image_ok d n V F s2" "image_wrote d V s1 s2 (unat i + 1) (replicate k 0)"
    using Suc.IH [OF s1(2) h Suc.prems(3-6), of "i + 1"] Suc.prems(7,8) u by auto
  have "zero_loop i pa ph s = Some (Inr s2)"
    using header_read(1) [OF Suc.prems(2,4)] Suc.prems(5) lt s1(1) s2(1) by (subst zero_loop.simps) simp
  moreover have "image_wrote d V s s2 (unat i) ([0] @ replicate k 0)" using s1(3) s2(3) by (intro image_wrote_append) simp_all
  ultimately show ?case using s2(2) by simp
qed

section \<open>Allocating\<close>

text \<open>The registers and the kernel's directory.\<close>

definition same_regs :: "'a pagingst_scheme \<Rightarrow> 'a pagingst_scheme \<Rightarrow> bool" where
  "same_regs s s' \<longleftrightarrow> cr3 s' = cr3 s \<and> kern_pgdir s' = kern_pgdir s \<and> pagingst.more s' = pagingst.more s"

lemma same_regs_ops [simp]:
  "same_regs s (set_page p f s1) = same_regs s s1" "same_regs s (store a v s1) = same_regs s s1" "same_regs s (memset a c n s1) = same_regs s s1"
  "same_regs s (printk_str str s1) = same_regs s s1" "same_regs s (page_incref p s1) = same_regs s s1"
  "same_regs s (page_free p s1) = same_regs s s1" "same_regs s (page_decref p s1) = same_regs s s1" "same_regs s (tlb_invalidate va s1) = same_regs s s1"
  "same_regs s (s1\<lparr>page_free_list := l\<rparr>) = same_regs s s1" "same_regs s s"
  by (simp_all add: same_regs_def set_page_def store_def memset_def printk_str_def page_incref_def page_free_def page_decref_def tlb_invalidate_def Let_def)

lemma same_regs_trans: "same_regs s s1 \<Longrightarrow> same_regs s1 s2 \<Longrightarrow> same_regs s s2"
  by (simp add: same_regs_def)

lemma page_alloc_regs: "page_alloc fl s = (p, s') \<Longrightarrow> same_regs s s'"
  by (auto simp: page_alloc_def Let_def split: option.splits if_splits)

lemma pgdir_walk_regs: "pgdir_walk dd va c s = (p, s') \<Longrightarrow> same_regs s s'"
  by (auto simp: pgdir_walk_def Let_def dest: page_alloc_regs split: if_splits prod.splits option.splits)

lemma page_remove_regs [simp]: "same_regs s (page_remove dd va s1) = same_regs s s1"
  by (simp add: page_remove_def split: option.split)

lemma page_insert_regs: "page_insert dd p va perm s = Inr (r, s') \<Longrightarrow> same_regs s s'"
  by (auto simp: page_insert_def Let_def bind_res_eq_Inr dest: pgdir_walk_regs split: prod.splits option.splits if_splits)

lemma mm_alloc_regs: "mm_alloc dd va len s = Inr s' \<Longrightarrow> same_regs s s'"
proof -
  have "same_regs s s'" if "mm_alloc_loop n dd i s = Inr s'" for n i
    using that
    by (induction n arbitrary: i s)
      (auto simp: bind_res_eq_Inr dest!: page_insert_regs page_alloc_regs intro: same_regs_trans split: prod.splits)
  then show "mm_alloc dd va len s = Inr s' \<Longrightarrow> same_regs s s'" by (auto simp: mm_alloc_def Let_def)
qed

lemma mm_alloc_image:
  fixes va len :: u32
  assumes ok: "image_ok d n V F s" and r: "unat va + unat len + 4096 \<le> 2 ^ 32" "v = unat va div 4096" "w = (unat va + unat len + 4095) div 4096"
    and mm: "n + 2 * (w - v) \<le> npages" "\<forall>p \<in> {v..<w}. page_map (mem s) d p = None"
  shows "\<exists>s' n'. mm_alloc (page2kva d) va len s = Inr s' \<and> image_ok d n' (V \<union> {v..<w}) F s' \<and> n' \<le> n + 2 * (w - v) \<and> same_regs s s' \<and>
    (\<forall>a. a div 4096 \<in> V \<longrightarrow> vbyte (mem s') d a = vbyte (mem s) d a) \<and>
    (\<forall>p < 2 ^ 20. p \<notin> {v..<w} \<longrightarrow> page_map (mem s') d p = page_map (mem s) d p)"
proof -
  have vw: "v \<le> w" "w \<le> 2 ^ 20" using r by (simp_all add: div_le_mono)
  have un: "\<forall>j < w - v. page_map (mem s) d (v + j) = None" using mm(2) by auto
  have sp: "space_ok d n s" "n \<le> npages" "cr3 s = page2pa d" "V \<subseteq> {..<2 ^ 20}" using ok by (simp_all add: image_ok_def)
  from mm_alloc_effect [OF sp(1) r(1,2) _ mm(1) un] r(3) obtain s' n' fs where
    s': "mm_alloc (page2kva d) va len s = Inr s'" "space_ok d n' s'" "n \<le> n'" "n' \<le> n + 2 * (w - v)"
      "map (\<lambda>j. page_map (mem s') d (v + j)) [0..<w - v] = map Some fs" "distinct fs" "set fs \<subseteq> {n..<n'}"
      "\<forall>f \<in> set fs. \<not> table_frame (mem s') d f"
      "\<forall>p < 2 ^ 20. p < v \<or> v + (w - v) \<le> p \<longrightarrow> page_map (mem s') d p = page_map (mem s) d p" "keeps_data d n (mem s) (mem s')" by blast
  have len: "length fs = w - v" using arg_cong [OF s'(5), of length] by simp
  have new: "page_map (mem s') d p = Some (fs ! (p - v))" "p - v < length fs" if "p \<in> {v..<w}" for p
  proof -
    show l: "p - v < length fs" using that len by auto
    have "map (\<lambda>j. page_map (mem s') d (v + j)) [0..<w - v] ! (p - v) = map Some fs ! (p - v)" by (simp only: s'(5))
    then show "page_map (mem s') d p = Some (fs ! (p - v))" using that l len by simp
  qed
  have old: "page_map (mem s') d p = page_map (mem s) d p" if "p < 2 ^ 20" "p \<notin> {v..<w}" for p
    using s'(9) that vw by auto
  have disj: "p \<notin> {v..<w}" if "p \<in> V" for p using ok that mm(2) by (force simp: image_ok_def)
  have keep: "\<not> table_frame (mem s') d f" if "f < n" "\<not> table_frame (mem s) d f" for f using s'(10) that by (auto simp: keeps_data_def)
  have vold: "\<exists>f < n. page_map (mem s') d p = Some f \<and> page_map (mem s) d p = Some f \<and> \<not> table_frame (mem s) d f \<and> f \<notin> F" if "p \<in> V" for p
    using ok old [of p] disj [OF that] sp(4) that by (auto simp: image_ok_def)
  have F: "f < n \<and> \<not> table_frame (mem s) d f" if "f \<in> F" for f using ok that by (simp add: image_ok_def)
  have fsn: "f \<in> set fs \<Longrightarrow> n \<le> f \<and> f < n'" for f using s'(7) by auto
  have pages: "\<exists>f < n'. page_map (mem s') d p = Some f \<and> \<not> table_frame (mem s') d f \<and> f \<notin> F" if "p \<in> V \<union> {v..<w}" for p
  proof (cases "p \<in> V")
    case True
    then show ?thesis using vold [OF True] keep s'(3) by force
  next
    case False
    then have p: "p \<in> {v..<w}" using that by simp
    have "fs ! (p - v) \<in> set fs" using new(2) [OF p] by simp
    then show ?thesis using new(1) [OF p] s'(8) fsn [of "fs ! (p - v)"] F by force
  qed
  have inj: "inj_on (page_map (mem s') d) (V \<union> {v..<w})"
  proof (rule inj_onI)
    fix p q assume p: "p \<in> V \<union> {v..<w}" and q: "q \<in> V \<union> {v..<w}" and eq: "page_map (mem s') d p = page_map (mem s') d q"
    have mixed: False if "p \<in> V" "q \<in> {v..<w}" "page_map (mem s') d p = page_map (mem s') d q" for p q
      using vold [OF that(1)] new [OF that(2)] that(3) fsn [of "fs ! (q - v)"] by auto
    consider "p \<in> V" "q \<in> V" | "p \<in> {v..<w}" "q \<in> {v..<w}" | "p \<in> V" "q \<in> {v..<w}" | "p \<in> {v..<w}" "q \<in> V" using p q by auto
    then show "p = q"
    proof cases
      case 1
      then have "page_map (mem s) d p = page_map (mem s) d q" using vold [of p] vold [of q] eq by auto
      then show ?thesis using ok 1 by (auto simp: image_ok_def inj_on_def)
    next
      case 2
      then have "fs ! (p - v) = fs ! (q - v)" using new(1) [OF 2(1)] new(1) [OF 2(2)] eq by simp
      then have "p - v = q - v" using s'(6) new(2) [OF 2(1)] new(2) [OF 2(2)] by (simp add: nth_eq_iff_index_eq)
      then show ?thesis using 2 by auto
    next
      case 3
      then show ?thesis using mixed eq by blast
    next
      case 4
      then show ?thesis using mixed [OF 4(2,1)] eq by simp
    qed
  qed
  have regs: "same_regs s s'" by (rule mm_alloc_regs [OF s'(1)])
  have "image_ok d n' (V \<union> {v..<w}) F s'"
    unfolding image_ok_def
  proof (intro conjI)
    show "n' \<le> npages" using s'(4) mm(1) by simp
    show "cr3 s' = page2pa d" using regs sp(3) by (simp add: same_regs_def)
    show "V \<union> {v..<w} \<subseteq> {..<2 ^ 20}" using sp(4) vw by auto
    show "\<forall>f \<in> F. f < n' \<and> \<not> table_frame (mem s') d f" using F keep s'(3) by (meson order_less_le_trans)
  qed (use s'(2) pages inj in blast)+
  moreover have "vbyte (mem s') d a = vbyte (mem s) d a" if av: "a div 4096 \<in> V" for a
  proof -
    obtain f where f: "f < n" "page_map (mem s') d (a div 4096) = Some f" "page_map (mem s) d (a div 4096) = Some f" "\<not> table_frame (mem s) d f"
      using vold [OF av] by auto
    have "a mod 4096 div 4 < 1024" by (simp add: less_mult_imp_div_less)
    then have "mem s' (waddr (1024 * f + a mod 4096 div 4)) = mem s (waddr (1024 * f + a mod 4096 div 4))"
      using s'(10) f(1,4) by (simp add: keeps_data_def)
    then show ?thesis using f(2,3) by (simp add: vbyte_def)
  qed
  ultimately show ?thesis using s'(1,4) regs old by blast
qed

text \<open>A free list with the frames in order, as the sample states have it.\<close>

lemma chain_upward:
  "n \<le> N \<Longrightarrow> chain (\<lambda>p. if Suc p < N then Some (Suc p) else None) (if n < N then Some n else None) [n..<N]"
proof (induction "N - n" arbitrary: n)
  case (Suc k)
  then have "n < N" "N - Suc n = k" by auto
  then show ?case using Suc(1) [of "Suc n"] by (simp add: upt_conv_Cons)
qed simp

end
