(* ===== verification/Load_Program.thy ===== *)
theory Load_Program
  imports Image
begin

text \<open>
  The program loader is correct: \<^verbatim>\<open>loader_file\<close> of \<^verbatim>\<open>src/kernel/src/loader.c\<close> puts every segment of an executable of the file system where its
  program header says, and makes the process start at its entry point.
\<close>

section \<open>The file\<close>

text \<open>\<open>file_at fd i sz g s\<close>: descriptor \<open>fd\<close> is stream \<open>i\<close>, on a file of \<open>sz\<close> bytes with contents \<open>g\<close>.\<close>

definition file_at :: "u32 \<Rightarrow> nat \<Rightarrow> nat \<Rightarrow> (nat \<Rightarrow> u8) \<Rightarrow> 'a fsst_scheme \<Rightarrow> bool" where
  "file_at fd i sz g s \<longleftrightarrow> stream fd = Inr i \<and> st_file_size (fs s i) = of_nat sz \<and> sz < 65536 \<and> file_byte s (st_inode_offset (fs s i)) = g"

lemma file_at_paging:
  assumes "pagingst.more s' = pagingst.more s" "file_at fd i sz g s"
  shows "file_at fd i sz g s'"
proof -
  have "fs s' = fs s" "disk s' = disk s" using assms(1) by (cases s; cases s'; simp)+
  moreover from this(2) have "file_byte s' ino = file_byte s ino" for ino by (intro ext) (simp add: file_byte_def)
  ultimately show ?thesis using assms(2) by (simp add: file_at_def)
qed

lemma file_at_seek:
  assumes "file_at fd i sz g s"
  shows "\<exists>s'. fs_lseek_kr fd off s = Inr s' \<and> file_at fd i sz g s' \<and> st_offset (fs s' i) = off"
proof -
  let ?s = "upd_stream i (\<lambda>f. f\<lparr>st_offset := off\<rparr>) s"
  have "file_byte ?s ino = file_byte s ino" for ino by (intro ext) (simp add: file_byte_def upd_stream_def)
  then show ?thesis using assms by (intro exI [of _ ?s]) (simp add: file_at_def fs_lseek_kr_def upd_stream_def)
qed

lemma file_at_read:
  assumes f: "file_at fd i sz g s" and off: "st_offset (fs s i) = of_nat off" "off \<le> sz" "n < 2 ^ 31"
  shows "\<exists>r s'. fs_read_kr fd (of_nat n) s = Inr (r, map g [off..<min (off + n) sz], s') \<and> file_at fd i sz g s'"
proof -
  have st: "stream fd = Inr i" "st_file_size (fs s i) = of_nat sz" "sz < 65536" "file_byte s (st_inode_offset (fs s i)) = g"
    using f by (simp_all add: file_at_def)
  consider "n = 0" | "0 < n" "off = sz" | "0 < n" "off \<noteq> sz" by auto
  then show ?thesis
  proof cases
    case 1
    have "of_nat sz - of_nat off = (0 :: u32)" if "(of_nat sz :: u32) \<le> of_nat off"
    proof -
      have "sz \<le> off" using that unat_small [of sz] unat_small [of off] st(3) off(2) by (simp add: word_le_nat_alt)
      then have "sz = off" using off(2) by simp
      then show ?thesis by simp
    qed
    then have "fs_read_kr fd 0 s = Inr (- 1, [], s)" using st off(1) by (simp add: fs_read_kr_def Let_def)
    then show ?thesis using 1 f by auto
  next
    case 2
    then show ?thesis using fs_read_steps [OF st(1) off(1) st(2) off(2) st(3) 2(1) off(3)] f by auto
  next
    case 3
    let ?m = "min n (sz - off)"
    obtain b where b: "fs_read_kr fd (of_nat n) s = Inr (of_nat ?m, map g [off..<min (off + n) sz], advance i (of_nat ?m) ((loaded i s)\<lparr>buffer := b\<rparr>))"
      using fs_read_steps [OF st(1) off(1) st(2) off(2) st(3) 3(1) off(3)] st(4) 3(2) by (auto simp del: of_nat_min)
    let ?s = "advance i (of_nat ?m) ((loaded i s)\<lparr>buffer := b\<rparr>)"
    have d: "disk ?s = disk s" "st_file_size (fs ?s i) = st_file_size (fs s i)" "st_inode_offset (fs ?s i) = st_inode_offset (fs s i)"
      by (simp_all add: advance_def upd_stream_def loaded_def readINode_def)
    have "file_byte ?s ino = file_byte s ino" for ino by (intro ext) (simp only: file_byte_def d)
    then show ?thesis using b f d by (auto simp: file_at_def)
  qed
qed

lemma files_image:
  assumes "fs_erase s' = fs_erase s"
  shows "mem s' = mem s" "cr3 s' = cr3 s" "kern_pgdir s' = kern_pgdir s" "PCBPool s' = PCBPool s"
    "image_ok d n V F s' = image_ok d n V F s" "header d g len s' = header d g len s"
proof -
  have e: "mem s' = mem s" "cr3 s' = cr3 s" "pages s' = pages s" "page_free_list s' = page_free_list s"
    using assms by (cases s; cases s'; simp add: fs_erase_def)+
  show "mem s' = mem s" "cr3 s' = cr3 s" by fact+
  show "kern_pgdir s' = kern_pgdir s" "PCBPool s' = PCBPool s" using assms by (cases s; cases s'; simp add: fs_erase_def)+
  show "image_ok d n V F s' = image_ok d n V F s" "header d g len s' = header d g len s"
    unfolding image_ok_def space_ok_def free_list_def header_def e by simp_all
qed

section \<open>Segments\<close>

record segment =
  seg_vaddr :: nat
  seg_memsz :: nat
  seg_off :: nat
  seg_filesz :: nat

text \<open>The segments that the program header table at \<open>ph\<close> describes, up to the first empty one.\<close>

definition ph_seg :: "(nat \<Rightarrow> u8) \<Rightarrow> nat \<Rightarrow> segment" where
  "ph_seg g ph = \<lparr>seg_vaddr = unat (get_le32 g (ph + 8)), seg_memsz = unat (get_le32 g (ph + 20)),
     seg_off = unat (get_le32 g (ph + 4)), seg_filesz = unat (get_le32 g (ph + 16))\<rparr>"

primrec elf_segments :: "(nat \<Rightarrow> u8) \<Rightarrow> nat \<Rightarrow> nat \<Rightarrow> segment list" where
  "elf_segments g 0 ph = []"
| "elf_segments g (Suc n) ph =
     (let sg = ph_seg g ph in if seg_vaddr sg = 0 \<or> seg_memsz sg = 0 then [] else sg # elf_segments g n (ph + 32))"

definition seg_pages :: "segment \<Rightarrow> nat list" where
  "seg_pages sg = [seg_vaddr sg div 4096..<(seg_vaddr sg + seg_memsz sg + 4095) div 4096]"

definition seg_fits :: "nat \<Rightarrow> segment \<Rightarrow> bool" where
  "seg_fits sz sg \<longleftrightarrow> seg_filesz sg \<le> seg_memsz sg \<and> seg_off sg + seg_filesz sg \<le> sz \<and> seg_vaddr sg + seg_memsz sg + 4096 \<le> 2 ^ 32"

definition seg_loaded :: "nat \<Rightarrow> (nat \<Rightarrow> u8) \<Rightarrow> wmem \<Rightarrow> segment \<Rightarrow> bool" where
  "seg_loaded d g m sg \<longleftrightarrow> (\<forall>k < seg_memsz sg. vbyte m d (seg_vaddr sg + k) =
     Some (if k < seg_filesz sg then g (seg_off sg + k) else 0))"

lemma seg_page: "a < seg_memsz sg \<Longrightarrow> (seg_vaddr sg + a) div 4096 \<in> set (seg_pages sg)"
proof -
  assume "a < seg_memsz sg"
  then have "(seg_vaddr sg + a) div 4096 < (seg_vaddr sg + seg_memsz sg + 4095) div 4096" by linarith
  moreover have "seg_vaddr sg div 4096 \<le> (seg_vaddr sg + a) div 4096" by (simp add: div_le_mono)
  ultimately show ?thesis by (simp add: seg_pages_def)
qed

lemma header_word:
  assumes "header d g len s" "ph + k + 4 \<le> len"
  shows "vread32 (of_nat ph + of_nat k) s = Inr (get_le32 g (ph + k))"
proof -
  have "unat (of_nat ph + of_nat k :: u32) = ph + k" using assms unat_small [of "ph + k"] by (simp add: header_def)
  then show ?thesis using header_read(1) [OF assms(1), of "of_nat ph + of_nat k"] assms(2) by simp
qed

text \<open>\<open>loading d pcb fd i sz g len s\<close>: what holds between two segments, besides the address space.\<close>

definition loading :: "nat \<Rightarrow> nat \<Rightarrow> u32 \<Rightarrow> nat \<Rightarrow> nat \<Rightarrow> (nat \<Rightarrow> u8) \<Rightarrow> nat \<Rightarrow> kernst \<Rightarrow> bool" where
  "loading d pcb fd i sz g len s \<longleftrightarrow> header d g len s \<and> file_at fd i sz g s \<and> pgdir (PCBPool s pcb) = page2kva d"

lemma load_segment:
  assumes ok: "image_ok d n V F s" "0 \<in> V" and l: "loading d pcb fd i sz g len s" and ph: "ph + 32 \<le> len"
    and sg: "sg = ph_seg g ph" "seg_vaddr sg \<noteq> 0" "seg_memsz sg \<noteq> 0" "seg_fits sz sg"
    and mm: "n + 2 * length (seg_pages sg) \<le> npages" "\<forall>p \<in> set (seg_pages sg). page_map (mem s) d p = None"
  shows "\<exists>s' n'. load_segments (Suc c) (of_nat ph) pcb fd s = load_segments c (of_nat (ph + 32)) pcb fd s' \<and>
    image_ok d n' (V \<union> set (seg_pages sg)) F s' \<and> n' \<le> n + 2 * length (seg_pages sg) \<and> loading d pcb fd i sz g len s' \<and>
    kern_pgdir s' = kern_pgdir s \<and> PCBPool s' = PCBPool s \<and> seg_loaded d g (mem s') sg \<and>
    (\<forall>a. a div 4096 \<in> V \<longrightarrow> vbyte (mem s') d a = vbyte (mem s) d a) \<and>
    (\<forall>p < 2 ^ 20. p \<notin> set (seg_pages sg) \<longrightarrow> page_map (mem s') d p = page_map (mem s) d p)"
proof -
  let ?pa = "get_le32 g (ph + 8)" and ?ms = "get_le32 g (ph + 20)" and ?off = "get_le32 g (ph + 4)" and ?fz = "get_le32 g (ph + 16)"
  let ?V = "V \<union> set (seg_pages sg)"
  have u: "seg_vaddr sg = unat ?pa" "seg_memsz sg = unat ?ms" "seg_off sg = unat ?off" "seg_filesz sg = unat ?fz" by (simp_all add: sg(1) ph_seg_def)
  have fit: "unat ?fz \<le> unat ?ms" "unat ?off + unat ?fz \<le> sz" "unat ?pa + unat ?ms + 4096 \<le> 2 ^ 32" using sg(4) by (simp_all add: seg_fits_def u)
  have h: "header d g len s" and fl: "file_at fd i sz g s" and pg: "pgdir (PCBPool s pcb) = page2kva d" using l by (simp_all add: loading_def)
  have rd: "vread32 (of_nat ph + PH_vaddr) x = Inr ?pa" "vread32 (of_nat ph + PH_memsz) x = Inr ?ms" "vread32 (of_nat ph + PH_off) x = Inr ?off"
      "vread32 (of_nat ph + PH_filesz) x = Inr ?fz" if "header d g len x" for x :: kernst
    using header_word [OF that, of ph 8] header_word [OF that, of ph 20] header_word [OF that, of ph 4] header_word [OF that, of ph 16] ph
    by (simp_all add: elf_defs)
  have pages: "set (seg_pages sg) = {unat ?pa div 4096..<(unat ?pa + unat ?ms + 4095) div 4096}" by (simp add: seg_pages_def u)
  have len: "length (seg_pages sg) = (unat ?pa + unat ?ms + 4095) div 4096 - unat ?pa div 4096" by (simp add: seg_pages_def u)
  obtain s1 n1 where s1: "mm_alloc (page2kva d) ?pa ?ms s = Inr s1" "image_ok d n1 ?V F s1" "n1 \<le> n + 2 * length (seg_pages sg)" "same_regs s s1"
      "\<forall>a. a div 4096 \<in> V \<longrightarrow> vbyte (mem s1) d a = vbyte (mem s) d a"
      "\<forall>p < 2 ^ 20. p \<notin> set (seg_pages sg) \<longrightarrow> page_map (mem s1) d p = page_map (mem s) d p"
    using mm_alloc_image [OF ok(1) fit(3) refl refl] mm unfolding pages len by blast
  have more1: "pagingst.more s1 = pagingst.more s" using s1(4) by (simp add: same_regs_def)
  have h1: "header d g len s1" using h s1(4,5) ok(2) by (auto simp: header_def same_regs_def)
  obtain s2 where s2: "fs_lseek_kr fd ?off s1 = Inr s2" "file_at fd i sz g s2" "st_offset (fs s2 i) = of_nat (unat ?off)"
    using file_at_seek [OF file_at_paging [OF more1 fl], of ?off] by auto
  note e2 = files_image [OF fs_lseek_frame [OF s2(1)]]
  obtain r s3 where s3: "fs_read_kr fd ?fz s2 = Inr (r, map g [unat ?off..<unat ?off + unat ?fz], s3)" "file_at fd i sz g s3"
    using file_at_read [OF s2(2,3), of "unat ?fz"] fit(2) fl by (auto simp: file_at_def min_def split: if_splits)
  note e3 = files_image [OF fs_read_frame [OF s3(1)]]
  let ?bs = "map g [unat ?off..<unat ?off + unat ?fz]"
  have ok3: "image_ok d n1 ?V F s3" using s1(2) by (simp add: e2 e3)
  have inV: "(unat ?pa + k) div 4096 \<in> ?V" if "k < unat ?ms" for k using seg_page [of k sg] that by (simp add: u)
  obtain s4 where s4: "vwrite_bytes ?bs ?pa s3 = Inr s4" "image_ok d n1 ?V F s4" "image_wrote d ?V s3 s4 (unat ?pa) ?bs"
    using vwrite_bytes_image [OF ok3, of ?bs ?pa] inV fit(1,3) by auto
  have lo: "4096 \<le> unat ?pa"
  proof -
    have "0 \<notin> set (seg_pages sg)" using mm(2) ok by (force simp: image_ok_def)
    then show ?thesis using sg(3) by (auto simp: pages u)
  qed
  have h3: "header d g len s3" using h1 by (simp add: e2 e3)
  have h4: "header d g len s4" by (rule header_wrote [OF h3 s4(3) _ lo s4(2)]) (use ok(2) in simp)
  have uz: "unat (?pa + ?fz) = unat ?pa + unat ?fz" using unat_plus_small [of ?pa "unat ?fz"] fit by simp
  have pm: "unat (of_nat ph + PH_memsz :: u32) = ph + 20" using unat_small [of "ph + 20"] ph h by (simp add: header_def elf_defs)
  have "\<forall>j < unat ?ms - unat ?fz. (unat (?pa + ?fz) + j) div 4096 \<in> ?V" using inV uz fit(1) by (simp add: add.assoc)
  then obtain s5 where s5: "zero_loop (?pa + ?fz) ?pa (of_nat ph) s4 = Some (Inr s5)" "image_ok d n1 ?V F s5"
      "image_wrote d ?V s4 s5 (unat ?pa + unat ?fz) (replicate (unat ?ms - unat ?fz) 0)"
    using zero_loop_image [OF s4(2) h4 _ _ _ _ _ _, of "of_nat ph" ?ms ?pa "?pa + ?fz" "unat ?ms - unat ?fz"] pm ok(2) ph fit uz lo by auto
  have w: "image_wrote d ?V s3 s5 (unat ?pa) (?bs @ replicate (unat ?ms - unat ?fz) 0)"
    using s4(3) s5(3) by (intro image_wrote_append) simp_all
  have h5: "header d g len s5" by (rule header_wrote [OF h4 s5(3) _ _ s5(2)]) (use ok(2) lo in simp_all)
  have more5: "pagingst.more s5 = pagingst.more s3" "kern_pgdir s5 = kern_pgdir s3" using w by (simp_all add: image_wrote_def)
  have pcb5: "PCBPool s5 = PCBPool s" "kern_pgdir s5 = kern_pgdir s"
  proof -
    have "PCBPool s5 = PCBPool s3" "PCBPool s1 = PCBPool s" using more_procs [OF more5(1)] more_procs [OF more1] by simp_all
    then show "PCBPool s5 = PCBPool s" "kern_pgdir s5 = kern_pgdir s" using e2 e3 more5(2) s1(4) by (simp_all add: same_regs_def)
  qed
  have "load_segments (Suc c) (of_nat ph) pcb fd s = load_segments c (of_nat ph + PH_size) pcb fd s5"
    using rd [OF h] rd [OF h1] rd(4) [OF h4] rd(4) [of s2] sg(2,3) pg s1(1) s2(1) s3(1) s4(1) s5(1) h1 by (simp add: u unat_eq_zero e2)
  moreover have "of_nat ph + PH_size = (of_nat (ph + 32) :: u32)" by (simp add: elf_defs)
  moreover have "loading d pcb fd i sz g len s5"
    using h5 file_at_paging [OF more5(1) s3(2)] pg pcb5 by (simp add: loading_def)
  moreover have "seg_loaded d g (mem s5) sg"
    unfolding seg_loaded_def
  proof (intro allI impI)
    fix k assume k: "k < seg_memsz sg"
    have "vbyte (mem s5) d (unat ?pa + k) = Some ((?bs @ replicate (unat ?ms - unat ?fz) 0) ! k)"
      using w inV [of k] k fit(1) by (auto simp: image_wrote_def u)
    then show "vbyte (mem s5) d (seg_vaddr sg + k) = Some (if k < seg_filesz sg then g (seg_off sg + k) else 0)"
      using k by (simp add: u nth_append)
  qed
  moreover have "vbyte (mem s5) d a = vbyte (mem s) d a" if a: "a div 4096 \<in> V" for a
  proof -
    have "a div 4096 \<notin> set (seg_pages sg)" using mm(2) ok(1) a by (force simp: image_ok_def)
    then have "\<not> (unat ?pa \<le> a \<and> a < unat ?pa + unat ?ms)" using seg_page [of "a - unat ?pa" sg] by (auto simp: u less_diff_conv2)
    then have "vbyte (mem s5) d a = vbyte (mem s3) d a" using w a fit(1) by (auto simp: image_wrote_def)
    then show ?thesis using s1(5) a by (simp add: e2 e3)
  qed
  moreover have "page_map (mem s5) d p = page_map (mem s) d p" if "p < 2 ^ 20" "p \<notin> set (seg_pages sg)" for p
    using w s1(6) that by (simp add: image_wrote_def e2 e3)
  ultimately show ?thesis using s5(2) s1(3) pcb5 by auto
qed

abbreviation segs_pages :: "segment list \<Rightarrow> nat list" where
  "segs_pages segs \<equiv> concat (map seg_pages segs)"

lemma segs_pages_small:
  assumes "\<forall>sg \<in> set segs. seg_fits sz sg" "p \<in> set (segs_pages segs)"
  shows "p < 2 ^ 20"
proof -
  obtain sg where "sg \<in> set segs" "p \<in> set (seg_pages sg)" using assms(2) by auto
  moreover from this have "seg_vaddr sg + seg_memsz sg + 4096 \<le> 2 ^ 32" using assms(1) by (auto simp: seg_fits_def)
  ultimately show ?thesis by (auto simp: seg_pages_def)
qed

lemma load_segments_image:
  assumes "image_ok d n V F s" "0 \<in> V" "loading d pcb fd i sz g len s" "ph + 32 * c \<le> len" "segs = elf_segments g c ph"
    and "\<forall>sg \<in> set segs. seg_fits sz sg" "distinct (segs_pages segs)" "n + 2 * length (segs_pages segs) \<le> npages"
    and "\<forall>p \<in> set (segs_pages segs). page_map (mem s) d p = None"
  shows "\<exists>s' n'. load_segments c (of_nat ph) pcb fd s = Inr s' \<and>
    image_ok d n' (V \<union> set (segs_pages segs)) F s' \<and> n' \<le> n + 2 * length (segs_pages segs) \<and> loading d pcb fd i sz g len s' \<and>
    kern_pgdir s' = kern_pgdir s \<and> PCBPool s' = PCBPool s \<and> (\<forall>sg \<in> set segs. seg_loaded d g (mem s') sg) \<and>
    (\<forall>a. a div 4096 \<in> V \<longrightarrow> vbyte (mem s') d a = vbyte (mem s) d a) \<and>
    (\<forall>p < 2 ^ 20. p \<notin> set (segs_pages segs) \<longrightarrow> page_map (mem s') d p = page_map (mem s) d p)"
  using assms
proof (induction c arbitrary: n V s ph segs)
  case 0
  then show ?case by auto
next
  case (Suc c)
  let ?sg = "ph_seg g ph"
  have h: "header d g len s" using Suc.prems(3) by (simp add: loading_def)
  show ?case
  proof (cases "seg_vaddr ?sg = 0 \<or> seg_memsz ?sg = 0")
    case True
    then have "segs = []" using Suc.prems(5) by (simp add: Let_def)
    moreover have "load_segments (Suc c) (of_nat ph) pcb fd s = Inr s"
      using True header_word [OF h, of ph 8] header_word [OF h, of ph 20] Suc.prems(4)
      by (auto simp: elf_defs ph_seg_def unat_eq_zero)
    ultimately show ?thesis using Suc.prems(1,3) by (intro exI [of _ s] exI [of _ n]) simp
  next
    case False
    let ?P = "set (seg_pages ?sg)"
    define rest where "rest = elf_segments g c (ph + 32)"
    have segs: "segs = ?sg # rest" using False Suc.prems(5) by (simp add: Let_def rest_def)
    have fit: "seg_fits sz ?sg" "\<forall>sg \<in> set rest. seg_fits sz sg" using Suc.prems(6) segs by simp_all
    have mm: "n + 2 * length (seg_pages ?sg) + 2 * length (segs_pages rest) \<le> npages" using Suc.prems(8) segs by simp
    have un: "\<forall>p \<in> ?P. page_map (mem s) d p = None" "\<forall>p \<in> set (segs_pages rest). page_map (mem s) d p = None"
      using Suc.prems(9) segs by simp_all
    have di: "distinct (segs_pages rest)" "?P \<inter> set (segs_pages rest) = {}" using Suc.prems(7) segs by simp_all
    have nz: "seg_vaddr ?sg \<noteq> 0" "seg_memsz ?sg \<noteq> 0" using False by simp_all
    have ph: "ph + 32 \<le> len" "ph + 32 + 32 * c \<le> len" using Suc.prems(4) by simp_all
    have mm1: "n + 2 * length (seg_pages ?sg) \<le> npages" using mm by simp
    from load_segment [OF Suc.prems(1-3) ph(1) refl nz fit(1) mm1 un(1), of c] obtain s1 n1 where
      s1: "load_segments (Suc c) (of_nat ph) pcb fd s = load_segments c (of_nat (ph + 32)) pcb fd s1"
        "image_ok d n1 (V \<union> ?P) F s1" "n1 \<le> n + 2 * length (seg_pages ?sg)" "loading d pcb fd i sz g len s1"
        "kern_pgdir s1 = kern_pgdir s" "PCBPool s1 = PCBPool s" "seg_loaded d g (mem s1) ?sg"
        "\<forall>a. a div 4096 \<in> V \<longrightarrow> vbyte (mem s1) d a = vbyte (mem s) d a"
        "\<forall>p < 2 ^ 20. p \<notin> ?P \<longrightarrow> page_map (mem s1) d p = page_map (mem s) d p" by blast
    have un1: "\<forall>p \<in> set (segs_pages rest). page_map (mem s1) d p = None" using un(2) s1(9) segs_pages_small [OF fit(2)] di(2) by (metis disjoint_iff)
    have mm2: "n1 + 2 * length (segs_pages rest) \<le> npages" using mm s1(3) by simp
    have z1: "0 \<in> V \<union> ?P" using Suc.prems(2) by simp
    from Suc.IH [OF s1(2) z1 s1(4) ph(2) rest_def fit(2) di(1) mm2 un1] obtain s2 n2 where
      s2: "load_segments c (of_nat (ph + 32)) pcb fd s1 = Inr s2" "image_ok d n2 ((V \<union> ?P) \<union> set (segs_pages rest)) F s2"
        "n2 \<le> n1 + 2 * length (segs_pages rest)" "loading d pcb fd i sz g len s2" "kern_pgdir s2 = kern_pgdir s1" "PCBPool s2 = PCBPool s1"
        "\<forall>sg \<in> set rest. seg_loaded d g (mem s2) sg" "\<forall>a. a div 4096 \<in> V \<union> ?P \<longrightarrow> vbyte (mem s2) d a = vbyte (mem s1) d a"
        "\<forall>p < 2 ^ 20. p \<notin> set (segs_pages rest) \<longrightarrow> page_map (mem s2) d p = page_map (mem s1) d p" by blast
    have "seg_loaded d g (mem s2) ?sg" using s1(7) s2(8) seg_page [of _ ?sg] by (simp add: seg_loaded_def)
    then show ?thesis
      using s1 s2 unfolding segs by (intro exI [of _ s2] exI [of _ n2]) (simp add: Un_assoc)
  qed
qed

section \<open>Opening the file\<close>

text \<open>Opening depends on the file system's variables only.\<close>

lemma readDir_paging:
  assumes "pagingst.more s' = pagingst.more s"
  shows "pagingst.more (readDir o' s') = pagingst.more (readDir o' s)" "dir (readDir o' s') = dir (readDir o' s)"
  using assms by (cases s; cases s'; simp add: readDir_def readsect_def)+

lemma find_dir_paging:
  assumes "pagingst.more s' = pagingst.more s" "find_dir n o' test s = Inr (r, t)"
  shows "\<exists>t'. find_dir n o' test s' = Inr (r, t') \<and> pagingst.more t' = pagingst.more t"
  using assms
proof (induction n arbitrary: o' s s')
  case (Suc n)
  note p = readDir_paging [OF Suc.prems(1), of o']
  obtain x where x: "find_entry NR_ENTRIES 0 test (dir (readDir o' s)) = Inr x" using Suc.prems(2) by (auto simp: Let_def bind_res_eq_Inr)
  show ?case
  proof (cases x)
    case None
    then have "find_dir n (o' + 1) test (readDir o' s) = Inr (r, t)" using Suc.prems(2) x by (simp add: Let_def)
    from Suc.IH [OF p(1) this] show ?thesis using x None p(2) by (simp add: Let_def)
  next
    case (Some e)
    then show ?thesis using Suc.prems(2) x p by (auto simp: Let_def)
  qed
qed auto

lemma open_stream_paging:
  assumes "pagingst.more s' = pagingst.more s" "open_stream o' e s = Inr (r, t)"
  shows "\<exists>t'. open_stream o' e s' = Inr (r, t') \<and> pagingst.more t' = pagingst.more t"
  using assms
  by (cases s; cases s') (auto simp: open_stream_def upd_stream_def Let_def bind_res_eq_Inr split: option.splits)

lemma fs_open_paging:
  assumes "pagingst.more s' = pagingst.more s" "fs_open_kr name s = Inr (r, t)"
  shows "\<exists>t'. fs_open_kr name s' = Inr (r, t') \<and> pagingst.more t' = pagingst.more t"
proof -
  let ?test = "\<lambda>e. bind_res (strcmp_field (filename e) name) (\<lambda>r. Inr (r = 0))"
  obtain x u where x: "find_dir SC_DIR 0 ?test s = Inr (x, u)" using assms(2) by (auto simp: fs_open_kr_def bind_res_eq_Inr)
  obtain u' where u': "find_dir SC_DIR 0 ?test s' = Inr (x, u')" "pagingst.more u' = pagingst.more u" using find_dir_paging [OF assms(1) x] by blast
  show ?thesis using assms(2) x u' open_stream_paging [OF u'(2)] by (auto simp: fs_open_kr_def split: option.splits)
qed

section \<open>Storing into frames that are set aside\<close>

text \<open>\<open>image_keeps d n V F s s'\<close>: address space and contents of the pages \<open>V\<close> are as in \<open>s\<close>.\<close>

definition image_keeps :: "nat \<Rightarrow> nat \<Rightarrow> nat set \<Rightarrow> nat set \<Rightarrow> 'a pagingst_scheme \<Rightarrow> 'a pagingst_scheme \<Rightarrow> bool" where
  "image_keeps d n V F s s' \<longleftrightarrow> image_ok d n V F s' \<and> (\<forall>v \<in> V. page_map (mem s') d v = page_map (mem s) d v) \<and>
     (\<forall>a. a div 4096 \<in> V \<longrightarrow> vbyte (mem s') d a = vbyte (mem s) d a)"

lemma image_keeps_store:
  assumes "image_keeps d n V F s s1" "x div 1024 \<in> F"
  shows "image_keeps d n V F s (store (waddr x) v s1)" "image_keeps d n V F s (store16 (waddr x) u s1)"
proof -
  let ?f = "x div 1024" and ?k = "x mod 1024"
  have ok: "image_ok d n V F s1" using assms(1) by (simp add: image_keeps_def)
  have f: "?f < n" "\<not> table_frame (mem s1) d ?f" and sp: "space_ok d n s1" "n \<le> npages" "V \<subseteq> {..<2 ^ 20}"
    and out: "\<And>p. p \<in> V \<Longrightarrow> page_map (mem s1) d p \<noteq> Some ?f"
    using ok assms(2) by (auto simp: image_ok_def)
  have k: "?k < 1024" and x: "x = 1024 * ?f + ?k" by simp_all
  have st: "image_keeps d n V F s (store (waddr x) v s1)" for v
    using assms(1) image_store [OF ok f k, of v] vbyte_store [OF ok f k, of _ v] plain_word(2) [OF sp(1,2) f k, of v] sp(3) out
    unfolding x [symmetric] image_keeps_def by auto
  show "image_keeps d n V F s (store (waddr x) v s1)" by (rule st)
  show "image_keeps d n V F s (store16 (waddr x) u s1)" unfolding store16_def by (rule st)
qed

lemma image_keeps_pcb: "image_keeps d n V F s s1 \<Longrightarrow> image_keeps d n V F s (upd_pcb p h s1)"
proof -
  have "mem (upd_pcb p h s1) = mem s1" "image_ok d n V F (upd_pcb p h s1) = image_ok d n V F s1"
    by (simp_all add: image_ok_def space_ok_def free_list_def upd_pcb_def)
  then show "image_keeps d n V F s s1 \<Longrightarrow> image_keeps d n V F s (upd_pcb p h s1)" by (simp add: image_keeps_def)
qed

lemma init_pcb_image:
  assumes ok: "image_ok d n V F s" and t: "tf (PCBPool s pcb) = waddr w" "w + 19 \<le> 2 ^ 28" and F: "\<forall>j < 19. (w + j) div 1024 \<in> F"
  shows "image_keeps d n V F s (init_pcb pcb ust e 3 s)" "mem (init_pcb pcb ust e 3 s) (waddr (w + 14)) = e"
    "mem (init_pcb pcb ust e 3 s) (waddr (w + 17)) = ust" "tt (PCBPool (init_pcb pcb ust e 3 s) pcb) = USER"
    "kern_pgdir (init_pcb pcb ust e 3 s) = kern_pgdir s"
proof -
  have a: "waddr w + TF_DS = waddr (w + 11)" "waddr w + TF_ES = waddr (w + 10)" "waddr w + TF_SS = waddr (w + 18)" "waddr w + TF_FS = waddr (w + 9)"
    "waddr w + TF_GS = waddr (w + 8)" "waddr w + TF_CS = waddr (w + 15)" "waddr w + TF_EFLAGS = waddr (w + 16)" "waddr w + TF_ESP = waddr (w + 17)"
    "waddr w + TF_EIP = waddr (w + 14)"
    by (simp_all add: tf_offsets waddr_add)
  define u where "u = store (waddr (w + 17)) ust (set_frame_segments (waddr w) (GD_UD OR 3) (GD_UT OR 3) s)"
  have i: "init_pcb pcb ust e 3 s = upd_pcb pcb (\<lambda>x. x\<lparr>tt := USER\<rparr>) (store (waddr (w + 14)) e u)"
    by (simp add: init_pcb_def Let_def t(1) a u_def)
  have FF: "(w + j) div 1024 \<in> F" if "j < 19" for j using F that by blast
  have "image_keeps d n V F s s" using ok by (simp add: image_keeps_def)
  then have "image_keeps d n V F s (set_frame_segments (waddr w) (GD_UD OR 3) (GD_UT OR 3) s)"
    unfolding set_frame_segments_def Let_def a by (intro image_keeps_store FF) simp_all
  then have "image_keeps d n V F s (store (waddr (w + 14)) e u)" unfolding u_def by (intro image_keeps_store FF) simp_all
  then show "image_keeps d n V F s (init_pcb pcb ust e 3 s)" unfolding i by (rule image_keeps_pcb)
  show "mem (init_pcb pcb ust e 3 s) (waddr (w + 14)) = e" "tt (PCBPool (init_pcb pcb ust e 3 s) pcb) = USER"
    by (simp_all add: i upd_pcb_def store_def)
  have "waddr (w + 17) \<noteq> waddr (w + 14)" using t(2) by simp
  then show "mem (init_pcb pcb ust e 3 s) (waddr (w + 17)) = ust" by (simp add: i upd_pcb_def u_def store_def)
  show "kern_pgdir (init_pcb pcb ust e 3 s) = kern_pgdir s"
    by (simp add: i upd_pcb_def u_def set_frame_segments_def store16_def Let_def)
qed

section \<open>Loading a program\<close>

definition stack_pages :: "nat list" where
  "stack_pages = [0xBEBF6..<0xBEBFE]"

text \<open>The header that a program of this kernel has: \<open>c\<close> program headers at \<open>ph\<close>, within the first page and the file.\<close>

definition elf_header :: "(nat \<Rightarrow> u8) \<Rightarrow> nat \<Rightarrow> nat \<Rightarrow> nat \<Rightarrow> bool" where
  "elf_header g sz ph c \<longleftrightarrow> get_le32 g 0 = ELF_MAGIC \<and> unat (get_le32 g 28) = ph \<and> unat (get_le16 g 44) = c \<and>
     52 \<le> sz \<and> ph + 32 * c \<le> min 4096 sz"

lemma ph_count_header:
  assumes "elf_header g sz ph c"
  shows "ph_count (ELFADDR + get_le32 g 28) (get_le16 g 44) = c"
proof -
  have e: "unat (get_le32 g 28) = ph" "unat (get_le16 g 44) = c" "ph + 32 * c \<le> 4096" using assms by (simp_all add: elf_header_def)
  have "get_le32 g 28 = of_nat ph" "get_le16 g 44 = of_nat c" using e(1,2) by auto
  moreover have "unat (of_nat ph + 32 * of_nat c :: u32) = ph + 32 * c" using unat_small [of "ph + 32 * c"] e(3) by simp
  moreover have "unat (of_nat ph :: u32) = ph" "unat (of_nat c :: u32) = c" using e(3) by (simp_all add: unat_small)
  ultimately show ?thesis by (simp add: ph_count_def elf_defs ELFADDR_def word_less_nat_alt)
qed

text \<open>Up to the program headers.\<close>

lemma load_header:
  assumes ok: "image_ok d n V F s" and p: "pgdir (PCBPool s pcb) = page2kva d"
    and name: "\<forall>k < length name. vbyte (mem s) d (unat fname + k) = Some (name ! k)" "vbyte (mem s) d (unat fname + length name) = Some 0"
      "0 \<notin> set name" "unat fname + length name < 2 ^ 32" "\<forall>k \<le> length name. (unat fname + k) div 4096 \<in> V"
    and opened: "fs_open_kr name s = Inr (fd, s0)" "fd \<noteq> - 1" "file_at fd i sz g s0"
    and mm: "n + 2 \<le> npages" "page_map (mem s) d 0 = None"
  shows "\<exists>s1 s2 r bytes s3 s4 n'. mm_alloc (pgdir (PCBPool s pcb)) ELFADDR 0x1000 s = Inr s1 \<and> vstring fname s1 = Inr name \<and> fs_open_kr name s1 = Inr (fd, s2) \<and>
    fs_read_kr fd (8 * 512) s2 = Inr (r, bytes, s3) \<and> vwrite_bytes bytes ELFADDR s3 = Inr s4 \<and>
    image_ok d n' (V \<union> {0}) F s4 \<and> n' \<le> n + 2 \<and> loading d pcb fd i sz g (min 4096 sz) s4 \<and>
    kern_pgdir s4 = kern_pgdir s \<and> PCBPool s4 = PCBPool s \<and>
    (\<forall>p < 2 ^ 20. p \<noteq> 0 \<longrightarrow> page_map (mem s4) d p = page_map (mem s) d p)"
proof -
  have r: "unat (0 :: u32) + unat (0x1000 :: u32) + 4096 \<le> 2 ^ 32" "0 = unat (0 :: u32) div 4096" "1 = (unat (0 :: u32) + unat (0x1000 :: u32) + 4095) div 4096"
    by simp_all
  have "n + 2 * (1 - 0) \<le> npages" "\<forall>q \<in> {0..<1}. page_map (mem s) d q = None" using mm by simp_all
  from mm_alloc_image [OF ok r this] obtain s1 n1 where s1: "mm_alloc (page2kva d) 0 0x1000 s = Inr s1" "image_ok d n1 (V \<union> {0..<1}) F s1" "n1 \<le> n + 2 * (1 - 0)"
      "same_regs s s1" "\<forall>a. a div 4096 \<in> V \<longrightarrow> vbyte (mem s1) d a = vbyte (mem s) d a"
      "\<forall>q < 2 ^ 20. q \<notin> {0..<1} \<longrightarrow> page_map (mem s1) d q = page_map (mem s) d q" by blast
  have V1: "V \<union> {0..<1} = V \<union> {0}" by auto
  have cr: "cr3 s1 = page2pa d" using s1(2) by (simp add: image_ok_def)
  have vs: "vstring fname s1 = Inr name" using s1(5) name by (intro vstring_image [OF cr]) simp_all
  have more1: "pagingst.more s1 = pagingst.more s" using s1(4) by (simp add: same_regs_def)
  obtain s2 where s2: "fs_open_kr name s1 = Inr (fd, s2)" "pagingst.more s2 = pagingst.more s0" using fs_open_paging [OF more1 opened(1)] by blast
  have f2: "file_at fd i sz g s2" by (rule file_at_paging [OF s2(2) opened(3)])
  have o2: "st_offset (fs s2 i) = of_nat 0" using fs_open_kr_stream [OF s2(1) opened(2)] f2 by (auto simp: file_at_def)
  note e2 = files_image [OF fs_open_frame [OF s2(1)]]
  obtain r s3 where s3: "fs_read_kr fd (of_nat 4096) s2 = Inr (r, map g [0..<min 4096 sz], s3)" "file_at fd i sz g s3"
    using file_at_read [OF f2 o2, of 4096] by auto
  note e3 = files_image [OF fs_read_frame [OF s3(1)]]
  let ?bs = "map g [0..<min 4096 sz]"
  have ok3: "image_ok d n1 (V \<union> {0}) F s3" using s1(2) unfolding V1 by (simp add: e2 e3)
  obtain s4 where s4: "vwrite_bytes ?bs 0 s3 = Inr s4" "image_ok d n1 (V \<union> {0}) F s4" "image_wrote d (V \<union> {0}) s3 s4 (unat (0 :: u32)) ?bs"
  proof -
    have "unat (0 :: u32) + length ?bs < 2 ^ 32" by (simp add: min_less_iff_disj)
    moreover have "\<forall>k < length ?bs. (unat (0 :: u32) + k) div 4096 \<in> V \<union> {0}" by simp
    ultimately show ?thesis using vwrite_bytes_image [OF ok3, of ?bs 0] that by blast
  qed
  have "header d g (min 4096 sz) s4" using s4(2,3) by (auto simp: header_def image_ok_def image_wrote_def)
  moreover have more4: "pagingst.more s4 = pagingst.more s3" "kern_pgdir s4 = kern_pgdir s3" using s4(3) by (simp_all add: image_wrote_def)
  moreover have "PCBPool s4 = PCBPool s" "kern_pgdir s4 = kern_pgdir s"
    using more_procs [OF more4(1)] more_procs [OF more1] e2 e3 more4(2) s1(4) by (simp_all add: same_regs_def)
  moreover have "page_map (mem s4) d q = page_map (mem s) d q" if "q < 2 ^ 20" "q \<noteq> 0" for q
    using s4(3) s1(6) that by (simp add: image_wrote_def e2 e3)
  moreover have "file_at fd i sz g s4" by (rule file_at_paging [OF more4(1) s3(2)])
  ultimately show ?thesis
    using s1(1,3) vs s2(1) s3(1) s4(1,2) p
    by (intro exI [of _ s1] exI [of _ s2] exI [of _ r] exI [of _ ?bs] exI [of _ s3] exI [of _ s4] exI [of _ n1]) (simp add: loading_def ELFADDR_def)
qed

text \<open>From the entry point on: the stack and the trap frame.\<close>

lemma load_stack:
  assumes ok: "image_ok d n V F (s :: kernst)" and un: "\<forall>p \<in> set stack_pages. page_map (mem s) d p = None" and b: "n + 16 \<le> npages"
    and t: "tf (PCBPool s pcb) = waddr w" "w + 19 \<le> 2 ^ 28" "\<forall>j < 19. (w + j) div 1024 \<in> F"
  shows "\<exists>s1. mm_alloc (page2kva d) (USTACKTOP - USTACKSIZE) USTACKSIZE s = Inr s1 \<and> entry s1 = entry s \<and>
    (let f = init_pcb pcb (USTACKTOP - 0x80) (entry s1) 3 s1 in (\<forall>a. a div 4096 \<in> V \<longrightarrow> vbyte (mem f) d a = vbyte (mem s) d a) \<and>
      (\<forall>p \<in> V \<union> set stack_pages. page_map (mem f) d p \<noteq> None) \<and> kern_pgdir f = kern_pgdir s \<and> tt (PCBPool f pcb) = USER \<and>
      mem f (waddr w + TF_EIP) = entry s \<and> mem f (waddr w + TF_ESP) = USTACKTOP - 0x80)"
proof -
  have st: "unat (USTACKTOP - USTACKSIZE) = 0xBEBF6000" "unat USTACKSIZE = 0x8000" by (simp_all add: USTACKTOP_def USTACKSIZE_def)
  have rs: "unat (USTACKTOP - USTACKSIZE) + unat USTACKSIZE + 4096 \<le> 2 ^ 32" "0xBEBF6 = unat (USTACKTOP - USTACKSIZE) div 4096"
    "0xBEBFE = (unat (USTACKTOP - USTACKSIZE) + unat USTACKSIZE + 4095) div 4096" unfolding st by simp_all
  have sp: "set stack_pages = {0xBEBF6..<0xBEBFE}" by (simp only: stack_pages_def set_upt)
  have "n + 2 * (0xBEBFE - 0xBEBF6) \<le> npages" using b by simp
  then obtain s1 n1 where s1: "mm_alloc (page2kva d) (USTACKTOP - USTACKSIZE) USTACKSIZE s = Inr s1"
      "image_ok d n1 (V \<union> set stack_pages) F s1" "same_regs s s1" "\<forall>a. a div 4096 \<in> V \<longrightarrow> vbyte (mem s1) d a = vbyte (mem s) d a"
    using mm_alloc_image [OF ok rs] un unfolding sp by blast
  have m: "pagingst.more s1 = pagingst.more s" using s1(3) by (simp add: same_regs_def)
  have same: "PCBPool s1 = PCBPool s" "kern_pgdir s1 = kern_pgdir s" using more_procs [OF m] s1(3) by (simp_all add: same_regs_def)
  have e: "entry s1 = entry s" using m by (cases s1; cases s) simp
  have "tf (PCBPool s1 pcb) = waddr w" using same t(1) by simp
  note i = init_pcb_image [OF s1(2) this t(2,3), of "USTACKTOP - 0x80" "entry s1"]
  let ?f = "init_pcb pcb (USTACKTOP - 0x80) (entry s1) 3 s1"
  have "vbyte (mem ?f) d a = vbyte (mem s) d a" if "a div 4096 \<in> V" for a using i(1) that s1(4) unfolding image_keeps_def by simp
  moreover have "page_map (mem ?f) d p \<noteq> None" if "p \<in> V \<union> set stack_pages" for p
    using i(1) that unfolding image_keeps_def image_ok_def by (metis option.distinct(1))
  moreover have "waddr w + TF_EIP = waddr (w + 14)" "waddr w + TF_ESP = waddr (w + 17)" by (simp_all add: tf_offsets waddr_add)
  ultimately show ?thesis using s1(1) i(2-5) e same unfolding Let_def by (intro exI [of _ s1] conjI) simp_all
qed

lemma loader_file_effect:
  assumes proc: "pgdir (PCBPool s pcb) = page2kva d" "tf (PCBPool s pcb) = waddr w" "w + 19 \<le> 2 ^ 28" "F = (\<lambda>j. (w + j) div 1024) ` {..<19}"
    and ok: "image_ok d n V F (lcr3 (page2pa d) s)"
    and name: "\<forall>k < length name. vbyte (mem s) d (unat fname + k) = Some (name ! k)" "vbyte (mem s) d (unat fname + length name) = Some 0"
      "0 \<notin> set name" "unat fname + length name < 2 ^ 32" "\<forall>k \<le> length name. (unat fname + k) div 4096 \<in> V"
    and opened: "fs_open_kr name s = Inr (fd, s0)" "fd \<noteq> - 1" "file_at fd i sz g s0"
    and elf: "elf_header g sz ph c" "segs = elf_segments g c ph" "\<forall>sg \<in> set segs. seg_fits sz sg"
    and mm: "ps = 0 # segs_pages segs @ stack_pages" "distinct ps" "\<forall>p \<in> set ps. page_map (mem s) d p = None" "n + 2 * length ps \<le> npages"
  shows "\<exists>s'. loader_file pcb fname s = Inr (0, s') \<and> (\<forall>sg \<in> set segs. seg_loaded d g (mem s') sg) \<and>
    (\<forall>p \<in> set ps. page_map (mem s') d p \<noteq> None) \<and> cr3 s' = PADDR (kern_pgdir s) \<and> tt (PCBPool s' pcb) = USER \<and>
    mem s' (tf (PCBPool s pcb) + TF_EIP) = get_le32 g 24 \<and> mem s' (tf (PCBPool s pcb) + TF_ESP) = USTACKTOP - 0x80 \<and>
    tf (PCBPool s' pcb) = tf (PCBPool s pcb)"
proof -
  let ?s = "lcr3 (page2pa d) s"
  have l: "mem ?s = mem s" "PCBPool ?s = PCBPool s" "kern_pgdir ?s = kern_pgdir s" "pagingst.more ?s = pagingst.more s" by (simp_all add: lcr3_def)
  have lc: "lcr3 (PADDR (pgdir (PCBPool s pcb))) s = ?s" by (simp add: proc(1) page2kva_PADDR)
  obtain s0' where s0': "fs_open_kr name ?s = Inr (fd, s0')" "pagingst.more s0' = pagingst.more s0" using fs_open_paging [OF l(4) opened(1)] by blast
  have f0: "file_at fd i sz g s0'" by (rule file_at_paging [OF s0'(2) opened(3)])
  have un: "page_map (mem s) d 0 = None" "\<forall>p \<in> set (segs_pages segs). page_map (mem s) d p = None" "\<forall>p \<in> set stack_pages. page_map (mem s) d p = None"
    and di: "0 \<notin> set (segs_pages segs)" "0 \<notin> set stack_pages" "distinct (segs_pages segs)" "set (segs_pages segs) \<inter> set stack_pages = {}"
    and bud: "n + 2 + 2 * length (segs_pages segs) + 2 * 8 \<le> npages"
    using mm unfolding mm(1) by (auto simp: stack_pages_def)
  have mm0: "n + 2 \<le> npages" using bud by simp
  obtain s1 s2 r bytes s3 s4 n4 where a: "mm_alloc (pgdir (PCBPool ?s pcb)) ELFADDR 0x1000 ?s = Inr s1" "vstring fname s1 = Inr name"
      "fs_open_kr name s1 = Inr (fd, s2)" "fs_read_kr fd (8 * 512) s2 = Inr (r, bytes, s3)" "vwrite_bytes bytes ELFADDR s3 = Inr s4"
    and s4: "image_ok d n4 (V \<union> {0}) F s4" "n4 \<le> n + 2" "loading d pcb fd i sz g (min 4096 sz) s4" "kern_pgdir s4 = kern_pgdir s" "PCBPool s4 = PCBPool s"
      "\<forall>p < 2 ^ 20. p \<noteq> 0 \<longrightarrow> page_map (mem s4) d p = page_map (mem s) d p"
    using load_header [OF ok, of pcb name fname fd s0' i sz g] proc(1) name s0'(1) opened(2) f0 mm0 un(1) unfolding l by blast
  have h4: "header d g (min 4096 sz) s4" using s4(3) by (simp add: loading_def)
  have e: "get_le32 g 0 = ELF_MAGIC" "52 \<le> min 4096 sz" "ph + 32 * c \<le> min 4096 sz" "of_nat ph = get_le32 g 28"
    using elf(1) by (auto simp: elf_header_def)
  have rd: "vread32 (ELFADDR + ELF_magic) s4 = Inr ELF_MAGIC" "vread32 (ELFADDR + ELF_phoff) s4 = Inr (get_le32 g 28)" "vread16 (ELFADDR + ELF_phnum) s4 = Inr (get_le16 g 44)"
    using header_read [OF h4] e by (simp_all add: elf_defs ELFADDR_def)
  have un4: "\<forall>p \<in> set (segs_pages segs). page_map (mem s4) d p = None" using un(2) s4(6) segs_pages_small [OF elf(3)] di(1) by metis
  have b4: "n4 + 2 * length (segs_pages segs) \<le> npages" using bud s4(2) by simp
  have z: "0 \<in> V \<union> {0}" by simp
  from load_segments_image [OF s4(1) z s4(3) e(3) elf(2,3) di(3) b4 un4] obtain s5 n5 where
    s5: "load_segments c (of_nat ph) pcb fd s4 = Inr s5" "image_ok d n5 (V \<union> {0} \<union> set (segs_pages segs)) F s5" "n5 \<le> n4 + 2 * length (segs_pages segs)"
      "loading d pcb fd i sz g (min 4096 sz) s5" "kern_pgdir s5 = kern_pgdir s4" "PCBPool s5 = PCBPool s4" "\<forall>sg \<in> set segs. seg_loaded d g (mem s5) sg"
      "\<forall>p < 2 ^ 20. p \<notin> set (segs_pages segs) \<longrightarrow> page_map (mem s5) d p = page_map (mem s4) d p" by blast
  let ?V = "V \<union> {0} \<union> set (segs_pages segs)"
  have h5: "header d g (min 4096 sz) s5" using s5(4) by (simp add: loading_def)
  have en: "vread32 (ELFADDR + ELF_entry) s5 = Inr (get_le32 g 24)" using header_read [OF h5] e(2) by (simp add: elf_defs ELFADDR_def)
  define s6 where "s6 = s5\<lparr>entry := get_le32 g 24\<rparr>"
  have e6: "mem s6 = mem s5" "PCBPool s6 = PCBPool s" "kern_pgdir s6 = kern_pgdir s" "image_ok d n5 ?V F s6"
    using s5(2,5,6) s4(4,5) by (simp_all add: s6_def image_ok_def space_ok_def free_list_def)
  have "\<forall>p \<in> set stack_pages. page_map (mem s6) d p = None"
  proof
    fix p assume p: "p \<in> set stack_pages"
    then have "p < 2 ^ 20" "p \<noteq> 0" unfolding stack_pages_def set_upt by simp_all
    then show "page_map (mem s6) d p = None" using s5(8) s4(6) un(3) di(4) p unfolding e6(1) by (metis disjoint_iff)
  qed
  moreover have "n5 + 16 \<le> npages" using bud s5(3) s4(2) by simp
  moreover have "tf (PCBPool s6 pcb) = waddr w" using e6(2) proc(2) by simp
  moreover have "\<forall>j < 19. (w + j) div 1024 \<in> F" unfolding proc(4) by auto
  ultimately obtain s7 where s7: "mm_alloc (page2kva d) (USTACKTOP - USTACKSIZE) USTACKSIZE s6 = Inr s7" "entry s7 = entry s6"
    and stk: "let f = init_pcb pcb (USTACKTOP - 0x80) (entry s7) 3 s7 in (\<forall>a. a div 4096 \<in> ?V \<longrightarrow> vbyte (mem f) d a = vbyte (mem s6) d a) \<and>
      (\<forall>p \<in> ?V \<union> set stack_pages. page_map (mem f) d p \<noteq> None) \<and> kern_pgdir f = kern_pgdir s6 \<and> tt (PCBPool f pcb) = USER \<and>
      mem f (waddr w + TF_EIP) = entry s6 \<and> mem f (waddr w + TF_ESP) = USTACKTOP - 0x80"
    using load_stack [OF e6(4) _ _ _ proc(3), of pcb] by blast
  define f where "f = init_pcb pcb (USTACKTOP - 0x80) (entry s7) 3 s7"
  note f = stk [unfolded Let_def, folded f_def]
  let ?s' = "lcr3 (PADDR (kern_pgdir f)) f"
  have cnt: "ph_count (ELFADDR + get_le32 g 28) (get_le16 g 44) = c" by (rule ph_count_header [OF elf(1)])
  have ph: "ELFADDR + get_le32 g 28 = of_nat ph" by (simp add: ELFADDR_def e(4))
  have p5: "pgdir (PCBPool s6 pcb) = page2kva d" using e6(2) proc(1) by simp
  have "loader_file pcb fname s = Inr (0, ?s')"
    unfolding loader_file_def Let_def lc a bind_res_simps prod.case rd
    using cnt s5(1) en p5 s7(1) unfolding ph by (simp add: s6_def f_def)
  moreover have "seg_loaded d g (mem f) sg" if sg: "sg \<in> set segs" for sg
  proof -
    have "vbyte (mem f) d (seg_vaddr sg + k) = vbyte (mem s5) d (seg_vaddr sg + k)" if "k < seg_memsz sg" for k
    proof -
      have "(seg_vaddr sg + k) div 4096 \<in> ?V" using seg_page [OF that] sg by auto
      then show ?thesis using f unfolding e6(1) by blast
    qed
    then show ?thesis using s5(7) sg by (simp add: seg_loaded_def)
  qed
  moreover have "set ps \<subseteq> ?V \<union> set stack_pages" unfolding mm(1) by auto
  then have "\<forall>p \<in> set ps. page_map (mem f) d p \<noteq> None" using f by blast
  moreover have "cr3 ?s' = PADDR (kern_pgdir s)" "mem ?s' = mem f" "PCBPool ?s' = PCBPool f" using f e6(3) by (simp_all add: lcr3_def)
  moreover have "entry s6 = get_le32 g 24" by (simp add: s6_def)
  moreover have "PCBPool s7 = PCBPool s6" by (rule more_procs(1) [OF mm_alloc_frame [OF s7(1)]])
  then have "tf (PCBPool f pcb) = tf (PCBPool s pcb)"
    by (simp add: f_def init_pcb_def Let_def upd_pcb_def set_frame_segments_def store16_def store_def e6(2))
  ultimately show ?thesis using f proc(2) by (intro exI [of _ ?s']) simp
qed

text \<open>
  C6. Loading a program: let the file with the given name be an executable whose program headers lie in its first 4096 bytes, with segments that fit
  the file and whose pages, together with page 0 and the stack, are distinct, not mapped yet and fewer than half of the free frames.  Then \<open>loader_file\<close>
  returns 0, every segment is in the memory of the process, its first bytes from the file and the rest zero, the stack is mapped, and the trap
  frame makes the process start at the entry point of the program with its stack pointer at the top of the stack.
\<close>

theorem loader_file_loads:
  assumes proc: "pgdir (PCBPool s pcb) = page2kva d" "tf (PCBPool s pcb) = waddr w" "w + 19 \<le> 2 ^ 28" "F = (\<lambda>j. (w + j) div 1024) ` {..<19}"
    and ok: "image_ok d n V F (lcr3 (page2pa d) s)"
    and name: "\<forall>k < length name. vbyte (mem s) d (unat fname + k) = Some (name ! k)" "vbyte (mem s) d (unat fname + length name) = Some 0"
      "0 \<notin> set name" "unat fname + length name < 2 ^ 32" "\<forall>k \<le> length name. (unat fname + k) div 4096 \<in> V"
    and opened: "fs_open_kr name s = Inr (fd, s0)" "fd \<noteq> - 1" "file_at fd i sz g s0"
    and elf: "elf_header g sz ph c" "segs = elf_segments g c ph" "\<forall>sg \<in> set segs. seg_fits sz sg"
    and mm: "ps = 0 # segs_pages segs @ stack_pages" "distinct ps" "\<forall>p \<in> set ps. page_map (mem s) d p = None" "n + 2 * length ps \<le> npages"
  shows "\<exists>s'. loader_file pcb fname s = Inr (0, s') \<and> (\<forall>sg \<in> set segs. seg_loaded d g (mem s') sg) \<and>
    (\<forall>p \<in> set ps. page_map (mem s') d p \<noteq> None) \<and> cr3 s' = PADDR (kern_pgdir s) \<and> tt (PCBPool s' pcb) = USER \<and>
    mem s' (tf (PCBPool s pcb) + TF_EIP) = get_le32 g 24 \<and> mem s' (tf (PCBPool s pcb) + TF_ESP) = USTACKTOP - 0x80"
  using loader_file_effect [OF assms] by blast

section \<open>A small program\<close>

text \<open>
  The file \<^verbatim>\<open>a\<close> of 86 bytes is an executable with one segment of two bytes from the file and one of zeros at \<^verbatim>\<open>0x401000\<close>.
\<close>

definition elf_bytes :: "nat \<Rightarrow> u8" where
  "elf_bytes k = (case map_of [(0, 0x7F), (1, 0x45), (2, 0x4C), (3, 0x46), (24, 0x01), (25, 0x10), (26, 0x40), (28, 52), (44, 1),
     (56, 84), (61, 0x10), (62, 0x40), (68, 2), (72, 3), (84, 0x90), (85, 0xC3)] k of None \<Rightarrow> 0 | Some b \<Rightarrow> b)"

definition elf_disk :: "nat \<Rightarrow> sector" where
  "elf_disk n k = (if n = 257 then (if k = 0 then 0x61 else if k = 24 then 86 else 0) else if n = 769 then elf_bytes k else 0)"

text \<open>
  The process has the directory in frame 4 and one table, in frame 5; page 3 is in frame 9 and holds the name of the file, the trap frame is in frame 10,
  and the memory is free from frame 16 on.
\<close>

definition load_mem :: wmem where
  "load_mem = (\<lambda>_. 0)(waddr (1024 * 4) := 0x5007, waddr (1024 * 5 + 3) := 0x9007, waddr (1024 * 9) := 0x61)"

definition load_sample :: kernst where
  "load_sample = (trap_sample 0 0 0)\<lparr>mem := load_mem, disk := elf_disk, cr3 := 0x4000,
     pages := (\<lambda>p. \<lparr>pp_link = if Suc p < npages then Some (Suc p) else None, pp_ref = 0\<rparr>), page_free_list := Some 16,
     PCBPool := (\<lambda>_. blank_pcb\<lparr>pgdir := page2kva 4, tf := waddr (1024 * 10)\<rparr>)\<rparr>"

lemma load_sample_simps [simp]:
  "mem load_sample = load_mem" "disk load_sample = elf_disk" "cr3 load_sample = 0x4000" "page_free_list load_sample = Some 16"
  "pgdir (PCBPool load_sample p) = page2kva 4" "tf (PCBPool load_sample p) = waddr (1024 * 10)"
  "st_used (fs load_sample 0) = 0" "length (st_filename (fs load_sample 0)) = 24"
  by (simp_all add: load_sample_def trap_sample_def fs_sample_def upd_pcb_def fsst.defs procst.defs)

lemma load_mem_word:
  "x < 2 ^ 28 \<Longrightarrow> load_mem (waddr x) = (if x = 4096 then 0x5007 else if x = 5123 then 0x9007 else if x = 9216 then 0x61 else 0)"
  by (simp add: load_mem_def)

lemma load_slots:
  "k < 1024 \<Longrightarrow> slot load_mem 4 k = (if k = 0 then Some 5 else None)"
  "k < 1024 \<Longrightarrow> slot load_mem 5 k = (if k = 3 then Some 9 else None)"
  by (simp_all add: slot_def load_mem_word Let_def PTE_P_def PTE_ADDR_def pa2page_def PGNUM_def) 

lemma load_pages: "v < 2 ^ 20 \<Longrightarrow> page_map load_mem 4 v = (if v = 3 then Some 9 else None)"
  by (auto simp: page_map_def load_slots less_mult_imp_div_less)

lemma load_tables: "table_frame load_mem 4 f \<longleftrightarrow> f = 4 \<or> f = 5"
  by (auto simp: table_frame_def load_slots split: if_splits intro: exI [of _ "0 :: nat"])

lemma load_sample_ok: "image_ok 4 16 {3} {10} (lcr3 (page2pa 4) load_sample)"
proof -
  have np: "16 < npages" "16 \<le> npages" by (simp_all add: npages_def)
  have "chain (\<lambda>p. pp_link (pages load_sample p)) (Some 16) [16..<npages]"
    using chain_upward [OF np(2)] np(1) by (simp add: load_sample_def)
  then have "space_ok 4 16 (lcr3 (page2pa 4) load_sample)"
    by (auto simp: space_ok_def free_list_def lcr3_def load_slots split: if_splits)
  then show ?thesis by (simp add: image_ok_def lcr3_def load_pages load_tables np(2))
qed

lemma load_name: "vbyte load_mem 4 0x3000 = Some 0x61" "vbyte load_mem 4 0x3001 = Some 0"
  by (simp_all add: vbyte_def load_pages load_mem_word byte_of_def)

lemma elf_sample:
  assumes g: "\<forall>k < 512. g k = elf_bytes k"
  shows "elf_header g 86 52 1" "elf_segments g 1 52 = [\<lparr>seg_vaddr = 0x401000, seg_memsz = 3, seg_off = 84, seg_filesz = 2\<rparr>]" "get_le32 g 24 = 0x401001"
  using g by (simp_all add: elf_header_def get_le32_def get_le16_def elf_bytes_def ELF_MAGIC_def ph_seg_def Let_def)

theorem loader_file_loads_witness:
  "\<exists>s'. loader_file 0 0x3000 load_sample = Inr (0, s') \<and> vbyte (mem s') 4 0x401000 = Some 0x90 \<and> vbyte (mem s') 4 0x401001 = Some 0xC3 \<and>
     vbyte (mem s') 4 0x401002 = Some 0 \<and> mem s' (waddr (1024 * 10) + TF_EIP) = 0x401001"
proof -
  let ?e = "dec_dir (elf_disk 257) 0"
  have e: "strcmp_field (filename ?e) [0x61] = Inr 0" "cstring (filename ?e) = Inr [0x61]" "file_size ?e = 86" "inode_offset ?e = 0"
    by code_simp+
  obtain s0 where s0: "fs_open_kr [0x61] load_sample = Inr (0, s0)" "st_file_size (fs s0 0) = 86" "st_inode_offset (fs s0 0) = 0" "disk s0 = elf_disk"
    using open_first_entry [of ?e load_sample "[0x61]"] e by auto
  define g where "g = file_byte s0 0"
  have "dec_inode (elf_disk 513) 0 = 0" by (simp add: dec_inode_def get_le32_def elf_disk_def)
  then have c: "ide_sector (LOC_INODE 0) = 513" "ide_sector (LOC_DATA (dec_inode (elf_disk 513) 0)) = 769"
    by (simp_all add: LOC_INODE_def LOC_DATA_def fs_consts ide_sector_eq)
  have g: "\<forall>k < 512. g k = elf_bytes k" by (simp add: g_def file_byte_def s0(4) c) (simp add: elf_disk_def)
  note el = elf_sample [OF g]
  let ?sg = "\<lparr>seg_vaddr = 0x401000, seg_memsz = 3, seg_off = 84, seg_filesz = 2\<rparr>"
  have at: "file_at 0 0 86 g s0" using s0 by (simp add: file_at_def stream_0 g_def)
  have F: "{10} = (\<lambda>j. (1024 * 10 + j) div 1024) ` {..<19 :: nat}" by (auto simp: div_add1_eq intro: rev_image_eqI [of 0])
  have pg: "seg_pages ?sg = [0x401]" by (simp add: seg_pages_def)
  have st: "set stack_pages = {0xBEBF6..<0xBEBFE}" "length stack_pages = 8" "distinct stack_pages" by (simp_all only: stack_pages_def set_upt length_upt distinct_upt)
  define ps where "ps = 0 # segs_pages [?sg] @ stack_pages"
  have ps: "distinct ps" "length ps = 10" "\<forall>p \<in> set ps. page_map load_mem 4 p = None"
    using st by (auto simp: ps_def pg load_pages)
  have nm: "\<forall>k < length [0x61]. vbyte (mem load_sample) 4 (unat (0x3000 :: u32) + k) = Some ([0x61] ! k)"
    "vbyte (mem load_sample) 4 (unat (0x3000 :: u32) + length [0x61 :: u8]) = Some 0"
    "\<forall>k \<le> length [0x61 :: u8]. (unat (0x3000 :: u32) + k) div 4096 \<in> {3}"
    using load_name by (auto simp: le_Suc_eq)
  have fit: "\<forall>sg \<in> set [?sg]. seg_fits 86 sg" by (simp add: seg_fits_def)
  from loader_file_loads [of load_sample 0 4 "1024 * 10" "{10}" 16 "{3}" "[0x61]" "0x3000" 0 s0 0 86 g 52 1 "[?sg]" ps,
      OF _ _ _ F load_sample_ok nm(1,2) _ _ nm(3) s0(1) _ at el(1) el(2) [symmetric] fit ps_def ps(1)]
  obtain s' where s': "loader_file 0 0x3000 load_sample = Inr (0, s')" "seg_loaded 4 g (mem s') ?sg" "mem s' (waddr (1024 * 10) + TF_EIP) = 0x401001"
    using ps(2,3) el(3) by (auto simp: npages_def)
  have "vbyte (mem s') 4 (0x401000 + k) = Some (if k < 2 then g (84 + k) else 0)" if "k < 3" for k
    using s'(2) that by (simp add: seg_loaded_def)
  from this [of 0] this [of 1] this [of 2] show ?thesis using s'(1,3) g by (auto simp: elf_bytes_def)
qed

end
