(* ===== verification/First_Process.thy ===== *)
theory First_Process
  imports Load_Program
begin

text \<open>
  The start of the kernel as a whole: from the state that the boot loader leaves to the first instruction of the shell.  \<^verbatim>\<open>main\<close> of
  \<^verbatim>\<open>src/kernel/src/kernel.c\<close> is followed through the memory: the tables that \<^verbatim>\<open>page_init\<close> builds, the two page directories that \<^verbatim>\<open>pcb_create\<close>
  copies from them, the trap frame of the idle process, and the shell that the loader reads from the disk.
\<close>

section \<open>Opening a file in a later state\<close>

text \<open>Opening depends on the disk, the directory sector in memory and the streams only.\<close>

definition same_files :: "'a fsst_scheme \<Rightarrow> 'a fsst_scheme \<Rightarrow> bool" where
  "same_files s s' \<longleftrightarrow> disk s' = disk s \<and> dir s' = dir s \<and> fs s' = fs s"

lemma readDir_same: "same_files s s' \<Longrightarrow> same_files (readDir o' s) (readDir o' s')"
  by (simp add: same_files_def readDir_def readsect_def)

lemma find_dir_same:
  assumes "same_files s s'" "find_dir n o' test s = Inr (r, t)"
  shows "\<exists>t'. find_dir n o' test s' = Inr (r, t') \<and> same_files t t'"
  using assms
proof (induction n arbitrary: o' s s')
  case (Suc n)
  note p = readDir_same [OF Suc.prems(1), of o']
  obtain x where x: "find_entry NR_ENTRIES 0 test (dir (readDir o' s)) = Inr x" using Suc.prems(2) by (auto simp: Let_def bind_res_eq_Inr)
  have d: "dir (readDir o' s') = dir (readDir o' s)" using p by (simp add: same_files_def)
  show ?case
  proof (cases x)
    case None
    then have "find_dir n (o' + 1) test (readDir o' s) = Inr (r, t)" using Suc.prems(2) x by (simp add: Let_def)
    from Suc.IH [OF p this] show ?thesis using x None d by (simp add: Let_def)
  next
    case (Some e)
    then show ?thesis using Suc.prems(2) x p d by (auto simp: Let_def)
  qed
qed auto

lemma open_stream_same:
  assumes "same_files s s'" "open_stream o' e s = Inr (r, t)"
  shows "\<exists>t'. open_stream o' e s' = Inr (r, t') \<and> same_files t t'"
  using assms
  by (auto simp: same_files_def open_stream_def upd_stream_def Let_def bind_res_eq_Inr split: option.splits)

lemma fs_open_same:
  assumes "same_files s s'" "fs_open_kr name s = Inr (r, t)"
  shows "\<exists>t'. fs_open_kr name s' = Inr (r, t') \<and> same_files t t'"
proof -
  let ?test = "\<lambda>e. bind_res (strcmp_field (filename e) name) (\<lambda>r. Inr (r = 0))"
  obtain x u where x: "find_dir SC_DIR 0 ?test s = Inr (x, u)" using assms(2) by (auto simp: fs_open_kr_def bind_res_eq_Inr)
  obtain u' where u': "find_dir SC_DIR 0 ?test s' = Inr (x, u')" "same_files u u'" using find_dir_same [OF assms(1) x] by blast
  show ?thesis using assms(2) x u' open_stream_same [OF u'(2)] by (auto simp: fs_open_kr_def split: option.splits)
qed

lemma file_at_same:
  assumes "same_files s s'" "file_at fd i sz g s"
  shows "file_at fd i sz g s'"
proof -
  have "file_byte s' ino = file_byte s ino" for ino using assms(1) by (intro ext) (simp add: file_byte_def same_files_def)
  then show ?thesis using assms by (simp add: file_at_def same_files_def)
qed

section \<open>What creating and loading leave alone\<close>

text \<open>\<open>same_kernel s s'\<close>: the addresses of the kernel's variables, its page directory and the files are as before.\<close>

definition same_kernel :: "kernst \<Rightarrow> kernst \<Rightarrow> bool" where
  "same_kernel s s' \<longleftrightarrow> kern_pgdir s' = kern_pgdir s \<and> tfPool_addr s' = tfPool_addr s \<and> PCBPool_addr s' = PCBPool_addr s \<and> same_files s s'"

lemma same_kernel_trans: "same_kernel s s1 \<Longrightarrow> same_kernel s1 s2 \<Longrightarrow> same_kernel s s2"
  by (simp add: same_kernel_def same_files_def)

lemma same_kernel_enready [simp]: "same_kernel s (enready_pcb p s)" "mem (enready_pcb p s) = mem s"
  "tf (PCBPool (enready_pcb p s) q) = tf (PCBPool s q)" "pgdir (PCBPool (enready_pcb p s) q) = pgdir (PCBPool s q)"
  "tt (PCBPool (enready_pcb p s) q) = tt (PCBPool s q)"
  by (auto simp: same_kernel_def same_files_def enready_pcb_def upd_pcb_def Let_def split: option.split)

lemma pcb_create_keeps:
  assumes "pcb_create s = Inr (Some i, s')"
  shows "same_kernel s s'" "tf (PCBPool s' i) = tfPool_addr s + of_nat (TF_SIZE * i)"
proof -
  let ?i = "find_unused PCBPOOLMAX (PCBPool s)"
  let ?s = "upd_pcb ?i (\<lambda>p. p\<lparr>used := 1\<rparr>) (upd_pcb ?i (\<lambda>p. p\<lparr>fcb := (\<lambda>j. if j < FCBMAX then - 1 else fcb p j)\<rparr>)
     (upd_pcb ?i (\<lambda>p. p\<lparr>tf := tfPool_addr s + of_nat (TF_SIZE * ?i)\<rparr>) s))"
  obtain f s1 where a: "page_alloc ALLOC_ZERO ?s = (Some f, s1)" "?i = i"
    and s': "s' = (let s = upd_pcb i (\<lambda>p. p\<lparr>pgdir := page2kva f\<rparr>) s1;
                     s = upd_pcb i (\<lambda>p. p\<lparr>pid := next_pid s\<rparr>) s;
                     s = upd_pcb i (\<lambda>p. p\<lparr>timeslice := 0\<rparr>) s;
                     s = s\<lparr>next_pid := next_pid s + 1\<rparr>;
                     s = page_incref f s
                 in memcpy (page2kva f) (kern_pgdir s) PGSIZE s)"
    using assms by (auto simp: pcb_create_def Let_def split: if_splits prod.splits option.splits)
  have m: "pagingst.more s1 = pagingst.more ?s" by (rule page_alloc_frame [OF a(1)])
  have k: "kern_pgdir s1 = kern_pgdir s" using kern_pgdir_kept(3) [of ALLOC_ZERO ?s] unfolding a(1) by (simp add: upd_pcb_def)
  have f: "PCBPool s1 = PCBPool ?s" "tfPool_addr s1 = tfPool_addr ?s" "PCBPool_addr s1 = PCBPool_addr ?s" "procst.more s1 = procst.more ?s"
    using more_procs [OF m] by simp_all
  have "disk s1 = disk ?s" "dir s1 = dir ?s" "fs s1 = fs ?s" using f(4) by (cases s1; cases ?s; simp)+
  then show "same_kernel s s'" "tf (PCBPool s' i) = tfPool_addr s + of_nat (TF_SIZE * i)"
    using k f(1-3) a(2) by (simp_all add: s' same_kernel_def same_files_def Let_def upd_pcb_def memcpy_def page_incref_def set_page_def)
qed

text \<open>The loader of the idle process writes the trap frame and its copy on the kernel stack.\<close>

lemma set_frame_words:
  assumes "w + 19 \<le> 2 ^ 28" "k < 2 ^ 28" "\<not> (w \<le> k \<and> k < w + 19)"
  shows "mem (set_frame_segments (waddr w) x y s) (waddr k) = mem s (waddr k)"
proof -
  have a: "waddr w + TF_DS = waddr (w + 11)" "waddr w + TF_ES = waddr (w + 10)" "waddr w + TF_SS = waddr (w + 18)" "waddr w + TF_FS = waddr (w + 9)"
    "waddr w + TF_GS = waddr (w + 8)" "waddr w + TF_CS = waddr (w + 15)" "waddr w + TF_EFLAGS = waddr (w + 16)"
    by (simp_all add: tf_offsets waddr_add)
  have "k \<noteq> w + j" if "j < 19" for j using assms(3) that by auto
  then show ?thesis using assms(1,2)
    unfolding set_frame_segments_def Let_def a store16_def by (simp add: store_def)
qed

lemma empty_loader_keeps:
  assumes "tf (PCBPool s p) = waddr w" "w + 19 \<le> 2 ^ 28" "kstacktop_addr s p - 0x80 = waddr u" "u + 19 \<le> 2 ^ 28"
    and "u + 19 \<le> w \<or> w + 19 \<le> u"
  shows "same_kernel s (empty_loader p e s)"
    "k < 2 ^ 28 \<Longrightarrow> \<not> (w \<le> k \<and> k < w + 19) \<Longrightarrow> \<not> (u \<le> k \<and> k < u + 19) \<Longrightarrow> mem (empty_loader p e s) (waddr k) = mem s (waddr k)"
proof -
  show "same_kernel s (empty_loader p e s)"
    by (simp add: same_kernel_def same_files_def empty_loader_def init_pcb_def set_frame_segments_def store16_def store_def memcpy_def upd_pcb_def lcr3_def Let_def)
  assume k: "k < 2 ^ 28" "\<not> (w \<le> k \<and> k < w + 19)" "\<not> (u \<le> k \<and> k < u + 19)"
  have a: "waddr w + TF_ESP = waddr (w + 17)" "waddr w + TF_EIP = waddr (w + 14)" by (simp_all add: tf_offsets waddr_add)
  have ks: "kstacktop_addr (s\<lparr>cr3 := c, entry := v\<rparr>) p = kstacktop_addr s p" for c v by (simp add: kstacktop_addr_def pcb_addr_def)
  let ?s = "(lcr3 (PADDR (pgdir (PCBPool s p))) s)\<lparr>entry := e\<rparr>"
  let ?t = "store (waddr (w + 14)) e (store (waddr (w + 17)) (waddr u) (set_frame_segments (waddr w) GD_KD GD_KT ?s))"
  have m: "mem (empty_loader p e s) = mem (memcpy (waddr u) (waddr w) (TF_SIZE div 4) ?t)"
    using assms(1,3) by (simp add: empty_loader_def init_pcb_def Let_def ks a upd_pcb_def lcr3_def)
  have "TF_SIZE div 4 = 19" by (simp add: TF_SIZE_def)
  then have "mem (empty_loader p e s) (waddr k) = mem ?t (waddr k)"
    using rep_movsl_at [of u 19 w k "mem ?t"] k assms(2,4,5) unfolding m by (simp add: memcpy_def)
  also have "\<dots> = mem ?s (waddr k)"
  proof -
    have "w + 14 \<noteq> k" "w + 17 \<noteq> k" using k(2) by auto
    then show ?thesis using k(1) assms(2) set_frame_words [OF assms(2) k(1,2), of GD_KD GD_KT ?s] by (simp add: store_def)
  qed
  finally show "mem (empty_loader p e s) (waddr k) = mem s (waddr k)" by (simp add: lcr3_def)
qed

section \<open>The memory at the start\<close>

text \<open>
  \<open>start_layout D tk P w N s\<close>: the process descriptors begin at word \<open>P\<close> of the kernel window and the trap frames at word \<open>w\<close>.  What the start writes there (two trap
  frames and the top of the kernel stack of process 0) and the frames \<open>N\<close> are below 4 MiB, outside of the kernel's page directory at word \<open>D\<close> and of its page
  tables in the frames from \<open>tk\<close> on, and in different frames.
\<close>

definition start_frames :: "nat \<Rightarrow> nat \<Rightarrow> nat set" where
  "start_frames P w = (\<lambda>j. (w + j) div 1024) ` {..<38} \<union> (\<lambda>j. (P + 2024 + j) div 1024) ` {..<19}"

definition start_layout :: "nat \<Rightarrow> nat \<Rightarrow> nat \<Rightarrow> nat \<Rightarrow> nat set \<Rightarrow> 'a procst_scheme \<Rightarrow> bool" where
  "start_layout D tk P w N s \<longleftrightarrow> PCBPool_addr s = waddr P \<and> tfPool_addr s = waddr w \<and> D + 4096 \<le> 1024 * 1024 \<and>
     (w + 38 \<le> P + 2024 \<or> P + 2024 + 19 \<le> w) \<and> start_frames P w \<union> N \<subseteq> {..<1024} \<and>
     (start_frames P w \<union> N) \<inter> ({D div 1024} \<union> {tk..<tk + 32}) = {} \<and> start_frames P w \<inter> N = {}"

lemma start_frames_outside:
  assumes "x div 1024 \<notin> start_frames P w"
  shows "\<not> (w \<le> x \<and> x < w + 38)" "\<not> (P + 2024 \<le> x \<and> x < P + 2024 + 19)"
proof -
  have "(w + j) div 1024 \<in> start_frames P w" if "j < 38" for j using that by (auto simp: start_frames_def)
  from this [of "x - w"] show "\<not> (w \<le> x \<and> x < w + 38)" using assms by (auto simp: less_diff_conv2)
  have "(P + 2024 + j) div 1024 \<in> start_frames P w" if "j < 19" for j using that by (auto simp: start_frames_def)
  from this [of "x - (P + 2024)"] show "\<not> (P + 2024 \<le> x \<and> x < P + 2024 + 19)" using assms by (auto simp: less_diff_conv2)
qed

lemma kernel_dir_cong:
  assumes "kernel_dir D n m" "\<forall>k < 1024. dir_slot m' D k = dir_slot m D k" "n \<le> n'"
  shows "kernel_dir D n' m'"
  using assms unfolding kernel_dir_def by (metis order_less_le_trans)

text \<open>Both processes are created: the address space of the second one is a copy of the kernel's, and the memory has changed in the given places only.\<close>

lemma processes_created:
  fixes s2 :: kernst
  assumes l: "start_layout D tk P w N s2" "D mod 1024 = 0"
    and idle: "free_list s2 [1025..<npages]" "started 0 s2" "pcb_create s2 = Inr (Some 0, s3)" "kern_pgdir s2 = waddr D" "kernel_dir D 1025 (mem s2)"
    and shell: "s = enready_pcb 0 (empty_loader 0 e s3)" "free_list s [1026..<npages]" "started 1 s" "pcb_create s = Inr (Some 1, s4)"
  shows "same_kernel s2 s4" "tf (PCBPool s4 1) = waddr (w + 19)" "pgdir (PCBPool s4 1) = page2kva 1026" "space_ok 1026 1027 s4"
    "\<forall>k < 1024. slot (mem s4) 1026 k = dir_slot (mem s2) D k"
    "\<forall>x < 1024 * 1025. x div 1024 \<notin> start_frames P w \<longrightarrow> mem s4 (waddr x) = mem s2 (waddr x)"
proof -
  have lay: "PCBPool_addr s2 = waddr P" "tfPool_addr s2 = waddr w" "D + 4096 \<le> 1024 * 1024" "w + 38 \<le> P + 2024 \<or> P + 2024 + 19 \<le> w"
    "start_frames P w \<subseteq> {..<1024}" "D div 1024 \<notin> start_frames P w" using l(1) by (auto simp: start_layout_def)
  have np: "1025 < npages" "1026 < npages" by (simp_all add: npages_def)
  have u2: "find_unused PCBPOOLMAX (PCBPool s2) = 0" "find_unused PCBPOOLMAX (PCBPool s) = 1"
    using idle(2) shell(3) by (auto simp: started_def PCBPOOLMAX_def intro!: find_unused_started)
  have w3: "\<forall>x < 1024 * 1025. mem s3 (waddr x) = mem s2 (waddr x)"
    using pcb_create_space [OF idle(1) np(1) idle(4) _ idle(5) u2(1)] lay(3) idle(3) by (auto simp: PCBPOOLMAX_def)
  note k3 = pcb_create_keeps [OF idle(3)]
  have t3: "tf (PCBPool s3 0) = waddr w" using k3(2) lay(2) by simp
  have "kstacktop_addr s3 0 - 0x80 = waddr (P + 2024)"
    using k3(1) lay(1) by (simp add: same_kernel_def kstacktop_addr_def pcb_addr_def waddr_add)
  moreover have "w div 1024 \<in> start_frames P w" "(P + 2024) div 1024 \<in> start_frames P w"
    unfolding start_frames_def by (force intro: rev_image_eqI [of 0])+
  then have "w div 1024 < 1024" "(P + 2024) div 1024 < 1024" using lay(5) by auto
  then have bw: "w + 19 \<le> 2 ^ 28" "P + 2024 + 19 \<le> 2 ^ 28" by simp_all
  ultimately have e: "same_kernel s3 (empty_loader 0 e s3)"
    "\<And>x. x < 2 ^ 28 \<Longrightarrow> \<not> (w \<le> x \<and> x < w + 19) \<Longrightarrow> \<not> (P + 2024 \<le> x \<and> x < P + 2024 + 19) \<Longrightarrow> mem (empty_loader 0 e s3) (waddr x) = mem s3 (waddr x)"
    using empty_loader_keeps [OF t3 bw(1) _ bw(2)] lay(4) by auto
  have ks: "same_kernel s2 s" unfolding shell(1)
    by (rule same_kernel_trans [OF same_kernel_trans [OF k3(1) e(1)] same_kernel_enready(1)])
  have ws: "mem s (waddr x) = mem s2 (waddr x)" if "x < 1024 * 1025" "x div 1024 \<notin> start_frames P w" for x
    using e(2) [of x] w3 that start_frames_outside [OF that(2)] by (auto simp: shell(1))
  have "(D + k) div 1024 = D div 1024" if "k < 1024" for k using that l(2) by (simp add: div_add1_eq [of D k])
  then have dd: "\<forall>k < 1024. dir_slot (mem s) D k = dir_slot (mem s2) D k" using ws lay(3,6) by (simp add: dir_slot_def)
  have kd: "kern_pgdir s = waddr D" "tfPool_addr s = waddr w" using ks idle(4) lay(2) by (simp_all add: same_kernel_def)
  have "kernel_dir D 1026 (mem s)" by (rule kernel_dir_cong [OF idle(5) dd]) simp
  from pcb_create_space [OF shell(2) np(2) kd(1) _ this u2(2)] lay(3) shell(4)
  have c: "pgdir (PCBPool s4 1) = page2kva 1026" "space_ok 1026 (Suc 1026) s4" "\<forall>k < 1024. slot (mem s4) 1026 k = dir_slot (mem s) D k"
    "\<forall>k < 1024 * 1026. mem s4 (waddr k) = mem s (waddr k)" by (auto simp: PCBPOOLMAX_def)
  note k4 = pcb_create_keeps [OF shell(4)]
  show "same_kernel s2 s4" by (rule same_kernel_trans [OF ks k4(1)])
  show "tf (PCBPool s4 1) = waddr (w + 19)" using k4(2) kd(2) by (simp add: TF_SIZE_def waddr_add)
  show "pgdir (PCBPool s4 1) = page2kva 1026" "space_ok 1026 1027 s4" using c by simp_all
  show "\<forall>k < 1024. slot (mem s4) 1026 k = dir_slot (mem s2) D k" using c(3) dd by simp
  show "\<forall>x < 1024 * 1025. x div 1024 \<notin> start_frames P w \<longrightarrow> mem s4 (waddr x) = mem s2 (waddr x)" using c(4) ws by simp
qed

section \<open>The address space of the shell\<close>

text \<open>\<open>shell_space tk A m0 m\<close>: directory 1026 has the kernel's tables, and the words of the first 1025 frames are as in \<open>m0\<close>, outside of the frames \<open>A\<close>.\<close>

definition shell_space :: "nat \<Rightarrow> nat set \<Rightarrow> wmem \<Rightarrow> wmem \<Rightarrow> bool" where
  "shell_space tk A m0 m \<longleftrightarrow>
     (\<forall>k < 1024. slot m 1026 k = (if k = 0 then Some 1024 else if 768 \<le> k \<and> k < 800 then Some (tk + (k - 768)) else None)) \<and>
     (\<forall>x < 1024 * 1025. x div 1024 \<notin> A \<longrightarrow> m (waddr x) = m0 (waddr x))"

lemma shell_tables:
  assumes "shell_space tk A m0 m"
  shows "table_frame m 1026 f \<longleftrightarrow> f = 1026 \<or> f = 1024 \<or> tk \<le> f \<and> f < tk + 32"
proof
  have s: "slot m 1026 k = (if k = 0 then Some 1024 else if 768 \<le> k \<and> k < 800 then Some (tk + (k - 768)) else None)" if "k < 1024" for k
    using assms that by (simp add: shell_space_def)
  {
    assume "table_frame m 1026 f"
    then consider "f = 1026" | k where "k < 1024" "slot m 1026 k = Some f" by (auto simp: table_frame_def)
    then show "f = 1026 \<or> f = 1024 \<or> tk \<le> f \<and> f < tk + 32"
    proof cases
      case 2
      then show ?thesis using s [OF 2(1)] by (auto split: if_splits)
    qed simp
  }
  assume "f = 1026 \<or> f = 1024 \<or> tk \<le> f \<and> f < tk + 32"
  then consider "f = 1026" | "f = 1024" | "tk \<le> f" "f < tk + 32" by auto
  then show "table_frame m 1026 f"
  proof cases
    case 2
    then show ?thesis using s [of 0] by (auto simp: table_frame_def intro: exI [of _ "0 :: nat"])
  next
    case 3
    then have "slot m 1026 (768 + (f - tk)) = Some f" using s [of "768 + (f - tk)"] by auto
    moreover have "768 + (f - tk) < 1024" using 3 by auto
    ultimately show ?thesis unfolding table_frame_def by blast
  qed (simp add: table_frame_def)
qed

lemma shell_pages:
  assumes sp: "shell_space tk A (mem (page_init s)) m" and b: "boot_state D (1024 * tk) s" and A: "A \<subseteq> {..<1024}" "A \<inter> {tk..<tk + 32} = {}"
  shows "q < 1024 \<Longrightarrow> page_map m 1026 (0xC0000 + q) = Some q" "page_map m 1026 0 = None" "1024 \<le> v \<Longrightarrow> v < 0xC0000 \<Longrightarrow> page_map m 1026 v = None"
proof -
  let ?m = "mem (page_init s)"
  have sl: "slot m 1026 k = (if k = 0 then Some 1024 else if 768 \<le> k \<and> k < 800 then Some (tk + (k - 768)) else None)" if "k < 1024" for k
    using sp that by (simp add: shell_space_def)
  have wd: "m (waddr (1024 * f + k)) = ?m (waddr (1024 * f + k))" if "f < 1025" "k < 1024" "f \<notin> A" for f k
  proof -
    have "(1024 * f + k) div 1024 = f" "1024 * f + k < 1024 * 1025" using that(1,2) by simp_all
    then show ?thesis using sp that(3) by (simp add: shell_space_def)
  qed
  have tk: "tk + 32 \<le> 1024" using b by (simp add: boot_state_def)
  obtain m0 where i: "?m = m0" "\<forall>k. 1024 * tk \<le> k \<and> k < 1024 * tk + 32768 \<longrightarrow> m0 (waddr k) = of_nat ((k - 1024 * tk) * PGSIZE) OR PTE_P OR PTE_U OR PTE_W"
    "\<forall>j < 160. m0 (waddr (1024 * 1024 + j)) = 0"
    using page_init_words [OF b] by (elim exE conjE)
  show "page_map m 1026 (0xC0000 + q) = Some q" if q: "q < 1024"
  proof -
    have "(0xC0000 + q) div 1024 = 768" "(0xC0000 + q) mod 1024 = q" using q by (simp_all add: div_add1_eq mod_add_eq [symmetric])
    moreover have "slot m 1026 768 = Some tk" using sl [of 768] by simp
    moreover have "slot m tk q = Some q"
    proof (rule slot_entry [of q "PTE_P OR PTE_U OR PTE_W"])
      have "tk \<notin> A" using A(2) by auto
      then have "m (waddr (1024 * tk + q)) = ?m (waddr (1024 * tk + q))" using wd tk q by simp
      also have "\<dots> = of_nat (q * PGSIZE) OR PTE_P OR PTE_U OR PTE_W" using i(2) [rule_format, of "1024 * tk + q"] q by (simp add: i(1))
      also have "of_nat (q * PGSIZE) = page2pa q" by (simp add: page2pa_nat PGSIZE_def mult.commute)
      finally show "m (waddr (1024 * tk + q)) = page2pa q OR (PTE_P OR PTE_U OR PTE_W)" by (simp add: or.assoc)
    qed (use q in \<open>simp_all add: pg_consts\<close>)
    ultimately show ?thesis by (simp add: page_map_def)
  qed
  have "m (waddr (1024 * 1024 + 0)) = 0" using wd [of 1024 0] A(1) i(3) [rule_format, of 0] by (auto simp: i(1))
  then show "page_map m 1026 0 = None" using sl [of 0] by (simp add: page_map_def slot_def)
  show "page_map m 1026 v = None" if "1024 \<le> v" "v < 0xC0000"
  proof -
    have "v div 1024 < 768" "v div 1024 \<noteq> 0" using that by auto
    then show ?thesis using sl [of "v div 1024"] by (simp add: page_map_def)
  qed
qed

text \<open>The kernel's constants are where they were, seen through the new directory.\<close>

lemma shell_byte:
  assumes sp: "shell_space tk A (mem (page_init s)) m" and b: "boot_state D (1024 * tk) s" and A: "A \<subseteq> {..<1024}" "A \<inter> {tk..<tk + 32} = {}"
    and a: "a div 4096 < 1024" "a div 4096 \<notin> A \<union> {D div 1024} \<union> {tk..<tk + 32}" "D mod 1024 = 0"
  shows "vbyte m 1026 (0xC0000000 + a) = Some (byte_of (a mod 4) (mem s (waddr (a div 4))))"
proof -
  let ?m = "mem (page_init s)"
  have "a mod 4096 = 4 * (a div 4 mod 1024) + a mod 4" using mod_mult2_eq [of a 4 1024] by simp
  then have "a mod 4096 div 4 = a div 4 mod 1024" by simp
  moreover have f: "a div 4 div 1024 = a div 4096" by (simp flip: div_mult2_eq)
  ultimately have x: "1024 * (a div 4096) + a mod 4096 div 4 = a div 4" using mult_div_mod_eq [of 1024 "a div 4"] by simp
  have "(0xC0000000 + a) div 4096 = 0xC0000 + a div 4096" "(0xC0000000 + a) mod 4096 = a mod 4096" "(0xC0000000 + a) mod 4 = a mod 4"
    using mod_mult_self2 [of a 786432 4096] by (simp_all add: div_add1_eq mod_add_eq [symmetric])
  then have "vbyte m 1026 (0xC0000000 + a) = Some (byte_of (a mod 4) (m (waddr (a div 4))))"
    using shell_pages(1) [OF sp b A a(1)] by (simp add: vbyte_def x)
  moreover have "m (waddr (a div 4)) = ?m (waddr (a div 4))" using sp a(1,2) f by (simp add: shell_space_def)
  moreover have "?m (waddr (a div 4)) = mem s (waddr (a div 4))"
  proof -
    have "a div 4 < 1024 * 1024" using a(1) by simp
    moreover have "\<not> (D \<le> a div 4 \<and> a div 4 < D + 1024)"
    proof
      assume "D \<le> a div 4 \<and> a div 4 < D + 1024"
      then have "a div 4 div 1024 = D div 1024" using a(3) by (intro div_nat_eqI) auto
      then show False using a(2) f by auto
    qed
    moreover have "\<not> (1024 * tk \<le> a div 4 \<and> a div 4 < 1024 * tk + 32768)"
    proof
      assume "1024 * tk \<le> a div 4 \<and> a div 4 < 1024 * tk + 32768"
      then have "tk \<le> a div 4 div 1024" "a div 4 div 1024 < tk + 32" by auto
      then show False using a(2) f by auto
    qed
    moreover obtain m0 where "?m = m0" "\<forall>k < 1024 * 1024. \<not> (D \<le> k \<and> k < D + 1024) \<and> \<not> (1024 * tk \<le> k \<and> k < 1024 * tk + 32768) \<longrightarrow> m0 (waddr k) = mem s (waddr k)"
      using page_init_words [OF b] by (elim exE conjE)
    ultimately show ?thesis by simp
  qed
  ultimately show ?thesis by simp
qed

section \<open>The kernel starts\<close>

text \<open>What the loader of the shell finds.\<close>

lemma shell_ready:
  assumes boot: "fresh_kernel D (1024 * tk) s" "\<forall>k < 1024. mem s (waddr (D + k)) = 0" and lay: "start_layout D tk P w N s"
    and fs: "init_fs stk (page_init s) = Inr s1" and s2: "s2 = printk_str str (init_pcb_pool s1)"
    and idle: "free_list s2 [1025..<npages]" "started 0 s2" "pcb_create s2 = Inr (Some 0, s3)"
    and shell: "t = enready_pcb 0 (empty_loader 0 e s3)" "free_list t [1026..<npages]" "started 1 t" "pcb_create t = Inr (Some 1, s4)"
  shows "same_files s1 s4" "tf (PCBPool s4 1) = waddr (w + 19)" "pgdir (PCBPool s4 1) = page2kva 1026" "space_ok 1026 1027 s4"
    "shell_space tk (start_frames P w) (mem (page_init s)) (mem s4)"
proof -
  have b: "boot_state D (1024 * tk) s" using boot(1) by (simp add: fresh_kernel_def)
  have D: "D mod 1024 = 0" using b by (simp add: boot_state_def tables_apart_def)
  note e = init_fs_frame [OF fs]
  have p1: "mem s1 = mem (page_init s)" "kern_pgdir s1 = kern_pgdir (page_init s)" "PCBPool_addr s1 = PCBPool_addr s" "tfPool_addr s1 = tfPool_addr s"
    using e page_init_frame [of s] by (cases s1; cases "page_init s"; cases s; simp add: fs_erase_def)+
  have "init_pcb_pool s1 = s1\<lparr>PCBPool := PCBPool (init_pcb_pool s1)\<rparr>" unfolding init_pcb_pool_def by (rule init_pool_rest)
  then have "\<exists>P. s2 = printk_str str (s1\<lparr>PCBPool := P\<rparr>)" unfolding s2 by metis
  then have p2: "mem s2 = mem s1" "kern_pgdir s2 = kern_pgdir s1" "PCBPool_addr s2 = PCBPool_addr s1" "tfPool_addr s2 = tfPool_addr s1" "same_files s1 s2"
    by (auto simp: printk_str_def same_files_def)
  have kd: "kern_pgdir s2 = waddr D" using page_init_effect [OF b] p1(2) p2(2) by auto
  have l2: "start_layout D tk P w N s2" using lay p1 p2 by (simp add: start_layout_def)
  have k2: "kernel_dir D 1025 (mem s2)" using page_init_kernel_dir [OF b boot(2)] p1(1) p2(1) by simp
  note c = processes_created [OF l2 D idle kd k2 shell]
  show "same_files s1 s4" using p2(5) c(1) by (simp add: same_kernel_def same_files_def)
  show "tf (PCBPool s4 1) = waddr (w + 19)" "pgdir (PCBPool s4 1) = page2kva 1026" "space_ok 1026 1027 s4" by (rule c)+
  show "shell_space tk (start_frames P w) (mem (page_init s)) (mem s4)"
    unfolding shell_space_def using c(5,6) page_init_dir [OF b boot(2)] p1(1) p2(1) by simp
qed

lemma shell_image_ok:
  assumes b: "boot_state D (1024 * tk) s" and lay: "start_layout D tk P w N s" and sp: "shell_space tk (start_frames P w) (mem (page_init s)) (mem s4)"
    and ok: "space_ok 1026 1027 s4" and F: "F \<subseteq> start_frames P w"
  shows "image_ok 1026 1027 ((+) 0xC0000 ` N) F (lcr3 (page2pa 1026) s4)"
proof -
  let ?A = "start_frames P w"
  have A: "?A \<subseteq> {..<1024}" "?A \<inter> {tk..<tk + 32} = {}" and N: "N \<subseteq> {..<1024}" "N \<inter> {tk..<tk + 32} = {}" "?A \<inter> N = {}"
    using lay by (auto simp: start_layout_def)
  have pm: "page_map (mem s4) 1026 (0xC0000 + q) = Some q" if "q \<in> N" for q using shell_pages(1) [OF sp b A] N(1) that by blast
  have plain: "\<not> table_frame (mem s4) 1026 q" "q < 1024" if "q \<in> N \<union> F" for q
    using that A N F unfolding shell_tables [OF sp] by auto
  have "space_ok 1026 1027 (lcr3 (page2pa 1026) s4)" using ok by (simp add: space_ok_def free_list_def lcr3_def)
  moreover have "(+) 0xC0000 ` N \<subseteq> {..<2 ^ 20}" using N(1) by auto
  moreover have "\<exists>f < 1027. page_map (mem s4) 1026 v = Some f \<and> \<not> table_frame (mem s4) 1026 f \<and> f \<notin> F" if v: "v \<in> (+) 0xC0000 ` N" for v
  proof -
    obtain q where q: "v = 0xC0000 + q" "q \<in> N" using v by auto
    then show ?thesis using pm [OF q(2)] plain [of q] N(3) F by auto
  qed
  moreover have "inj_on (page_map (mem s4) 1026) ((+) 0xC0000 ` N)" using pm by (auto simp: inj_on_def)
  moreover have "f < 1027 \<and> \<not> table_frame (mem s4) 1026 f" if "f \<in> F" for f using plain [of f] that by auto
  ultimately show ?thesis by (simp add: image_ok_def lcr3_def npages_def)
qed

text \<open>The name of the shell, read through its own directory.\<close>

lemma shell_name:
  assumes b: "boot_state D (1024 * tk) s" and lay: "start_layout D tk P w N s" and sp: "shell_space tk (start_frames P w) (mem (page_init s)) m"
    and name: "fname = KERNBASE + of_nat a"
      "\<forall>j \<le> length name. (a + j) div 4096 \<in> N \<and> byte_of ((a + j) mod 4) (mem s (waddr ((a + j) div 4))) = (name @ [0]) ! j"
  shows "\<forall>j < length name. vbyte m 1026 (unat fname + j) = Some (name ! j)" "vbyte m 1026 (unat fname + length name) = Some 0"
    "unat fname + length name < 2 ^ 32" "\<forall>j \<le> length name. (unat fname + j) div 4096 \<in> (+) 0xC0000 ` N"
proof -
  let ?A = "start_frames P w"
  have D: "D mod 1024 = 0" using b by (simp add: boot_state_def tables_apart_def)
  have A: "?A \<subseteq> {..<1024}" "?A \<inter> {tk..<tk + 32} = {}" and N: "N \<subseteq> {..<1024}" "N \<inter> (?A \<union> {D div 1024} \<union> {tk..<tk + 32}) = {}"
    using lay by (auto simp: start_layout_def)
  have an: "(a + j) div 4096 < 1024" if "j \<le> length name" for j using name(2) N(1) that by auto
  have "(a + length name) div 4096 < 1024" by (rule an) simp
  then have la: "a + length name < 4194304" by simp
  have ua: "unat fname = 0xC0000000 + a" unfolding name(1) using unat_kern [of a] la by simp
  have nb: "vbyte m 1026 (unat fname + j) = Some ((name @ [0]) ! j)" if "j \<le> length name" for j
  proof -
    have "(a + j) div 4096 \<notin> ?A \<union> {D div 1024} \<union> {tk..<tk + 32}" using name(2) that N(2) by blast
    from shell_byte [OF sp b A an [OF that] this D] show ?thesis using name(2) that by (simp add: ua add.assoc)
  qed
  show "\<forall>j < length name. vbyte m 1026 (unat fname + j) = Some (name ! j)" using nb by (simp add: nth_append)
  show "vbyte m 1026 (unat fname + length name) = Some 0" using nb [of "length name"] by simp
  show "unat fname + length name < 2 ^ 32" using la ua by simp
  have "(unat fname + j) div 4096 = 0xC0000 + (a + j) div 4096" for j
    unfolding ua using div_mult_self3 [of 4096 786432 "a + j"] by (simp add: add.assoc)
  then show "\<forall>j \<le> length name. (unat fname + j) div 4096 \<in> (+) 0xC0000 ` N" using name(2) by simp
qed

text \<open>Room for the segments and the stack.\<close>

lemma program_pages:
  assumes "distinct q" "\<forall>p \<in> set q. 1024 \<le> p \<and> p < 0xBEBF6" "1045 + 2 * length q \<le> npages"
    and pm: "page_map m d 0 = None" "\<And>v. 1024 \<le> v \<Longrightarrow> v < 0xC0000 \<Longrightarrow> page_map m d v = None"
  defines "ps \<equiv> 0 # q @ stack_pages"
  shows "distinct ps" "\<forall>p \<in> set ps. page_map m d p = None" "1027 + 2 * length ps \<le> npages"
proof -
  have sp: "set stack_pages = {0xBEBF6..<0xBEBFE}" "length stack_pages = 8" "distinct stack_pages" by (simp_all only: stack_pages_def set_upt length_upt distinct_upt)
  have "0 \<notin> set q" "set q \<inter> set stack_pages = {}" using assms(2) unfolding sp(1) by force+
  moreover have "\<forall>p \<in> set q \<union> set stack_pages. page_map m d p = None" using assms(2) unfolding sp(1) by (auto intro!: pm(2))
  ultimately show "distinct ps" "\<forall>p \<in> set ps. page_map m d p = None" "1027 + 2 * length ps \<le> npages"
    unfolding ps_def using assms(1,3) sp(2,3) pm(1) by (auto simp: sp(1))
qed

lemma dispatch_keeps:
  assumes "do_scheduler s = Inr (Switched s')"
  shows "mem s' = mem s" "tf (PCBPool s' p) = tf (PCBPool s p)" "tt (PCBPool s' p) = tt (PCBPool s p)"
    "pgdir (PCBPool s' p) = pgdir (PCBPool s p)"
proof -
  have f: "sched_frame s' = sched_frame s" using do_scheduler_frame [OF assms] by simp
  then show "mem s' = mem s" by (rule sched_frame_eqD)
  have "pcb_frame (PCBPool s' p) = pcb_frame (PCBPool s p)" using f unfolding sched_frame_def by (cases s; cases s') (simp add: fun_eq_iff)
  then show "tf (PCBPool s' p) = tf (PCBPool s p)" "tt (PCBPool s' p) = tt (PCBPool s p)" "pgdir (PCBPool s' p) = pgdir (PCBPool s p)"
    by (cases "PCBPool s' p"; cases "PCBPool s p"; simp add: pcb_frame_def)+
qed

text \<open>
  C4. The kernel starts: let static storage be clear, the kernel's variables lie below 4 MiB and apart from each other, and the disk have a readable \<^verbatim>\<open>test.txt\<close> and,
  under the name in the kernel's constant, an executable whose segments fit the file and the address space of a program.  Then \<^verbatim>\<open>main\<close> does not
  fault and ends by dispatching the shell: process 1 runs in an address space with all segments of the executable, its trap frame at the entry point with the stack
  pointer at the top of the stack; the idle process is ready behind it, marked as a kernel task; the state satisfies the invariant that interrupts keep; descriptor
  tables, gates and devices are set up.
\<close>

theorem kernel_main_starts:
  assumes boot: "fresh_kernel D (1024 * tk) (kern m)" "\<forall>j < 1024. mem (kern m) (waddr (D + j)) = 0" "start_layout D tk P w N (kern m)"
    and name: "cshell_str k = KERNBASE + of_nat a" "0 \<notin> set name"
      "\<forall>j \<le> length name. (a + j) div 4096 \<in> N \<and> byte_of ((a + j) mod 4) (mem (kern m) (waddr ((a + j) div 4))) = (name @ [0]) ! j"
    and files: "init_fs (fs_stack k) (page_init (kern m)) = Inr s1" "fs_open_kr name s1 = Inr (fd, s0)" "fd \<noteq> - 1" "file_at fd i sz g s0"
    and elf: "elf_header g sz ph c" "segs = elf_segments g c ph" "\<forall>sg \<in> set segs. seg_fits sz sg"
    and room: "distinct (segs_pages segs)" "\<forall>p \<in> set (segs_pages segs). 1024 \<le> p \<and> p < 0xBEBF6" "1045 + 2 * length (segs_pages segs) \<le> npages"
  shows "\<exists>m'. kernel_main k m = Inr (Switched m') \<and> kernel_ok 0 (started_queues 1) (kern m') \<and> dispatched 1 (kern m') \<and>
    tt (PCBPool (kern m') 0) = KERNEL \<and> tt (PCBPool (kern m') 1) = USER \<and> cr3 (kern m') = page2pa 1026 \<and>
    (\<forall>sg \<in> set segs. seg_loaded 1026 g (mem (kern m')) sg) \<and>
    mem (kern m') (tf (PCBPool (kern m') 1) + TF_EIP) = get_le32 g 24 \<and> mem (kern m') (tf (PCBPool (kern m') 1) + TF_ESP) = USTACKTOP - 0x80 \<and>
    desc m' = init_segment (gdt_addr k) (tss_addr k) (desc m) \<and> (idtr m', gates m') = init_idt (idt_addr k) (handlers k) (gates m) \<and>
    ports m' = ports m @ init_serial @ init_timer @ init_intr"
proof -
  let ?A = "start_frames P w" and ?V = "(+) 0xC0000 ` N" and ?F = "(\<lambda>j. (w + 19 + j) div 1024) ` {..<19}"
  have b: "boot_state D (1024 * tk) (kern m)" using boot(1) by (simp add: fresh_kernel_def)
  have A: "?A \<subseteq> {..<1024}" "?A \<inter> {tk..<tk + 32} = {}" using boot(3) by (auto simp: start_layout_def)
  have F: "?F \<subseteq> ?A"
  proof
    fix f assume "f \<in> ?F"
    then obtain j where "j < 19" "f = (w + (19 + j)) div 1024" by (auto simp: add.assoc)
    then show "f \<in> ?A" unfolding start_frames_def by (intro UnI1 image_eqI [of _ _ "19 + j"]) auto
  qed
  define s2 where "s2 = printk_str (''This is kernel!'' @ NL) (init_pcb_pool s1)"
  obtain s3 s4 where r: "pcb_create s2 = Inr (Some 0, s3)" "free_list s2 [1025..<npages]" "started 0 s2"
      "pcb_create (enready_pcb 0 (empty_loader 0 (idle_addr k) s3)) = Inr (Some 1, s4)"
      "free_list (enready_pcb 0 (empty_loader 0 (idle_addr k) s3)) [1026..<npages]" "started 1 (enready_pcb 0 (empty_loader 0 (idle_addr k) s3))"
    and main: "case loader_file 1 (cshell_str k) s4 of
       Inl e \<Rightarrow> kernel_main k m = Inl e
     | Inr (r, s5) \<Rightarrow> \<exists>s6. do_scheduler (enready_pcb 1 s5) = Inr (Switched s6) \<and> kernel_ok 0 (started_queues 1) s6 \<and> dispatched 1 s6 \<and>
         tt (PCBPool s6 0) = KERNEL \<and> kernel_main k m = Inr (Switched (m\<lparr>desc := init_segment (gdt_addr k) (tss_addr k) (desc m),
           idtr := fst (init_idt (idt_addr k) (handlers k) (gates m)), gates := snd (init_idt (idt_addr k) (handlers k) (gates m)),
           ports := ports m @ init_serial @ init_timer @ init_intr, kern := s6\<rparr>))"
    using kernel_main_runs [OF boot(1) files(1) s2_def] by blast
  note s4 = shell_ready [OF boot files(1) s2_def r(2,3,1) refl r(5,6,4)]
  note pm = shell_pages [OF s4(5) b A]
  have ok: "image_ok 1026 1027 ?V ?F (lcr3 (page2pa 1026) s4)" by (rule shell_image_ok [OF b boot(3) s4(5,4) F])
  obtain s0' where o: "fs_open_kr name s4 = Inr (fd, s0')" "file_at fd i sz g s0'"
    using fs_open_same [OF s4(1) files(2)] file_at_same [OF _ files(4)] by blast
  note nm = shell_name [OF b boot(3) s4(5) name(1,3)]
  note ps = program_pages [OF room pm(2,3)]
  have w: "w + 19 + 19 \<le> 2 ^ 28"
  proof -
    have "(w + 37) div 1024 \<in> ?A" unfolding start_frames_def by (intro UnI1 image_eqI [of _ _ 37]) auto
    then have "(w + 37) div 1024 < 1024" using A(1) by auto
    then show ?thesis by simp
  qed
  obtain s5 where s5: "loader_file 1 (cshell_str k) s4 = Inr (0, s5)" "\<forall>sg \<in> set segs. seg_loaded 1026 g (mem s5) sg" "tt (PCBPool s5 1) = USER"
      "mem s5 (tf (PCBPool s4 1) + TF_EIP) = get_le32 g 24" "mem s5 (tf (PCBPool s4 1) + TF_ESP) = USTACKTOP - 0x80" "tf (PCBPool s5 1) = tf (PCBPool s4 1)"
    using loader_file_effect [OF s4(3,2) w refl ok nm(1,2) name(2) nm(3,4) o(1) files(3) o(2) elf refl ps] by blast
  obtain s6 where s6: "do_scheduler (enready_pcb 1 s5) = Inr (Switched s6)" "kernel_ok 0 (started_queues 1) s6" "dispatched 1 s6" "tt (PCBPool s6 0) = KERNEL"
    and m': "kernel_main k m = Inr (Switched (m\<lparr>desc := init_segment (gdt_addr k) (tss_addr k) (desc m),
           idtr := fst (init_idt (idt_addr k) (handlers k) (gates m)), gates := snd (init_idt (idt_addr k) (handlers k) (gates m)),
           ports := ports m @ init_serial @ init_timer @ init_intr, kern := s6\<rparr>))"
    using main unfolding s5(1) by auto
  note d = dispatch_keeps [OF s6(1)]
  have "same_procs 1 s4 s5" by (rule loader_file_frame [OF s5(1)])
  then have "(PCBPool s5 1)\<lparr>tf := 0, tt := KERNEL\<rparr> = (PCBPool s4 1)\<lparr>tf := 0, tt := KERNEL\<rparr>" by (simp add: same_procs_def)
  then have "pgdir (PCBPool s5 1) = pgdir (PCBPool s4 1)" by (cases "PCBPool s5 1"; cases "PCBPool s4 1") simp
  then have "cr3 s6 = page2pa 1026" using s6(3) d(4) [of 1] s4(3) by (simp add: dispatched_def page2kva_PADDR)
  then show ?thesis using s6 d(1) d(2) [of 1] d(3) [of 1] s5(2-6) unfolding m' by simp
qed

section \<open>A kernel that starts\<close>

text \<open>Opening a file of the first directory sector.\<close>

lemma open_entry:
  assumes e: "find_entry NR_ENTRIES 0 (\<lambda>e. bind_res (strcmp_field (filename e) name) (\<lambda>r. Inr (r = 0))) (dec_dir (disk s 257)) = Inr (Some j)"
    "cstring (filename (dec_dir (disk s 257) j)) = Inr name" "length name < 24"
    and f: "st_used (fs s 0) = 0" "length (st_filename (fs s 0)) = 24"
  shows "\<exists>s1. fs_open_kr name s = Inr (0, s1) \<and> st_offset (fs s1 0) = 0 \<and> st_file_size (fs s1 0) = file_size (dec_dir (disk s 257) j) \<and>
    st_inode_offset (fs s1 0) = inode_offset (dec_dir (disk s 257) j) \<and> st_used (fs s1 0) = 1 \<and> length (st_filename (fs s1 0)) = 24 \<and> disk s1 = disk s"
proof -
  let ?s = "readDir 0 s"
  have loc: "ide_sector (LOC_DIR 0) = 257" by (simp add: LOC_DIR_def ide_sector_eq)
  have d: "dir ?s = dec_dir (disk s 257)" by (simp add: readDir_def readsect_eq loc)
  have r: "fs ?s = fs s" "disk ?s = disk s" by (simp_all add: readDir_def)
  have "0 < SC_DIR" "0 < NR_FILE_STREAM" by (simp_all add: fs_consts)
  then obtain n1 n3 where n: "SC_DIR = Suc n1" "NR_FILE_STREAM = Suc n3" by (meson gr0_implies_Suc)
  have "fs_open_kr name s = open_stream 0 j ?s" by (simp add: fs_open_kr_def n(1) Let_def d e(1))
  moreover have "strcpy_field (st_filename (fs s 0)) name = Inr (name @ 0 # drop (length name + 1) (st_filename (fs s 0)))"
    using e(3) f(2) by (simp add: strcpy_field_def)
  ultimately show ?thesis using f e(2,3) by (auto simp: open_stream_def n(2) r d Let_def upd_stream_def)
qed

text \<open>
  A disk with a file \<^verbatim>\<open>test.txt\<close> of two bytes and the program of \<open>Load_Program\<close> under the name \<^verbatim>\<open>cshell\<close>, and a memory with this name in frame 60.
\<close>

definition shell_disk :: "nat \<Rightarrow> sector" where
  "shell_disk n k =
     (if n = 257 then (case map_of ([(24, 2), (56, 86), (60, 1)] @ enumerate 0 (of_string ''test.txt'') @ enumerate 32 (of_string ''cshell'')) k of None \<Rightarrow> 0 | Some b \<Rightarrow> b)
      else if n = 514 then (if k = 0 then 1 else 0)
      else if n = 769 then (if k = 0 then 0x41 else 0)
      else if n = 770 then elf_bytes k else 0)"

definition start_mem :: wmem where
  "start_mem = (\<lambda>_. 0)(waddr (1024 * 60) := 0x65687363, waddr (1024 * 60 + 1) := 0x6C6C)"

definition start_sample :: machine where
  "start_sample = boot_sample\<lparr>kern := (kern boot_sample)\<lparr>mem := start_mem, disk := shell_disk, PCBPool_addr := waddr (1024 * 40), tfPool_addr := waddr (1024 * 50)\<rparr>\<rparr>"

definition link_start :: linkmap where
  "link_start = link_sample\<lparr>cshell_str := KERNBASE + of_nat (4096 * 60), fs_stack := []\<rparr>"

lemma start_entries:
  "find_entry NR_ENTRIES 0 (\<lambda>e. bind_res (strcmp_field (filename e) (of_string ''test.txt'')) (\<lambda>r. Inr (r = 0))) (dec_dir (shell_disk 257)) = Inr (Some 0)"
  "find_entry NR_ENTRIES 0 (\<lambda>e. bind_res (strcmp_field (filename e) (of_string ''cshell'')) (\<lambda>r. Inr (r = 0))) (dec_dir (shell_disk 257)) = Inr (Some 1)"
  "cstring (filename (dec_dir (shell_disk 257) 0)) = Inr (of_string ''test.txt'')" "cstring (filename (dec_dir (shell_disk 257) 1)) = Inr (of_string ''cshell'')"
  "file_size (dec_dir (shell_disk 257) 0) = 2" "inode_offset (dec_dir (shell_disk 257) 0) = 0"
  "file_size (dec_dir (shell_disk 257) 1) = 86" "inode_offset (dec_dir (shell_disk 257) 1) = 1"
  by code_simp+

lemma start_sample_simps [simp]:
  "mem (kern start_sample) = start_mem" "disk (kern start_sample) = shell_disk" "PCBPool_addr (kern start_sample) = waddr (1024 * 40)"
  "tfPool_addr (kern start_sample) = waddr (1024 * 50)" "fs (kern start_sample) = fs (fs_sample zero_disk)"
  by (simp_all add: start_sample_def boot_sample_def trap_sample_def fs_sample_def fsst.defs procst.defs upd_pcb_def)

lemma start_sample_fresh: "fresh_kernel 0 (1024 * 1) (kern start_sample)" "\<forall>j < 1024. mem (kern start_sample) (waddr (0 + j)) = 0"
  "start_layout 0 1 (1024 * 40) (1024 * 50) {60} (kern start_sample)"
proof -
  show z: "\<forall>j < 1024. mem (kern start_sample) (waddr (0 + j)) = 0" by (auto simp: start_mem_def)
  then have "mem (kern start_sample) (waddr 0) = 0" by (metis add_0 zero_less_numeral)
  then show "fresh_kernel 0 (1024 * 1) (kern start_sample)"
    using boot_sample_fresh by (simp add: fresh_kernel_def boot_state_def start_sample_def)
  have "(1024 * 50 + j) div 1024 = 50" if "j < 38" for j :: nat using that by (intro div_nat_eqI) simp_all
  moreover have "(1024 * 40 + 2024 + j) div 1024 = 41" if "j < 19" for j :: nat using that by (intro div_nat_eqI) simp_all
  ultimately have "start_frames (1024 * 40) (1024 * 50) \<subseteq> {50, 41}" unfolding start_frames_def by blast
  then show "start_layout 0 1 (1024 * 40) (1024 * 50) {60} (kern start_sample)" by (auto simp: start_layout_def)
qed

lemma shell_files:
  "ide_sector (LOC_INODE 0) = 513" "ide_sector (LOC_INODE 1) = 514" "dec_inode (shell_disk 513) 0 = 0" "dec_inode (shell_disk 514) 0 = 1"
  "ide_sector (LOC_DATA 0) = 769" "ide_sector (LOC_DATA 1) = 770"
  by (simp_all add: LOC_INODE_def LOC_DATA_def fs_consts ide_sector_eq dec_inode_def get_le32_def shell_disk_def)

lemma start_test_txt:
  assumes "disk s = shell_disk"
  shows "file_byte s 0 0 = 0x41" "file_byte s 0 1 = 0" "\<forall>k < 512. file_byte s 1 k = elf_bytes k"
  using assms by (simp_all add: file_byte_def shell_files) (simp_all add: shell_disk_def)

lemma start_init_fs:
  "\<exists>s1. init_fs [] (page_init (kern start_sample)) = Inr s1 \<and> disk s1 = shell_disk \<and> st_used (fs s1 0) = 0 \<and> length (st_filename (fs s1 0)) = 24"
proof -
  have m: "pagingst.more (page_init (kern start_sample)) = pagingst.more (kern start_sample)" by simp
  have p: "disk (page_init (kern start_sample)) = shell_disk" "fs (page_init (kern start_sample)) = fs (fs_sample zero_disk)"
  proof -
    have "disk (page_init (kern start_sample)) = disk (kern start_sample)" "fs (page_init (kern start_sample)) = fs (kern start_sample)"
      using m by (cases "page_init (kern start_sample)"; cases "kern start_sample"; simp)+
    then show "disk (page_init (kern start_sample)) = shell_disk" "fs (page_init (kern start_sample)) = fs (fs_sample zero_disk)" by simp_all
  qed
  define t where "t = (page_init (kern start_sample))\<lparr>fs := (\<lambda>i. if i < NR_FILE_STREAM then (fs (fs_sample zero_disk) i)\<lparr>st_used := 0\<rparr> else fs (fs_sample zero_disk) i)\<rparr>"
  have n: "0 < NR_FILE_STREAM" by (simp add: fs_consts)
  have t: "disk t = shell_disk" "st_used (fs t 0) = 0" "length (st_filename (fs t 0)) = 24"
    by (simp_all add: t_def p n fs_sample_def procst.defs)
  note en = start_entries [folded t(1)]
  have len: "length (of_string ''test.txt'') < 24" by (simp add: of_string_def)
  obtain s1 where s1: "fs_open_kr (of_string ''test.txt'') t = Inr (0, s1)" "st_offset (fs s1 0) = 0" "st_file_size (fs s1 0) = 2" "st_inode_offset (fs s1 0) = 0"
      "st_used (fs s1 0) = 1" "length (st_filename (fs s1 0)) = 24" "disk s1 = shell_disk"
    using open_entry [OF en(1,3) len t(2,3)] start_entries(5,6) by (auto simp: t(1))
  have st: "stream 0 = Inr 0" using n by (simp add: stream_def)
  have "st_offset (fs s1 0) = of_nat 0" "st_file_size (fs s1 0) = of_nat 2" using s1(2,3) by simp_all
  from fs_read_steps [OF st this, of 80] obtain b where
    rd: "fs_read_kr 0 80 s1 = Inr (2, map (file_byte s1 0) [0..<2], advance 0 2 ((loaded 0 s1)\<lparr>buffer := b\<rparr>))"
    by (auto simp: s1(4))
  let ?s2 = "advance 0 2 ((loaded 0 s1)\<lparr>buffer := b\<rparr>)"
  have s2: "fs ?s2 0 = (fs s1 0)\<lparr>st_offset := st_offset (fs s1 0) + 2\<rparr>" "disk ?s2 = shell_disk"
    using s1(7) by (simp_all add: advance_def upd_stream_def loaded_def readINode_def)
  have "map (file_byte s1 0) [0..<2] = [0x41, 0]" using start_test_txt [OF s1(7)] by (simp add: upt_rec)
  then have rd': "fs_read_kr 0 80 s1 = Inr (2, [0x41, 0], ?s2)" using rd by simp
  let ?s3 = "upd_stream 0 (\<lambda>f. f\<lparr>st_used := 0\<rparr>) ?s2"
  have cl: "fs_close_kr 0 ?s2 = Inr (0, ?s3)" using st s1(5) s2(1) by (simp add: fs_close_kr_def)
  have cs: "cstring ([0x41, 0] @ drop (length [0x41, 0 :: u8]) []) = Inr [0x41]" by code_simp
  have pr: "vfprintf (''%s'' @ NL) False [Str (to_string [0x41])] = Inr (to_string [0x41] @ NL)" by code_simp
  let ?s4 = "printk_str (to_string [0x41] @ NL) ?s3"
  have "init_fs [] (page_init (kern start_sample)) = Inr ?s4"
    unfolding init_fs_def Let_def p(2) t_def [symmetric] s1(1) bind_res_simps prod.case rd' cl cs printk_def pr ..
  moreover have "disk ?s4 = shell_disk" "st_used (fs ?s4 0) = 0" "length (st_filename (fs ?s4 0)) = 24"
    using s2 s1(6) by (simp_all add: printk_str_def upd_stream_def)
  ultimately show ?thesis by blast
qed

theorem kernel_main_starts_witness:
  "\<exists>m'. kernel_main link_start start_sample = Inr (Switched m') \<and> current (kern m') = Some 1 \<and> kernel_ok 0 (started_queues 1) (kern m') \<and>
     vbyte (mem (kern m')) 1026 0x401000 = Some 0x90 \<and> vbyte (mem (kern m')) 1026 0x401001 = Some 0xC3 \<and>
     mem (kern m') (tf (PCBPool (kern m') 1) + TF_EIP) = 0x401001"
proof -
  let ?name = "of_string ''cshell''" and ?sg = "\<lparr>seg_vaddr = 0x401000, seg_memsz = 3, seg_off = 84, seg_filesz = 2\<rparr>"
  obtain s1 where s1: "init_fs [] (page_init (kern start_sample)) = Inr s1" "disk s1 = shell_disk" "st_used (fs s1 0) = 0" "length (st_filename (fs s1 0)) = 24"
    using start_init_fs by blast
  note en = start_entries [folded s1(2)]
  have len: "length ?name < 24" "0 \<notin> set ?name" by (simp_all add: of_string_def)
  obtain s0 where s0: "fs_open_kr ?name s1 = Inr (0, s0)" "st_file_size (fs s0 0) = 86" "st_inode_offset (fs s0 0) = 1" "disk s0 = shell_disk"
    using open_entry [OF en(2,4) len(1) s1(3,4)] start_entries(7,8) by (auto simp: s1(2))
  define g where "g = file_byte s0 1"
  have g: "\<forall>k < 512. g k = elf_bytes k" using start_test_txt(3) [OF s0(4)] by (simp add: g_def)
  note el = elf_sample [OF g]
  have at: "file_at 0 0 86 g s0" using s0 by (simp add: file_at_def stream_0 g_def)
  have pg: "segs_pages [?sg] = [0x401]" by (simp add: seg_pages_def)
  have fit: "\<forall>sg \<in> set [?sg]. seg_fits 86 sg" by (simp add: seg_fits_def)
  have room: "distinct (segs_pages [?sg])" "\<forall>p \<in> set (segs_pages [?sg]). 1024 \<le> p \<and> p < 0xBEBF6" "1045 + 2 * length (segs_pages [?sg]) \<le> npages"
    unfolding pg by (simp_all add: npages_def)
  have link: "cshell_str link_start = KERNBASE + of_nat (4096 * 60)" "fs_stack link_start = []" by (simp_all add: link_start_def)
  have name: "\<forall>j \<le> length ?name. (4096 * 60 + j) div 4096 \<in> {60} \<and>
      byte_of ((4096 * 60 + j) mod 4) (mem (kern start_sample) (waddr ((4096 * 60 + j) div 4))) = (?name @ [0]) ! j"
  proof (intro allI impI)
    fix j assume "j \<le> length ?name"
    then have "j \<le> 6" by (simp add: of_string_def)
    then consider "j = 0" | "j = 1" | "j = 2" | "j = 3" | "j = 4" | "j = 5" | "j = 6" by linarith
    then show "(4096 * 60 + j) div 4096 \<in> {60} \<and>
      byte_of ((4096 * 60 + j) mod 4) (mem (kern start_sample) (waddr ((4096 * 60 + j) div 4))) = (?name @ [0]) ! j"
      by cases (simp_all add: start_mem_def byte_of_def of_string_def)
  qed
  from kernel_main_starts [OF start_sample_fresh link(1) len(2) name s1(1) [folded link(2)] s0(1) _ at el(1) el(2) [symmetric] fit room]
  obtain m' where m': "kernel_main link_start start_sample = Inr (Switched m')" "kernel_ok 0 (started_queues 1) (kern m')" "dispatched 1 (kern m')"
    "seg_loaded 1026 g (mem (kern m')) ?sg" "mem (kern m') (tf (PCBPool (kern m') 1) + TF_EIP) = 0x401001" using el(3) by auto
  have "vbyte (mem (kern m')) 1026 (0x401000 + k) = Some (if k < 2 then g (84 + k) else 0)" if "k < 3" for k
    using m'(4) that by (simp add: seg_loaded_def)
  from this [of 0] this [of 1] show ?thesis using m' g by (auto simp: elf_bytes_def dispatched_def)
qed

end
