(* ===== verification/Clone.thy ===== *)
theory Clone
  imports Image
begin

text \<open>
  What \<^verbatim>\<open>copy_pgdir\<close> and \<^verbatim>\<open>copy_pgtable\<close> (\<^verbatim>\<open>src/kernel/src/paging/pmap.c\<close>) do: the tables and pages that the target does
  not have are copied into new frames with the same contents, and nothing else changes.
\<close>

section \<open>Copying a page\<close>

text \<open>\<open>frames_same X n m m'\<close>: the frames below \<open>n\<close>, but for those in \<open>X\<close>, have the same contents.\<close>

definition frames_same :: "nat set \<Rightarrow> nat \<Rightarrow> wmem \<Rightarrow> wmem \<Rightarrow> bool" where
  "frames_same X n m m' \<longleftrightarrow> (\<forall>g < n. g \<notin> X \<longrightarrow> (\<forall>k < 1024. m' (waddr (1024 * g + k)) = m (waddr (1024 * g + k))))"

lemma frames_same_refl [simp]: "frames_same X n m m"
  by (simp add: frames_same_def)

lemma frames_same_trans: "frames_same X n m m1 \<Longrightarrow> frames_same Y n' m1 m2 \<Longrightarrow> n \<le> n' \<Longrightarrow> Y \<subseteq> X \<Longrightarrow> frames_same X n m m2"
  unfolding frames_same_def by (metis order_less_le_trans subset_iff)

lemma frames_same_word: "frames_same X n m m' \<Longrightarrow> g < n \<Longrightarrow> g \<notin> X \<Longrightarrow> k < 1024 \<Longrightarrow> m' (waddr (1024 * g + k)) = m (waddr (1024 * g + k))"
  by (simp add: frames_same_def)

lemma frames_same_slot: "frames_same X n m m' \<Longrightarrow> g < n \<Longrightarrow> g \<notin> X \<Longrightarrow> k < 1024 \<Longrightarrow> slot m' g k = slot m g k"
  by (rule slot_cong) (rule frames_same_word)

lemma frames_same_store:
  assumes "T < 2 ^ 18" "n \<le> 2 ^ 18" "k < 1024"
  shows "frames_same {T} n m (m(waddr (1024 * T + k) := x))"
  unfolding frames_same_def
proof (intro allI impI)
  fix g j :: nat assume g: "g < n" "g \<notin> {T}" "j < 1024"
  then have "1024 * g + j \<noteq> 1024 * T + k" using word_split [OF g(3) assms(3), of g T] by simp
  then show "(m(waddr (1024 * T + k) := x)) (waddr (1024 * g + j)) = m (waddr (1024 * g + j))" using g assms by simp
qed

text \<open>A copy upwards is right as far as source and target are apart.\<close>

lemma movsl_low:
  assumes "k < i" "i + n \<le> 2 ^ 28"
  shows "rep_movsl n (waddr i) (waddr j) w (waddr k) = w (waddr k)"
  using assms
proof (induction n arbitrary: i j w)
  case (Suc n)
  then show ?case using Suc.IH [of "Suc i" "Suc j"] by (simp add: waddr_Suc [symmetric])
qed simp

lemma movsl_upwards:
  assumes "i \<le> k" "k < i + n" "k < i + m" "j + m \<le> i" "i + n \<le> 2 ^ 28"
  shows "rep_movsl n (waddr i) (waddr j) w (waddr k) = w (waddr (j + (k - i)))"
  using assms
  proof (induction n arbitrary: i j w)
    case (Suc n)
    let ?w = "w(waddr i := w (waddr j))"
    have step: "rep_movsl (Suc n) (waddr i) (waddr j) w (waddr k) = rep_movsl n (waddr (Suc i)) (waddr (Suc j)) ?w (waddr k)"
      by (simp add: waddr_Suc)
    show ?case
    proof (cases "k = i")
      case True
      have "rep_movsl n (waddr (Suc i)) (waddr (Suc j)) ?w (waddr k) = ?w (waddr k)"
        using True Suc.prems by (intro movsl_low) simp_all
      then show ?thesis using step True by simp
    next
      case False
      then have "rep_movsl n (waddr (Suc i)) (waddr (Suc j)) ?w (waddr k) = ?w (waddr (Suc j + (k - Suc i)))"
        using Suc.prems by (intro Suc.IH) simp_all
      also have "Suc j + (k - Suc i) = j + (k - i)" using False Suc.prems(1) by simp
      also have "?w (waddr (j + (k - i))) = w (waddr (j + (k - i)))"
      proof -
        have "j + (k - i) < i" using Suc.prems(1,3,4) by linarith
        then show ?thesis using Suc.prems(5) by simp
      qed
      finally show ?thesis unfolding step .
    qed
  qed simp


text \<open>\<^verbatim>\<open>memcpy\<close> moves four pages, but the copy of the first is right, and only frames from the target on change.\<close>

lemma memcpy_page:
  assumes "f < p" "p + 4 \<le> 2 ^ 18"
  shows "frames_same {} p (mem s) (mem (memcpy (page2kva p) (page2kva f) PGSIZE s))"
    "k < 1024 \<Longrightarrow> mem (memcpy (page2kva p) (page2kva f) PGSIZE s) (waddr (1024 * p + k)) = mem s (waddr (1024 * f + k))"
proof -
  have m: "mem (memcpy (page2kva p) (page2kva f) PGSIZE s) = rep_movsl 4096 (waddr (1024 * p)) (waddr (1024 * f)) (mem s)"
    by (simp add: memcpy_def page2kva_waddr PGSIZE_def)
  show "frames_same {} p (mem s) (mem (memcpy (page2kva p) (page2kva f) PGSIZE s))"
    unfolding frames_same_def m
  proof (intro allI impI)
    fix g k :: nat assume "g < p" "k < 1024"
    then show "rep_movsl 4096 (waddr (1024 * p)) (waddr (1024 * f)) (mem s) (waddr (1024 * g + k)) = mem s (waddr (1024 * g + k))"
      using assms by (intro movsl_low) simp_all
  qed
  show "mem (memcpy (page2kva p) (page2kva f) PGSIZE s) (waddr (1024 * p + k)) = mem s (waddr (1024 * f + k))" if "k < 1024"
    using movsl_upwards [of "1024 * p" "1024 * p + k" 4096 1024 "1024 * f" "mem s"] that assms unfolding m by simp
qed

section \<open>Copying a table\<close>

text \<open>\<open>clone_entry m m' n n' x y\<close>: \<open>y\<close> is what a copy makes of the entry \<open>x\<close>, a page with the same contents in a new frame.\<close>

definition clone_entry :: "wmem \<Rightarrow> wmem \<Rightarrow> nat \<Rightarrow> nat \<Rightarrow> nat option \<Rightarrow> nat option \<Rightarrow> bool" where
  "clone_entry m m' n n' x y \<longleftrightarrow> (case x of None \<Rightarrow> y = None
     | Some f \<Rightarrow> \<exists>f'. n \<le> f' \<and> f' < n' \<and> y = Some f' \<and> (\<forall>k < 1024. m' (waddr (1024 * f' + k)) = m (waddr (1024 * f + k))))"

lemma clone_entry_later:
  assumes "clone_entry m m1 n n1 x y" "frames_same X n1 m1 m2" "\<forall>f \<in> X. f < n" "n1 \<le> n2"
  shows "clone_entry m m2 n n2 x y"
  using assms by (fastforce simp: clone_entry_def frames_same_def split: option.splits)

lemma clone_entry_earlier:
  assumes "clone_entry m1 m2 n1 n2 x y" "frames_same X n m m1" "\<And>f. x = Some f \<Longrightarrow> f < n \<and> f \<notin> X" "n0 \<le> n1"
  shows "clone_entry m m2 n0 n2 x y"
  using assms by (fastforce simp: clone_entry_def frames_same_def split: option.splits)

lemma PTE_ATTR_flags: "PTE_ATTR e AND NOT 0xFFF = 0" "e AND PTE_P \<noteq> 0 \<Longrightarrow> PTE_ATTR e AND PTE_P \<noteq> 0"
proof -
  show "PTE_ATTR e AND NOT 0xFFF = 0" by (simp add: PTE_ATTR_def and.assoc)
  have "PTE_ATTR e AND PTE_P = e AND PTE_P" by (simp add: PTE_ATTR_def PTE_P_def and.assoc)
  then show "e AND PTE_P \<noteq> 0 \<Longrightarrow> PTE_ATTR e AND PTE_P \<noteq> 0" by simp
qed

definition present_count :: "wmem \<Rightarrow> nat \<Rightarrow> nat \<Rightarrow> nat" where
  "present_count m t c = length (filter (\<lambda>x. slot m t x \<noteq> None) [1024 - c..<1024])"

lemma present_count_Suc: "Suc c \<le> 1024 \<Longrightarrow> present_count m t (Suc c) = (if slot m t (1024 - Suc c) = None then 0 else 1) + present_count m t c"
proof -
  assume "Suc c \<le> 1024"
  then have "1024 - Suc c < 1024" "Suc (1024 - Suc c) = 1024 - c" by simp_all
  then have "[1024 - Suc c..<1024] = (1024 - Suc c) # [1024 - c..<1024]" by (metis upt_conv_Cons)
  then show ?thesis by (simp add: present_count_def)
qed

text \<open>A present entry: the loop takes a frame and copies the page into it.\<close>

lemma copy_page:
  assumes fl: "free_list s [n..<npages]" "n < npages" and x: "x = 1024 - Suc c" "Suc c \<le> 1024" and t: "T < n" "t < n" "t \<noteq> T"
    and some: "slot (mem s) t x = Some f" and f: "f < n" "f \<noteq> T"
  shows "\<exists>s'. copy_pgtable_loop (Suc c) (waddr (1024 * T)) (waddr (1024 * t)) s = copy_pgtable_loop c (waddr (1024 * T)) (waddr (1024 * t)) s' \<and>
    free_list s' [Suc n..<npages] \<and> frames_same {T} n (mem s) (mem s') \<and>
    (\<forall>j < 1024. j \<noteq> x \<longrightarrow> mem s' (waddr (1024 * T + j)) = mem s (waddr (1024 * T + j))) \<and> slot (mem s') T x = Some n \<and>
    (\<forall>k < 1024. mem s' (waddr (1024 * n + k)) = mem s (waddr (1024 * f + k)))"
proof -
  let ?e = "mem s (waddr (1024 * t + x))"
  have x': "x < 1024" using x by simp
  have pres: "?e AND PTE_P \<noteq> 0" and fe: "f = pa2page (PTE_ADDR ?e)" using some by (auto simp: slot_def Let_def split: if_splits)
  have np: "n < 32768" using fl(2) by (simp add: npages_def)
  have "free_list s (n # [Suc n..<npages])" using fl by (simp add: upt_conv_Cons)
  then obtain s1 where s1: "page_alloc 0 s = (Some n, s1)" "free_list s1 [Suc n..<npages]" "mem s1 = mem s" using page_alloc_plain by blast
  define s2 where "s2 = store (waddr (1024 * T + x)) (page2pa n OR PTE_ATTR ?e) (page_incref n s1)"
  define s3 where "s3 = memcpy (page2kva n) (page2kva f) PGSIZE s2"
  have m2: "mem s2 = (mem s)(waddr (1024 * T + x) := page2pa n OR PTE_ATTR ?e)" by (simp add: s2_def store_def s1(3))
  have fr2: "frames_same {T} (Suc n) (mem s) (mem s2)" unfolding m2 using t(1) np x' by (intro frames_same_store) simp_all
  have k: "KADDR (PTE_ADDR ?e) = page2kva f" using pa2page_frame [of ?e] by (simp add: fe page2kva_def)
  have "waddr (1024 * t + x) \<noteq> waddr (1024 * T + x)" using t np x' by (subst waddr_eq_iff) simp_all
  then have step: "copy_pgtable_loop (Suc c) (waddr (1024 * T)) (waddr (1024 * t)) s = copy_pgtable_loop c (waddr (1024 * T)) (waddr (1024 * t)) s3"
    using pres s1(1) k unfolding x(1) by (simp add: Let_def NPTENTRIES_def entry_addr_waddr s1(3) s2_def s3_def x(1))
  have cp: "frames_same {} n (mem s2) (mem s3)" and page: "\<And>k. k < 1024 \<Longrightarrow> mem s3 (waddr (1024 * n + k)) = mem s2 (waddr (1024 * f + k))"
    using memcpy_page [OF f(1), where s = s2] np by (simp_all add: s3_def)
  have T3: "mem s3 (waddr (1024 * T + j)) = (if j = x then page2pa n OR PTE_ATTR ?e else mem s (waddr (1024 * T + j)))" if "j < 1024" for j
    using frames_same_word [OF cp t(1) _ that] that x' t(1) np word_split [OF that x', of T T] by (simp add: m2)
  have "frames_same {T} n (mem s) (mem s3)" using fr2 cp by (auto simp: frames_same_def)
  moreover have "slot (mem s3) T x = Some n"
    by (rule slot_entry [OF _ PTE_ATTR_flags(1) PTE_ATTR_flags(2) [OF pres]]) (use np T3 [OF x'] in simp_all)
  moreover have "mem s3 (waddr (1024 * n + k)) = mem s (waddr (1024 * f + k))" if "k < 1024" for k
    using page [OF that] frames_same_word [OF fr2 _ _ that, of f] f by simp
  moreover have "free_list s3 [Suc n..<npages]" using s1(2) by (simp add: s3_def s2_def memcpy_def)
  ultimately show ?thesis using step T3 by (intro exI [of _ s3]) simp
qed

lemma copy_pgtable_clones:
  assumes "free_list s [n..<npages]" "c \<le> 1024" "T < n" "t < n" "t \<noteq> T" "n + present_count (mem s) t c \<le> npages"
    and "\<forall>x f. 1024 - c \<le> x \<and> x < 1024 \<and> slot (mem s) t x = Some f \<longrightarrow> f < n \<and> f \<noteq> T"
    and "\<forall>x. 1024 - c \<le> x \<and> x < 1024 \<longrightarrow> slot (mem s) T x = None"
  shows "\<exists>s'. copy_pgtable_loop c (waddr (1024 * T)) (waddr (1024 * t)) s = Inr s' \<and> free_list s' [n + present_count (mem s) t c..<npages] \<and>
    frames_same {T} n (mem s) (mem s') \<and> (\<forall>x < 1024 - c. mem s' (waddr (1024 * T + x)) = mem s (waddr (1024 * T + x))) \<and>
    (\<forall>x. 1024 - c \<le> x \<and> x < 1024 \<longrightarrow> clone_entry (mem s) (mem s') n (n + present_count (mem s) t c) (slot (mem s) t x) (slot (mem s') T x)) \<and>
    inj_on (slot (mem s') T) {x. 1024 - c \<le> x \<and> x < 1024 \<and> slot (mem s) t x \<noteq> None}"
  using assms
proof (induction c arbitrary: n s)
  case 0
  have "present_count (mem s) t 0 = 0" "\<not> (1024 - 0 \<le> x \<and> x < 1024)" for x :: nat by (simp_all add: present_count_def)
  then show ?case using 0 by (auto simp: inj_on_def)
next
  case (Suc c)
  let ?x = "1024 - Suc c" and ?N = "present_count (mem s) t (Suc c)"
  have c: "c \<le> 1024" "?x < 1024" "Suc ?x = 1024 - c" using Suc.prems(2) by simp_all
  have src: "mem s (entry_addr (waddr (1024 * t)) ?x) = mem s (waddr (1024 * t + ?x))" by (simp add: entry_addr_waddr)
  show ?case
  proof (cases "slot (mem s) t ?x")
    case None
    then have absent: "mem s (waddr (1024 * t + ?x)) AND PTE_P = 0" by (auto simp: slot_def Let_def split: if_splits)
    have N: "?N = present_count (mem s) t c" using present_count_Suc [OF Suc.prems(2)] None by simp
    have step: "copy_pgtable_loop (Suc c) (waddr (1024 * T)) (waddr (1024 * t)) s = copy_pgtable_loop c (waddr (1024 * T)) (waddr (1024 * t)) s"
      using absent src by (simp add: Let_def NPTENTRIES_def)
    have lo: "?x \<le> x" if "1024 - c \<le> x" for x using that c(3) by simp
    have bud: "n + present_count (mem s) t c \<le> npages" using Suc.prems(6) N by simp
    have pre: "\<forall>x f. 1024 - c \<le> x \<and> x < 1024 \<and> slot (mem s) t x = Some f \<longrightarrow> f < n \<and> f \<noteq> T" using Suc.prems(7) lo by blast
    have emp: "\<forall>x. 1024 - c \<le> x \<and> x < 1024 \<longrightarrow> slot (mem s) T x = None" using Suc.prems(8) lo by blast
    from Suc.IH [OF Suc.prems(1) c(1) Suc.prems(3-5) bud pre emp] obtain s' where s': "copy_pgtable_loop c (waddr (1024 * T)) (waddr (1024 * t)) s = Inr s'" "free_list s' [n + ?N..<npages]"
        "frames_same {T} n (mem s) (mem s')" "\<forall>x < 1024 - c. mem s' (waddr (1024 * T + x)) = mem s (waddr (1024 * T + x))"
        "\<forall>x. 1024 - c \<le> x \<and> x < 1024 \<longrightarrow> clone_entry (mem s) (mem s') n (n + ?N) (slot (mem s) t x) (slot (mem s') T x)"
        "inj_on (slot (mem s') T) {x. 1024 - c \<le> x \<and> x < 1024 \<and> slot (mem s) t x \<noteq> None}"
      unfolding N by blast
    have "slot (mem s') T ?x = None" using s'(4) c(2,3) Suc.prems(8) slot_cong [of "mem s'" T ?x "mem s"] by (metis lessI order_refl)
    then have "clone_entry (mem s) (mem s') n (n + ?N) (slot (mem s) t ?x) (slot (mem s') T ?x)" using None by (simp add: clone_entry_def)
    moreover have split: "?x \<le> x \<longleftrightarrow> x = ?x \<or> 1024 - c \<le> x" for x using c(3) by auto
    moreover have "{x. ?x \<le> x \<and> x < 1024 \<and> slot (mem s) t x \<noteq> None} = {x. 1024 - c \<le> x \<and> x < 1024 \<and> slot (mem s) t x \<noteq> None}"
      using None split by auto
    ultimately show ?thesis using step s' c(3) by (intro exI [of _ s']) auto
  next
    case (Some f)
    have f: "f < n" "f \<noteq> T" using Suc.prems(7) Some c(2) by blast+
    have N: "?N = Suc (present_count (mem s) t c)" using present_count_Suc [OF Suc.prems(2)] Some by simp
    have n1: "n < npages" using Suc.prems(6) N by simp
    from copy_page [OF Suc.prems(1) n1 refl Suc.prems(2-5) Some f] obtain s3 where
      step: "copy_pgtable_loop (Suc c) (waddr (1024 * T)) (waddr (1024 * t)) s = copy_pgtable_loop c (waddr (1024 * T)) (waddr (1024 * t)) s3"
      and fl3: "free_list s3 [Suc n..<npages]" and fr3: "frames_same {T} n (mem s) (mem s3)"
      and T3: "\<forall>j < 1024. j \<noteq> ?x \<longrightarrow> mem s3 (waddr (1024 * T + j)) = mem s (waddr (1024 * T + j))"
      and slotx: "slot (mem s3) T ?x = Some n" and cont: "\<forall>k < 1024. mem s3 (waddr (1024 * n + k)) = mem s (waddr (1024 * f + k))" by blast
    have tsame: "slot (mem s3) t x = slot (mem s) t x" if "x < 1024" for x using frames_same_slot [OF fr3 Suc.prems(4) _ that] Suc.prems(5) by simp
    have pc: "present_count (mem s3) t c = present_count (mem s) t c" unfolding present_count_def by (intro arg_cong [where f = length] filter_cong) (simp_all add: tsame)
    have pre: "\<forall>x g. 1024 - c \<le> x \<and> x < 1024 \<and> slot (mem s3) t x = Some g \<longrightarrow> g < Suc n \<and> g \<noteq> T"
      using Suc.prems(7) tsame c(3) by (metis Suc_leD less_SucI)
    have emp: "\<forall>x. 1024 - c \<le> x \<and> x < 1024 \<longrightarrow> slot (mem s3) T x = None"
    proof (intro allI impI)
      fix x assume x: "1024 - c \<le> x \<and> x < 1024"
      then have "x \<noteq> ?x" "?x \<le> x" using c(3) by auto
      then show "slot (mem s3) T x = None" using T3 x Suc.prems(8) slot_cong [of "mem s3" T x "mem s"] by simp
    qed
    have bud: "Suc n + present_count (mem s3) t c \<le> npages" using Suc.prems(6) N pc by simp
    have lt: "T < Suc n" "t < Suc n" using Suc.prems(3,4) by simp_all
    from Suc.IH [OF fl3 c(1) lt Suc.prems(5) bud pre emp] obtain s' where
      s': "copy_pgtable_loop c (waddr (1024 * T)) (waddr (1024 * t)) s3 = Inr s'" "free_list s' [n + ?N..<npages]"
        "frames_same {T} (Suc n) (mem s3) (mem s')" "\<forall>x < 1024 - c. mem s' (waddr (1024 * T + x)) = mem s3 (waddr (1024 * T + x))"
        "\<forall>x. 1024 - c \<le> x \<and> x < 1024 \<longrightarrow> clone_entry (mem s3) (mem s') (Suc n) (n + ?N) (slot (mem s3) t x) (slot (mem s') T x)"
        "inj_on (slot (mem s') T) {x. 1024 - c \<le> x \<and> x < 1024 \<and> slot (mem s3) t x \<noteq> None}"
      unfolding pc N add_Suc_right add_Suc by blast
    have frs: "frames_same {T} n (mem s) (mem s')" using frames_same_trans [OF fr3 s'(3)] by simp
    have xs: "slot (mem s') T ?x = Some n" using slotx s'(4) c(3) slot_cong [of "mem s'" T ?x "mem s3"] by (metis lessI)
    have "mem s' (waddr (1024 * n + k)) = mem s (waddr (1024 * f + k))" if "k < 1024" for k
      using cont that frames_same_word [OF s'(3) _ _ that, of n] Suc.prems(3) by simp
    then have cx: "clone_entry (mem s) (mem s') n (n + ?N) (slot (mem s) t ?x) (slot (mem s') T ?x)" using Some xs N by (simp add: clone_entry_def)
    have cl: "clone_entry (mem s) (mem s') n (n + ?N) (slot (mem s) t x) (slot (mem s') T x)" if x: "1024 - c \<le> x" "x < 1024" for x
    proof (rule clone_entry_earlier [OF _ fr3])
      show "clone_entry (mem s3) (mem s') (Suc n) (n + ?N) (slot (mem s) t x) (slot (mem s') T x)" using s'(5) x tsame by simp
      show "g < n \<and> g \<notin> {T}" if "slot (mem s) t x = Some g" for g using Suc.prems(7) that x c(3) by (metis Suc_leD singletonD)
    qed simp
    have split: "?x \<le> x \<longleftrightarrow> x = ?x \<or> 1024 - c \<le> x" for x using c(3) by auto
    have new: "slot (mem s') T x \<noteq> Some n" if "1024 - c \<le> x" "x < 1024" "slot (mem s) t x \<noteq> None" for x
      using s'(5) that tsame by (fastforce simp: clone_entry_def split: option.splits)
    let ?R = "{x. 1024 - c \<le> x \<and> x < 1024 \<and> slot (mem s) t x \<noteq> None}"
    have "inj_on (slot (mem s') T) ?R" using s'(6) tsame by (auto simp: inj_on_def)
    moreover have "slot (mem s') T ?x \<notin> slot (mem s') T ` ?R" 
    proof
      assume "slot (mem s') T ?x \<in> slot (mem s') T ` ?R"
      then obtain x where "x \<in> ?R" "slot (mem s') T x = Some n" unfolding xs by force
      then show False using new [of x] by simp
    qed
    ultimately have "inj_on (slot (mem s') T) (insert ?x ?R)" unfolding inj_on_insert by blast
    moreover have "{x. ?x \<le> x \<and> x < 1024 \<and> slot (mem s) t x \<noteq> None} = insert ?x ?R" using split Some c(2) by auto
    moreover have "\<forall>x < ?x. mem s' (waddr (1024 * T + x)) = mem s (waddr (1024 * T + x))"
    proof (intro allI impI)
      fix x assume "x < ?x"
      then have "x < 1024 - c" "x < 1024" "x \<noteq> ?x" using c(3) by auto
      then show "mem s' (waddr (1024 * T + x)) = mem s (waddr (1024 * T + x))" using s'(4) T3 by simp
    qed
    ultimately show ?thesis using step s'(1,2) frs cx cl split by (intro exI [of _ s']) auto
  qed
qed

section \<open>Copying an address space\<close>

text \<open>\<open>private_table m d e k t\<close>: entry \<open>k\<close> of the directory \<open>d\<close> is the table \<open>t\<close>, which the directory \<open>e\<close> does not have.\<close>

definition private_table :: "wmem \<Rightarrow> nat \<Rightarrow> nat \<Rightarrow> nat \<Rightarrow> nat \<Rightarrow> bool" where
  "private_table m d e k t \<longleftrightarrow> slot m d k = Some t \<and> slot m e k = None"

text \<open>Tables and pages to be copied are below \<open>n\<close> and not the new directory.\<close>

definition cloneable :: "wmem \<Rightarrow> nat \<Rightarrow> nat \<Rightarrow> nat \<Rightarrow> bool" where
  "cloneable m d e n \<longleftrightarrow> d < n \<and> e < n \<and> d \<noteq> e \<and>
     (\<forall>k < 1024. \<forall>t. private_table m d e k t \<longrightarrow> t < n \<and> t \<noteq> e \<and> (\<forall>x < 1024. \<forall>f. slot m t x = Some f \<longrightarrow> f < n \<and> f \<noteq> e))"

lemma clone_table:
  assumes fl: "free_list s [n..<npages]" and cl: "cloneable (mem s) d e n" and k: "k = 1024 - Suc c" "Suc c \<le> 1024"
    and t: "private_table (mem s) d e k t" and bud: "n + Suc (present_count (mem s) t 1024) \<le> npages"
  shows "\<exists>s1. copy_pgdir_loop (Suc c) (waddr (1024 * e)) (waddr (1024 * d)) s = copy_pgdir_loop c (waddr (1024 * e)) (waddr (1024 * d)) s1 \<and>
    free_list s1 [n + Suc (present_count (mem s) t 1024)..<npages] \<and> frames_same {e} n (mem s) (mem s1) \<and>
    (\<forall>j < 1024. j \<noteq> k \<longrightarrow> mem s1 (waddr (1024 * e + j)) = mem s (waddr (1024 * e + j))) \<and> slot (mem s1) e k = Some n \<and>
    (\<forall>x < 1024. clone_entry (mem s) (mem s1) n (n + Suc (present_count (mem s) t 1024)) (slot (mem s) t x) (slot (mem s1) n x)) \<and>
    inj_on (slot (mem s1) n) {x. x < 1024 \<and> slot (mem s) t x \<noteq> None}"
proof -
  have kk: "k < 1024" using k by simp
  have de: "d < n" "e < n" "d \<noteq> e" and tn: "t < n" "t \<noteq> e" "\<And>x f. x < 1024 \<Longrightarrow> slot (mem s) t x = Some f \<Longrightarrow> f < n \<and> f \<noteq> e"
    using cl t kk unfolding cloneable_def by blast+
  have st: "slot (mem s) d k = Some t" "slot (mem s) e k = None" using t by (simp_all add: private_table_def)
  have n1: "n < npages" using bud by simp
  then have np: "n < 32768" by (simp add: npages_def)
  let ?pde = "mem s (waddr (1024 * d + k))"
  have pres: "?pde AND PTE_P \<noteq> 0" "mem s (waddr (1024 * e + k)) AND PTE_P = 0" using st by (auto simp: slot_def Let_def split: if_splits)
  have flc: "free_list s (n # [Suc n..<npages])" using fl n1 by (simp add: upt_conv_Cons)
  obtain sA where sA: "page_alloc ALLOC_ZERO s = (Some n, sA)" "free_list sA [Suc n..<npages]" using page_alloc_top [OF flc] by blast
  have top: "page_free_list s = Some n" using flc by (simp add: free_list_def)
  have mA: "mem sA (waddr j) = (if 1024 * n \<le> j \<and> j < 1024 * (n + 4) then 0 else mem s (waddr j))" if "j < 2 ^ 28" for j
    using page_alloc_zero_mem [OF top _ that] np by (simp add: sA(1))
  have frA: "frames_same {} n (mem s) (mem sA)" unfolding frames_same_def using mA np by simp
  have zA: "mem sA (waddr (1024 * n + j)) = 0" if "j < 1024" for j using mA [of "1024 * n + j"] that np by simp
  have pA: "mem sA (waddr (1024 * d + k)) = ?pde" using frames_same_word [OF frA de(1) _ kk] by simp
  define sB where "sB = store (waddr (1024 * e + k)) (page2pa n OR PTE_ATTR ?pde) (page_incref n sA)"
  have mB: "mem sB = (mem sA)(waddr (1024 * e + k) := page2pa n OR PTE_ATTR ?pde)" by (simp add: sB_def store_def)
  have frB: "frames_same {e} (Suc n) (mem sA) (mem sB)" unfolding mB using de(2) np kk by (intro frames_same_store) simp_all
  have slB: "slot (mem sB) e k = Some n" by (rule slot_entry [OF _ PTE_ATTR_flags(1) PTE_ATTR_flags(2) [OF pres(1)]]) (use np mB in simp_all)
  have fr: "frames_same {e} n (mem s) (mem sB)" using frA frB by (auto simp: frames_same_def)
  have tab: "KADDR (PTE_ADDR ?pde) = waddr (1024 * t)" by (rule slot_table [OF st(1)])
  have tabB: "KADDR (PTE_ADDR (mem sB (waddr (1024 * e + k)))) = waddr (1024 * n)" by (rule slot_table [OF slB])
  have tB: "slot (mem sB) t x = slot (mem s) t x" if "x < 1024" for x using frames_same_slot [OF fr tn(1) _ that] tn(2) by simp
  have pc: "present_count (mem sB) t 1024 = present_count (mem s) t 1024"
    unfolding present_count_def by (intro arg_cong [where f = length] filter_cong) (simp_all add: tB)
  have emp: "\<forall>x. 1024 - 1024 \<le> x \<and> x < 1024 \<longrightarrow> slot (mem sB) n x = None"
    using frames_same_word [OF frB, of n] zA de(2) by (simp add: slot_def)
  have pre: "\<forall>x f. 1024 - 1024 \<le> x \<and> x < 1024 \<and> slot (mem sB) t x = Some f \<longrightarrow> f < Suc n \<and> f \<noteq> n" using tn(3) tB by force
  have flB: "free_list sB [Suc n..<npages]" using sA(2) by (simp add: sB_def)
  have lt: "n < Suc n" "t < Suc n" "t \<noteq> n" using tn(1) by simp_all
  have budB: "Suc n + present_count (mem sB) t 1024 \<le> npages" using bud pc by simp
  from copy_pgtable_clones [OF flB order_refl lt budB pre emp] obtain s1 where
    s1: "copy_pgtable_loop 1024 (waddr (1024 * n)) (waddr (1024 * t)) sB = Inr s1" "free_list s1 [Suc n + present_count (mem s) t 1024..<npages]"
      "frames_same {n} (Suc n) (mem sB) (mem s1)"
      "\<forall>x. 1024 - 1024 \<le> x \<and> x < 1024 \<longrightarrow> clone_entry (mem sB) (mem s1) (Suc n) (Suc n + present_count (mem s) t 1024) (slot (mem sB) t x) (slot (mem s1) n x)"
      "inj_on (slot (mem s1) n) {x. 1024 - 1024 \<le> x \<and> x < 1024 \<and> slot (mem sB) t x \<noteq> None}" unfolding pc by blast
  have step: "copy_pgdir_loop (Suc c) (waddr (1024 * e)) (waddr (1024 * d)) s = copy_pgdir_loop c (waddr (1024 * e)) (waddr (1024 * d)) s1"
  proof -
    have "(if mem s (waddr (1024 * d + k)) AND PTE_P \<noteq> 0 \<and> mem s (waddr (1024 * e + k)) AND PTE_P = 0 then
           (let src_table = KADDR (PTE_ADDR (mem s (waddr (1024 * d + k)))) in
            case page_alloc ALLOC_ZERO s of
              (pp, s) \<Rightarrow>
                bind_res (deref pp) (\<lambda>pp.
                let s = page_incref pp s;
                    s = store (waddr (1024 * e + k)) (page2pa pp OR PTE_ATTR (mem s (waddr (1024 * d + k)))) s
                in copy_pgtable_loop 1024 (KADDR (PTE_ADDR (mem s (waddr (1024 * e + k))))) src_table s))
         else Inr s) = Inr s1"
      using pres sA(1) tab pA tabB s1(1) unfolding sB_def by (simp add: Let_def page_incref_def set_page_def)
    then show ?thesis unfolding k(1) by (simp only: copy_pgdir_loop.simps Let_def NPDENTRIES_def NPTENTRIES_def entry_addr_waddr bind_res_simps)
  qed
  have fr1: "frames_same {e} n (mem s) (mem s1)" using fr s1(3) by (auto simp: frames_same_def)
  have e1: "mem s1 (waddr (1024 * e + j)) = mem sB (waddr (1024 * e + j))" if "j < 1024" for j
    using frames_same_word [OF s1(3) _ _ that, of e] de(2) by simp
  have eB: "mem sB (waddr (1024 * e + j)) = mem s (waddr (1024 * e + j))" if "j < 1024" "j \<noteq> k" for j
    using frames_same_word [OF frA de(2) _ that(1)] that de(2) np kk word_split [OF that(1) kk, of e e] by (simp add: mB)
  have "slot (mem s1) e k = Some n" using slB e1 [OF kk] slot_cong [of "mem s1" e k "mem sB"] by simp
  moreover have "clone_entry (mem s) (mem s1) n (n + Suc (present_count (mem s) t 1024)) (slot (mem s) t x) (slot (mem s1) n x)" if x: "x < 1024" for x
  proof (rule clone_entry_earlier [OF _ fr])
    show "clone_entry (mem sB) (mem s1) (Suc n) (n + Suc (present_count (mem s) t 1024)) (slot (mem s) t x) (slot (mem s1) n x)"
      using s1(4) x tB by simp
    show "f < n \<and> f \<notin> {e}" if "slot (mem s) t x = Some f" for f using tn(3) [OF x that] by simp
  qed simp
  moreover have "{x. 1024 - 1024 \<le> x \<and> x < 1024 \<and> slot (mem sB) t x \<noteq> None} = {x. x < 1024 \<and> slot (mem s) t x \<noteq> None}" using tB by auto
  moreover have "n + Suc (present_count (mem s) t 1024) = Suc n + present_count (mem s) t 1024" by simp
  ultimately show ?thesis using step s1(2,5) fr1 e1 eB by (intro exI [of _ s1]) auto
qed

text \<open>The number of frames that the copy takes.\<close>

definition table_cost :: "wmem \<Rightarrow> nat \<Rightarrow> nat \<Rightarrow> nat \<Rightarrow> nat" where
  "table_cost m d e k = (case slot m d k of Some t \<Rightarrow> if slot m e k = None then Suc (present_count m t 1024) else 0 | None \<Rightarrow> 0)"

definition clone_cost :: "wmem \<Rightarrow> nat \<Rightarrow> nat \<Rightarrow> nat \<Rightarrow> nat" where
  "clone_cost m d e c = sum_list (map (table_cost m d e) [1024 - c..<1024])"

lemma clone_cost_Suc: "Suc c \<le> 1024 \<Longrightarrow> clone_cost m d e (Suc c) = table_cost m d e (1024 - Suc c) + clone_cost m d e c"
proof -
  assume "Suc c \<le> 1024"
  then have "1024 - Suc c < 1024" "Suc (1024 - Suc c) = 1024 - c" by simp_all
  then have "[1024 - Suc c..<1024] = (1024 - Suc c) # [1024 - c..<1024]" by (metis upt_conv_Cons)
  then show ?thesis by (simp add: clone_cost_def)
qed

text \<open>\<open>cloned m m' d e c n n'\<close>: what the copy has done for the directory entries from \<open>1024 - c\<close> on.\<close>

definition private_pages :: "wmem \<Rightarrow> nat \<Rightarrow> nat \<Rightarrow> nat \<Rightarrow> nat set" where
  "private_pages m d e c = {v. v < 2 ^ 20 \<and> 1024 - c \<le> v div 1024 \<and> slot m e (v div 1024) = None \<and> page_map m d v \<noteq> None}"

definition cloned :: "wmem \<Rightarrow> wmem \<Rightarrow> nat \<Rightarrow> nat \<Rightarrow> nat \<Rightarrow> nat \<Rightarrow> nat \<Rightarrow> bool" where
  "cloned m m' d e c n n' \<longleftrightarrow> frames_same {e} n m m' \<and> (\<forall>k < 1024 - c. m' (waddr (1024 * e + k)) = m (waddr (1024 * e + k))) \<and>
     (\<forall>v < 2 ^ 20. 1024 - c \<le> v div 1024 \<and> slot m e (v div 1024) = None \<longrightarrow> clone_entry m m' n n' (page_map m d v) (page_map m' e v)) \<and>
     (\<forall>k < 1024. 1024 - c \<le> k \<and> slot m e k \<noteq> None \<longrightarrow> slot m' e k = slot m e k) \<and>
     inj_on (page_map m' e) (private_pages m d e c) \<and> (\<forall>k < 1024. \<forall>t. slot m e k = None \<and> slot m' e k = Some t \<longrightarrow> n \<le> t \<and> t < n')"

lemma private_page_bound:
  assumes "cloneable m d e n" "page_map m d v = Some f" "slot m e (v div 1024) = None" "v < 2 ^ 20"
  shows "f < n \<and> f \<noteq> e"
proof -
  obtain t where t: "slot m d (v div 1024) = Some t" "slot m t (v mod 1024) = Some f" using assms(2) by (auto simp: page_map_def split: option.splits)
  then have "private_table m d e (v div 1024) t" "v div 1024 < 1024" "v mod 1024 < 1024" using assms(3,4) by (simp_all add: private_table_def)
  then show ?thesis using assms(1) t(2) unfolding cloneable_def by blast
qed

text \<open>The source is the same after a step.\<close>

lemma cloneable_later:
  assumes cl: "cloneable m d e n" and fr: "frames_same {e} n m m1" and e: "\<forall>j < 1024. slot m1 e j = None \<longrightarrow> slot m e j = None" and n: "n \<le> n1"
  shows "cloneable m1 d e n1" "j < 1024 \<Longrightarrow> slot m1 d j = slot m d j"
    "\<And>t x. private_table m d e j t \<Longrightarrow> j < 1024 \<Longrightarrow> x < 1024 \<Longrightarrow> slot m1 t x = slot m t x"
    "v < 2 ^ 20 \<Longrightarrow> slot m e (v div 1024) = None \<Longrightarrow> page_map m1 d v = page_map m d v"
proof -
  have de: "d < n" "e < n" "d \<noteq> e" using cl by (simp_all add: cloneable_def)
  show d: "slot m1 d j = slot m d j" if "j < 1024" for j using frames_same_slot [OF fr de(1) _ that] de(3) by simp
  show tab: "slot m1 t x = slot m t x" if "private_table m d e j t" "j < 1024" "x < 1024" for j t x
  proof -
    have "t < n" "t \<noteq> e" using cl that unfolding cloneable_def by blast+
    then show ?thesis using frames_same_slot [OF fr _ _ that(3)] by simp
  qed
  show "page_map m1 d v = page_map m d v" if v: "v < 2 ^ 20" "slot m e (v div 1024) = None" for v
  proof -
    have k: "v div 1024 < 1024" "v mod 1024 < 1024" using v(1) by simp_all
    show ?thesis
    proof (cases "slot m d (v div 1024)")
      case (Some t)
      then have "private_table m d e (v div 1024) t" using v(2) by (simp add: private_table_def)
      then show ?thesis using d [OF k(1)] tab [OF _ k] Some by (simp add: page_map_def)
    qed (use d [OF k(1)] in \<open>simp add: page_map_def\<close>)
  qed
  show "cloneable m1 d e n1"
    unfolding cloneable_def
  proof (intro conjI allI impI)
    fix j t assume j: "j < 1024" and p: "private_table m1 d e j t"
    then have p': "private_table m d e j t" using d e unfolding private_table_def by auto
    then have "t < n" "t \<noteq> e" "\<forall>x < 1024. \<forall>f. slot m t x = Some f \<longrightarrow> f < n \<and> f \<noteq> e" using cl j unfolding cloneable_def by blast+
    then show "t < n1" "t \<noteq> e" "\<And>x f. x < 1024 \<Longrightarrow> slot m1 t x = Some f \<Longrightarrow> f < n1" "\<And>x f. x < 1024 \<Longrightarrow> slot m1 t x = Some f \<Longrightarrow> f \<noteq> e"
      using tab [OF p' j] n by (auto simp: order_less_le_trans)
  qed (use de n in simp_all)
qed

lemma cost_later:
  assumes cl: "cloneable m d e n" and fr: "frames_same {e} n m m1" and e: "\<And>j. 1024 - c \<le> j \<Longrightarrow> j < 1024 \<Longrightarrow> slot m1 e j = slot m e j"
    and all: "\<forall>j < 1024. slot m1 e j = None \<longrightarrow> slot m e j = None"
  shows "clone_cost m1 d e c = clone_cost m d e c"
proof -
  note L = cloneable_later [OF cl fr all order_refl]
  have "table_cost m1 d e j = table_cost m d e j" if j: "1024 - c \<le> j" "j < 1024" for j
  proof (cases "slot m d j")
    case (Some t)
    have "present_count m1 t 1024 = present_count m t 1024" if "slot m e j = None"
      unfolding present_count_def using L(3) [of j t] Some that j(2)
      by (intro arg_cong [where f = length] filter_cong) (simp_all add: private_table_def)
    then show ?thesis using Some L(2) [OF j(2)] e [OF j] by (simp add: table_cost_def)
  qed (use L(2) [OF j(2)] in \<open>simp add: table_cost_def\<close>)
  then show ?thesis unfolding clone_cost_def by (intro arg_cong [where f = sum_list] map_cong) simp_all
qed

lemma cloned_skip:
  assumes "cloned m m' d e c n n'" "Suc c \<le> 1024" "slot m d (1024 - Suc c) = None \<or> slot m e (1024 - Suc c) \<noteq> None"
  shows "cloned m m' d e (Suc c) n n'"
proof -
  let ?k = "1024 - Suc c"
  have k: "?k < 1024" "Suc ?k = 1024 - c" using assms(2) by simp_all
  have split: "?k \<le> j \<longleftrightarrow> j = ?k \<or> 1024 - c \<le> j" for j using k(2) by auto
  have same: "slot m' e ?k = slot m e ?k"
    using assms(1) k(2) unfolding cloned_def by (metis lessI slot_cong)
  have new: "clone_entry m m' n n' (page_map m d v) (page_map m' e v)" if "v div 1024 = ?k" "slot m e ?k = None" for v
    using that same assms(3) by (simp add: page_map_def clone_entry_def)
  have "private_pages m d e (Suc c) = private_pages m d e c"
  proof -
    have "page_map m d v = None \<or> slot m e ?k \<noteq> None" if "v div 1024 = ?k" for v using that assms(3) by (auto simp: page_map_def)
    then show ?thesis unfolding private_pages_def using split by auto
  qed
  then show ?thesis using assms(1) same new split k(2) unfolding cloned_def by auto
qed

text \<open>The pages of one table: distinct entries are distinct pages.\<close>

lemma inj_on_table:
  fixes k :: nat
  assumes g: "\<And>v. v div 1024 = k \<Longrightarrow> g v = h (v mod 1024)" and h: "inj_on h {x. x < 1024 \<and> P x}"
  shows "inj_on g {v. v div 1024 = k \<and> P (v mod 1024)}"
proof (rule inj_onI)
  fix v w :: nat assume v: "v \<in> {v. v div 1024 = k \<and> P (v mod 1024)}" and w: "w \<in> {v. v div 1024 = k \<and> P (v mod 1024)}" and eq: "g v = g w"
  then have "h (v mod 1024) = h (w mod 1024)" using g [of v] g [of w] by simp
  then have "v mod 1024 = w mod 1024" using h v w by (simp add: inj_on_def)
  moreover have "v div 1024 = w div 1024" using v w by simp
  ultimately show "v = w" by (metis div_mult_mod_eq)
qed

lemma cloned_step:
  assumes k: "k = 1024 - Suc c" "Suc c \<le> 1024" and cl: "cloneable m d e n" and t: "private_table m d e k t" and n: "n < n1" "n1 \<le> n2"
    and fr: "frames_same {e} n m m1" and e1: "\<forall>j < 1024. j \<noteq> k \<longrightarrow> m1 (waddr (1024 * e + j)) = m (waddr (1024 * e + j))" "slot m1 e k = Some n"
    and ce: "\<forall>x < 1024. clone_entry m m1 n n1 (slot m t x) (slot m1 n x)" "inj_on (slot m1 n) {x. x < 1024 \<and> slot m t x \<noteq> None}"
    and rest: "cloned m1 m2 d e c n1 n2"
  shows "cloned m m2 d e (Suc c) n n2"
proof -
  have kk: "k < 1024" "Suc k = 1024 - c" using k by simp_all
  have split: "k \<le> j \<longleftrightarrow> j = k \<or> 1024 - c \<le> j" for j using kk(2) by auto
  have de: "e < n" using cl by (simp add: cloneable_def)
  have st: "slot m d k = Some t" "slot m e k = None" using t by (simp_all add: private_table_def)
  have es: "slot m1 e j = slot m e j" if "j < 1024" "j \<noteq> k" for j using e1(1) that by (intro slot_cong) simp
  have en: "\<forall>j < 1024. slot m1 e j = None \<longrightarrow> slot m e j = None" using es e1(2) by force
  note L = cloneable_later [OF cl fr en order_refl]
  have r: "frames_same {e} n1 m1 m2" "\<forall>j < 1024 - c. m2 (waddr (1024 * e + j)) = m1 (waddr (1024 * e + j))"
    "\<forall>v < 2 ^ 20. 1024 - c \<le> v div 1024 \<and> slot m1 e (v div 1024) = None \<longrightarrow> clone_entry m1 m2 n1 n2 (page_map m1 d v) (page_map m2 e v)"
    "\<forall>j < 1024. 1024 - c \<le> j \<and> slot m1 e j \<noteq> None \<longrightarrow> slot m2 e j = slot m1 e j" "inj_on (page_map m2 e) (private_pages m1 d e c)"
    "\<forall>j < 1024. \<forall>t. slot m1 e j = None \<and> slot m2 e j = Some t \<longrightarrow> n1 \<le> t \<and> t < n2"
    using rest by (simp_all add: cloned_def)
  have n2: "slot m2 n x = slot m1 n x" if "x < 1024" for x using frames_same_slot [OF r(1) n(1) _ that] de by simp
  have ek: "slot m2 e k = Some n" using r(2) e1(2) kk(2) slot_cong [of m2 e k m1] by (metis lessI)
  have pk: "page_map m2 e v = slot m1 n (v mod 1024)" "page_map m d v = slot m t (v mod 1024)" if "v div 1024 = k" for v
    using that ek n2 [of "v mod 1024"] st(1) by (simp_all add: page_map_def)
  have first: "clone_entry m m2 n n2 (page_map m d v) (page_map m2 e v)" if "v div 1024 = k" for v
    unfolding pk [OF that] by (rule clone_entry_later [OF _ r(1)]) (use ce(1) de n in simp_all)
  have later: "clone_entry m1 m2 n1 n2 (page_map m d v) (page_map m2 e v)" if "v < 2 ^ 20" "1024 - c \<le> v div 1024" "slot m e (v div 1024) = None" for v
  proof -
    have "v div 1024 \<noteq> k" "v div 1024 < 1024" using that(1,2) kk(2) by auto
    then have "slot m1 e (v div 1024) = None" using es that(3) by simp
    then have "clone_entry m1 m2 n1 n2 (page_map m1 d v) (page_map m2 e v)" using r(3) that(1,2) by blast
    then show ?thesis unfolding L(4) [OF that(1,3)] .
  qed
  have later': "clone_entry m m2 n n2 (page_map m d v) (page_map m2 e v)" if v: "v < 2 ^ 20" "1024 - c \<le> v div 1024" "slot m e (v div 1024) = None" for v
    by (rule clone_entry_earlier [OF later [OF v] fr]) (use private_page_bound [OF cl _ v(3,1)] n(1) in auto)
  let ?A = "{v. v < 2 ^ 20 \<and> v div 1024 = k \<and> page_map m d v \<noteq> None}" and ?B = "private_pages m d e c"
  have A: "\<exists>f. page_map m2 e v = Some f \<and> f < n1" if "v \<in> ?A" for v
  proof -
    have "clone_entry m m1 n n1 (page_map m d v) (page_map m2 e v)" using ce(1) that pk [of v] by simp
    then show ?thesis using that by (auto simp: clone_entry_def)
  qed
  have B: "\<exists>f. page_map m2 e v = Some f \<and> n1 \<le> f" if "v \<in> ?B" for v
    using later [of v] that by (auto simp: private_pages_def clone_entry_def)
  have injA: "inj_on (page_map m2 e) ?A" by (rule inj_on_subset [OF inj_on_table [OF pk(1) ce(2)]]) (use pk(2) in auto)
  have injB: "inj_on (page_map m2 e) ?B"
  proof -
    have "?B \<subseteq> private_pages m1 d e c"
    proof
      fix v assume "v \<in> ?B"
      then have v: "v < 2 ^ 20" "1024 - c \<le> v div 1024" "slot m e (v div 1024) = None" "page_map m d v \<noteq> None" by (simp_all add: private_pages_def)
      then have "v div 1024 \<noteq> k" "v div 1024 < 1024" using kk(2) by auto
      then show "v \<in> private_pages m1 d e c" using v es L(4) [OF v(1,3)] by (simp add: private_pages_def)
    qed
    then show ?thesis using r(5) inj_on_subset by blast
  qed
  have "private_pages m d e (Suc c) = ?A \<union> ?B" using split st(2) unfolding private_pages_def k(1) [symmetric] by auto
  moreover have "inj_on (page_map m2 e) (?A \<union> ?B)"
  proof -
    have "page_map m2 e v \<noteq> page_map m2 e w" if "v \<in> ?A" "w \<in> ?B" for v w using A [OF that(1)] B [OF that(2)] by auto
    then show ?thesis unfolding inj_on_Un using injA injB by blast
  qed
  moreover have "frames_same {e} n m m2" using frames_same_trans [OF fr r(1)] n(1) by simp
  moreover have "\<forall>j < 1024 - Suc c. m2 (waddr (1024 * e + j)) = m (waddr (1024 * e + j))"
  proof (intro allI impI)
    fix j assume "j < 1024 - Suc c"
    then have "j < 1024 - c" "j < 1024" "j \<noteq> k" using k kk by auto
    then show "m2 (waddr (1024 * e + j)) = m (waddr (1024 * e + j))" using r(2) e1(1) by simp
  qed
  moreover have "slot m2 e j = slot m e j" if "j < 1024" "k \<le> j" "slot m e j \<noteq> None" for j
  proof -
    have "j \<noteq> k" using that(3) st(2) by auto
    then show ?thesis using that r(4) es split by auto
  qed
  moreover have "clone_entry m m2 n n2 (page_map m d v) (page_map m2 e v)" if "v < 2 ^ 20" "k \<le> v div 1024" "slot m e (v div 1024) = None" for v
    using that split first later' by blast
  moreover have "n \<le> t' \<and> t' < n2" if "j < 1024" "slot m e j = None" "slot m2 e j = Some t'" for j t'
    using that r(6) es [of j] ek n by (cases "j = k") fastforce+
  ultimately show ?thesis unfolding cloned_def k(1) [symmetric] by auto
qed

lemma copy_pgdir_loop_clones:
  assumes "free_list s [n..<npages]" "cloneable (mem s) d e n" "c \<le> 1024" "n + clone_cost (mem s) d e c \<le> npages"
  shows "\<exists>s'. copy_pgdir_loop c (waddr (1024 * e)) (waddr (1024 * d)) s = Inr s' \<and> free_list s' [n + clone_cost (mem s) d e c..<npages] \<and>
    cloned (mem s) (mem s') d e c n (n + clone_cost (mem s) d e c)"
  using assms
proof (induction c arbitrary: n s)
  case 0
  have "clone_cost (mem s) d e 0 = 0" by (simp add: clone_cost_def)
  moreover have "v div 1024 < 1024" if "v < 2 ^ 20" for v :: nat using that by simp
  then have "cloned (mem s) (mem s) d e 0 n n" by (auto simp: cloned_def private_pages_def inj_on_def)
  ultimately show ?case using 0 by simp
next
  case (Suc c)
  let ?k = "1024 - Suc c"
  note C = clone_cost_Suc [OF Suc.prems(3)]
  show ?case
  proof (cases "\<exists>t. private_table (mem s) d e ?k t")
    case False
    then have skip: "slot (mem s) d ?k = None \<or> slot (mem s) e ?k \<noteq> None" by (auto simp: private_table_def)
    then have cost: "clone_cost (mem s) d e (Suc c) = clone_cost (mem s) d e c" using C [of "mem s" d e] by (auto simp: table_cost_def split: option.splits)
    have "\<not> (mem s (waddr (1024 * d + ?k)) AND PTE_P \<noteq> 0 \<and> mem s (waddr (1024 * e + ?k)) AND PTE_P = 0)"
      using skip by (auto simp: slot_def Let_def split: if_splits)
    then have step: "copy_pgdir_loop (Suc c) (waddr (1024 * e)) (waddr (1024 * d)) s = copy_pgdir_loop c (waddr (1024 * e)) (waddr (1024 * d)) s"
      by (simp only: copy_pgdir_loop.simps Let_def NPDENTRIES_def entry_addr_waddr if_False bind_res_simps)
    have "c \<le> 1024" "n + clone_cost (mem s) d e c \<le> npages" using Suc.prems(3,4) cost by simp_all
    from Suc.IH [OF Suc.prems(1,2) this] show ?thesis unfolding step cost using cloned_skip [OF _ Suc.prems(3) skip] by blast
  next
    case True
    then obtain t where t: "private_table (mem s) d e ?k t" by blast
    let ?p = "Suc (present_count (mem s) t 1024)"
    have cost: "clone_cost (mem s) d e (Suc c) = ?p + clone_cost (mem s) d e c" using C [of "mem s" d e] t by (simp add: table_cost_def private_table_def)
    have bud: "n + ?p \<le> npages" using Suc.prems(4) cost by simp
    from clone_table [OF Suc.prems(1,2) refl Suc.prems(3) t bud] obtain s1 where
      s1: "copy_pgdir_loop (Suc c) (waddr (1024 * e)) (waddr (1024 * d)) s = copy_pgdir_loop c (waddr (1024 * e)) (waddr (1024 * d)) s1"
        "free_list s1 [n + ?p..<npages]" "frames_same {e} n (mem s) (mem s1)"
        "\<forall>j < 1024. j \<noteq> ?k \<longrightarrow> mem s1 (waddr (1024 * e + j)) = mem s (waddr (1024 * e + j))" "slot (mem s1) e ?k = Some n"
        "\<forall>x < 1024. clone_entry (mem s) (mem s1) n (n + ?p) (slot (mem s) t x) (slot (mem s1) n x)"
        "inj_on (slot (mem s1) n) {x. x < 1024 \<and> slot (mem s) t x \<noteq> None}" by blast
    have es: "slot (mem s1) e j = slot (mem s) e j" if "j < 1024" "j \<noteq> ?k" for j using s1(4) that by (intro slot_cong) simp
    have en: "\<forall>j < 1024. slot (mem s1) e j = None \<longrightarrow> slot (mem s) e j = None" using es s1(5) by force
    have cl1: "cloneable (mem s1) d e (n + ?p)" by (rule cloneable_later(1) [OF Suc.prems(2) s1(3) en]) simp
    have c1: "clone_cost (mem s1) d e c = clone_cost (mem s) d e c"
    proof (rule cost_later [OF Suc.prems(2) s1(3) _ en])
      fix j assume "1024 - c \<le> j" "j < 1024"
      moreover from this have "j \<noteq> ?k" using Suc.prems(3) by auto
      ultimately show "slot (mem s1) e j = slot (mem s) e j" using es by simp
    qed
    have "c \<le> 1024" "n + ?p + clone_cost (mem s1) d e c \<le> npages" using Suc.prems(3,4) cost c1 by simp_all
    from Suc.IH [OF s1(2) cl1 this] obtain s' where s': "copy_pgdir_loop c (waddr (1024 * e)) (waddr (1024 * d)) s1 = Inr s'"
      "free_list s' [n + ?p + clone_cost (mem s) d e c..<npages]" "cloned (mem s1) (mem s') d e c (n + ?p) (n + ?p + clone_cost (mem s) d e c)"
      unfolding c1 by blast
    have "cloned (mem s) (mem s') d e (Suc c) n (n + ?p + clone_cost (mem s) d e c)"
      by (rule cloned_step [OF refl Suc.prems(3,2) t _ _ s1(3-7) s'(3)]) simp_all
    then show ?thesis using s1(1) s'(1,2) unfolding cost by (simp add: add.assoc)
  qed
qed

text \<open>What this means for the bytes that parent and child see.\<close>

lemma cloned_bytes:
  assumes cd: "cloned m m' d e 1024 n n'" and cl: "cloneable m d e n" and a: "a < 2 ^ 32" and e: "slot m e (a div 4096 div 1024) = None"
  shows "vbyte m' e a = vbyte m d a" "vbyte m' d a = vbyte m d a" "page_map m' d (a div 4096) = page_map m d (a div 4096)"
    "clone_entry m m' n n' (page_map m d (a div 4096)) (page_map m' e (a div 4096))"
proof -
  have v: "a div 4096 < 2 ^ 20" using a by simp
  have k: "a mod 4096 div 4 < 1024" by (simp add: less_mult_imp_div_less)
  have fr: "frames_same {e} n m m'" using cd by (simp add: cloned_def)
  have en: "\<forall>j < 1024. slot m' e j = None \<longrightarrow> slot m e j = None"
    using cd unfolding cloned_def by (metis diff_self_eq_0 le0)
  show ce: "clone_entry m m' n n' (page_map m d (a div 4096)) (page_map m' e (a div 4096))" using cd v e unfolding cloned_def by simp
  show pm: "page_map m' d (a div 4096) = page_map m d (a div 4096)" by (rule cloneable_later(4) [OF cl fr en order_refl v e])
  show "vbyte m' e a = vbyte m d a" using ce k by (cases "page_map m d (a div 4096)") (auto simp: vbyte_def clone_entry_def)
  show "vbyte m' d a = vbyte m d a"
  proof (cases "page_map m d (a div 4096)")
    case (Some f)
    then have "f < n" "f \<noteq> e" using private_page_bound [OF cl Some e v] by simp_all
    then show ?thesis using Some pm frames_same_word [OF fr _ _ k, of f] by (simp add: vbyte_def)
  qed (use pm in \<open>simp add: vbyte_def\<close>)
qed

end
