(* ===== verification/Fork_Clone.thy ===== *)
theory Fork_Clone
  imports Clone Fork
begin

text \<open>
  What \<^verbatim>\<open>fork_current\<close> (\<^verbatim>\<open>src/kernel/src/process.c\<close>) promises: the child sees the bytes that the parent sees, in frames of its own, and
  goes on from the same trap frame with the result 0.
\<close>

section \<open>The kernel's words and the pages of processes\<close>

text \<open>\<open>high_same B m m'\<close>: the frames from \<open>B\<close> on have the same contents; the kernel's variables are below.\<close>

definition high_same :: "nat \<Rightarrow> wmem \<Rightarrow> wmem \<Rightarrow> bool" where
  "high_same B m m' \<longleftrightarrow> (\<forall>g k. B \<le> g \<and> g < 2 ^ 18 \<and> k < 1024 \<longrightarrow> m' (waddr (1024 * g + k)) = m (waddr (1024 * g + k)))"

lemma high_same_word: "high_same B m m' \<Longrightarrow> B \<le> g \<Longrightarrow> g < 2 ^ 18 \<Longrightarrow> k < 1024 \<Longrightarrow> m' (waddr (1024 * g + k)) = m (waddr (1024 * g + k))"
  by (simp add: high_same_def)

lemma high_same_slot: "high_same B m m' \<Longrightarrow> B \<le> g \<Longrightarrow> g < 2 ^ 18 \<Longrightarrow> k < 1024 \<Longrightarrow> slot m' g k = slot m g k"
  by (rule slot_cong) (rule high_same_word)

lemma high_same_store: "x < 1024 * B \<Longrightarrow> B \<le> 2 ^ 18 \<Longrightarrow> high_same B m (m(waddr x := v))"
  by (auto simp: high_same_def)

lemma high_same_trans: "high_same B m m1 \<Longrightarrow> high_same B m1 m2 \<Longrightarrow> high_same B m m2"
  by (simp add: high_same_def)

lemma movsl_other:
  assumes "k < i \<or> i + n \<le> k" "i + n \<le> 2 ^ 28" "k < 2 ^ 28"
  shows "rep_movsl n (waddr i) a w (waddr k) = w (waddr k)"
  using assms
proof (induction n arbitrary: i a w)
  case (Suc n)
  have "rep_movsl (Suc n) (waddr i) a w (waddr k) = rep_movsl n (waddr (Suc i)) (a + 4) (w(waddr i := w a)) (waddr k)" by (simp add: waddr_Suc)
  also have "\<dots> = (w(waddr i := w a)) (waddr k)" using Suc.prems by (intro Suc.IH) auto
  also have "\<dots> = w (waddr k)" using Suc.prems by (auto simp: less_imp_neq)
  finally show ?case .
qed simp

lemma high_same_memcpy:
  assumes "x + c \<le> 1024 * B" "B \<le> 2 ^ 18"
  shows "high_same B (mem s) (mem (memcpy (waddr x) a c s))"
  unfolding high_same_def memcpy_def
proof (intro allI impI)
  fix g k :: nat assume "B \<le> g \<and> g < 2 ^ 18 \<and> k < 1024"
  then have "x + c \<le> 1024 * g + k" "1024 * g + k < 2 ^ 28" using assms by auto
  then show "mem (s\<lparr>mem := rep_movsl c (waddr x) a (mem s)\<rparr>) (waddr (1024 * g + k)) = mem s (waddr (1024 * g + k))"
    using movsl_other [of "1024 * g + k" x c a "mem s"] assms by simp
qed

text \<open>A user address space: the tables that the kernel's directory does not have, and their pages, are above \<open>B\<close>.\<close>

definition user_above :: "wmem \<Rightarrow> nat \<Rightarrow> nat \<Rightarrow> nat \<Rightarrow> nat \<Rightarrow> bool" where
  "user_above m d D B n \<longleftrightarrow> B \<le> d \<and> d < n \<and> (\<forall>k < 1024. \<forall>t. slot m d k = Some t \<and> dir_slot m D k = None \<longrightarrow>
     B \<le> t \<and> t < n \<and> (\<forall>x < 1024. \<forall>f. slot m t x = Some f \<longrightarrow> B \<le> f \<and> f < n))"

lemma user_above_bounds:
  assumes "user_above m d D B n" "a < 2 ^ 32" "dir_slot m D (a div 4096 div 1024) = None"
  shows "slot m d (a div 4096 div 1024) = Some t \<Longrightarrow> B \<le> t \<and> t < n" "page_map m d (a div 4096) = Some f \<Longrightarrow> B \<le> f \<and> f < n"
proof -
  have k: "a div 4096 div 1024 < 1024" "a div 4096 mod 1024 < 1024" using assms(2) by simp_all
  have t: "B \<le> t \<and> t < n \<and> (\<forall>x < 1024. \<forall>f. slot m t x = Some f \<longrightarrow> B \<le> f \<and> f < n)" if "slot m d (a div 4096 div 1024) = Some t" for t
    using assms(1,3) k(1) that unfolding user_above_def by blast
  then show "slot m d (a div 4096 div 1024) = Some t \<Longrightarrow> B \<le> t \<and> t < n" by blast
  show "B \<le> f \<and> f < n" if pm: "page_map m d (a div 4096) = Some f"
  proof -
    obtain t where "slot m d (a div 4096 div 1024) = Some t" "slot m t (a div 4096 mod 1024) = Some f"
      using pm by (auto simp: page_map_def split: option.splits)
    then show ?thesis using t k(2) by blast
  qed
qed

definition fork_cost :: "wmem \<Rightarrow> nat \<Rightarrow> nat \<Rightarrow> nat" where
  "fork_cost m d D = sum_list (map (\<lambda>k. case slot m d k of Some t \<Rightarrow> if dir_slot m D k = None then Suc (present_count m t 1024) else 0 | None \<Rightarrow> 0) [0..<1024])"

lemma user_above_clone:
  assumes u: "user_above m d D B n" and n: "n < 2 ^ 17" and h: "high_same B m0 m1" and low: "\<forall>k < 1024 * n. m0 (waddr k) = m (waddr k)"
    and e: "\<forall>k < 1024. slot m0 n k = dir_slot m D k"
  shows "cloneable m1 d n (Suc n)" "clone_cost m1 d n 1024 = fork_cost m d D" "k < 1024 \<Longrightarrow> slot m1 n k = dir_slot m D k"
    "a < 2 ^ 32 \<Longrightarrow> dir_slot m D (a div 4096 div 1024) = None \<Longrightarrow> vbyte m1 d a = vbyte m d a \<and> page_map m1 d (a div 4096) = page_map m d (a div 4096)"
    "k < 1024 \<Longrightarrow> slot m1 d k = slot m d k"
proof -
  have d: "B \<le> d" "d < n" using u by (simp_all add: user_above_def)
  have w: "m1 (waddr (1024 * g + k)) = m (waddr (1024 * g + k))" if "B \<le> g" "g < n" "k < 1024" for g k
    using high_same_word [OF h that(1) _ that(3)] low that n by simp
  have sl: "slot m1 g k = slot m g k" if "B \<le> g" "g < n" "k < 1024" for g k using w [OF that] by (rule slot_cong)
  have en: "slot m1 n k = dir_slot m D k" if "k < 1024" for k using high_same_slot [OF h _ _ that, of n] d e that n by simp
  then show "k < 1024 \<Longrightarrow> slot m1 n k = dir_slot m D k" by simp
  show "k < 1024 \<Longrightarrow> slot m1 d k = slot m d k" using sl [OF d] .
  have t: "B \<le> t \<and> t < n \<and> (\<forall>x < 1024. \<forall>f. slot m t x = Some f \<longrightarrow> B \<le> f \<and> f < n)" if "slot m d k = Some t" "dir_slot m D k = None" "k < 1024" for k t
    using u that unfolding user_above_def by blast
  show "cloneable m1 d n (Suc n)"
    unfolding cloneable_def
  proof (intro conjI allI impI)
    fix k t assume k: "k < 1024" and "private_table m1 d n k t"
    then have "slot m d k = Some t" "dir_slot m D k = None" using en [OF k] sl [OF d k] by (simp_all add: private_table_def)
    from t [OF this k] have b: "B \<le> t" "t < n" "\<forall>x < 1024. \<forall>f. slot m t x = Some f \<longrightarrow> B \<le> f \<and> f < n" by blast+
    show "t < Suc n" "t \<noteq> n" using b by simp_all
    show "f < Suc n" "f \<noteq> n" if "x < 1024" "slot m1 t x = Some f" for x f using b(3) that sl [OF b(1,2) that(1)] by fastforce+
  qed (use d in simp_all)
  have "table_cost m1 d n k = (case slot m d k of Some t \<Rightarrow> if dir_slot m D k = None then Suc (present_count m t 1024) else 0 | None \<Rightarrow> 0)" if k: "k < 1024" for k
  proof (cases "slot m d k")
    case (Some tt)
    have "present_count m1 tt 1024 = present_count m tt 1024" if "dir_slot m D k = None"
      unfolding present_count_def using t [OF Some that k] sl [of tt] by (intro arg_cong [where f = length] filter_cong) simp_all
    then show ?thesis using Some sl [OF d k] en [OF k] by (simp add: table_cost_def)
  qed (use sl [OF d k] in \<open>simp add: table_cost_def\<close>)
  then show "clone_cost m1 d n 1024 = fork_cost m d D" unfolding clone_cost_def fork_cost_def by (intro arg_cong [where f = sum_list] map_cong) simp_all
  show "vbyte m1 d a = vbyte m d a \<and> page_map m1 d (a div 4096) = page_map m d (a div 4096)" if a: "a < 2 ^ 32" "dir_slot m D (a div 4096 div 1024) = None"
  proof -
    have k: "a div 4096 div 1024 < 1024" "a div 4096 mod 1024 < 1024" "a mod 4096 div 4 < 1024" using a(1) by (simp_all add: less_mult_imp_div_less)
    show ?thesis
    proof (cases "slot m d (a div 4096 div 1024)")
      case (Some tt)
      note b = t [OF Some a(2) k(1)]
      have p: "page_map m1 d (a div 4096) = page_map m d (a div 4096)" using Some sl [OF d k(1)] sl [of tt, OF _ _ k(2)] b by (simp add: page_map_def)
      show ?thesis
      proof (cases "slot m tt (a div 4096 mod 1024)")
        case f: (Some f)
        then have "B \<le> f" "f < n" using b k(2) by blast+
        then show ?thesis using p w [OF _ _ k(3), of f] Some f by (simp add: vbyte_def page_map_def)
      qed (use p Some in \<open>simp add: vbyte_def page_map_def\<close>)
    qed (use sl [OF d k(1)] in \<open>simp add: vbyte_def page_map_def\<close>)
  qed
qed

section \<open>Fork\<close>

text \<open>The child of a user process: its kernel stack is a copy, its pages are copies.\<close>

lemma copy_pcb_clones:
  fixes s :: "'a procst_scheme" and son p :: nat
  defines "m1 \<equiv> rep_movsl FORKKSTACKSIZE (pcb_addr s son) (pcb_addr s p) (mem s)"
  assumes ne: "son \<noteq> p" and u: "tt (PCBPool s p) = USER" and dirs: "pgdir (PCBPool s son) = page2kva n" "pgdir (PCBPool s p) = page2kva d"
    and fl: "free_list s [Suc n..<npages]" and cl: "cloneable m1 d n (Suc n)" and bud: "Suc n + clone_cost m1 d n 1024 \<le> npages"
  shows "\<exists>s'. copy_pcb son p s = Inr s' \<and> cloned m1 (mem s') d n 1024 (Suc n) (Suc n + clone_cost m1 d n 1024) \<and>
    pgdir (PCBPool s' son) = page2kva n \<and> tf (PCBPool s' son) = tf (PCBPool s p) + (pcb_addr s son - pcb_addr s p) \<and>
    ppid (PCBPool s' son) = ppid (PCBPool s son)"
proof -
  define sA where "sA = memcpy (pcb_addr s son) (pcb_addr s p) FORKKSTACKSIZE s"
  define sB where "sB = upd_pcb son (\<lambda>x. x\<lparr>timeslice := timeslice (PCBPool sA p)\<rparr>) sA"
  define off where "off = kstack_addr sB son - kstack_addr sB p"
  define sC where "sC = upd_pcb son (\<lambda>x. x\<lparr>tf := tf (PCBPool sB p) + off\<rparr>) sB"
  define sD where "sD = upd_pcb son (\<lambda>x. x\<lparr>tt := tt (PCBPool sC p)\<rparr>) sC"
  note sDs = sD_def sC_def sB_def sA_def
  have off: "off = pcb_addr s son - pcb_addr s p" by (simp add: off_def kstack_addr_def pcb_addr_def sB_def sA_def upd_pcb_def)
  have D: "mem sD = m1" "tt (PCBPool sD son) = USER" "pgdir (PCBPool sD son) = waddr (1024 * n)" "pgdir (PCBPool sD p) = waddr (1024 * d)"
    "tf (PCBPool sD son) = tf (PCBPool s p) + off" "free_list sD [Suc n..<npages]" "ppid (PCBPool sD son) = ppid (PCBPool s son)"
    using ne u dirs fl by (simp_all add: sDs upd_pcb_def memcpy_def m1_def page2kva_waddr free_list_def)
  from copy_pgdir_loop_clones [OF D(6), of d n 1024] obtain s1 where
    s1: "copy_pgdir (waddr (1024 * n)) (waddr (1024 * d)) sD = Inr s1" "cloned m1 (mem s1) d n 1024 (Suc n) (Suc n + clone_cost m1 d n 1024)"
    using cl bud unfolding D(1) copy_pgdir_def NPDENTRIES_def by auto
  let ?s = "upd_pcb son (\<lambda>x. x\<lparr>fcb := (\<lambda>j. if j < FCBMAX then fcb (PCBPool s1 p) j else fcb x j)\<rparr>) s1"
  have "copy_pcb son p s = Inr ?s"
    unfolding copy_pcb_def Let_def sA_def [symmetric] sB_def [symmetric] off_def [symmetric] sC_def [symmetric] sD_def [symmetric]
    using D s1(1) by simp
  moreover have "PCBPool s1 = PCBPool sD" using more_procs(1) [OF copy_pgdir_frame [OF s1(1)]] .
  ultimately show ?thesis using s1(2) D(3,5,7) off by (intro exI [of _ ?s]) (simp add: upd_pcb_def page2kva_waddr)
qed

text \<open>Words below \<open>B\<close> are not part of an address space whose directory, tables and pages are above.\<close>

lemma high_same_vbyte:
  assumes h: "high_same B m m'" and d: "B \<le> d" "d < 2 ^ 18" and a: "a < 2 ^ 32"
    and t: "\<forall>t. slot m d (a div 4096 div 1024) = Some t \<longrightarrow> B \<le> t \<and> t < 2 ^ 18"
    and f: "\<forall>f. page_map m d (a div 4096) = Some f \<longrightarrow> B \<le> f \<and> f < 2 ^ 18"
  shows "vbyte m' d a = vbyte m d a" "page_map m' d (a div 4096) = page_map m d (a div 4096)"
proof -
  have k: "a div 4096 div 1024 < 1024" "a div 4096 mod 1024 < 1024" "a mod 4096 div 4 < 1024" using a by (simp_all add: less_mult_imp_div_less)
  show p: "page_map m' d (a div 4096) = page_map m d (a div 4096)"
    using high_same_slot [OF h d k(1)] high_same_slot [OF h _ _ k(2)] t by (auto simp: page_map_def split: option.splits)
  show "vbyte m' d a = vbyte m d a"
    using p f high_same_word [OF h _ _ k(3)] by (cases "page_map m d (a div 4096)") (auto simp: vbyte_def)
qed

text \<open>What remains of \<^verbatim>\<open>fork_current\<close> when the child is there.\<close>

lemma fork_finish:
  assumes "pcb_create s = Inr (Some i, s1)" "current s = Some p" "p \<noteq> i"
    and "copy_pcb i p (upd_pcb i (\<lambda>x. x\<lparr>ppid := pid (PCBPool s p)\<rparr>) s1) = Inr s3"
  shows "\<exists>s'. fork_current s = Inr s' \<and> current s' = Some p \<and> ready_list s' = Some i \<and> PCBPool s' p = PCBPool s p \<and>
    (\<exists>q. PCBPool s' i = (PCBPool s3 i)\<lparr>nxt := q\<rparr>) \<and>
    mem s' = (mem s3)(tf (PCBPool s p) + TF_EAX := pid (PCBPool s3 i), tf (PCBPool s3 i) + TF_EAX := 0)"
proof -
  note c = pcb_create_frame [OF assms(1)] and cp = copy_pcb_files [OF assms(4) assms(3) [symmetric]]
  have pp: "PCBPool s1 p = PCBPool s p" "current s1 = Some p" using c(3,4) assms(2,3) by simp_all
  have p3: "PCBPool s3 p = PCBPool s p" "current s3 = Some p" using cp(1) pp assms(3) by (simp_all add: beside_def upd_pcb_def)
  define s4 where "s4 = store (tf (PCBPool s3 i) + TF_EAX) 0 (store (tf (PCBPool s p) + TF_EAX) (pid (PCBPool s3 i)) s3)"
  have s4: "PCBPool s4 = PCBPool s3" "current s4 = Some p"
    "mem s4 = (mem s3)(tf (PCBPool s p) + TF_EAX := pid (PCBPool s3 i), tf (PCBPool s3 i) + TF_EAX := 0)"
    using p3 by (simp_all add: s4_def store_def)
  have f: "fork_current s = bind_res (ll_push Ready_list (Some i) s4) (\<lambda>(_, s). Inr s)"
    unfolding fork_current_def using assms(1,4) pp p3 by (simp add: Let_def s4_def store_def)
  show ?thesis
  proof (cases "ready_list s4")
    case None
    then have "fork_current s = Inr (s4\<lparr>ready_list := Some i\<rparr>)" unfolding f by (simp add: ll_push_def)
    then show ?thesis using s4 p3(1) by (intro exI [of _ "s4\<lparr>ready_list := Some i\<rparr>"]) (auto intro: exI [of _ "nxt (PCBPool s3 i)"])
  next
    case (Some h)
    let ?s = "upd_pcb i (\<lambda>x. x\<lparr>nxt := Some h\<rparr>) (s4\<lparr>ready_list := Some i\<rparr>)"
    have "fork_current s = Inr ?s" unfolding f using Some by (simp add: ll_push_def Let_def)
    then show ?thesis using s4 p3(1) assms(3) by (intro exI [of _ ?s]) (auto simp: upd_pcb_def)
  qed
qed

lemma cloned_seen:
  assumes cd: "cloned m1 m3 d n 1024 (Suc n) n'" and cl: "cloneable m1 d n (Suc n)" and h: "high_same B m3 m'" and b: "B \<le> d" "d < n" "n' \<le> 2 ^ 18"
    and a: "a < 2 ^ 32" "slot m1 n (a div 4096 div 1024) = None"
    and t: "\<forall>t. slot m1 d (a div 4096 div 1024) = Some t \<longrightarrow> B \<le> t \<and> t < n" and f: "\<forall>f. page_map m1 d (a div 4096) = Some f \<longrightarrow> B \<le> f \<and> f < n"
    and n: "n < 2 ^ 18"
  shows "vbyte m' n a = vbyte m1 d a" "vbyte m' d a = vbyte m1 d a" "page_map m' n (a div 4096) = Some g \<Longrightarrow> n < g"
    "page_map m' d (a div 4096) = Some g \<Longrightarrow> g < n"
proof -
  have k: "a div 4096 div 1024 < 1024" using a(1) by simp
  note cb = cloned_bytes [OF cd cl a]
  have "\<forall>t. slot m3 n (a div 4096 div 1024) = Some t \<longrightarrow> Suc n \<le> t \<and> t < n'" using cd a(2) k unfolding cloned_def by blast
  moreover have fb: "\<forall>f. page_map m3 n (a div 4096) = Some f \<longrightarrow> Suc n \<le> f \<and> f < n'"
    using cb(4) by (auto simp: clone_entry_def split: option.splits)
  ultimately have up: "\<forall>t. slot m3 n (a div 4096 div 1024) = Some t \<longrightarrow> B \<le> t \<and> t < 2 ^ 18" "\<forall>f. page_map m3 n (a div 4096) = Some f \<longrightarrow> B \<le> f \<and> f < 2 ^ 18"
    using b by (meson Suc_leD order_less_le_trans order_trans less_imp_le)+
  have "B \<le> n" using b by simp
  note child = high_same_vbyte [OF h this n a(1) up]
  have "slot m3 d (a div 4096 div 1024) = slot m1 d (a div 4096 div 1024)"
    using cd b(2) k unfolding cloned_def by (intro frames_same_slot [of "{n}" "Suc n"]) auto
  then have low: "\<forall>t. slot m3 d (a div 4096 div 1024) = Some t \<longrightarrow> B \<le> t \<and> t < 2 ^ 18" "\<forall>f. page_map m3 d (a div 4096) = Some f \<longrightarrow> B \<le> f \<and> f < 2 ^ 18"
    using t f n cb(3) by (metis order_less_trans)+
  have "d < 2 ^ 18" using b(2) n by simp
  note parent = high_same_vbyte [OF h b(1) this a(1) low]
  show "vbyte m' n a = vbyte m1 d a" "vbyte m' d a = vbyte m1 d a" using child(1) parent(1) cb(1,2) by simp_all
  show "page_map m' n (a div 4096) = Some g \<Longrightarrow> n < g" using child(2) fb by auto
  show "page_map m' d (a div 4096) = Some g \<Longrightarrow> g < n" using parent(2) cb(3) f by auto
qed

lemma low_word: "frames_same {n} (Suc n) m m' \<Longrightarrow> k < 1024 * n \<Longrightarrow> m' (waddr k) = m (waddr k)"
  using frames_same_word [of "{n}" "Suc n" m m' "k div 1024" "k mod 1024"] by (simp add: less_mult_imp_div_less mult.commute)

text \<open>The trap frames of parent and child, at the same place of their kernel stacks, when both have their results.\<close>

lemma fork_frame:
  assumes m': "m' = m3(waddr (y + w + 7) := v, waddr (x + w + 7) := 0)" and fr: "frames_same {n} (Suc n) (rep_movsl FORKKSTACKSIZE (waddr x) (waddr y) m) m3" and B: "B \<le> n" "n < 2 ^ 17"
    and ap: "x + FORKKSTACKSIZE \<le> y \<or> y + FORKKSTACKSIZE \<le> x" "x + FORKKSTACKSIZE \<le> 1024 * B" "y + FORKKSTACKSIZE \<le> 1024 * B" and w: "w + 19 \<le> FORKKSTACKSIZE"
  shows "m' (waddr (y + w + 7)) = v" "j < 19 \<Longrightarrow> m' (waddr (x + w + j)) = (if j = 7 then 0 else m (waddr (y + w + j)))"
    "high_same B m3 m'"
proof -
  have F: "FORKKSTACKSIZE = 2064" by (simp add: FORKKSTACKSIZE_def)
  have lo: "x + w + j < 1024 * B" "y + w + j < 1024 * B" "x + w + i \<noteq> y + w + j" if "i < 19" "j < 19" for i j using that ap w F by auto
  have b: "B \<le> 2 ^ 18" "1024 * B \<le> 2 ^ 28" "1024 * B \<le> 1024 * n" using B by simp_all
  show "m' (waddr (y + w + 7)) = v" using lo [of 7 7] b(2) by (simp add: m')
  show "high_same B m3 m'"
    unfolding m' using lo [of 7 7] b(1) by (intro high_same_trans [OF high_same_store high_same_store]) simp_all
  assume j: "j < 19"
  have "m3 (waddr (x + w + j)) = rep_movsl FORKKSTACKSIZE (waddr x) (waddr y) m (waddr (x + w + j))" using low_word [OF fr] lo(1) [OF j j] b(3) by simp
  also have "\<dots> = m (waddr (y + w + j))"
    using rep_movsl_at [of x FORKKSTACKSIZE y "x + w + j" m] ap w j b(2) by (simp add: F add.assoc)
  finally show "m' (waddr (x + w + j)) = (if j = 7 then 0 else m (waddr (y + w + j)))"
    using lo [OF j, of 7] lo(1) [OF j j] lo [of 7 7] b(2) j by (auto simp: m')
qed

text \<open>
  C5. When a user process forks and there are a free descriptor and enough frames, \<^verbatim>\<open>fork_current\<close> succeeds. The child is the first ready process. At every
  address outside the kernel's tables the child sees the byte that the parent saw before the call, and so does the parent; the child's pages are in frames
  that were free, so neither sees what the other writes later. The child's trap frame, at the same place of its kernel stack, is a copy of the parent's
  but for \<^verbatim>\<open>eax\<close>: the child's holds 0 and the parent's the pid of the child. The child has the parent's open files and its pid as \<^verbatim>\<open>ppid\<close>.
\<close>

theorem fork_clones:
  assumes cur: "current s = Some p" "used (PCBPool s p) \<noteq> 0" "tt (PCBPool s p) = USER" "pgdir (PCBPool s p) = page2kva d"
    and free: "find_unused PCBPOOLMAX (PCBPool s) = i" "i < PCBPOOLMAX" "free_list s [n..<npages]"
    and kern: "kern_pgdir s = waddr D" "D + 4096 \<le> 1024 * n" "kernel_dir D n (mem s)"
    and user: "user_above (mem s) d D B n" "Suc n + fork_cost (mem s) d D \<le> npages"
    and pcbs: "pcb_addr s i = waddr x" "pcb_addr s p = waddr y" "x + FORKKSTACKSIZE \<le> y \<or> y + FORKKSTACKSIZE \<le> x"
      "x + FORKKSTACKSIZE \<le> 1024 * B" "y + FORKKSTACKSIZE \<le> 1024 * B"
    and tf: "tf (PCBPool s p) = waddr (y + w)" "w + 19 \<le> FORKKSTACKSIZE"
  shows "\<exists>s'. fork_current s = Inr s' \<and> current s' = Some p \<and> ready_list s' = Some i \<and> PCBPool s' p = PCBPool s p \<and>
    pgdir (PCBPool s' i) = page2kva n \<and> tf (PCBPool s' i) = waddr (x + w) \<and> ppid (PCBPool s' i) = pid (PCBPool s p) \<and>
    (\<forall>j < FCBMAX. fcb (PCBPool s' i) j = fcb (PCBPool s p) j) \<and>
    mem s' (waddr (y + w + 7)) = pid (PCBPool s' i) \<and>
    (\<forall>j < 19. mem s' (waddr (x + w + j)) = (if j = 7 then 0 else mem s (waddr (y + w + j)))) \<and>
    (\<forall>a < 2 ^ 32. dir_slot (mem s) D (a div 4096 div 1024) = None \<longrightarrow>
       vbyte (mem s') n a = vbyte (mem s) d a \<and> vbyte (mem s') d a = vbyte (mem s) d a \<and>
       (\<forall>f. page_map (mem s') n (a div 4096) = Some f \<longrightarrow> n < f) \<and> (\<forall>f. page_map (mem s') d (a div 4096) = Some f \<longrightarrow> f < n))"
proof -
  have np: "n < npages" "n < 2 ^ 17" "B \<le> d" "d < n" using user by (simp_all add: user_above_def npages_def)
  have ne: "p \<noteq> i" using find_unused_free [OF free(1) _ free(2)] cur(2) by auto
  obtain s1 where s1: "pcb_create s = Inr (Some i, s1)" "pgdir (PCBPool s1 i) = page2kva n" "space_ok n (Suc n) s1"
    "\<forall>k < 1024. slot (mem s1) n k = dir_slot (mem s) D k" "\<forall>k < 1024 * n. mem s1 (waddr k) = mem s (waddr k)"
    using pcb_create_space [OF free(3) np(1) kern free(1,2)] by blast
  note c = pcb_create_frame [OF s1(1)] 
  have pp: "PCBPool s1 p = PCBPool s p" using c(3) ne by simp
  define s2 where "s2 = upd_pcb i (\<lambda>x. x\<lparr>ppid := pid (PCBPool s p)\<rparr>) s1"
  define m1 where "m1 = rep_movsl FORKKSTACKSIZE (waddr x) (waddr y) (mem s1)"
  have a2: "pcb_addr s2 i = waddr x" "pcb_addr s2 p = waddr y" "mem s2 = mem s1"
    using c(7) pcbs(1,2) by (simp_all add: s2_def upd_pcb_def pcb_addr_def)
  have h: "high_same B (mem s1) m1" using high_same_memcpy [OF pcbs(4), of s1 "waddr y"] np by (simp add: m1_def memcpy_def)
  note U = user_above_clone [OF user(1) np(2) h s1(5,4)]
  have m1: "m1 = rep_movsl FORKKSTACKSIZE (pcb_addr s2 i) (pcb_addr s2 p) (mem s2)" by (simp add: m1_def a2)
  have "free_list s2 [Suc n..<npages]" using s1(3) by (simp add: space_ok_def s2_def free_list_def upd_pcb_def)
  with copy_pcb_clones [of i p s2 n d, folded m1] obtain s3 where s3: "copy_pcb i p s2 = Inr s3"
    "cloned m1 (mem s3) d n 1024 (Suc n) (Suc n + fork_cost (mem s) d D)" "pgdir (PCBPool s3 i) = page2kva n"
    "tf (PCBPool s3 i) = waddr (y + w) + (waddr x - waddr y)" "ppid (PCBPool s3 i) = pid (PCBPool s p)"
    using U(1,2) user(2) ne cur(3,4) s1(2) pp tf(1) unfolding a2 by (auto simp: s2_def upd_pcb_def)
  note files = copy_pcb_files(2) [OF s3(1) ne [symmetric]]
  have tf3: "tf (PCBPool s3 i) = waddr (x + w)" using s3(4) by (simp add: waddr_def algebra_simps)
  from fork_finish [OF s1(1) cur(1) ne s3(1) [unfolded s2_def]] obtain s' q where
    s': "fork_current s = Inr s'" "current s' = Some p" "ready_list s' = Some i" "PCBPool s' p = PCBPool s p" "PCBPool s' i = (PCBPool s3 i)\<lparr>nxt := q\<rparr>"
    "mem s' = (mem s3)(waddr (y + w + 7) := pid (PCBPool s3 i), waddr (x + w + 7) := 0)"
    unfolding tf(1) tf3 by (auto simp: waddr_def TF_EAX_def algebra_simps)
  have "frames_same {n} (Suc n) (rep_movsl FORKKSTACKSIZE (waddr x) (waddr y) (mem s1)) (mem s3)" using s3(2) by (simp add: cloned_def m1_def)
  note frame = fork_frame [OF s'(6) this _ np(2) pcbs(3-5) tf(2)]
  have B: "B \<le> n" using np by simp
  have words: "mem s' (waddr (x + w + j)) = (if j = 7 then 0 else mem s (waddr (y + w + j)))" if "j < 19" for j
    using frame(2) [OF B that] s1(5) pcbs(5) tf(2) B that by simp
  have seen: "vbyte (mem s') n a = vbyte (mem s) d a" "vbyte (mem s') d a = vbyte (mem s) d a" "page_map (mem s') n (a div 4096) = Some f \<Longrightarrow> n < f"
    "page_map (mem s') d (a div 4096) = Some f \<Longrightarrow> f < n" if a: "a < 2 ^ 32" "dir_slot (mem s) D (a div 4096 div 1024) = None" for a f
  proof -
    have k: "a div 4096 div 1024 < 1024" using a(1) by simp
    have e: "slot m1 n (a div 4096 div 1024) = None" using U(3) [OF k] a(2) by simp
    note ub = user_above_bounds [OF user(1) a] and same = U(4) [OF a] U(5) [OF k]
    have "\<forall>t. slot m1 d (a div 4096 div 1024) = Some t \<longrightarrow> B \<le> t \<and> t < n" "\<forall>f. page_map m1 d (a div 4096) = Some f \<longrightarrow> B \<le> f \<and> f < n"
      using ub same by simp_all
    note cs = cloned_seen [OF s3(2) U(1) frame(3) [OF B] np(3,4) _ a(1) e this]
    have "Suc n + fork_cost (mem s) d D \<le> 2 ^ 18" "n < 2 ^ 18" using user(2) np(2) by (simp_all add: npages_def)
    note cs = cs [OF this]
    show "vbyte (mem s') n a = vbyte (mem s) d a" "vbyte (mem s') d a = vbyte (mem s) d a" using cs(1,2) same by simp_all
    show "page_map (mem s') n (a div 4096) = Some f \<Longrightarrow> n < f" "page_map (mem s') d (a div 4096) = Some f \<Longrightarrow> f < n"
      by (erule cs(3), erule cs(4))
  qed
  have "pgdir (PCBPool s' i) = page2kva n" "tf (PCBPool s' i) = waddr (x + w)" "ppid (PCBPool s' i) = pid (PCBPool s p)" "pid (PCBPool s' i) = pid (PCBPool s3 i)"
    "\<forall>j < FCBMAX. fcb (PCBPool s' i) j = fcb (PCBPool s p) j" using s'(5) s3(3,5) tf3 files pp ne by (simp_all add: s2_def upd_pcb_def)
  then show ?thesis using s'(1-4) words frame(1) [OF B] seen by (intro exI [of _ s'] conjI) simp_all
qed

text \<open>
  Process 0 runs in the directory in frame 7, beside the kernel's in frame 5: it has the kernel's table in frame 6, and in frame 8 a table of its own,
  whose page 3 is in frame 9. Its trap frame is at word 2000, and the memory is free from frame 16 on.
\<close>

definition fork_mem :: wmem where
  "fork_mem = (\<lambda>_. 0)(waddr 2014 := 0x401001, waddr 5888 := 0x6007, waddr 7936 := 0x6007, waddr 7169 := 0x8007, waddr 8195 := 0x9007, waddr 9216 := 0x61)"

definition fork_sample :: procst where
  "fork_sample = sample\<lparr>mem := fork_mem, pages := (\<lambda>p. \<lparr>pp_link = if Suc p < npages then Some (Suc p) else None, pp_ref = 0\<rparr>), page_free_list := Some 16,
     kern_pgdir := waddr 5120, PCBPool_addr := waddr 0, current := Some 0,
     PCBPool := (\<lambda>_. blank_pcb)(0 := blank_pcb\<lparr>used := 1, pgdir := page2kva 7, tf := waddr 2000\<rparr>)\<rparr>"

lemma fork_mem_word:
  "x < 2 ^ 28 \<Longrightarrow> fork_mem (waddr x) = (if x = 2014 then 0x401001 else if x = 5888 \<or> x = 7936 then 0x6007 else if x = 7169 then 0x8007 else
     if x = 8195 then 0x9007 else if x = 9216 then 0x61 else 0)"
  by (simp add: fork_mem_def)

lemma fork_slots:
  "k < 1024 \<Longrightarrow> slot fork_mem 7 k = (if k = 1 then Some 8 else if k = 768 then Some 6 else None)"
  "k < 1024 \<Longrightarrow> slot fork_mem 8 k = (if k = 3 then Some 9 else None)"
  "k < 1024 \<Longrightarrow> dir_slot fork_mem 5120 k = (if k = 768 then Some 6 else None)"
  by (simp_all add: slot_def dir_slot_def fork_mem_word Let_def PTE_P_def PTE_ADDR_def pa2page_def PGNUM_def)

lemma fork_sample_space:
  "free_list fork_sample [16..<npages]" "kernel_dir 5120 16 fork_mem" "user_above fork_mem 7 5120 7 16" "Suc 16 + fork_cost fork_mem 7 5120 \<le> npages"
proof -
  have np: "16 < npages" "16 \<le> npages" by (simp_all add: npages_def)
  show "free_list fork_sample [16..<npages]" using chain_upward [OF np(2)] np(1) by (simp add: free_list_def fork_sample_def)
  show "kernel_dir 5120 16 fork_mem" by (auto simp: kernel_dir_def fork_slots split: if_splits)
  show "user_above fork_mem 7 5120 7 16" by (auto simp: user_above_def fork_slots split: if_splits)
  have "(case slot fork_mem 7 k of Some t \<Rightarrow> if dir_slot fork_mem 5120 k = None then Suc (present_count fork_mem t 1024) else 0 | None \<Rightarrow> 0) =
    (if k = 1 then Suc (present_count fork_mem 8 1024) else 0)" if "k < 1024" for k
    using that by (simp add: fork_slots)
  then have "fork_cost fork_mem 7 5120 = (\<Sum>k = 0..<1024 :: nat. if k = 1 then Suc (present_count fork_mem 8 1024) else 0)"
    unfolding fork_cost_def interv_sum_list_conv_sum_set_nat by (intro sum.cong) simp_all
  moreover have "present_count fork_mem 8 1024 \<le> 1024"
    unfolding present_count_def by (rule order_trans [OF length_filter_le]) simp
  ultimately show "Suc 16 + fork_cost fork_mem 7 5120 \<le> npages" by (simp add: npages_def)
qed

theorem fork_clones_witness:
  "\<exists>s'. fork_current fork_sample = Inr s' \<and> ready_list s' = Some 1 \<and> vbyte (mem s') 16 0x403000 = Some 0x61 \<and> vbyte (mem s') 7 0x403000 = Some 0x61 \<and>
     mem s' (waddr 4338) = 0 \<and> mem s' (waddr 4345) = 0x401001"
proof -
  have p: "current fork_sample = Some 0" "used (PCBPool fork_sample 0) \<noteq> 0" "tt (PCBPool fork_sample 0) = USER" "pgdir (PCBPool fork_sample 0) = page2kva 7"
    "find_unused PCBPOOLMAX (PCBPool fork_sample) = 1" "1 < PCBPOOLMAX" "kern_pgdir fork_sample = waddr 5120" "mem fork_sample = fork_mem"
    "pcb_addr fork_sample 1 = waddr 2331" "pcb_addr fork_sample 0 = waddr 0" "tf (PCBPool fork_sample 0) = waddr (0 + 2000)"
    by (simp_all add: fork_sample_def blank_pcb_def PCBPOOLMAX_def numeral_eq_Suc pcb_addr_def PCB_SIZE_def waddr_def) 
  have v: "vbyte fork_mem 7 0x403000 = Some 0x61" "dir_slot fork_mem 5120 (0x403000 div 4096 div 1024) = None"
    by (simp_all add: vbyte_def page_map_def fork_slots fork_mem_word byte_of_def)
  have q: "(5120 :: nat) + 4096 \<le> 1024 * 16" "2331 + FORKKSTACKSIZE \<le> 0 \<or> 0 + FORKKSTACKSIZE \<le> 2331" "2331 + FORKKSTACKSIZE \<le> 1024 * 7"
    "0 + FORKKSTACKSIZE \<le> 1024 * 7" "2000 + 19 \<le> FORKKSTACKSIZE" by (simp_all add: FORKKSTACKSIZE_def)
  from fork_clones [OF p(1-6) fork_sample_space(1) p(7) q(1) fork_sample_space(2-4) [folded p(8)] p(9,10) q(2-4) p(11) q(5)]
  obtain s' where s': "fork_current fork_sample = Inr s'" "ready_list s' = Some 1"
    "\<forall>j < 19. mem s' (waddr (2331 + 2000 + j)) = (if j = 7 then 0 else fork_mem (waddr (0 + 2000 + j)))"
    "\<forall>a < 2 ^ 32. dir_slot fork_mem 5120 (a div 4096 div 1024) = None \<longrightarrow> vbyte (mem s') 16 a = vbyte fork_mem 7 a \<and> vbyte (mem s') 7 a = vbyte fork_mem 7 a"
    unfolding p(8) by blast
  have "vbyte (mem s') 16 0x403000 = Some 0x61" "vbyte (mem s') 7 0x403000 = Some 0x61" using s'(4) v by simp_all
  moreover have "mem s' (waddr 4338) = 0" "mem s' (waddr 4345) = 0x401001" using s'(3) [rule_format, of 7] s'(3) [rule_format, of 14] by (simp_all add: fork_mem_word)
  ultimately show ?thesis using s'(1,2) by blast
qed

end
