(* ===== verification/Spec2Isabelle.thy ===== *)
theory Spec2Isabelle
  imports System Mkfs Printk Keyboard Video Page_Tables User_Memory Boot Address_Space Game Shell App First_Process Fork_Clone
begin

text \<open>
  Verification of a small operating system for the i386: a boot loader, a kernel with paging, processes, semaphores and a file
  system, the host tools that make its disk image, and the user programs that come with it.

  \<^bold>\<open>The program and its parts.\<close>
  The boot loader (\<^verbatim>\<open>src/boot\<close>) reads the kernel, an ELF image, from the disk and jumps to it.  \<^verbatim>\<open>main\<close> of
  \<^verbatim>\<open>src/kernel/src/kernel.c\<close> initialises the page allocator, the descriptor tables and the devices, opens the file system, creates
  the idle process and the shell, and enters the scheduler.  From then on the kernel runs in interrupts only: \<^verbatim>\<open>irq_handle\<close> dispatches
  timer ticks, keys and system calls; a system call may block or end the process that made it, and \<^verbatim>\<open>do_scheduler\<close> picks the next one.
  User programs reach the kernel through the wrappers of \<^verbatim>\<open>src/lib/syscall.h\<close>.

  \<^bold>\<open>Conventions.\<close>
  Machine integers are words of their width.  The state of a component is a record that extends the record of the component below it
  (\<open>pagingst\<close>, \<open>procst\<close>, \<open>fsst\<close>, \<open>kernst\<close>), and an operation is a function from states to states that is polymorphic in the
  extension, so that a caller higher up uses it as it is.  The C code has no exceptions but undefined behaviour: null
  pointers, indices outside an array, unmapped pages, division by zero and loops without end.  Each is a value of \<open>fault\<close>, and
  an operation that can run into it returns \<open>fault + 'a\<close>.  The type \<open>ctl\<close> tells code that returns from code that has switched to another
  process.  Memory is a map from word addresses to words; kernel stacks, trap frames and page tables live there, while process
  descriptors, semaphores, streams and the buffers of the file system are records of their own.

  \<^bold>\<open>Theories and sources.\<close>
  \<^item> \<open>Prelude\<close>: word arithmetic, faults, results and control, the string instructions behind \<^verbatim>\<open>memset\<close> and \<^verbatim>\<open>memcpy\<close> (which
    count words), chains of array slots.
  \<^item> \<open>Paging\<close>, \<open>Page_Tables\<close>: \<^verbatim>\<open>pmap.c\<close>, \<^verbatim>\<open>entrypgdir.c\<close>.  Operations, and: the allocator refines a stack (locale
    \<open>page_stack\<close>), \<open>page_insert\<close> makes the hardware walk find the frame, \<open>page_init\<close> builds the kernel's address space.
  \<^item> \<open>Process\<close>, \<open>Queues\<close>: \<^verbatim>\<open>process.c\<close>.  The pointer-linked lists implement lists of processes (locale \<open>queue_ops\<close>).
  \<^item> \<open>Scheduler\<close>, \<open>Semaphores\<close>, \<open>System\<close>: \<^verbatim>\<open>scheduler.c\<close>, \<^verbatim>\<open>timer.c\<close>, \<^verbatim>\<open>semaphore.c\<close>.  Every operation against the
    queues as lists: waking, sleeping, joining, turns, waiting and posting; the invariant \<open>kernel_ok\<close> is kept by any sequence of admissible
    events (the idle process never blocks, counts start at zero or above and stay below the largest integer, indices are in range), and none of them faults.
  \<^item> \<open>Sched_Frame\<close>: what these operations leave alone.  The property is about the events of processes only: a semaphore call writes through a pointer of its caller.
  \<^item> \<open>File_System\<close>, \<open>Files\<close>, \<open>File_Frame\<close>, \<open>Blocks\<close>, \<open>File_Ops\<close>: \<^verbatim>\<open>fs/file.c\<close> and \<^verbatim>\<open>inc/disk.h\<close>.  Sector formats as round trips
    (locale \<open>sector_codec\<close>), block allocation (locale \<open>block_alloc\<close>, and against the bitmap of the disk layout as far as the kernel follows it), reading and writing against the bytes of a file.
  \<^item> \<open>Mkfs\<close>: \<^verbatim>\<open>src/fmt\<close>.  The host tools interpret \<open>block_alloc\<close> too; what they write, the kernel reads.
  \<^item> \<open>Keyboard\<close>, \<open>Video\<close>, \<open>Descriptors\<close>, \<open>Printk\<close>, \<open>Clib\<close>: \<^verbatim>\<open>keyboard.c\<close>, \<^verbatim>\<open>video.c\<close>, \<^verbatim>\<open>kvm.c\<close>, \<^verbatim>\<open>idt.c\<close> and
    the device headers, \<^verbatim>\<open>printk.c\<close>, \<^verbatim>\<open>common.h\<close>.  The line editor implements an editor of lists, a frame on the screen shows its picture,
    gates and segments are what the processor needs, formatted numbers denote their argument, \<^verbatim>\<open>memmove\<close> copies at once.
  \<^item> \<open>User_Memory\<close>, \<open>Elf\<close>, \<open>Loader\<close>, \<open>Loader_Frame\<close>: \<^verbatim>\<open>loader.c\<close> through the page tables of the process, and what it leaves alone.
  \<^item> \<open>Image\<close>, \<open>Load_Program\<close>: the bytes a process sees through its page tables, and \<^verbatim>\<open>loader_file\<close> against them: for an executable that fits, every
    segment is in the memory of the process, the stack is mapped and the trap frame starts the program at its entry point.  This is stated for an
    address space in which page 0 is not mapped yet; page 0, where the loader keeps the ELF header, is in the table of the screen, which all directories share.
  \<^item> \<open>Fork\<close>, \<open>Clone\<close>, \<open>Fork_Clone\<close>: \<^verbatim>\<open>fork_current\<close>, \<^verbatim>\<open>copy_pcb\<close> and \<^verbatim>\<open>copy_pgdir\<close>.  What they leave alone, the copy of a table and of a
    directory entry by entry, and the fork of a user process: parent and child see the same bytes in frames of their own, and their trap frames differ in the
    result only.  As for \<open>mm_alloc\<close>, the free list is the one of \<^verbatim>\<open>page_init\<close>: \<^verbatim>\<open>memcpy\<close> with \<^verbatim>\<open>PGSIZE\<close> copies four pages, and the three behind are still free.
  \<^item> \<open>Boot\<close>: \<^verbatim>\<open>bootloader.c\<close>.  A bootable image ends up in memory segment by segment.
  \<^item> \<open>Syscall\<close>, \<open>Syscall_Lib\<close>: \<^verbatim>\<open>irq_handle.c\<close>, \<^verbatim>\<open>do_syscall.c\<close>, \<^verbatim>\<open>lib/syscall.h\<close>.  The real entry point runs the events of
    \<open>System\<close>, so that their safety carries over; library and kernel agree on numbers and registers.
  \<^item> \<open>Kernel_Start\<close>: \<^verbatim>\<open>kernel.c\<close>.  Two processes are created, and the start establishes the invariant that the interrupts keep.
  \<^item> \<open>First_Process\<close>: the whole start.  With a readable \<^verbatim>\<open>test.txt\<close> and a shell that fits, \<^verbatim>\<open>main\<close> ends in the shell: its segments are in the memory of
    process 1, which runs from its entry point, in a state that satisfies the invariant.
  \<^item> \<open>Address_Space\<close>: a directory as a partial function from pages to frames; \<open>mm_alloc\<close> extends it by a range of fresh frames, and the
    directory of a new process starts with the kernel's tables only.  It is stated for the free list as \<^verbatim>\<open>page_init\<close> leaves it and allocations
    take from it; \<^verbatim>\<open>page_alloc\<close> clears the three frames behind the one it returns, which is harmless only then.
  \<^item> \<open>Stage\<close>, \<open>Game\<close>: \<^verbatim>\<open>src/game\<close>.  The integer square root is exact, the hit loop ends, a round keeps player and monsters in bounds and
    leaves its frame loop, unless the tick counter is at the largest integer (then the loop variable overflows and the loop goes on).
  \<^item> \<open>Shell\<close>: \<^verbatim>\<open>src/cshell\<close>.  The parser splits a line into words, \<^verbatim>\<open>echo\<close> and \<^verbatim>\<open>cat\<close> print what they should.
  \<^item> \<open>App\<close>: \<^verbatim>\<open>src/app\<close>.  The program prints the file it reads; after its fork parent and child, which share the file offset, write their text one behind
    the other, whoever runs first.

  \<^bold>\<open>Loops.\<close>
  Loops with a bound are primitive recursion on the number of iterations left; loops that end for another reason have a termination
  proof (\<open>do_scheduler\<close>, \<open>read_blocks\<close>, \<open>parse_loop\<close>, \<open>spin\<close>, \<open>hit_all\<close> by a theorem).  Walks over linked lists, the zeroing of segments, reading a
  string of a process, \<^verbatim>\<open>cat\<close> and the frame loop of the game may run forever on bad data; they are partial functions, and the theorems about them show that they return.
  No fuel is used.

  \<^bold>\<open>Not modelled.\<close>
  The assembly of \<^verbatim>\<open>mbr.S\<close>, \<^verbatim>\<open>entry.S\<close> and \<^verbatim>\<open>do_irq.S\<close>: the model starts where \<^verbatim>\<open>bootmain\<close> is called, and represents what the stubs push
  by the trap frame.  The processor is modelled as far as the C code depends on it: paging, string instructions, ports as logs.  The inline
  functions of \<^verbatim>\<open>x86.h\<close> and the macros of \<^verbatim>\<open>mmu.h\<close> and \<^verbatim>\<open>memlayout.h\<close> that nothing calls are left out, as is the part
  of \<^verbatim>\<open>src/app/src/main.c\<close> that is commented out.  The diagnostic messages of \<^verbatim>\<open>PADDR\<close>, \<^verbatim>\<open>KADDR\<close> and \<^verbatim>\<open>pa2page\<close> on invalid addresses are not
  printed in the model; their results are the same.

  The record parts of the state (process descriptors, semaphores, streams, buffers of the file system) are outside of the memory map.  Where they are in memory
  is represented by their addresses only (\<open>PCBPool_addr\<close>, \<open>tfPool_addr\<close>, \<open>sems_addr\<close>); that a write through a pointer hits one of them, or that one of them
  overlaps other memory, is not represented.  This concerns two places of the program.  A semaphore call takes an address of the caller, so that the
  kernel writes into the memory of the process; in the model the semaphore at an address is an entry of the map \<open>sems\<close>.  And \<^verbatim>\<open>page_init\<close> frees all frames from 1024
  on, although the pool of 1000 process descriptors, 9.3 MB of static storage, reaches into them (\<open>pool_in_free_frames\<close> in \<open>Kernel_Start\<close>).
\<close>

end
